(* ===== verification/Muta_Prelude.thy ===== *)
theory Muta_Prelude
  imports Main "HOL-Library.Word" "HOL-Library.AList" "HOL-Library.List_Lexorder"
begin

text \<open>
  The shared vocabulary of the development: machine integers and byte strings, results of fallible
  Rust code (an error value or a panic), the standard library's hash map as an association list,
  the overflow-reporting integer operations of \<^verbatim>\<open>core::num\<close>, and the generic lemmas on lists,
  results, maps and words that the component theories use.

  Rust's plain \<^verbatim>\<open>+\<close>, \<^verbatim>\<open>-\<close> on \<^verbatim>\<open>u64\<close> are the wrapping word operations: no manifest of the workspace
  turns overflow checks on, so this is what a release build computes.
\<close>

named_theorems result_simps \<open>evaluation of the result combinators\<close>
named_theorems map_simps \<open>lookup in updated hash maps\<close>
named_theorems word_arith \<open>unsigned words read as natural numbers\<close>

section \<open>Machine integers and byte strings\<close>

type_synonym u8 = "8 word"
type_synonym u32 = "32 word"
type_synonym u64 = "64 word"
type_synonym bytes = "u8 list"

abbreviation u64_max :: u64 where "u64_max \<equiv> - 1"

text \<open>The bytes of a Rust string: the model's strings are lists of 8-bit characters.\<close>

definition str_bytes :: "string \<Rightarrow> bytes" where
  "str_bytes s = map (\<lambda>c. of_nat (of_char c)) s"

text \<open>\<^verbatim>\<open>to_le_bytes\<close> and \<^verbatim>\<open>to_be_bytes\<close> of the standard library's unsigned integers.\<close>

fun le_bytes :: "nat \<Rightarrow> u64 \<Rightarrow> bytes" where
  "le_bytes 0 w = []"
| "le_bytes (Suc n) w = ucast w # le_bytes n (drop_bit 8 w)"

definition to_le_bytes :: "u64 \<Rightarrow> bytes" where
  "to_le_bytes w = le_bytes 8 w"

definition to_be_bytes :: "u64 \<Rightarrow> bytes" where
  "to_be_bytes w = rev (to_le_bytes w)"

text \<open>The \<^verbatim>\<open>overflowing_*\<close> operations: the wrapped result and whether it wrapped.\<close>

definition overflowing_add :: "'a::len word \<Rightarrow> 'a word \<Rightarrow> 'a word \<times> bool" where
  "overflowing_add a b = (a + b, unat a + unat b \<ge> 2 ^ LENGTH('a))"

definition overflowing_sub :: "'a::len word \<Rightarrow> 'a word \<Rightarrow> 'a word \<times> bool" where
  "overflowing_sub a b = (a - b, a < b)"

definition overflowing_mul :: "'a::len word \<Rightarrow> 'a word \<Rightarrow> 'a word \<times> bool" where
  "overflowing_mul a b = (a * b, unat a * unat b \<ge> 2 ^ LENGTH('a))"

definition overflowing_pow :: "'a::len word \<Rightarrow> nat \<Rightarrow> 'a word \<times> bool" where
  "overflowing_pow a n = (a ^ n, unat a ^ n \<ge> 2 ^ LENGTH('a))"

definition checked_add :: "'a::len word \<Rightarrow> 'a word \<Rightarrow> 'a word option" where
  "checked_add a b = (if unat a + unat b \<ge> 2 ^ LENGTH('a) then None else Some (a + b))"

section \<open>Results\<close>

text \<open>
  A call either returns \<^verbatim>\<open>Ok\<close>, returns \<^verbatim>\<open>Err\<close>, or panics (an \<^verbatim>\<open>unwrap\<close>, \<^verbatim>\<open>expect\<close> or explicit
  \<^verbatim>\<open>panic!\<close>).
\<close>

datatype 'e failure = Err 'e | Panic

type_synonym ('e, 'a) result = "'e failure + 'a"

definition res_bind :: "'e + 'a \<Rightarrow> ('a \<Rightarrow> 'e + 'b) \<Rightarrow> 'e + 'b" where
  "res_bind m f = (case m of Inl e \<Rightarrow> Inl e | Inr a \<Rightarrow> f a)"

definition res_map :: "('a \<Rightarrow> 'b) \<Rightarrow> 'e + 'a \<Rightarrow> 'e + 'b" where
  "res_map f m = (case m of Inl e \<Rightarrow> Inl e | Inr a \<Rightarrow> Inr (f a))"

fun res_collect :: "('a \<Rightarrow> 'e + 'b) \<Rightarrow> 'a list \<Rightarrow> 'e + 'b list" where
  "res_collect f [] = Inr []"
| "res_collect f (x # xs) =
     (case f x of
        Inl e \<Rightarrow> Inl e
      | Inr y \<Rightarrow> (case res_collect f xs of Inl e \<Rightarrow> Inl e | Inr ys \<Rightarrow> Inr (y # ys)))"

fun res_fold :: "('a \<Rightarrow> 's \<Rightarrow> 'e + 's) \<Rightarrow> 'a list \<Rightarrow> 's \<Rightarrow> 'e + 's" where
  "res_fold f [] s = Inr s"
| "res_fold f (x # xs) s = (case f x s of Inl e \<Rightarrow> Inl e | Inr s' \<Rightarrow> res_fold f xs s')"

text \<open>\<^verbatim>\<open>Option::ok_or\<close> and \<^verbatim>\<open>unwrap\<close>/\<^verbatim>\<open>expect\<close>.\<close>

definition ok_or :: "'e \<Rightarrow> 'a option \<Rightarrow> ('e, 'a) result" where
  "ok_or e m = (case m of None \<Rightarrow> Inl (Err e) | Some a \<Rightarrow> Inr a)"

definition expect :: "'a option \<Rightarrow> ('e, 'a) result" where
  "expect m = (case m of None \<Rightarrow> Inl Panic | Some a \<Rightarrow> Inr a)"

definition is_ok :: "'e + 'a \<Rightarrow> bool" where
  "is_ok m = (case m of Inl _ \<Rightarrow> False | Inr _ \<Rightarrow> True)"

section \<open>Hash maps\<close>

text \<open>
  \<^verbatim>\<open>HashMap\<close>, \<^verbatim>\<open>BTreeMap\<close>: an association list read through \<^const>\<open>map_of\<close>. Its order is one order in
  which the code may visit the entries.
\<close>

type_synonym ('k, 'v) hash_map = "('k \<times> 'v) list"

abbreviation hm_get :: "('k, 'v) hash_map \<Rightarrow> 'k \<Rightarrow> 'v option" where
  "hm_get m k \<equiv> map_of m k"

abbreviation hm_insert :: "'k \<Rightarrow> 'v \<Rightarrow> ('k, 'v) hash_map \<Rightarrow> ('k, 'v) hash_map" where
  "hm_insert k v m \<equiv> AList.update k v m"

abbreviation hm_remove :: "'k \<Rightarrow> ('k, 'v) hash_map \<Rightarrow> ('k, 'v) hash_map" where
  "hm_remove k m \<equiv> AList.delete k m"

definition hm_contains :: "('k, 'v) hash_map \<Rightarrow> 'k \<Rightarrow> bool" where
  "hm_contains m k = (map_of m k \<noteq> None)"

definition hm_keys :: "('k, 'v) hash_map \<Rightarrow> 'k list" where
  "hm_keys m = map fst m"

abbreviation hm_wf :: "('k, 'v) hash_map \<Rightarrow> bool" where
  "hm_wf m \<equiv> distinct (map fst m)"

section \<open>Generic lemmas\<close>

lemma res_bind_simps [simp, result_simps]:
  "res_bind (Inl e) f = Inl e"
  "res_bind (Inr a) f = f a"
  by (simp_all add: res_bind_def)

lemma res_bind_Inr_iff:
  "res_bind m f = Inr b \<longleftrightarrow> (\<exists>a. m = Inr a \<and> f a = Inr b)"
  by (cases m) simp_all

lemma res_bind_Inl_iff:
  "res_bind m f = Inl e \<longleftrightarrow> m = Inl e \<or> (\<exists>a. m = Inr a \<and> f a = Inl e)"
  by (cases m) simp_all

lemma res_bind_assoc: "res_bind (res_bind m f) g = res_bind m (\<lambda>x. res_bind (f x) g)"
  by (cases m) simp_all

lemma res_map_simps [simp, result_simps]:
  "res_map f (Inl e) = Inl e"
  "res_map f (Inr a) = Inr (f a)"
  by (simp_all add: res_map_def)

lemma res_map_Inr_iff: "res_map f m = Inr b \<longleftrightarrow> (\<exists>a. m = Inr a \<and> b = f a)"
  by (cases m) auto

lemma ok_or_simps [simp, result_simps]:
  "ok_or e None = Inl (Err e)"
  "ok_or e (Some a) = Inr a"
  by (simp_all add: ok_or_def)

lemma expect_simps [simp, result_simps]:
  "expect None = Inl Panic"
  "expect (Some a) = Inr a"
  by (simp_all add: expect_def)

lemma is_ok_simps [simp, result_simps]: "\<not> is_ok (Inl e)" "is_ok (Inr a)"
  by (simp_all add: is_ok_def)

lemma res_collect_length: "res_collect f xs = Inr ys \<Longrightarrow> length ys = length xs"
  by (induction xs arbitrary: ys) (auto split: sum.splits)

lemma res_collect_total:
  assumes "\<And>x. x \<in> set xs \<Longrightarrow> f x = Inr (g x)"
  shows "res_collect f xs = Inr (map g xs)"
  using assms by (induction xs) auto

lemma res_collect_nth:
  assumes "res_collect f xs = Inr ys" "i < length xs"
  shows "f (xs ! i) = Inr (ys ! i)"
  using assms
proof (induction xs arbitrary: ys i)
  case (Cons x xs)
  then show ?case by (cases i) (auto split: sum.splits)
qed simp

lemma res_fold_append:
  "res_fold f (xs @ ys) s = res_bind (res_fold f xs s) (res_fold f ys)"
  by (induction xs arbitrary: s) (auto split: sum.splits)

lemma res_fold_invariant:
  assumes "res_fold f xs s = Inr s'" "P s"
    and "\<And>x t t'. x \<in> set xs \<Longrightarrow> P t \<Longrightarrow> f x t = Inr t' \<Longrightarrow> P t'"
  shows "P s'"
  using assms
proof (induction xs arbitrary: s)
  case (Cons x xs)
  from Cons.prems(1) obtain t where t: "f x s = Inr t" "res_fold f xs t = Inr s'"
    by (auto split: sum.splits)
  then have "P t" using Cons.prems(2,3) by (meson list.set_intros(1))
  then show ?case using Cons.IH [OF t(2)] Cons.prems(3) by (meson list.set_intros(2))
qed simp

lemma hm_get_insert [simp, map_simps]:
  "hm_get (hm_insert k v m) k' = (if k' = k then Some v else hm_get m k')"
  by (simp add: update_conv')

lemma hm_get_remove [simp, map_simps]:
  "hm_get (hm_remove k m) k' = (if k' = k then None else hm_get m k')"
  by (simp add: delete_conv')

lemma hm_wf_insert [simp, intro]: "hm_wf m \<Longrightarrow> hm_wf (hm_insert k v m)"
  by (rule distinct_update)

lemma hm_wf_remove [simp, intro]: "hm_wf m \<Longrightarrow> hm_wf (hm_remove k m)"
  by (rule distinct_delete)

lemma hm_contains_insert [simp, map_simps]:
  "hm_contains (hm_insert k v m) k' \<longleftrightarrow> k' = k \<or> hm_contains m k'"
  by (simp add: hm_contains_def)

lemma hm_contains_remove [simp, map_simps]:
  "hm_contains (hm_remove k m) k' \<longleftrightarrow> k' \<noteq> k \<and> hm_contains m k'"
  by (simp add: hm_contains_def)

lemma hm_contains_empty [simp, map_simps]: "\<not> hm_contains [] k"
  by (simp add: hm_contains_def)

lemma hm_contains_iff: "hm_contains m k \<longleftrightarrow> k \<in> fst ` set m"
  unfolding hm_contains_def by (auto simp: map_of_eq_None_iff)

text \<open>Writing one entry of a hash map changes a sum over the entries by the difference at that key.\<close>

lemma sum_list_hm_insert:
  fixes f :: "'k \<times> 'v \<Rightarrow> nat"
  shows "sum_list (map f (hm_insert k v m)) + (case hm_get m k of None \<Rightarrow> 0 | Some w \<Rightarrow> f (k, w))
         = sum_list (map f m) + f (k, v)"
  by (induction m) (auto split: option.splits)

lemma hm_keys_insert: "fst ` set (hm_insert k v m) = insert k (fst ` set m)"
  by (induction m) auto

lemma hm_keys_remove: "fst ` set (hm_remove k m) = fst ` set m - {k}"
  by (induction m) auto

lemma length_le_bytes [simp]: "length (le_bytes n w) = n"
  by (induction n arbitrary: w) simp_all

lemma length_to_le_bytes [simp]: "length (to_le_bytes w) = 8"
  by (simp add: to_le_bytes_def)

lemma length_to_be_bytes [simp]: "length (to_be_bytes w) = 8"
  by (simp add: to_be_bytes_def)

subsection \<open>Words as numbers\<close>

lemma unat_add_exact [word_arith]:
  fixes a b :: "'a::len word"
  assumes "unat a + unat b < 2 ^ LENGTH('a)"
  shows "unat (a + b) = unat a + unat b"
  using assms by (simp add: unat_word_ariths)

lemma unat_sub_exact [word_arith]:
  fixes a b :: "'a::len word"
  assumes "b \<le> a"
  shows "unat (a - b) = unat a - unat b"
  using assms by (simp add: unat_sub)

lemma unat_mul_exact [word_arith]:
  fixes a b :: "'a::len word"
  assumes "unat a * unat b < 2 ^ LENGTH('a)"
  shows "unat (a * b) = unat a * unat b"
  using assms by (simp add: unat_word_ariths)

lemma unat_pow_exact [word_arith]:
  fixes a :: "'a::len word"
  assumes "unat a ^ n < 2 ^ LENGTH('a)"
  shows "unat (a ^ n) = unat a ^ n"
proof -
  have "unat (word_of_nat (unat a ^ n) :: 'a word) = unat a ^ n"
    using assms by (simp only: unat_of_nat mod_less)
  then show ?thesis by simp
qed

lemma word_less_unat: "(a :: 'a::len word) < b \<longleftrightarrow> unat a < unat b"
  by (simp add: word_less_nat_alt)

lemma word_le_unat: "(a :: 'a::len word) \<le> b \<longleftrightarrow> unat a \<le> unat b"
  by (simp add: word_le_nat_alt)

lemma overflowing_add_exact:
  fixes a b :: "'a::len word"
  shows "overflowing_add a b = (s, False) \<longleftrightarrow> unat s = unat a + unat b"
proof
  assume "unat s = unat a + unat b"
  then have lt: "unat a + unat b < 2 ^ LENGTH('a)"
    using unsigned_less [where ?'a = nat, of s] by simp
  then have "s = a + b"
    using \<open>unat s = unat a + unat b\<close> by (simp add: unat_add_exact word_unat_eq_iff)
  then show "overflowing_add a b = (s, False)"
    using lt by (simp add: overflowing_add_def)
qed (auto simp: overflowing_add_def unat_add_exact)

lemma overflowing_sub_exact:
  fixes a b :: "'a::len word"
  shows "overflowing_sub a b = (s, False) \<longleftrightarrow> unat s + unat b = unat a"
proof
  assume eq: "unat s + unat b = unat a"
  then have le: "b \<le> a" by (simp add: word_le_unat)
  then have "unat (a - b) = unat s" using eq by (simp add: unat_sub_exact)
  then show "overflowing_sub a b = (s, False)"
    using le by (simp add: overflowing_sub_def word_unat_eq_iff not_less)
qed (auto simp: overflowing_sub_def unat_sub_exact word_le_unat word_less_unat)

end
