(* ===== verification/Muta_Types.thy ===== *)
theory Muta_Types
  imports Muta_Prelude
begin

text \<open>
  The data types of \<^verbatim>\<open>protocol/src/types\<close> and \<^verbatim>\<open>protocol/src/traits/executor.rs\<close>: hashes, addresses
  and hex strings with their constructors, transactions, receipts, blocks and proofs, the metadata
  of the chain, the service context with its cycle meter and event list, and service responses.

  The hash function, the hex and bech32 codecs and the secp256k1 key parser come from other
  packages: they are arguments (\<^verbatim>\<open>digest\<close>, \<^verbatim>\<open>hex_decode\<close>, \<^verbatim>\<open>hex_encode\<close>, \<^verbatim>\<open>bech32_decode\<close>,
  \<^verbatim>\<open>to_uncompressed\<close>) of the definitions that call them.
\<close>

section \<open>Hashes, addresses, hex strings\<close>

datatype hash = Hash (hash_bytes: bytes)

datatype address = Address (address_bytes: bytes)

datatype hex = Hex (hex_string: string)

datatype types_error =
    LengthMismatch nat nat
  | FromHex string
  | HexPrefix
  | InvalidAddress string
  | FromBech32 string
  | InvalidPublicKey

definition HASH_LEN :: nat where "HASH_LEN = 32"
definition ADDRESS_LEN :: nat where "ADDRESS_LEN = 20"

definition ensure_len :: "nat \<Rightarrow> nat \<Rightarrow> (types_error, unit) result" where
  "ensure_len real expected =
     (if real \<noteq> expected then Inl (Err (LengthMismatch expected real)) else Inr ())"

definition has_0x :: "string \<Rightarrow> bool" where
  "has_0x s \<longleftrightarrow> take 2 s = ''0x'' \<or> take 2 s = ''0X''"

definition clean_0x :: "string \<Rightarrow> (types_error, string) result" where
  "clean_0x s = (if has_0x s then Inr (drop 2 s) else Inl (Err HexPrefix))"

definition map_hex_err :: "string + bytes \<Rightarrow> (types_error, bytes) result" where
  "map_hex_err r = (case r of Inl e \<Rightarrow> Inl (Err (FromHex e)) | Inr b \<Rightarrow> Inr b)"

definition hash_from_bytes :: "bytes \<Rightarrow> (types_error, hash) result" where
  "hash_from_bytes b = res_bind (ensure_len (length b) HASH_LEN) (\<lambda>_. Inr (Hash b))"

definition hash_from_hex :: "(string \<Rightarrow> string + bytes) \<Rightarrow> string \<Rightarrow> (types_error, hash) result" where
  "hash_from_hex hex_decode s =
     res_bind (clean_0x s) (\<lambda>s. res_bind (map_hex_err (hex_decode s)) hash_from_bytes)"

definition hash_as_hex :: "(bytes \<Rightarrow> string) \<Rightarrow> hash \<Rightarrow> string" where
  "hash_as_hex hex_encode h = ''0x'' @ hex_encode (hash_bytes h)"

text \<open>\<^verbatim>\<open>Hash::digest\<close>: the hasher returns 32 bytes.\<close>

definition hash_digest :: "(bytes \<Rightarrow> bytes) \<Rightarrow> bytes \<Rightarrow> hash" where
  "hash_digest digest b = Hash (digest b)"

text \<open>\<^verbatim>\<open>rlp::NULL_RLP\<close> is the one-byte string \<^verbatim>\<open>0x80\<close>.\<close>

definition hash_from_empty :: "(bytes \<Rightarrow> bytes) \<Rightarrow> hash" where
  "hash_from_empty digest = Hash (digest [0x80])"

definition address_from_bytes :: "bytes \<Rightarrow> (types_error, address) result" where
  "address_from_bytes b = res_bind (ensure_len (length b) ADDRESS_LEN) (\<lambda>_. Inr (Address b))"

definition address_from_hash :: "hash \<Rightarrow> (types_error, address) result" where
  "address_from_hash h =
     res_bind (ensure_len (length (hash_bytes h)) HASH_LEN)
       (\<lambda>_. address_from_bytes (drop 12 (hash_bytes h)))"

definition address_from_hex :: "(string \<Rightarrow> string + bytes) \<Rightarrow> string \<Rightarrow> (types_error, address) result" where
  "address_from_hex hex_decode s =
     res_bind (clean_0x s) (\<lambda>s. res_bind (map_hex_err (hex_decode s)) address_from_bytes)"

text \<open>
  \<^verbatim>\<open>Address::from_pubkey_bytes\<close>; \<^verbatim>\<open>clen\<close> and \<^verbatim>\<open>ulen\<close> are the lengths the key type declares for its
  compressed and uncompressed form.
\<close>

definition address_from_pubkey_bytes ::
    "(bytes \<Rightarrow> bytes) \<Rightarrow> nat \<Rightarrow> nat \<Rightarrow> (bytes \<Rightarrow> bytes option) \<Rightarrow> bytes \<Rightarrow> (types_error, address) result" where
  "address_from_pubkey_bytes digest clen ulen to_uncompressed pk =
     (if length pk \<noteq> clen \<and> length pk \<noteq> ulen then Inl (Err InvalidPublicKey)
      else res_bind
        (if length pk = clen then
           res_map (\<lambda>u. hash_digest digest (drop 1 u)) (ok_or InvalidPublicKey (to_uncompressed pk))
         else Inr (hash_digest digest (drop 1 pk)))
        address_from_hash)"

text \<open>\<^verbatim>\<open>FromStr for Address\<close>: there is no length check on this path.\<close>

definition address_from_str ::
    "(string \<Rightarrow> string + string \<times> 'd) \<Rightarrow> ('d \<Rightarrow> string + bytes) \<Rightarrow> string \<Rightarrow> string
     \<Rightarrow> (types_error, address) result" where
  "address_from_str bech32_decode from_base32 address_hrp s =
     (case bech32_decode s of
        Inl e \<Rightarrow> Inl (Err (FromBech32 e))
      | Inr (hrp, data) \<Rightarrow>
          (if hrp \<noteq> address_hrp then Inl (Err (InvalidAddress s))
           else (case from_base32 data of
                   Inl e \<Rightarrow> Inl (Err (FromBech32 e))
                 | Inr b \<Rightarrow> Inr (Address b))))"

text \<open>\<^verbatim>\<open>Address::default\<close>, twenty zero bytes.\<close>

definition address_default :: address where
  "address_default = Address (replicate 20 0)"

definition hex_from_string :: "(string \<Rightarrow> string + bytes) \<Rightarrow> string \<Rightarrow> (types_error, hex) result" where
  "hex_from_string hex_decode s =
     (if \<not> has_0x s \<or> length s < 3 then Inl (Err HexPrefix)
      else res_bind (map_hex_err (hex_decode (drop 2 s))) (\<lambda>_. Inr (Hex s)))"

definition hex_as_string_trim0x :: "hex \<Rightarrow> string" where
  "hex_as_string_trim0x h = drop 2 (hex_string h)"

definition hex_decode_bytes :: "(string \<Rightarrow> string + bytes) \<Rightarrow> hex \<Rightarrow> (types_error, bytes) result" where
  "hex_decode_bytes hex_decode h =
     (case hex_decode (drop 2 (hex_string h)) of Inl _ \<Rightarrow> Inl Panic | Inr b \<Rightarrow> Inr b)"

definition hex_default :: "(string \<Rightarrow> string + bytes) \<Rightarrow> (types_error, hex) result" where
  "hex_default hex_decode =
     (case hex_from_string hex_decode ''0x1'' of Inl _ \<Rightarrow> Inl Panic | Inr h \<Rightarrow> Inr h)"

text \<open>\<^verbatim>\<open>#[derive(PartialOrd, Ord)]\<close> on \<^verbatim>\<open>Hash\<close> and \<^verbatim>\<open>Address\<close>: the lexicographic order of the bytes.\<close>

instantiation address :: linorder
begin

definition less_eq_address :: "address \<Rightarrow> address \<Rightarrow> bool" where
  "less_eq_address a b \<longleftrightarrow> address_bytes a \<le> address_bytes b"

definition less_address :: "address \<Rightarrow> address \<Rightarrow> bool" where
  "less_address a b \<longleftrightarrow> address_bytes a < address_bytes b"

instance
  by standard
    (auto simp: less_eq_address_def less_address_def address.expand intro: order_trans
       dest: antisym)

end

instantiation hash :: linorder
begin

definition less_eq_hash :: "hash \<Rightarrow> hash \<Rightarrow> bool" where
  "less_eq_hash a b \<longleftrightarrow> hash_bytes a \<le> hash_bytes b"

definition less_hash :: "hash \<Rightarrow> hash \<Rightarrow> bool" where
  "less_hash a b \<longleftrightarrow> hash_bytes a < hash_bytes b"

instance
  by standard
    (auto simp: less_eq_hash_def less_hash_def hash.expand intro: order_trans dest: antisym)

end

section \<open>Transactions, receipts, blocks\<close>

record transaction_request =
  req_method :: string
  req_service_name :: string
  req_payload :: string

record raw_transaction =
  raw_chain_id :: hash
  raw_cycles_price :: u64
  raw_cycles_limit :: u64
  raw_nonce :: hash
  raw_request :: transaction_request
  raw_timeout :: u64
  raw_sender :: address

record signed_transaction =
  stx_raw :: raw_transaction
  stx_tx_hash :: hash
  stx_pubkey :: bytes
  stx_signature :: bytes

datatype trust_feedback = Fatal string | Worse string | Bad string | Neutral | Good

record event =
  ev_service :: string
  ev_name :: string
  ev_data :: string

record 'a service_response =
  code :: u64
  succeed_data :: 'a
  error_message :: string

record receipt_response =
  rr_service_name :: string
  rr_method :: string
  rr_response :: "string service_response"

record receipt =
  rc_state_root :: hash
  rc_height :: u64
  rc_tx_hash :: hash
  rc_cycles_used :: u64
  rc_events :: "event list"
  rc_response :: receipt_response

record block_proof =
  pf_height :: u64
  pf_round :: u64
  pf_block_hash :: hash
  pf_signature :: bytes
  pf_bitmap :: bytes

record validator =
  va_pub_key :: bytes
  va_propose_weight :: u32
  va_vote_weight :: u32

record block_header =
  hdr_chain_id :: hash
  hdr_height :: u64
  hdr_exec_height :: u64
  hdr_prev_hash :: hash
  hdr_timestamp :: u64
  hdr_order_root :: hash
  hdr_order_signed_transactions_hash :: hash
  hdr_confirm_root :: "hash list"
  hdr_state_root :: hash
  hdr_receipt_root :: "hash list"
  hdr_cycles_used :: "u64 list"
  hdr_proposer :: address
  hdr_proof :: block_proof
  hdr_validator_version :: u64
  hdr_validators :: "validator list"

record block =
  blk_header :: block_header
  blk_ordered_tx_hashes :: "hash list"

record pill =
  pill_block :: block
  pill_propose_hashes :: "hash list"

record validator_extend =
  ve_bls_pub_key :: hex
  ve_pub_key :: hex
  ve_address :: address
  ve_propose_weight :: u32
  ve_vote_weight :: u32

record metadata =
  md_chain_id :: hash
  md_bech32_address_hrp :: string
  md_common_ref :: hex
  md_timeout_gap :: u64
  md_cycles_limit :: u64
  md_cycles_price :: u64
  md_interval :: u64
  md_verifier_list :: "validator_extend list"
  md_propose_ratio :: u64
  md_prevote_ratio :: u64
  md_precommit_ratio :: u64
  md_brake_ratio :: u64
  md_tx_num_limit :: u64
  md_max_tx_size :: u64

record executor_params =
  ep_state_root :: hash
  ep_height :: u64
  ep_timestamp :: u64
  ep_cycles_limit :: u64
  ep_proposer :: address

record executor_resp =
  er_receipts :: "receipt list"
  er_all_cycles_used :: u64
  er_state_root :: hash

section \<open>Service responses\<close>

text \<open>\<^verbatim>\<open>from_error\<close> fills the data with \<^verbatim>\<open>T::default()\<close>, passed here as the first argument.\<close>

definition from_error :: "'a \<Rightarrow> u64 \<Rightarrow> string \<Rightarrow> 'a service_response" where
  "from_error dflt c msg = \<lparr>code = c, succeed_data = dflt, error_message = msg\<rparr>"

definition from_succeed :: "'a \<Rightarrow> 'a service_response" where
  "from_succeed d = \<lparr>code = 0, succeed_data = d, error_message = ''''\<rparr>"

definition is_error :: "'a service_response \<Rightarrow> bool" where
  "is_error r \<longleftrightarrow> code r \<noteq> 0"

text \<open>\<^verbatim>\<open>format!("{:?}", e)\<close> of a string without control characters.\<close>

definition debug_string :: "string \<Rightarrow> string" where
  "debug_string s =
     CHR 0x22 # concat (map (\<lambda>c. if c = CHR 0x22 \<or> c = CHR 0x5C then [CHR 0x5C, c] else [c]) s) @ [CHR 0x22]"

section \<open>Service context\<close>

text \<open>
  The shared cells \<^verbatim>\<open>cycles_used\<close>, \<^verbatim>\<open>events\<close> and \<^verbatim>\<open>canceled\<close> are reference counted in the code, so
  that every clone of a context reads and writes the same cells: an operation takes the context and
  returns it updated.
\<close>

record service_context =
  ctx_tx_hash :: "hash option"
  ctx_nonce :: "hash option"
  ctx_cycles_limit :: u64
  ctx_cycles_price :: u64
  ctx_cycles_used :: u64
  ctx_caller :: address
  ctx_height :: u64
  ctx_service_name :: string
  ctx_service_method :: string
  ctx_service_payload :: string
  ctx_extra :: "bytes option"
  ctx_timestamp :: u64
  ctx_events :: "event list"
  ctx_canceled :: "string option"

definition with_context ::
    "service_context \<Rightarrow> bytes option \<Rightarrow> string \<Rightarrow> string \<Rightarrow> string \<Rightarrow> service_context" where
  "with_context ctx extra name method payload =
     ctx\<lparr>ctx_service_name := name, ctx_service_method := method,
         ctx_service_payload := payload, ctx_extra := extra\<rparr>"

definition sub_cycles :: "service_context \<Rightarrow> u64 \<Rightarrow> bool \<times> service_context" where
  "sub_cycles ctx cycles =
     (if ctx_cycles_used ctx + cycles \<le> ctx_cycles_limit ctx
      then (True, ctx\<lparr>ctx_cycles_used := ctx_cycles_used ctx + cycles\<rparr>)
      else (False, ctx))"

definition canceled :: "service_context \<Rightarrow> bool" where
  "canceled ctx \<longleftrightarrow> ctx_canceled ctx \<noteq> None"

definition cancel :: "service_context \<Rightarrow> string \<Rightarrow> service_context" where
  "cancel ctx reason = ctx\<lparr>ctx_canceled := Some reason\<rparr>"

definition emit_event :: "service_context \<Rightarrow> string \<Rightarrow> string \<Rightarrow> string \<Rightarrow> service_context" where
  "emit_event ctx service name message =
     ctx\<lparr>ctx_events := ctx_events ctx @ [\<lparr>ev_service = service, ev_name = name, ev_data = message\<rparr>]\<rparr>"

text \<open>
  The guard that the \<^verbatim>\<open>#[cycles(n)]\<close> attribute puts in front of a service method.
\<close>

definition with_cycles ::
    "u64 \<Rightarrow> 'a \<Rightarrow> (service_context \<Rightarrow> 's \<Rightarrow> 'a service_response \<times> service_context \<times> 's)
     \<Rightarrow> service_context \<Rightarrow> 's \<Rightarrow> 'a service_response \<times> service_context \<times> 's" where
  "with_cycles n dflt body ctx s =
     (case sub_cycles ctx n of
        (True, ctx') \<Rightarrow> body ctx' s
      | (False, ctx') \<Rightarrow> (from_error dflt 3 ''cycles macro consume cycles fialed: out of cycles'', ctx', s))"

text \<open>A context for concrete runs: a caller, a cycle limit, nothing used or emitted yet.\<close>

definition example_context :: "address \<Rightarrow> u64 \<Rightarrow> service_context" where
  "example_context caller limit =
     \<lparr>ctx_tx_hash = None, ctx_nonce = None, ctx_cycles_limit = limit, ctx_cycles_price = 1,
      ctx_cycles_used = 0, ctx_caller = caller, ctx_height = 1, ctx_service_name = '''',
      ctx_service_method = '''', ctx_service_payload = '''', ctx_extra = None, ctx_timestamp = 0,
      ctx_events = [], ctx_canceled = None\<rparr>"

section \<open>Lemmas\<close>

lemma is_error_simps [simp]:
  "is_error (from_error d c m) \<longleftrightarrow> c \<noteq> 0"
  "\<not> is_error (from_succeed x)"
  "code (from_error d c m) = c"
  "code (from_succeed x) = 0"
  "succeed_data (from_succeed x) = x"
  by (simp_all add: is_error_def from_error_def from_succeed_def)

lemma from_succeed_neq_error [simp]:
  "c \<noteq> 0 \<Longrightarrow> from_error d c m \<noteq> from_succeed x"
  by (simp add: from_error_def from_succeed_def)

lemma ensure_len_Inr [simp]: "ensure_len r e = Inr () \<longleftrightarrow> r = e"
  by (simp add: ensure_len_def)

lemma hash_from_bytes_Inr:
  "hash_from_bytes b = Inr h \<longleftrightarrow> h = Hash b \<and> length b = 32"
  by (auto simp: hash_from_bytes_def res_bind_Inr_iff HASH_LEN_def)

lemma address_from_bytes_Inr:
  "address_from_bytes b = Inr a \<longleftrightarrow> a = Address b \<and> length b = 20"
  by (auto simp: address_from_bytes_def res_bind_Inr_iff ADDRESS_LEN_def)

lemma address_from_hash_Inr:
  "address_from_hash h = Inr a \<longleftrightarrow> length (hash_bytes h) = 32 \<and> a = Address (drop 12 (hash_bytes h))"
  by (auto simp: address_from_hash_def res_bind_Inr_iff HASH_LEN_def address_from_bytes_Inr)

lemma clean_0x_prefix [simp]: "clean_0x (''0x'' @ s) = Inr s"
  by (simp add: clean_0x_def has_0x_def)

lemma sub_cycles_limit [simp]: "ctx_cycles_limit (snd (sub_cycles ctx n)) = ctx_cycles_limit ctx"
  by (simp add: sub_cycles_def)

lemma sub_cycles_events [simp]: "ctx_events (snd (sub_cycles ctx n)) = ctx_events ctx"
  by (simp add: sub_cycles_def)

lemma sub_cycles_caller [simp]: "ctx_caller (snd (sub_cycles ctx n)) = ctx_caller ctx"
  by (simp add: sub_cycles_def)

lemma with_cycles_eq:
  "with_cycles n d body ctx s =
     (if ctx_cycles_used ctx + n \<le> ctx_cycles_limit ctx
      then body (ctx\<lparr>ctx_cycles_used := ctx_cycles_used ctx + n\<rparr>) s
      else (from_error d 3 ''cycles macro consume cycles fialed: out of cycles'', ctx, s))"
  by (simp add: with_cycles_def sub_cycles_def)

lemma with_cycles_state:
  assumes "\<And>c. P (snd (snd (body c s)))" "P s"
  shows "P (snd (snd (with_cycles n d body ctx s)))"
  using assms by (simp add: with_cycles_def sub_cycles_def)

lemma example_context_simps [simp]:
  "ctx_caller (example_context a n) = a"
  "ctx_cycles_limit (example_context a n) = n"
  "ctx_cycles_used (example_context a n) = 0"
  "ctx_events (example_context a n) = []"
  by (simp_all add: example_context_def)

end
