(* ===== verification/Asset_Service.thy ===== *)
theory Asset_Service
  imports Muta_Types
begin

text \<open>
  The asset service, \<^verbatim>\<open>built-in-services/asset\<close>. Its state is what the service reads and writes
  through the SDK: the map \<^verbatim>\<open>assets\<close> from asset id to asset, and the account values, one
  \<^verbatim>\<open>AssetBalance\<close> for each pair of an address and an asset id. The JSON serialiser, the address
  printer and the hash function are the fields of \<^verbatim>\<open>asset_env\<close>.

  The lemmas show that the balances of an asset always sum to its supply, which every operation
  keeps on success and on every error; what each operation does to balances and allowances; and
  which branch answers with which error code.
\<close>

section \<open>Types\<close>

record create_asset_payload =
  cap_name :: string
  cap_symbol :: string
  cap_supply :: u64

record asset =
  as_id :: hash
  as_name :: string
  as_symbol :: string
  as_supply :: u64
  as_issuer :: address

record transfer_payload =
  tp_asset_id :: hash
  tp_to :: address
  tp_value :: u64

record transfer_from_payload =
  tfp_asset_id :: hash
  tfp_sender :: address
  tfp_recipient :: address
  tfp_value :: u64

record transfer_event =
  te_asset_id :: hash
  te_from :: address
  te_to :: address
  te_value :: u64

record approve_event =
  ae_asset_id :: hash
  ae_grantor :: address
  ae_grantee :: address
  ae_value :: u64

record transfer_from_event =
  tfe_asset_id :: hash
  tfe_caller :: address
  tfe_sender :: address
  tfe_recipient :: address
  tfe_value :: u64

record get_balance_response =
  gbr_asset_id :: hash
  gbr_user :: address
  gbr_balance :: u64

record get_allowance_response =
  gar_asset_id :: hash
  gar_grantor :: address
  gar_grantee :: address
  gar_value :: u64

record asset_balance =
  ab_value :: u64
  ab_allowance :: "(address, u64) hash_map"

record asset_state =
  assets :: "(hash, asset) hash_map"
  accounts :: "(address \<times> hash, asset_balance) hash_map"

text \<open>What the service calls in other packages; a serialiser answers with an error text or a string.\<close>

record asset_env =
  env_digest :: "bytes \<Rightarrow> bytes"
  env_addr_string :: "address \<Rightarrow> string"
  json_create :: "create_asset_payload \<Rightarrow> string + string"
  json_asset :: "asset \<Rightarrow> string + string"
  json_transfer :: "transfer_event \<Rightarrow> string + string"
  json_approve :: "approve_event \<Rightarrow> string + string"
  json_transfer_from :: "transfer_from_event \<Rightarrow> string + string"

section \<open>Operations\<close>

definition asset_default :: "asset_env \<Rightarrow> asset" where
  "asset_default env = \<lparr>as_id = hash_from_empty (env_digest env), as_name = '''', as_symbol = '''',
     as_supply = 0, as_issuer = address_default\<rparr>"

definition empty_balance :: asset_balance where
  "empty_balance = \<lparr>ab_value = 0, ab_allowance = []\<rparr>"

text \<open>\<^verbatim>\<open>get_account_value(..).unwrap_or(AssetBalance { value: 0, allowance: BTreeMap::new() })\<close>.\<close>

definition account_balance :: "asset_state \<Rightarrow> address \<Rightarrow> hash \<Rightarrow> asset_balance" where
  "account_balance s a aid =
     (case hm_get (accounts s) (a, aid) of None \<Rightarrow> empty_balance | Some b \<Rightarrow> b)"

definition set_account_value :: "address \<Rightarrow> hash \<Rightarrow> asset_balance \<Rightarrow> asset_state \<Rightarrow> asset_state" where
  "set_account_value a aid b s = s\<lparr>accounts := hm_insert (a, aid) b (accounts s)\<rparr>"

definition asset_init_genesis ::
    "hash \<Rightarrow> string \<Rightarrow> string \<Rightarrow> u64 \<Rightarrow> address \<Rightarrow> asset_state \<Rightarrow> asset_state" where
  "asset_init_genesis aid name symbol supply issuer s =
     (let a = \<lparr>as_id = aid, as_name = name, as_symbol = symbol, as_supply = supply, as_issuer = issuer\<rparr>;
          s = s\<lparr>assets := hm_insert aid a (assets s)\<rparr>
      in set_account_value issuer aid \<lparr>ab_value = supply, ab_allowance = []\<rparr> s)"

definition get_asset ::
    "asset_env \<Rightarrow> hash \<Rightarrow> service_context \<Rightarrow> asset_state
     \<Rightarrow> asset service_response \<times> service_context \<times> asset_state" where
  "get_asset env aid = with_cycles 10000 (asset_default env) (\<lambda>ctx s.
     (case hm_get (assets s) aid of
        Some a \<Rightarrow> (from_succeed a, ctx, s)
      | None \<Rightarrow> (from_error (asset_default env) 101 ''asset id not existed'', ctx, s)))"

definition get_balance ::
    "asset_env \<Rightarrow> hash \<Rightarrow> address \<Rightarrow> service_context \<Rightarrow> asset_state
     \<Rightarrow> get_balance_response service_response \<times> service_context \<times> asset_state" where
  "get_balance env aid user =
     (let dflt = \<lparr>gbr_asset_id = hash_from_empty (env_digest env), gbr_user = address_default,
                  gbr_balance = 0\<rparr>
      in with_cycles 10000 dflt (\<lambda>ctx s.
        if \<not> hm_contains (assets s) aid then (from_error dflt 101 ''asset id not existed'', ctx, s)
        else (from_succeed \<lparr>gbr_asset_id = aid, gbr_user = user,
                gbr_balance = ab_value (account_balance s user aid)\<rparr>, ctx, s)))"

definition get_allowance ::
    "asset_env \<Rightarrow> hash \<Rightarrow> address \<Rightarrow> address \<Rightarrow> service_context \<Rightarrow> asset_state
     \<Rightarrow> get_allowance_response service_response \<times> service_context \<times> asset_state" where
  "get_allowance env aid grantor grantee =
     (let dflt = \<lparr>gar_asset_id = hash_from_empty (env_digest env), gar_grantor = address_default,
                  gar_grantee = address_default, gar_value = 0\<rparr>
      in with_cycles 10000 dflt (\<lambda>ctx s.
        if \<not> hm_contains (assets s) aid then (from_error dflt 101 ''asset id not existed'', ctx, s)
        else (case hm_get (accounts s) (grantor, aid) of
            Some v \<Rightarrow>
              (from_succeed \<lparr>gar_asset_id = aid, gar_grantor = grantor, gar_grantee = grantee,
                 gar_value = (case hm_get (ab_allowance v) grantee of None \<Rightarrow> 0 | Some x \<Rightarrow> x)\<rparr>, ctx, s)
          | None \<Rightarrow>
              (from_succeed \<lparr>gar_asset_id = aid, gar_grantor = grantor, gar_grantee = grantee,
                 gar_value = 0\<rparr>, ctx, s))))"

definition create_asset ::
    "asset_env \<Rightarrow> create_asset_payload \<Rightarrow> service_context \<Rightarrow> asset_state
     \<Rightarrow> asset service_response \<times> service_context \<times> asset_state" where
  "create_asset env payload = with_cycles 21000 (asset_default env) (\<lambda>ctx s.
     let caller = ctx_caller ctx in
     case json_create env payload of
       Inl e \<Rightarrow> (from_error (asset_default env) 103 e, ctx, s)
     | Inr payload_str \<Rightarrow>
         (let aid = hash_digest (env_digest env) (str_bytes (payload_str @ env_addr_string env caller)) in
          if hm_contains (assets s) aid
          then (from_error (asset_default env) 102 ''asset id existed'', ctx, s)
          else
            (let a = \<lparr>as_id = aid, as_name = cap_name payload, as_symbol = cap_symbol payload,
                      as_supply = cap_supply payload, as_issuer = caller\<rparr>;
                 s = s\<lparr>assets := hm_insert aid a (assets s)\<rparr>;
                 s = set_account_value caller aid \<lparr>ab_value = cap_supply payload, ab_allowance = []\<rparr> s
             in case json_asset env a of
                  Inl e \<Rightarrow> (from_error (asset_default env) 103 e, ctx, s)
                | Inr event_str \<Rightarrow>
                    (from_succeed a, emit_event ctx ''asset'' ''CreateAsset'' event_str, s))))"

text \<open>
  \<^verbatim>\<open>_transfer\<close>. An error leaves the state as it is at that point: the last check comes after the
  recipient has been written.
\<close>

definition inner_transfer ::
    "address \<Rightarrow> address \<Rightarrow> hash \<Rightarrow> u64 \<Rightarrow> asset_state \<Rightarrow> (string + unit) \<times> asset_state" where
  "inner_transfer sender recipient aid value s =
     (if recipient = sender then (Inl ''cann't send value to yourself'', s)
      else
        (let sender_asset_balance = account_balance s sender aid;
             sender_balance = ab_value sender_asset_balance in
         if sender_balance < value then (Inl ''insufficient balance'', s)
         else
           (let to_asset_balance = account_balance s recipient aid;
                (v, overflow) = overflowing_add (ab_value to_asset_balance) value in
            if overflow then (Inl ''u64 overflow'', s)
            else
              (let s = set_account_value recipient aid (to_asset_balance\<lparr>ab_value := v\<rparr>) s;
                   (v, overflow) = overflowing_sub sender_balance value in
               if overflow then (Inl ''u64 overflow'', s)
               else (Inr (), set_account_value sender aid (sender_asset_balance\<lparr>ab_value := v\<rparr>) s)))))"

definition transfer ::
    "asset_env \<Rightarrow> transfer_payload \<Rightarrow> service_context \<Rightarrow> asset_state
     \<Rightarrow> unit service_response \<times> service_context \<times> asset_state" where
  "transfer env payload = with_cycles 21000 () (\<lambda>ctx s.
     let caller = ctx_caller ctx; aid = tp_asset_id payload; value = tp_value payload;
         to = tp_to payload in
     if \<not> hm_contains (assets s) aid then (from_error () 101 ''asset id not existed'', ctx, s)
     else case inner_transfer caller to aid value s of
       (Inl e, s) \<Rightarrow> (from_error () 106 (debug_string e), ctx, s)
     | (Inr _, s) \<Rightarrow>
         (case json_transfer env \<lparr>te_asset_id = aid, te_from = caller, te_to = to, te_value = value\<rparr> of
            Inl e \<Rightarrow> (from_error () 103 e, ctx, s)
          | Inr event_str \<Rightarrow> (from_succeed (), emit_event ctx ''asset'' ''TransferAsset'' event_str, s)))"

definition approve ::
    "asset_env \<Rightarrow> transfer_payload \<Rightarrow> service_context \<Rightarrow> asset_state
     \<Rightarrow> unit service_response \<times> service_context \<times> asset_state" where
  "approve env payload = with_cycles 21000 () (\<lambda>ctx s.
     let caller = ctx_caller ctx; aid = tp_asset_id payload; value = tp_value payload;
         to = tp_to payload in
     if caller = to then (from_error () 104 ''cann't approve to yourself'', ctx, s)
     else if \<not> hm_contains (assets s) aid then (from_error () 101 ''asset id not existed'', ctx, s)
     else
       (let b = account_balance s caller aid;
            b = b\<lparr>ab_allowance := hm_insert to value (ab_allowance b)\<rparr>;
            s = set_account_value caller aid b s in
        case json_approve env \<lparr>ae_asset_id = aid, ae_grantor = caller, ae_grantee = to, ae_value = value\<rparr> of
          Inl e \<Rightarrow> (from_error () 103 e, ctx, s)
        | Inr event_str \<Rightarrow> (from_succeed (), emit_event ctx ''asset'' ''ApproveAsset'' event_str, s)))"

definition transfer_from ::
    "asset_env \<Rightarrow> transfer_from_payload \<Rightarrow> service_context \<Rightarrow> asset_state
     \<Rightarrow> unit service_response \<times> service_context \<times> asset_state" where
  "transfer_from env payload = with_cycles 21000 () (\<lambda>ctx s.
     let caller = ctx_caller ctx; sender = tfp_sender payload; recipient = tfp_recipient payload;
         aid = tfp_asset_id payload; value = tfp_value payload in
     if \<not> hm_contains (assets s) aid then (from_error () 101 ''asset id not existed'', ctx, s)
     else
       (let b = account_balance s sender aid;
            sender_allowance = (case hm_get (ab_allowance b) caller of None \<Rightarrow> 0 | Some x \<Rightarrow> x) in
        if sender_allowance < value then (from_error () 105 ''insufficient balance'', ctx, s)
        else
          (let b = b\<lparr>ab_allowance := hm_insert caller (sender_allowance - value) (ab_allowance b)\<rparr>;
               s = set_account_value sender aid b s in
           case inner_transfer sender recipient aid value s of
             (Inl e, s) \<Rightarrow> (from_error () 106 (debug_string e), ctx, s)
           | (Inr _, s) \<Rightarrow>
               (case json_transfer_from env \<lparr>tfe_asset_id = aid, tfe_caller = caller, tfe_sender = sender,
                       tfe_recipient = recipient, tfe_value = value\<rparr> of
                  Inl e \<Rightarrow> (from_error () 103 e, ctx, s)
                | Inr event_str \<Rightarrow>
                    (from_succeed (), emit_event ctx ''asset'' ''TransferFrom'' event_str, s)))))"

section \<open>Specification\<close>

text \<open>Balances and allowances as numbers, and the sum of an asset's balances over all accounts.\<close>

definition balance :: "asset_state \<Rightarrow> address \<Rightarrow> hash \<Rightarrow> nat" where
  "balance s a aid = unat (ab_value (account_balance s a aid))"

definition allowance :: "asset_state \<Rightarrow> address \<Rightarrow> address \<Rightarrow> hash \<Rightarrow> nat" where
  "allowance s grantor grantee aid =
     (case hm_get (ab_allowance (account_balance s grantor aid)) grantee of None \<Rightarrow> 0 | Some x \<Rightarrow> unat x)"

definition holder_total :: "asset_state \<Rightarrow> hash \<Rightarrow> nat" where
  "holder_total s aid =
     sum_list (map (\<lambda>((a, i), b). if i = aid then unat (ab_value b) else 0) (accounts s))"

text \<open>
  The invariant: an account value belongs to an existing asset, an asset is stored under its id,
  and its balances sum to its supply.
\<close>

definition asset_inv :: "asset_state \<Rightarrow> bool" where
  "asset_inv s \<longleftrightarrow>
     (\<forall>k \<in> fst ` set (accounts s). hm_contains (assets s) (snd k)) \<and>
     (\<forall>aid \<in> fst ` set (assets s). \<exists>a. hm_get (assets s) aid = Some a \<and> as_id a = aid \<and>
        holder_total s aid = unat (as_supply a))"

text \<open>A call of one of the service's methods.\<close>

datatype asset_call =
    CreateAsset create_asset_payload
  | Transfer transfer_payload
  | Approve transfer_payload
  | TransferFrom transfer_from_payload
  | GetAsset hash
  | GetBalance hash address
  | GetAllowance hash address address

definition asset_call_state :: "asset_env \<Rightarrow> asset_call \<Rightarrow> service_context \<Rightarrow> asset_state \<Rightarrow> asset_state" where
  "asset_call_state env c ctx s =
     (case c of
        CreateAsset p \<Rightarrow> snd (snd (create_asset env p ctx s))
      | Transfer p \<Rightarrow> snd (snd (transfer env p ctx s))
      | Approve p \<Rightarrow> snd (snd (approve env p ctx s))
      | TransferFrom p \<Rightarrow> snd (snd (transfer_from env p ctx s))
      | GetAsset aid \<Rightarrow> snd (snd (get_asset env aid ctx s))
      | GetBalance aid u \<Rightarrow> snd (snd (get_balance env aid u ctx s))
      | GetAllowance aid g e \<Rightarrow> snd (snd (get_allowance env aid g e ctx s)))"

section \<open>Lemmas\<close>

lemma account_balance_set [simp]:
  "account_balance (set_account_value a aid b s) a' aid' =
     (if a' = a \<and> aid' = aid then b else account_balance s a' aid')"
  by (auto simp: account_balance_def set_account_value_def)

lemma assets_set_account [simp]: "assets (set_account_value a aid b s) = assets s"
  by (simp add: set_account_value_def)

lemma balance_set [simp]:
  "balance (set_account_value a aid b s) a' aid' =
     (if a' = a \<and> aid' = aid then unat (ab_value b) else balance s a' aid')"
  by (simp add: balance_def)

lemma holder_total_set:
  "holder_total (set_account_value a aid b s) aid' + (if aid' = aid then balance s a aid else 0) =
     holder_total s aid' + (if aid' = aid then unat (ab_value b) else 0)"
  using sum_list_hm_insert
    [of "\<lambda>((a, i), b). if i = aid' then unat (ab_value b) else 0" "(a, aid)" b "accounts s"]
  by (cases "hm_get (accounts s) (a, aid)")
    (auto simp: holder_total_def set_account_value_def balance_def account_balance_def
       empty_balance_def)

lemma holder_total_set_same:
  "unat (ab_value b) = balance s a aid \<Longrightarrow>
   holder_total (set_account_value a aid b s) aid' = holder_total s aid'"
  using holder_total_set [of a aid b s aid'] by (auto split: if_splits)

lemma asset_inv_keeps:
  assumes "asset_inv s" "assets s' = assets s"
    and "\<And>aid. holder_total s' aid = holder_total s aid"
    and "fst ` set (accounts s') \<subseteq> fst ` set (accounts s) \<union> {k. hm_contains (assets s) (snd k)}"
  shows "asset_inv s'"
  using assms unfolding asset_inv_def by (auto dest!: subsetD)

lemma accounts_set_keys:
  "fst ` set (accounts (set_account_value a aid b s)) = insert (a, aid) (fst ` set (accounts s))"
  by (simp add: set_account_value_def hm_keys_insert)

lemma asset_inv_set_same:
  assumes "asset_inv s" "hm_contains (assets s) aid" "unat (ab_value b) = balance s a aid"
  shows "asset_inv (set_account_value a aid b s)"
  using assms(1)
  by (rule asset_inv_keeps) (auto simp: accounts_set_keys holder_total_set_same assms)

text \<open>The second overflow check of \<^verbatim>\<open>_transfer\<close> never fires.\<close>

lemma inner_transfer_eq:
  "inner_transfer sender recipient aid value s =
     (if recipient = sender then (Inl ''cann't send value to yourself'', s)
      else if balance s sender aid < unat value then (Inl ''insufficient balance'', s)
      else if balance s recipient aid + unat value \<ge> 2 ^ 64 then (Inl ''u64 overflow'', s)
      else (Inr (), set_account_value sender aid
             ((account_balance s sender aid)\<lparr>ab_value := ab_value (account_balance s sender aid) - value\<rparr>)
             (set_account_value recipient aid
               ((account_balance s recipient aid)\<lparr>ab_value := ab_value (account_balance s recipient aid) + value\<rparr>)
               s)))"
  by (simp add: inner_transfer_def Let_def overflowing_add_def overflowing_sub_def balance_def
      word_less_unat)

lemma inner_transfer_error_state:
  "inner_transfer sender recipient aid value s = (Inl e, s') \<Longrightarrow> s' = s"
  by (auto simp: inner_transfer_eq split: if_splits)

lemma inner_transfer_ok:
  assumes "inner_transfer sender recipient aid value s = (Inr u, s')"
  shows "recipient \<noteq> sender" "unat value \<le> balance s sender aid"
    "balance s' sender aid = balance s sender aid - unat value"
    "balance s' recipient aid = balance s recipient aid + unat value"
    "\<And>a i. (a, i) \<noteq> (sender, aid) \<Longrightarrow> (a, i) \<noteq> (recipient, aid) \<Longrightarrow> balance s' a i = balance s a i"
    "\<And>g e i. allowance s' g e i = allowance s g e i"
    "assets s' = assets s"
  using assms
  by (auto simp: inner_transfer_eq balance_def allowance_def unat_sub_exact unat_add_exact
      word_le_unat not_less not_le split: if_splits)

lemma inner_transfer_ok_state:
  assumes "inner_transfer sender recipient aid value s = (Inr u, s')"
  obtains b c where
    "s' = set_account_value sender aid b (set_account_value recipient aid c s)"
    "unat (ab_value b) + unat value = balance s sender aid"
    "unat (ab_value c) = balance s recipient aid + unat value"
    "recipient \<noteq> sender"
  using assms
  by (auto simp: inner_transfer_eq balance_def unat_sub_exact unat_add_exact word_le_unat
      not_less not_le split: if_splits)

lemma inner_transfer_total:
  assumes "inner_transfer sender recipient aid value s = (Inr u, s')"
  shows "holder_total s' aid' = holder_total s aid'"
proof -
  obtain b c where s': "s' = set_account_value sender aid b (set_account_value recipient aid c s)"
    and b: "unat (ab_value b) + unat value = balance s sender aid"
    and c: "unat (ab_value c) = balance s recipient aid + unat value"
    and ne: "recipient \<noteq> sender"
    using assms by (rule inner_transfer_ok_state)
  have "balance (set_account_value recipient aid c s) sender aid = balance s sender aid"
    using ne by simp
  then show ?thesis
    using holder_total_set [of sender aid b "set_account_value recipient aid c s" aid']
      holder_total_set [of recipient aid c s aid'] b c
    by (simp add: s' split: if_splits)
qed

lemma inner_transfer_inv:
  assumes "asset_inv s" "hm_contains (assets s) aid"
  shows "asset_inv (snd (inner_transfer sender recipient aid value s))"
proof (cases "inner_transfer sender recipient aid value s")
  case (Pair r s')
  show ?thesis
  proof (cases r)
    case (Inl e)
    then show ?thesis using inner_transfer_error_state Pair assms by fastforce
  next
    case (Inr u)
    then have t: "inner_transfer sender recipient aid value s = (Inr u, s')" using Pair by simp
    have "asset_inv s'"
      using assms(1) inner_transfer_ok(7) [OF t] inner_transfer_total [OF t]
    proof (rule asset_inv_keeps)
      show "fst ` set (accounts s') \<subseteq> fst ` set (accounts s) \<union> {k. hm_contains (assets s) (snd k)}"
        using assms(2) by (rule_tac inner_transfer_ok_state [OF t]) (auto simp add: accounts_set_keys)
    qed
    then show ?thesis by (simp add: Pair)
  qed
qed

lemma new_asset_inv:
  assumes inv: "asset_inv s" and fresh: "\<not> hm_contains (assets s) aid"
    and a: "as_id a = aid" "as_supply a = ab_value b"
  shows "asset_inv (set_account_value c aid b (s\<lparr>assets := hm_insert aid a (assets s)\<rparr>))"
    (is "asset_inv ?new")
proof -
  let ?s = "s\<lparr>assets := hm_insert aid a (assets s)\<rparr>"
  have none: "hm_get (accounts s) (d, aid) = None" for d
    using inv fresh unfolding asset_inv_def by (force simp: map_of_eq_None_iff)
  have hs: "holder_total ?s i = holder_total s i" for i
    by (simp add: holder_total_def)
  have zero: "(if snd (fst e) = aid then unat (ab_value (snd e)) else 0) = 0" if "e \<in> set (accounts s)" for e
    using inv fresh that unfolding asset_inv_def by auto
  have "holder_total s aid = 0"
    unfolding holder_total_def using zero by (fastforce simp: sum_list_eq_0_iff)
  moreover have "balance ?s c aid = 0"
    using none by (simp add: balance_def account_balance_def empty_balance_def)
  ultimately have t: "holder_total ?new aid = unat (as_supply a)"
    using holder_total_set [of c aid b ?s aid] a by (simp add: hs)
  have o: "holder_total ?new i = holder_total s i" if "i \<noteq> aid" for i
    using holder_total_set [of c aid b ?s i] that by (simp add: hs)
  have "fst ` set (accounts ?new) = insert (c, aid) (fst ` set (accounts s))"
    by (simp add: accounts_set_keys)
  then show ?thesis
    using inv a t o unfolding asset_inv_def by (auto simp: hm_keys_insert)
qed

lemma create_asset_inv: "asset_inv s \<Longrightarrow> asset_inv (snd (snd (create_asset env p ctx s)))"
  unfolding create_asset_def
  by (rule with_cycles_state) (auto simp: Let_def new_asset_inv split: sum.split)

lemma inner_transfer_inv':
  "inner_transfer a b aid v s = (r, s') \<Longrightarrow> asset_inv s \<Longrightarrow> hm_contains (assets s) aid \<Longrightarrow> asset_inv s'"
  using inner_transfer_inv [of s aid a b v] by simp

lemma transfer_inv: "asset_inv s \<Longrightarrow> asset_inv (snd (snd (transfer env p ctx s)))"
  unfolding transfer_def
  by (rule with_cycles_state)
    (auto simp: Let_def intro: inner_transfer_inv' split: sum.split prod.split)

lemma approve_inv: "asset_inv s \<Longrightarrow> asset_inv (snd (snd (approve env p ctx s)))"
  unfolding approve_def
  by (rule with_cycles_state)
    (auto simp: Let_def balance_def intro!: asset_inv_set_same split: sum.split)

lemma debited_transfer_inv:
  assumes "inner_transfer a b aid v
      (set_account_value g aid ((account_balance s g aid)\<lparr>ab_allowance := al\<rparr>) s) = (r, s')"
    and "asset_inv s" "hm_contains (assets s) aid"
  shows "asset_inv s'"
  using assms(1)
proof (rule inner_transfer_inv')
  show "asset_inv (set_account_value g aid ((account_balance s g aid)\<lparr>ab_allowance := al\<rparr>) s)"
    using assms(2,3) by (rule asset_inv_set_same) (simp add: balance_def)
qed (use assms(3) in simp)

lemma transfer_from_inv: "asset_inv s \<Longrightarrow> asset_inv (snd (snd (transfer_from env p ctx s)))"
  unfolding transfer_from_def
  by (rule with_cycles_state)
    (auto simp: Let_def intro: debited_transfer_inv split: sum.split prod.split)

lemma asset_reads_state [simp]:
  "snd (snd (get_asset env aid ctx s)) = s"
  "snd (snd (get_balance env aid u ctx s)) = s"
  "snd (snd (get_allowance env aid g e ctx s)) = s"
  by (simp_all add: get_asset_def get_balance_def get_allowance_def with_cycles_def sub_cycles_def
      Let_def split: option.split)

lemma asset_call_inv: "asset_inv s \<Longrightarrow> asset_inv (asset_call_state env c ctx s)"
  by (cases c)
    (simp_all add: asset_call_state_def create_asset_inv transfer_inv approve_inv transfer_from_inv)

lemma genesis_asset_inv:
  "asset_inv (asset_init_genesis aid name symbol supply issuer \<lparr>assets = [], accounts = []\<rparr>)"
  by (simp add: asset_inv_def asset_init_genesis_def set_account_value_def holder_total_def
      hm_contains_def)

section \<open>Properties\<close>

text \<open>
  (C1) Supply conservation. Start the asset service from the genesis asset and run any sequence of
  calls of its methods, each with any context and any payload, whether they succeed or fail: every
  account value belongs to an existing asset and the balances of each asset sum, as unbounded
  numbers, exactly to its supply.
\<close>

theorem asset_supply_conserved:
  "asset_inv (fold (\<lambda>(c, ctx). asset_call_state env c ctx) calls
     (asset_init_genesis aid name symbol supply issuer \<lparr>assets = [], accounts = []\<rparr>))"
proof (induction calls rule: rev_induct)
  case Nil
  show ?case by (simp add: genesis_asset_inv)
next
  case (snoc call calls)
  then show ?case by (cases call) (simp add: asset_call_inv)
qed

lemma transfer_code_0:
  assumes "transfer env p ctx s = (r, ctx', s')"
  shows "code r = 0 \<longleftrightarrow>
      ctx_cycles_used ctx + 21000 \<le> ctx_cycles_limit ctx \<and> hm_contains (assets s) (tp_asset_id p) \<and>
      tp_to p \<noteq> ctx_caller ctx \<and> unat (tp_value p) \<le> balance s (ctx_caller ctx) (tp_asset_id p) \<and>
      balance s (tp_to p) (tp_asset_id p) + unat (tp_value p) < 2 ^ 64 \<and>
      is_ok (json_transfer env \<lparr>te_asset_id = tp_asset_id p, te_from = ctx_caller ctx, te_to = tp_to p,
        te_value = tp_value p\<rparr>)"
  using assms
  by (auto simp: transfer_def with_cycles_eq Let_def inner_transfer_eq split: if_splits sum.splits)

lemma transfer_code_0_state:
  assumes "transfer env p ctx s = (r, ctx', s')" "code r = 0"
  obtains u ev where "inner_transfer (ctx_caller ctx) (tp_to p) (tp_asset_id p) (tp_value p) s = (Inr u, s')"
    "ctx_events ctx' = ctx_events ctx @ [\<lparr>ev_service = ''asset'', ev_name = ''TransferAsset'', ev_data = ev\<rparr>]"
proof (cases "inner_transfer (ctx_caller ctx) (tp_to p) (tp_asset_id p) (tp_value p) s")
  case (Pair q t)
  then show thesis
    using assms that
    by (auto simp: transfer_def with_cycles_eq Let_def emit_event_def split: if_splits sum.splits)
qed

lemma transfer_rejected_state:
  assumes "transfer env p ctx s = (r, ctx', s')" "code r \<in> {3, 101, 106}"
  shows "s' = s \<and> ctx_events ctx' = ctx_events ctx"
proof (cases "inner_transfer (ctx_caller ctx) (tp_to p) (tp_asset_id p) (tp_value p) s")
  case (Pair q t)
  then show ?thesis
    using assms inner_transfer_error_state [of "ctx_caller ctx" "tp_to p" "tp_asset_id p" "tp_value p" s _ t]
    by (auto simp: transfer_def with_cycles_eq Let_def split: if_splits sum.splits)
qed

text \<open>
  (C2) Transfer. A transfer answers code 0 exactly when the cycles suffice, the asset exists, the
  recipient is someone else, the caller owns the amount, the recipient's balance stays below
  $2^{64}$ and the event serialises. Then the amount moves from the caller to the recipient as exact
  numbers, no other balance and no allowance changes, and one event is emitted. Out of cycles (3),
  unknown asset (101) and failed transfer (106) leave the state and the events as they were.
\<close>

theorem transfer_spec:
  assumes "transfer env \<lparr>tp_asset_id = i, tp_to = to, tp_value = v\<rparr> ctx s = (r, ctx', s')"
    and "ctx_caller ctx = sender"
  shows "(code r = 0 \<longleftrightarrow>
      ctx_cycles_used ctx + 21000 \<le> ctx_cycles_limit ctx \<and> hm_contains (assets s) i \<and> to \<noteq> sender \<and>
      unat v \<le> balance s sender i \<and> balance s to i + unat v < 2 ^ 64 \<and>
      is_ok (json_transfer env \<lparr>te_asset_id = i, te_from = sender, te_to = to, te_value = v\<rparr>)) \<and>
    (code r = 0 \<longrightarrow>
      balance s' sender i = balance s sender i - unat v \<and> balance s' to i = balance s to i + unat v \<and>
      (\<forall>a j. (a, j) \<noteq> (sender, i) \<and> (a, j) \<noteq> (to, i) \<longrightarrow> balance s' a j = balance s a j) \<and>
      (\<forall>g e j. allowance s' g e j = allowance s g e j) \<and> assets s' = assets s \<and>
      length (ctx_events ctx') = length (ctx_events ctx) + 1) \<and>
    (code r \<in> {3, 101, 106} \<longrightarrow> s' = s \<and> ctx_events ctx' = ctx_events ctx)"
proof (intro conjI impI)
  show "code r = 0 \<longleftrightarrow>
      ctx_cycles_used ctx + 21000 \<le> ctx_cycles_limit ctx \<and> hm_contains (assets s) i \<and> to \<noteq> sender \<and>
      unat v \<le> balance s sender i \<and> balance s to i + unat v < 2 ^ 64 \<and>
      is_ok (json_transfer env \<lparr>te_asset_id = i, te_from = sender, te_to = to, te_value = v\<rparr>)"
    using transfer_code_0 [OF assms(1)] assms(2) by simp
next
  assume "code r = 0"
  with assms(1) obtain u ev where t: "inner_transfer (ctx_caller ctx) to i v s = (Inr u, s')"
    and "ctx_events ctx' = ctx_events ctx @ [\<lparr>ev_service = ''asset'', ev_name = ''TransferAsset'', ev_data = ev\<rparr>]"
    by (rule transfer_code_0_state) simp
  then show "length (ctx_events ctx') = length (ctx_events ctx) + 1" by simp
  note ok = inner_transfer_ok [OF t, unfolded assms(2)]
  show "balance s' sender i = balance s sender i - unat v" "balance s' to i = balance s to i + unat v"
    "assets s' = assets s"
    "\<forall>a j. (a, j) \<noteq> (sender, i) \<and> (a, j) \<noteq> (to, i) \<longrightarrow> balance s' a j = balance s a j"
    "\<forall>g e j. allowance s' g e j = allowance s g e j"
    using ok by blast+
qed (use transfer_rejected_state [OF assms(1)] in blast)+

definition debit_allowance :: "address \<Rightarrow> address \<Rightarrow> hash \<Rightarrow> u64 \<Rightarrow> asset_state \<Rightarrow> asset_state" where
  "debit_allowance sender caller i v s =
     (let b = account_balance s sender i;
          x = (case hm_get (ab_allowance b) caller of None \<Rightarrow> 0 | Some x \<Rightarrow> x)
      in set_account_value sender i (b\<lparr>ab_allowance := hm_insert caller (x - v) (ab_allowance b)\<rparr>) s)"

lemma debit_allowance_simps:
  "balance (debit_allowance sender caller i v s) a j = balance s a j"
  "assets (debit_allowance sender caller i v s) = assets s"
  "(g, e, j) \<noteq> (sender, caller, i) \<Longrightarrow>
   allowance (debit_allowance sender caller i v s) g e j = allowance s g e j"
  "unat v \<le> allowance s sender caller i \<Longrightarrow>
   allowance (debit_allowance sender caller i v s) sender caller i = allowance s sender caller i - unat v"
  by (auto simp: debit_allowance_def Let_def balance_def allowance_def unat_sub_exact word_le_unat
      unat_eq_0 split: option.splits)

lemma transfer_from_cases:
  assumes "transfer_from env \<lparr>tfp_asset_id = i, tfp_sender = sender, tfp_recipient = recipient, tfp_value = v\<rparr>
      ctx s = (r, ctx', s')"
  shows "(code r \<in> {3, 101, 105} \<and> s' = s) \<or>
    (unat v \<le> allowance s sender (ctx_caller ctx) i \<and> code r \<in> {0, 103, 106} \<and>
     (\<exists>q. inner_transfer sender recipient i v (debit_allowance sender (ctx_caller ctx) i v s) = (q, s') \<and>
        (code r = 106 \<longleftrightarrow> isl q)))"
proof -
  let ?d = "debit_allowance sender (ctx_caller ctx) i v s"
  obtain q t where q: "inner_transfer sender recipient i v ?d = (q, t)" by fastforce
  have le: "(x :: u64) < v \<longleftrightarrow> \<not> unat v \<le> unat x" for x by (simp add: word_less_unat not_le)
  show ?thesis
    using assms q
    by (auto simp: transfer_from_def with_cycles_eq Let_def debit_allowance_def allowance_def le
        split: if_splits sum.splits option.splits)
qed

text \<open>
  (C3) Delegated transfer. When \<^verbatim>\<open>transfer_from\<close> answers code 0, the caller's allowance from the
  sender covered the amount and is reduced by exactly it, every other allowance is unchanged, and the
  amount moved from sender to recipient. Out of cycles, an unknown asset and a short allowance leave
  the state unchanged. A failed inner transfer (106) moves nothing but has already consumed the
  allowance: the service relies on the executor to drop the writes of a failed call.
\<close>

theorem transfer_from_spec:
  assumes "transfer_from env \<lparr>tfp_asset_id = i, tfp_sender = sender, tfp_recipient = recipient, tfp_value = v\<rparr>
      ctx s = (r, ctx', s')"
    and "ctx_caller ctx = caller"
  shows "(code r = 0 \<longrightarrow>
      recipient \<noteq> sender \<and> unat v \<le> balance s sender i \<and> unat v \<le> allowance s sender caller i \<and>
      balance s' sender i = balance s sender i - unat v \<and>
      balance s' recipient i = balance s recipient i + unat v \<and>
      (\<forall>a j. (a, j) \<noteq> (sender, i) \<and> (a, j) \<noteq> (recipient, i) \<longrightarrow> balance s' a j = balance s a j)) \<and>
    (code r \<in> {3, 101, 105} \<longrightarrow> s' = s) \<and>
    (code r = 106 \<longrightarrow> (\<forall>a j. balance s' a j = balance s a j)) \<and>
    (code r \<in> {0, 106} \<longrightarrow>
      allowance s' sender caller i = allowance s sender caller i - unat v \<and>
      (\<forall>g e j. (g, e, j) \<noteq> (sender, caller, i) \<longrightarrow> allowance s' g e j = allowance s g e j))"
proof -
  let ?d = "debit_allowance sender caller i v s"
  from transfer_from_cases [OF assms(1)] consider (rejected) "code r \<in> {3, 101, 105}" "s' = s"
    | (ran) q where "inner_transfer sender recipient i v ?d = (q, s')" "code r = 106 \<longleftrightarrow> isl q"
        "code r \<in> {0, 103, 106}" "unat v \<le> allowance s sender caller i"
    unfolding assms(2) by blast
  then show ?thesis
  proof cases
    case rejected
    then show ?thesis by auto
  next
    case ran
    show ?thesis
    proof (cases q)
      case (Inl e)
      with ran(1) have "s' = ?d" by (auto dest: inner_transfer_error_state)
      then show ?thesis using ran Inl by (auto simp: debit_allowance_simps)
    next
      case (Inr u)
      with ran show ?thesis
        using inner_transfer_ok [of sender recipient i v ?d u s'] by (auto simp: debit_allowance_simps)
    qed
  qed
qed

text \<open>
  Approval round trip. After \<^verbatim>\<open>approve\<close> answers code 0, \<^verbatim>\<open>get_allowance\<close> of that grantor and
  grantee with enough cycles answers the approved amount, and no balance has changed.
\<close>

theorem approve_get_allowance:
  assumes "approve env \<lparr>tp_asset_id = i, tp_to = grantee, tp_value = v\<rparr> ctx s = (r, ctx', s')"
    and "code r = 0"
    and "ctx_cycles_used c2 + 10000 \<le> ctx_cycles_limit c2"
  shows "fst (get_allowance env i (ctx_caller ctx) grantee c2 s') =
      from_succeed \<lparr>gar_asset_id = i, gar_grantor = ctx_caller ctx, gar_grantee = grantee, gar_value = v\<rparr> \<and>
    (\<forall>a j. balance s' a j = balance s a j)"
proof -
  from assms(1,2) have i: "hm_contains (assets s) i"
    and s': "s' = set_account_value (ctx_caller ctx) i
      ((account_balance s (ctx_caller ctx) i)\<lparr>ab_allowance :=
        hm_insert grantee v (ab_allowance (account_balance s (ctx_caller ctx) i))\<rparr>) s"
    by (auto simp: approve_def with_cycles_eq Let_def split: if_splits sum.splits)
  then show ?thesis
    using assms(3)
    by (simp add: get_allowance_def with_cycles_eq Let_def balance_def) (simp add: set_account_value_def)
qed

section \<open>Concrete runs\<close>

text \<open>
  A ledger with one asset of supply 100, owned by address 1, who has granted address 3 an allowance
  of 50; the serialisers answer the empty string.
\<close>

definition example_asset_env :: asset_env where
  "example_asset_env = \<lparr>env_digest = (\<lambda>b. take 32 (b @ replicate 32 0)), env_addr_string = (\<lambda>_. ''''),
     json_create = (\<lambda>_. Inr ''''), json_asset = (\<lambda>_. Inr ''''), json_transfer = (\<lambda>_. Inr ''''),
     json_approve = (\<lambda>_. Inr ''''), json_transfer_from = (\<lambda>_. Inr '''')\<rparr>"

definition example_assets :: asset_state where
  "example_assets =
     \<lparr>assets = [(Hash [9], \<lparr>as_id = Hash [9], as_name = ''T'', as_symbol = ''T'', as_supply = 100,
                as_issuer = Address [1]\<rparr>)],
      accounts = [((Address [1], Hash [9]), \<lparr>ab_value = 100, ab_allowance = [(Address [3], 50)]\<rparr>)]\<rparr>"

lemma example_assets_simps:
  "hm_contains (assets example_assets) (Hash [9])"
  "balance example_assets (Address [1]) (Hash [9]) = 100"
  "balance example_assets (Address [2]) (Hash [9]) = 0"
  "allowance example_assets (Address [1]) (Address [3]) (Hash [9]) = 50"
  by (simp_all add: example_assets_def hm_contains_def balance_def allowance_def account_balance_def
      empty_balance_def)

theorem transfer_spec_witness:
  "\<exists>r ctx' s'. transfer example_asset_env \<lparr>tp_asset_id = Hash [9], tp_to = Address [2], tp_value = 30\<rparr>
      (example_context (Address [1]) 50000) example_assets = (r, ctx', s') \<and> code r = 0 \<and>
     balance s' (Address [1]) (Hash [9]) = 70 \<and> balance s' (Address [2]) (Hash [9]) = 30"
proof -
  obtain r c s' where t: "transfer example_asset_env
      \<lparr>tp_asset_id = Hash [9], tp_to = Address [2], tp_value = 30\<rparr>
      (example_context (Address [1]) 50000) example_assets = (r, c, s')"
    by (rule prod_cases3)
  from transfer_spec [OF t refl] show ?thesis
    by (simp add: t example_assets_simps) (simp add: example_asset_env_def)
qed

theorem transfer_from_spec_witness:
  "\<exists>r ctx' s'. transfer_from example_asset_env
      \<lparr>tfp_asset_id = Hash [9], tfp_sender = Address [1], tfp_recipient = Address [2], tfp_value = 30\<rparr>
      (example_context (Address [3]) 50000) example_assets = (r, ctx', s') \<and> code r = 0 \<and>
     allowance s' (Address [1]) (Address [3]) (Hash [9]) = 20 \<and> balance s' (Address [2]) (Hash [9]) = 30"
proof -
  obtain r c s' where t: "transfer_from example_asset_env
      \<lparr>tfp_asset_id = Hash [9], tfp_sender = Address [1], tfp_recipient = Address [2], tfp_value = 30\<rparr>
      (example_context (Address [3]) 50000) example_assets = (r, c, s')"
    by (rule prod_cases3)
  moreover from t have "code r = 0"
    by (auto simp: transfer_from_def with_cycles_eq Let_def example_assets_def example_asset_env_def
        inner_transfer_def account_balance_def hm_contains_def set_account_value_def
        overflowing_add_def overflowing_sub_def empty_balance_def)
  ultimately show ?thesis
    using transfer_from_spec [OF t refl] by (simp add: example_assets_simps)
qed

theorem approve_get_allowance_witness:
  "\<exists>r ctx' s'. approve example_asset_env \<lparr>tp_asset_id = Hash [9], tp_to = Address [2], tp_value = 7\<rparr>
      (example_context (Address [1]) 50000) example_assets = (r, ctx', s') \<and> code r = 0 \<and>
     gar_value (succeed_data (fst (get_allowance example_asset_env (Hash [9]) (Address [1]) (Address [2])
       (example_context (Address [5]) 50000) s'))) = 7"
proof -
  obtain r c s' where t: "approve example_asset_env
      \<lparr>tp_asset_id = Hash [9], tp_to = Address [2], tp_value = 7\<rparr>
      (example_context (Address [1]) 50000) example_assets = (r, c, s')"
    by (rule prod_cases3)
  moreover from t have "code r = 0"
    by (auto simp: approve_def with_cycles_eq Let_def example_assets_def example_asset_env_def
        hm_contains_def)
  ultimately show ?thesis
    using approve_get_allowance [OF t, of "example_context (Address [5]) 50000"] by simp
qed

end
