(* ===== verification/Fixed_Codec.thy ===== *)
theory Fixed_Codec
  imports Muta_Types
begin

text \<open>
  The canonical encoding trait \<^verbatim>\<open>FixedCodec\<close> of \<^verbatim>\<open>protocol/src/fixed_codec\<close>: its instances for
  booleans, integers, strings, byte strings and hex strings, and the law that the stores rely on. The
  reader and the writer of the integers (package \<^verbatim>\<open>byteorder\<close>) are arguments. The instances for
  structures (package \<^verbatim>\<open>rlp\<close>) are codecs passed as arguments by the theories that use them.
\<close>

datatype codec_error =
    DecodeBool
  | DecodeUint8
  | StringUTF8
  | Decoder string
  | HexError types_error

record 'a codec =
  encode_fixed :: "'a \<Rightarrow> (codec_error, bytes) result"
  decode_fixed :: "bytes \<Rightarrow> (codec_error, 'a) result"

text \<open>
  What the callers rely on: an encoded value decodes to itself. A value with the empty encoding
  cannot be stored: the state reads an empty value as an absent one.
\<close>

definition codec_lawful :: "'a codec \<Rightarrow> bool" where
  "codec_lawful c \<longleftrightarrow> (\<forall>x. \<exists>b. encode_fixed c x = Inr b \<and> decode_fixed c b = Inr x)"

definition codec_nonempty :: "'a codec \<Rightarrow> bool" where
  "codec_nonempty c \<longleftrightarrow> (\<forall>x. encode_fixed c x \<noteq> Inr [])"

section \<open>Instances\<close>

definition bool_codec :: "bool codec" where
  "bool_codec =
     \<lparr>encode_fixed = (\<lambda>b. Inr (if b then [1] else [0])),
      decode_fixed = (\<lambda>bs. case bs of
          [] \<Rightarrow> Inl (Err DecodeBool)
        | u # _ \<Rightarrow> (if u = 0 then Inr False else if u = 1 then Inr True else Inl (Err DecodeBool)))\<rparr>"

definition u8_codec :: "u8 codec" where
  "u8_codec =
     \<lparr>encode_fixed = (\<lambda>u. Inr [u]),
      decode_fixed = (\<lambda>bs. case bs of [] \<Rightarrow> Inl (Err DecodeUint8) | u # _ \<Rightarrow> Inr u)\<rparr>"

text \<open>
  The integers of two to sixteen bytes, through \<^verbatim>\<open>LittleEndian::write_uN\<close> and \<^verbatim>\<open>read_uN\<close> of package
  \<^verbatim>\<open>byteorder\<close>: both work on the first bytes of the buffer and panic when it is too short. The buffer
  of the \<^verbatim>\<open>u16\<close> instance has the size of a \<^verbatim>\<open>u32\<close>.
\<close>

record 'w byteorder =
  bo_write :: "'w \<Rightarrow> bytes"
  bo_read :: "bytes \<Rightarrow> 'w"

definition write_uint :: "'w byteorder \<Rightarrow> nat \<Rightarrow> bytes \<Rightarrow> 'w \<Rightarrow> (codec_error, bytes) result" where
  "write_uint bo sz buf u = (if length buf < sz then Inl Panic else Inr (bo_write bo u @ drop sz buf))"

definition read_uint :: "'w byteorder \<Rightarrow> nat \<Rightarrow> bytes \<Rightarrow> (codec_error, 'w) result" where
  "read_uint bo sz buf = (if length buf < sz then Inl Panic else Inr (bo_read bo (take sz buf)))"

definition u16_codec :: "16 word byteorder \<Rightarrow> 16 word codec" where
  "u16_codec bo = \<lparr>encode_fixed = write_uint bo 2 (replicate 4 0), decode_fixed = read_uint bo 2\<rparr>"

definition u32_codec :: "u32 byteorder \<Rightarrow> u32 codec" where
  "u32_codec bo = \<lparr>encode_fixed = write_uint bo 4 (replicate 4 0), decode_fixed = read_uint bo 4\<rparr>"

definition u64_codec :: "u64 byteorder \<Rightarrow> u64 codec" where
  "u64_codec bo = \<lparr>encode_fixed = write_uint bo 8 (replicate 8 0), decode_fixed = read_uint bo 8\<rparr>"

definition u128_codec :: "128 word byteorder \<Rightarrow> 128 word codec" where
  "u128_codec bo = \<lparr>encode_fixed = write_uint bo 16 (replicate 16 0), decode_fixed = read_uint bo 16\<rparr>"

text \<open>What is used of the package: a written integer has its size and is read back.\<close>

definition byteorder_lawful :: "'w byteorder \<Rightarrow> nat \<Rightarrow> bool" where
  "byteorder_lawful bo sz \<longleftrightarrow> (\<forall>u. length (bo_write bo u) = sz \<and> bo_read bo (bo_write bo u) = u)"

definition bytes_codec :: "bytes codec" where
  "bytes_codec = \<lparr>encode_fixed = Inr, decode_fixed = Inr\<rparr>"

text \<open>\<^verbatim>\<open>String::from_utf8\<close> accepts the well-formed UTF-8 sequences of RFC 3629.\<close>

definition utf8_cont :: "u8 \<Rightarrow> u8 \<Rightarrow> u8 \<Rightarrow> bool" where
  "utf8_cont lo hi b \<longleftrightarrow> lo \<le> b \<and> b \<le> hi"

fun is_utf8 :: "bytes \<Rightarrow> bool" where
  "is_utf8 [] \<longleftrightarrow> True"
| "is_utf8 (b0 # rest) \<longleftrightarrow>
     (if b0 < 0x80 then is_utf8 rest
      else if 0xC2 \<le> b0 \<and> b0 \<le> 0xDF then
        (case rest of
           b1 # r \<Rightarrow> utf8_cont 0x80 0xBF b1 \<and> is_utf8 r
         | _ \<Rightarrow> False)
      else if 0xE0 \<le> b0 \<and> b0 \<le> 0xEF then
        (case rest of
           b1 # b2 # r \<Rightarrow>
             utf8_cont (if b0 = 0xE0 then 0xA0 else 0x80) (if b0 = 0xED then 0x9F else 0xBF) b1 \<and>
             utf8_cont 0x80 0xBF b2 \<and> is_utf8 r
         | _ \<Rightarrow> False)
      else if 0xF0 \<le> b0 \<and> b0 \<le> 0xF4 then
        (case rest of
           b1 # b2 # b3 # r \<Rightarrow>
             utf8_cont (if b0 = 0xF0 then 0x90 else 0x80) (if b0 = 0xF4 then 0x8F else 0xBF) b1 \<and>
             utf8_cont 0x80 0xBF b2 \<and> utf8_cont 0x80 0xBF b3 \<and> is_utf8 r
         | _ \<Rightarrow> False)
      else False)"

definition bytes_str :: "bytes \<Rightarrow> string" where
  "bytes_str bs = map (\<lambda>b. char_of (unat b)) bs"

definition from_utf8 :: "bytes \<Rightarrow> (codec_error, string) result" where
  "from_utf8 bs = (if is_utf8 bs then Inr (bytes_str bs) else Inl (Err StringUTF8))"

definition string_codec :: "string codec" where
  "string_codec = \<lparr>encode_fixed = (\<lambda>s. Inr (str_bytes s)), decode_fixed = from_utf8\<rparr>"

text \<open>The hex codec writes the digits without their prefix and always reads them back with \<^verbatim>\<open>0x\<close>.\<close>

definition map_types_err :: "(types_error, 'a) result \<Rightarrow> (codec_error, 'a) result" where
  "map_types_err r =
     (case r of Inl (Err e) \<Rightarrow> Inl (Err (HexError e)) | Inl Panic \<Rightarrow> Inl Panic | Inr a \<Rightarrow> Inr a)"

definition hex_codec :: "(string \<Rightarrow> string + bytes) \<Rightarrow> hex codec" where
  "hex_codec hex_decode =
     \<lparr>encode_fixed = (\<lambda>h. Inr (str_bytes (hex_as_string_trim0x h))),
      decode_fixed = (\<lambda>bs. res_bind (from_utf8 bs)
        (\<lambda>s. map_types_err (hex_from_string hex_decode (''0x'' @ s))))\<rparr>"

section \<open>Lemmas\<close>

lemma bytes_str_str_bytes [simp]: "bytes_str (str_bytes s) = s"
  by (induction s) (simp_all add: bytes_str_def str_bytes_def unsigned_of_nat take_bit_eq_mod)

lemma bool_codec_lawful: "codec_lawful bool_codec"
  by (simp add: codec_lawful_def bool_codec_def)

lemma bytes_codec_simps [simp]:
  "encode_fixed bytes_codec b = Inr b"
  "decode_fixed bytes_codec b = Inr b"
  by (simp_all add: bytes_codec_def)

lemma codec_lawfulE:
  assumes "codec_lawful c"
  obtains b where "encode_fixed c x = Inr b" "decode_fixed c b = Inr x"
  using assms unfolding codec_lawful_def by blast

lemma codec_lawful_inj:
  assumes "codec_lawful c" "encode_fixed c x = Inr b" "encode_fixed c y = Inr b"
  shows "x = y"
  using assms by (metis codec_lawfulE Inr_inject)

lemma bytes_str_inverse [simp]: "str_bytes (bytes_str b) = b"
proof -
  have "of_nat (of_char (char_of (unat x) :: char)) = x" for x :: u8
    using unsigned_less [where ?'a = nat, of x] by (simp add: of_char_of)
  then show ?thesis by (simp add: bytes_str_def str_bytes_def map_idI)
qed

lemma string_decoder_exact: "decode_fixed string_codec b = Inr s \<longleftrightarrow> is_utf8 b \<and> b = str_bytes s"
  by (auto simp: string_codec_def from_utf8_def)

lemma uint_codec_lawful:
  assumes "byteorder_lawful bo sz" "sz \<le> length buf"
  shows "codec_lawful \<lparr>encode_fixed = write_uint bo sz buf, decode_fixed = read_uint bo sz\<rparr>"
  using assms by (simp add: codec_lawful_def write_uint_def read_uint_def byteorder_lawful_def)

lemma is_utf8_drop_prefix:
  assumes "is_utf8 (str_bytes s)" "has_0x s"
  shows "is_utf8 (str_bytes (drop 2 s))"
proof -
  have "s = take 2 s @ drop 2 s" by simp
  then have "s = ''0x'' @ drop 2 s \<or> s = ''0X'' @ drop 2 s" using assms(2) unfolding has_0x_def by metis
  moreover have "is_utf8 (str_bytes (''0x'' @ t)) \<longleftrightarrow> is_utf8 (str_bytes t)"
    "is_utf8 (str_bytes (''0X'' @ t)) \<longleftrightarrow> is_utf8 (str_bytes t)" for t
    by (simp_all add: str_bytes_def)
  ultimately show ?thesis using assms(1) by metis
qed

lemma hex_codec_normalizes:
  assumes "is_utf8 (str_bytes s)" "hex_from_string hex_decode s = Inr h"
  shows "h = Hex s"
    "res_bind (encode_fixed (hex_codec hex_decode) h) (decode_fixed (hex_codec hex_decode)) =
       Inr (Hex (''0x'' @ drop 2 s))"
proof -
  have s: "has_0x s" "3 \<le> length s" "is_ok (hex_decode (drop 2 s))" and h: "h = Hex s"
    using assms(2)
    by (auto simp: hex_from_string_def res_bind_Inr_iff map_hex_err_def is_ok_def split: if_splits sum.splits)
  then have "hex_from_string hex_decode (''0x'' @ drop 2 s) = Inr (Hex (''0x'' @ drop 2 s))"
    by (auto simp: hex_from_string_def has_0x_def map_hex_err_def is_ok_def split: sum.splits)
  then show "h = Hex s" "res_bind (encode_fixed (hex_codec hex_decode) h) (decode_fixed (hex_codec hex_decode)) =
       Inr (Hex (''0x'' @ drop 2 s))"
    using h is_utf8_drop_prefix [OF assms(1) s(1)]
    by (simp_all add: hex_codec_def hex_as_string_trim0x_def from_utf8_def map_types_err_def)
qed

text \<open>
  (C4) Round trips and exact domains of the canonical encodings, over a lawful \<^verbatim>\<open>byteorder\<close> for the
  integers. Every boolean and every integer of two to sixteen bytes decodes to what was encoded; a
  boolean is decoded from the first byte, which has to be 0 or 1; an integer decoder panics, instead
  of answering an error, exactly on an input shorter than the integer. Every well-formed UTF-8 string
  decodes to what was encoded, and the string decoder accepts exactly the encodings of these. A hex
  value that \<^verbatim>\<open>Hex::from_string\<close> built from a UTF-8 string comes back with the prefix \<^verbatim>\<open>0x\<close>, so it is
  unchanged exactly when it was written with that prefix and not with \<^verbatim>\<open>0X\<close>.
\<close>

theorem fixed_codec_roundtrip:
  assumes "byteorder_lawful bo16 2" "byteorder_lawful bo32 4" "byteorder_lawful bo64 8" "byteorder_lawful bo128 16"
  shows "codec_lawful bool_codec \<and>
    (\<forall>bs x. decode_fixed bool_codec bs = Inr x \<longleftrightarrow> (\<exists>r. bs = (if x then 1 else 0) # r)) \<and>
    codec_lawful (u16_codec bo16) \<and> codec_lawful (u32_codec bo32) \<and>
    codec_lawful (u64_codec bo64) \<and> codec_lawful (u128_codec bo128) \<and>
    (\<forall>bs. (decode_fixed (u16_codec bo16) bs = Inl Panic \<longleftrightarrow> length bs < 2) \<and>
          (decode_fixed (u32_codec bo32) bs = Inl Panic \<longleftrightarrow> length bs < 4) \<and>
          (decode_fixed (u64_codec bo64) bs = Inl Panic \<longleftrightarrow> length bs < 8) \<and>
          (decode_fixed (u128_codec bo128) bs = Inl Panic \<longleftrightarrow> length bs < 16)) \<and>
    (\<forall>s. is_utf8 (str_bytes s) \<longrightarrow>
       res_bind (encode_fixed string_codec s) (decode_fixed string_codec) = Inr s) \<and>
    (\<forall>bs s. decode_fixed string_codec bs = Inr s \<longleftrightarrow> is_utf8 bs \<and> encode_fixed string_codec s = Inr bs) \<and>
    (\<forall>hex_decode s h. is_utf8 (str_bytes s) \<longrightarrow> hex_from_string hex_decode s = Inr h \<longrightarrow>
       res_bind (encode_fixed (hex_codec hex_decode) h) (decode_fixed (hex_codec hex_decode)) =
         Inr (Hex (''0x'' @ drop 2 s)) \<and>
       (Hex (''0x'' @ drop 2 s) = h \<longleftrightarrow> take 2 s = ''0x''))"
  (is "?bool \<and> ?boold \<and> ?u16 \<and> ?u32 \<and> ?u64 \<and> ?u128 \<and> ?short \<and> ?str \<and> ?strd \<and> ?hex")
proof (intro conjI)
  show ?bool by (rule bool_codec_lawful)
  show ?boold by (auto simp: bool_codec_def split: list.splits)
  show ?u16 ?u32 ?u64 ?u128
    unfolding u16_codec_def u32_codec_def u64_codec_def u128_codec_def
    by (rule uint_codec_lawful, rule assms, simp)+
  show ?short
    by (simp add: u16_codec_def u32_codec_def u64_codec_def u128_codec_def read_uint_def)
  show ?str by (simp add: string_codec_def from_utf8_def)
  show ?strd unfolding string_decoder_exact by (auto simp: string_codec_def)
  have "''0x'' @ drop 2 s = take 2 s @ drop 2 s \<longleftrightarrow> ''0x'' = take 2 s" for s :: string by (rule append_same_eq)
  then have prefix: "''0x'' @ drop 2 s = s \<longleftrightarrow> take 2 s = ''0x''" for s :: string
    unfolding append_take_drop_id by (simp only: eq_commute)
  show ?hex
  proof (intro allI impI)
    fix hex_decode s h assume "is_utf8 (str_bytes s)" "hex_from_string hex_decode s = Inr h"
    note n = hex_codec_normalizes [OF this]
    show "res_bind (encode_fixed (hex_codec hex_decode) h) (decode_fixed (hex_codec hex_decode)) =
        Inr (Hex (''0x'' @ drop 2 s)) \<and> (Hex (''0x'' @ drop 2 s) = h \<longleftrightarrow> take 2 s = ''0x'')"
      unfolding n(2) unfolding n(1) hex.inject prefix by simp
  qed
qed

section \<open>Concrete codecs\<close>

text \<open>A little-endian codec of 64-bit integers and a bare codec of hashes, for concrete runs.\<close>

fun le_value :: "bytes \<Rightarrow> u64" where
  "le_value [] = 0"
| "le_value (b # bs) = or (ucast b) (push_bit 8 (le_value bs))"

definition le_u64_codec :: "u64 codec" where
  "le_u64_codec =
     \<lparr>encode_fixed = (\<lambda>u. Inr (to_le_bytes u)),
      decode_fixed = (\<lambda>bs. if length bs < 8 then Inl Panic else Inr (le_value (take 8 bs)))\<rparr>"

definition raw_hash_codec :: "hash codec" where
  "raw_hash_codec = \<lparr>encode_fixed = (\<lambda>h. Inr (hash_bytes h)), decode_fixed = (\<lambda>b. Inr (Hash b))\<rparr>"

lemma le_value_le_bytes: "le_value (le_bytes n w) = take_bit (8 * n) w"
proof (induction n arbitrary: w)
  case (Suc n)
  show ?case
    by (rule bit_eqI)
      (auto simp: Suc bit_simps bit_word_ucast_iff)
qed simp

lemma le_value_to_le_bytes [simp]: "le_value (to_le_bytes w) = w"
  unfolding to_le_bytes_def le_value_le_bytes by (simp add: take_bit_word_eq_self)

lemma le_u64_codec_lawful: "codec_lawful le_u64_codec" "codec_nonempty le_u64_codec"
proof -
  show "codec_lawful le_u64_codec" by (simp add: codec_lawful_def le_u64_codec_def)
  have "to_le_bytes w \<noteq> []" for w using length_to_le_bytes [of w] by fastforce
  then show "codec_nonempty le_u64_codec" by (simp add: codec_nonempty_def le_u64_codec_def)
qed

lemma raw_hash_codec_lawful: "codec_lawful raw_hash_codec"
  by (simp add: codec_lawful_def raw_hash_codec_def)

text \<open>A self-delimiting codec of lists of byte strings.\<close>

definition tag_string :: "bytes \<Rightarrow> bytes" where
  "tag_string b = concat (map (\<lambda>x. [1, x]) b) @ [0]"

fun untag_list :: "bytes \<Rightarrow> bytes \<Rightarrow> bytes list \<Rightarrow> (codec_error, bytes list) result" where
  "untag_list [] cur acc = Inl (Err (Decoder ''end of input''))"
| "untag_list [t] cur acc = (if t = 3 then Inr (rev acc) else Inl (Err (Decoder ''tag'')))"
| "untag_list (t # x # r) cur acc =
     (if t = 3 then Inr (rev acc)
      else if t = 0 then untag_list (x # r) [] (rev cur # acc)
      else if t = 1 then untag_list r (x # cur) acc
      else Inl (Err (Decoder ''tag'')))"

definition tagged_list_codec :: "bytes list codec" where
  "tagged_list_codec =
     \<lparr>encode_fixed = (\<lambda>bs. Inr (concat (map tag_string bs) @ [3])),
      decode_fixed = (\<lambda>b. untag_list b [] [])\<rparr>"

lemma untag_string:
  "r \<noteq> [] \<Longrightarrow> untag_list (tag_string b @ r) cur acc = untag_list r [] (rev (rev b @ cur) # acc)"
proof (induction b arbitrary: cur)
  case Nil
  then show ?case by (cases r) (simp_all add: tag_string_def)
next
  case (Cons x b)
  then show ?case by (simp add: tag_string_def)
qed

lemma untag_tagged: "untag_list (concat (map tag_string bs) @ [3]) [] acc = Inr (rev acc @ bs)"
  by (induction bs arbitrary: acc) (simp_all add: untag_string)

lemma tagged_list_codec_lawful: "codec_lawful tagged_list_codec" "codec_nonempty tagged_list_codec"
  by (simp_all add: codec_lawful_def codec_nonempty_def tagged_list_codec_def untag_tagged)

lemma bytes_codec_lawful: "codec_lawful bytes_codec"
  by (simp add: codec_lawful_def)

text \<open>The little-endian bytes of a word of any width, as the package writes them.\<close>

fun word_le_bytes :: "nat \<Rightarrow> 'a::len word \<Rightarrow> bytes" where
  "word_le_bytes 0 w = []"
| "word_le_bytes (Suc n) w = ucast w # word_le_bytes n (drop_bit 8 w)"

fun word_le_value :: "bytes \<Rightarrow> 'a::len word" where
  "word_le_value [] = 0"
| "word_le_value (b # bs) = or (ucast b) (push_bit 8 (word_le_value bs))"

definition little_endian :: "nat \<Rightarrow> 'a::len word byteorder" where
  "little_endian sz = \<lparr>bo_write = word_le_bytes sz, bo_read = word_le_value\<rparr>"

lemma word_le_value_bytes: "word_le_value (word_le_bytes n w) = take_bit (8 * n) w"
proof (induction n arbitrary: w)
  case (Suc n)
  show ?case by (rule bit_eqI) (auto simp: Suc bit_simps bit_word_ucast_iff)
qed simp

lemma little_endian_lawful:
  assumes "LENGTH('a::len) \<le> 8 * sz"
  shows "byteorder_lawful (little_endian sz :: 'a word byteorder) sz"
proof -
  have "length (word_le_bytes n w) = n" for n and w :: "'a word" by (induction n arbitrary: w) simp_all
  moreover have "word_le_value (word_le_bytes sz w) = w" for w :: "'a word"
    unfolding word_le_value_bytes using assms by (simp add: take_bit_word_eq_self)
  ultimately show ?thesis by (simp add: byteorder_lawful_def little_endian_def)
qed

theorem fixed_codec_roundtrip_witness:
  "res_bind (encode_fixed (u16_codec (little_endian 2)) 0x1234) (decode_fixed (u16_codec (little_endian 2))) = Inr 0x1234 \<and>
   res_bind (encode_fixed string_codec ''ab'') (decode_fixed string_codec) = Inr ''ab'' \<and>
   res_bind (encode_fixed (hex_codec (\<lambda>s. Inr (str_bytes s))) (Hex ''0xab''))
     (decode_fixed (hex_codec (\<lambda>s. Inr (str_bytes s)))) = Inr (Hex ''0xab'')"
proof -
  have "byteorder_lawful (little_endian 2 :: 16 word byteorder) 2" "byteorder_lawful (little_endian 4 :: u32 byteorder) 4"
    "byteorder_lawful (little_endian 8 :: u64 byteorder) 8" "byteorder_lawful (little_endian 16 :: 128 word byteorder) 16"
    by (rule little_endian_lawful, simp)+
  note all = fixed_codec_roundtrip [OF this]
  from all have "codec_lawful (u16_codec (little_endian 2))" by (elim conjE)
  then have "res_bind (encode_fixed (u16_codec (little_endian 2)) 0x1234) (decode_fixed (u16_codec (little_endian 2))) = Inr 0x1234"
    by (rule codec_lawfulE [of _ "0x1234"]) simp
  moreover from all have "\<forall>s. is_utf8 (str_bytes s) \<longrightarrow>
       res_bind (encode_fixed string_codec s) (decode_fixed string_codec) = Inr s" by (elim conjE)
  then have "res_bind (encode_fixed string_codec ''ab'') (decode_fixed string_codec) = Inr ''ab''"
    by (auto simp: str_bytes_def simp del: res_bind_simps)
  moreover from all have "\<forall>hex_decode s h. is_utf8 (str_bytes s) \<longrightarrow> hex_from_string hex_decode s = Inr h \<longrightarrow>
       res_bind (encode_fixed (hex_codec hex_decode) h) (decode_fixed (hex_codec hex_decode)) =
         Inr (Hex (''0x'' @ drop 2 s)) \<and>
       (Hex (''0x'' @ drop 2 s) = h \<longleftrightarrow> take 2 s = ''0x'')" by (elim conjE)
  from this [rule_format, of "''0xab''" "\<lambda>s. Inr (str_bytes s)" "Hex ''0xab''"]
  have "res_bind (encode_fixed (hex_codec (\<lambda>s. Inr (str_bytes s))) (Hex ''0xab''))
     (decode_fixed (hex_codec (\<lambda>s. Inr (str_bytes s)))) = Inr (Hex ''0xab'')"
    by (simp add: str_bytes_def hex_from_string_def has_0x_def map_hex_err_def)
  ultimately show ?thesis by blast
qed

end
