(* ===== verification/Service_State.thy ===== *)
theory Service_State
  imports Fixed_Codec
begin

text \<open>
  The state of one service, \<^verbatim>\<open>framework/src/binding/state\<close>: \<^verbatim>\<open>GeneralServiceState\<close> layers a cache of
  the running transaction over a stash of the block over a Merkle trie.

  The trie itself (package \<^verbatim>\<open>cita_trie\<close>) is an argument; \<^verbatim>\<open>trie_lawful\<close> states what is used of it. The locale
  \<^verbatim>\<open>kv_state\<close> is the interface the stores rely on, and \<^verbatim>\<open>GeneralServiceState\<close> interprets it. The
  lemmas show that the state refines a map with three versions: transaction, block and committed.
\<close>

datatype state_error =
    TrieError string
  | CodecErr codec_error
  | RootLength types_error
  | GetNone
  | OutRange

definition map_codec_err :: "(codec_error, 'a) result \<Rightarrow> (state_error, 'a) result" where
  "map_codec_err r =
     (case r of Inl (Err e) \<Rightarrow> Inl (Err (CodecErr e)) | Inl Panic \<Rightarrow> Inl Panic | Inr a \<Rightarrow> Inr a)"

definition map_trie_err :: "string + 'a \<Rightarrow> (state_error, 'a) result" where
  "map_trie_err r = (case r of Inl e \<Rightarrow> Inl (Err (TrieError e)) | Inr a \<Rightarrow> Inr a)"

section \<open>The Merkle trie\<close>

text \<open>The operations of \<^verbatim>\<open>PatriciaTrie\<close> over a given database.\<close>

record 't trie_ops =
  trie_new :: 't
  trie_from :: "bytes \<Rightarrow> string + 't"
  trie_get :: "'t \<Rightarrow> bytes \<Rightarrow> string + bytes option"
  trie_contains :: "'t \<Rightarrow> bytes \<Rightarrow> string + bool"
  trie_insert :: "bytes \<Rightarrow> bytes \<Rightarrow> 't \<Rightarrow> string + 't"
  trie_root :: "'t \<Rightarrow> string + bytes \<times> 't"

record 't mpt_trie =
  mpt_root :: hash
  mpt_inner :: 't

definition mpt_new :: "'t trie_ops \<Rightarrow> (bytes \<Rightarrow> bytes) \<Rightarrow> 't mpt_trie" where
  "mpt_new ops digest = \<lparr>mpt_root = hash_from_empty digest, mpt_inner = trie_new ops\<rparr>"

definition mpt_from :: "'t trie_ops \<Rightarrow> hash \<Rightarrow> (state_error, 't mpt_trie) result" where
  "mpt_from ops root =
     res_bind (map_trie_err (trie_from ops (hash_bytes root)))
       (\<lambda>t. Inr \<lparr>mpt_root = root, mpt_inner = t\<rparr>)"

definition mpt_get :: "'t trie_ops \<Rightarrow> 't mpt_trie \<Rightarrow> bytes \<Rightarrow> (state_error, bytes option) result" where
  "mpt_get ops t k = map_trie_err (trie_get ops (mpt_inner t) k)"

definition mpt_contains :: "'t trie_ops \<Rightarrow> 't mpt_trie \<Rightarrow> bytes \<Rightarrow> (state_error, bool) result" where
  "mpt_contains ops t k = map_trie_err (trie_contains ops (mpt_inner t) k)"

definition mpt_insert ::
    "'t trie_ops \<Rightarrow> bytes \<Rightarrow> bytes \<Rightarrow> 't mpt_trie \<Rightarrow> (state_error, 't mpt_trie) result" where
  "mpt_insert ops k v t =
     res_map (\<lambda>i. t\<lparr>mpt_inner := i\<rparr>) (map_trie_err (trie_insert ops k v (mpt_inner t)))"

definition mpt_commit :: "'t trie_ops \<Rightarrow> 't mpt_trie \<Rightarrow> (state_error, hash \<times> 't mpt_trie) result" where
  "mpt_commit ops t =
     res_bind (map_trie_err (trie_root ops (mpt_inner t)))
       (\<lambda>(root_bytes, i).
          (case hash_from_bytes root_bytes of
             Inl (Err e) \<Rightarrow> Inl (Err (RootLength e))
           | Inl Panic \<Rightarrow> Inl Panic
           | Inr root \<Rightarrow> Inr (root, \<lparr>mpt_root = root, mpt_inner = i\<rparr>)))"

section \<open>The layered state\<close>

record 't general_service_state =
  gs_trie :: "'t mpt_trie"
  cache_map :: "(bytes, bytes) hash_map"
  stash_map :: "(bytes, bytes) hash_map"

definition gs_new :: "'t mpt_trie \<Rightarrow> 't general_service_state" where
  "gs_new t = \<lparr>gs_trie = t, cache_map = [], stash_map = []\<rparr>"

definition get_bytes_value ::
    "'t trie_ops \<Rightarrow> 't general_service_state \<Rightarrow> bytes \<Rightarrow> (state_error, bytes option) result" where
  "get_bytes_value ops s key =
     (case hm_get (cache_map s) key of
        Some v \<Rightarrow> (if v = [] then Inr None else Inr (Some v))
      | None \<Rightarrow>
          (case hm_get (stash_map s) key of
             Some v \<Rightarrow> (if v = [] then Inr None else Inr (Some v))
           | None \<Rightarrow>
               res_bind (mpt_get ops (gs_trie s) key)
                 (\<lambda>r. case r of
                    Some v \<Rightarrow> (if v = [] then Inr None else Inr (Some v))
                  | None \<Rightarrow> Inr None)))"

text \<open>The byte-level part of \<^verbatim>\<open>insert\<close>: the pair goes into the cache.\<close>

definition insert_bytes :: "bytes \<Rightarrow> bytes \<Rightarrow> 't general_service_state \<Rightarrow> 't general_service_state" where
  "insert_bytes k v s = s\<lparr>cache_map := hm_insert k v (cache_map s)\<rparr>"

definition revert_cache :: "'t general_service_state \<Rightarrow> 't general_service_state" where
  "revert_cache s = s\<lparr>cache_map := []\<rparr>"

definition stash :: "'t general_service_state \<Rightarrow> 't general_service_state" where
  "stash s = s\<lparr>stash_map := fold (\<lambda>(k, v). hm_insert k v) (cache_map s) (stash_map s), cache_map := []\<rparr>"

definition commit ::
    "'t trie_ops \<Rightarrow> 't general_service_state \<Rightarrow> (state_error, hash \<times> 't general_service_state) result" where
  "commit ops s =
     res_bind (res_fold (\<lambda>(k, v). mpt_insert ops k v) (stash_map s) (gs_trie s))
       (\<lambda>t. res_map (\<lambda>(root, t). (root, s\<lparr>stash_map := [], gs_trie := t\<rparr>)) (mpt_commit ops t))"

text \<open>
  The typed operations of the trait, over any state that offers the byte-level ones: \<^verbatim>\<open>get\<close>,
  \<^verbatim>\<open>contains\<close>, \<^verbatim>\<open>insert\<close> and the account values.
\<close>

type_synonym 's st_get = "'s \<Rightarrow> bytes \<Rightarrow> (state_error, bytes option) result"
type_synonym 's st_ins = "bytes \<Rightarrow> bytes \<Rightarrow> 's \<Rightarrow> 's"

definition state_get :: "'s st_get \<Rightarrow> 'k codec \<Rightarrow> 'v codec \<Rightarrow> 's \<Rightarrow> 'k \<Rightarrow> (state_error, 'v option) result" where
  "state_get get kc vc s k =
     res_bind (map_codec_err (encode_fixed kc k)) (\<lambda>kb.
       res_bind (get s kb) (\<lambda>r. case r of
           Some vb \<Rightarrow> res_map Some (map_codec_err (decode_fixed vc vb))
         | None \<Rightarrow> Inr None))"

definition state_contains :: "'s st_get \<Rightarrow> 'k codec \<Rightarrow> 's \<Rightarrow> 'k \<Rightarrow> (state_error, bool) result" where
  "state_contains get kc s k =
     res_bind (map_codec_err (encode_fixed kc k)) (\<lambda>kb. res_map (\<lambda>r. r \<noteq> None) (get s kb))"

definition state_insert :: "'s st_ins \<Rightarrow> 'k codec \<Rightarrow> 'v codec \<Rightarrow> 'k \<Rightarrow> 'v \<Rightarrow> 's \<Rightarrow> (state_error, 's) result" where
  "state_insert ins kc vc k v s =
     res_bind (map_codec_err (encode_fixed kc k)) (\<lambda>kb.
       res_bind (map_codec_err (encode_fixed vc v)) (\<lambda>vb. Inr (ins kb vb s)))"

definition get_address_key ::
    "(bytes \<Rightarrow> bytes) \<Rightarrow> 'k codec \<Rightarrow> address \<Rightarrow> 'k \<Rightarrow> (state_error, hash) result" where
  "get_address_key digest kc a k =
     res_map (\<lambda>kb. hash_digest digest (address_bytes a @ kb)) (map_codec_err (encode_fixed kc k))"

definition state_get_account_value ::
    "'s st_get \<Rightarrow> (bytes \<Rightarrow> bytes) \<Rightarrow> hash codec \<Rightarrow> 'k codec \<Rightarrow> 'v codec \<Rightarrow> 's \<Rightarrow> address \<Rightarrow> 'k
     \<Rightarrow> (state_error, 'v option) result" where
  "state_get_account_value get digest hc kc vc s a k =
     res_bind (get_address_key digest kc a k) (state_get get hc vc s)"

definition state_set_account_value ::
    "'s st_ins \<Rightarrow> (bytes \<Rightarrow> bytes) \<Rightarrow> hash codec \<Rightarrow> 'k codec \<Rightarrow> 'v codec \<Rightarrow> address \<Rightarrow> 'k \<Rightarrow> 'v \<Rightarrow> 's
     \<Rightarrow> (state_error, 's) result" where
  "state_set_account_value ins digest hc kc vc a k v s =
     res_bind (get_address_key digest kc a k) (\<lambda>h. state_insert ins hc vc h v s)"

section \<open>The interface of the state\<close>

text \<open>
  What a store may rely on: a read after a write of the same key sees the written bytes, an empty
  value counting as absent, and a write of another key is not seen.
\<close>

definition present :: "bytes \<Rightarrow> bytes option" where
  "present v = (if v = [] then None else Some v)"

locale kv_state =
  fixes get :: "'s st_get" and ins :: "'s st_ins"
  assumes get_ins: "get (ins k v s) k' = (if k' = k then Inr (present v) else get s k')"
begin

lemma get_ins_same [simp]: "get (ins k v s) k = Inr (present v)"
  by (simp add: get_ins)

lemma get_ins_other [simp]: "k' \<noteq> k \<Longrightarrow> get (ins k v s) k' = get s k'"
  by (simp add: get_ins)

lemma state_get_insert_same:
  assumes "codec_lawful vc" "codec_nonempty vc" "state_insert ins kc vc k v s = Inr s'"
  shows "state_get get kc vc s' k = Inr (Some v)"
proof -
  obtain vb where vb: "encode_fixed vc v = Inr vb" "decode_fixed vc vb = Inr v" "vb \<noteq> []"
    using assms(1,2) by (metis codec_lawfulE codec_nonempty_def)
  obtain kb where "encode_fixed kc k = Inr kb" "s' = ins kb vb s"
    using assms(3) vb
    by (auto simp: state_insert_def map_codec_err_def res_bind_Inr_iff split: sum.splits failure.splits)
  then show ?thesis
    using vb by (simp add: state_get_def map_codec_err_def present_def)
qed

lemma state_get_insert_other:
  assumes "encode_fixed kc k = Inr kb" "encode_fixed kc' k' = Inr kb'" "kb' \<noteq> kb"
    and "state_insert ins kc vc k v s = Inr s'"
  shows "state_get get kc' vc' s' k' = state_get get kc' vc' s k'"
  using assms
  by (auto simp: state_insert_def state_get_def map_codec_err_def res_bind_Inr_iff
      split: sum.splits failure.splits)

lemma account_value_roundtrip:
  assumes "codec_lawful vc" "codec_nonempty vc"
    and "state_set_account_value ins digest hc kc vc a k v s = Inr s'"
  shows "state_get_account_value get digest hc kc vc s' a k = Inr (Some v)"
proof -
  obtain h where h: "get_address_key digest kc a k = Inr h"
    and s': "state_insert ins hc vc h v s = Inr s'"
    using assms(3) by (auto simp: state_set_account_value_def res_bind_Inr_iff)
  from state_get_insert_same [OF assms(1,2) s'] h show ?thesis
    by (simp add: state_get_account_value_def)
qed

end

interpretation gss: kv_state "get_bytes_value ops" insert_bytes for ops
  by unfold_locales (auto simp: get_bytes_value_def insert_bytes_def present_def split: option.splits)

section \<open>The three versions of the state\<close>

text \<open>
  The abstract state: what a read sees now, what it sees after a revert, and what the committed trie
  holds.
\<close>

record layers =
  l_tx :: "bytes \<Rightarrow> bytes option"
  l_block :: "bytes \<Rightarrow> bytes option"
  l_root :: "bytes \<Rightarrow> bytes option"

definition nonempty_opt :: "bytes option \<Rightarrow> bytes option" where
  "nonempty_opt r = (case r of Some v \<Rightarrow> present v | None \<Rightarrow> None)"

definition overlay :: "(bytes, bytes) hash_map \<Rightarrow> (bytes \<Rightarrow> bytes option) \<Rightarrow> bytes \<Rightarrow> bytes option" where
  "overlay m f k = (case hm_get m k of Some v \<Rightarrow> present v | None \<Rightarrow> f k)"

text \<open>
  \<^verbatim>\<open>view\<close> reads a trie. Reads and writes of a trie whose database answers succeed; a write is seen at
  its key only, where the empty value may be kept or dropped; taking the root keeps the content and
  gives 32 bytes.
\<close>

definition trie_lawful :: "'t trie_ops \<Rightarrow> ('t \<Rightarrow> bytes \<Rightarrow> bytes option) \<Rightarrow> bool" where
  "trie_lawful ops view \<longleftrightarrow>
     (\<forall>t k. trie_get ops t k = Inr (view t k)) \<and>
     (\<forall>t k v. \<exists>t'. trie_insert ops k v t = Inr t' \<and> nonempty_opt (view t' k) = present v \<and>
        (\<forall>k'. k' \<noteq> k \<longrightarrow> view t' k' = view t k')) \<and>
     (\<forall>t. \<exists>r t'. trie_root ops t = Inr (r, t') \<and> length r = 32 \<and> view t' = view t)"

definition gs_layers :: "('t \<Rightarrow> bytes \<Rightarrow> bytes option) \<Rightarrow> 't general_service_state \<Rightarrow> layers" where
  "gs_layers view s =
     (let root = (\<lambda>k. nonempty_opt (view (mpt_inner (gs_trie s)) k));
          blk = overlay (stash_map s) root
      in \<lparr>l_tx = overlay (cache_map s) blk, l_block = blk, l_root = root\<rparr>)"

definition gs_wf :: "'t general_service_state \<Rightarrow> bool" where
  "gs_wf s \<longleftrightarrow> hm_wf (cache_map s) \<and> hm_wf (stash_map s)"

lemma get_bytes_value_layers:
  "trie_lawful ops view \<Longrightarrow> get_bytes_value ops s k = Inr (l_tx (gs_layers view s) k)"
  by (auto simp: trie_lawful_def get_bytes_value_def gs_layers_def Let_def overlay_def present_def
      mpt_get_def map_trie_err_def nonempty_opt_def split: option.split)

lemma overlay_empty [simp]: "overlay [] f = f"
  by (simp add: overlay_def fun_eq_iff)

lemma overlay_insert: "overlay (hm_insert k v m) f = (overlay m f)(k := present v)"
  by (auto simp: overlay_def)

lemma overlay_fold_insert:
  "hm_wf m \<Longrightarrow> overlay (fold (\<lambda>(k, v). hm_insert k v) m m') f = overlay m (overlay m' f)"
proof (induction m arbitrary: m')
  case Nil
  show ?case by (simp add: overlay_def fun_eq_iff)
next
  case (Cons e m)
  obtain k v where e: "e = (k, v)" by fastforce
  have "k \<notin> fst ` set m" using Cons.prems e by simp
  then have "hm_get m k = None" by (simp add: map_of_eq_None_iff)
  then show ?case
    using Cons e by (auto simp: overlay_insert) (auto simp: overlay_def fun_eq_iff split: option.split)
qed

lemma gs_wf_ops [simp]:
  "gs_wf (gs_new t)"
  "gs_wf s \<Longrightarrow> gs_wf (insert_bytes k v s)"
  "gs_wf s \<Longrightarrow> gs_wf (revert_cache s)"
  by (simp_all add: gs_wf_def gs_new_def insert_bytes_def revert_cache_def)

lemma gs_wf_stash [simp]: "gs_wf s \<Longrightarrow> gs_wf (stash s)"
proof -
  have "hm_wf (fold (\<lambda>(k, v). hm_insert k v) m m')" if "hm_wf m'" for m m' :: "(bytes, bytes) hash_map"
    using that by (induction m arbitrary: m') auto
  then show "gs_wf s \<Longrightarrow> gs_wf (stash s)" by (simp add: gs_wf_def stash_def)
qed

text \<open>Writing the stash into the trie entry by entry gives the overlay, in whatever order.\<close>

lemma trie_writes:
  assumes law: "trie_lawful ops view" and "hm_wf m"
  shows "\<exists>t'. res_fold (\<lambda>(k, v). mpt_insert ops k v) m t = Inr t' \<and>
    (\<forall>k. nonempty_opt (view (mpt_inner t') k) =
         overlay m (\<lambda>k. nonempty_opt (view (mpt_inner t) k)) k)"
  using assms(2)
proof (induction m arbitrary: t)
  case Nil
  show ?case by (simp add: overlay_def)
next
  case (Cons e m)
  obtain k v where e: "e = (k, v)" by fastforce
  from law obtain i where i: "trie_insert ops k v (mpt_inner t) = Inr i"
    "nonempty_opt (view i k) = present v" "\<And>k'. k' \<noteq> k \<Longrightarrow> view i k' = view (mpt_inner t) k'"
    unfolding trie_lawful_def by metis
  from Cons obtain t' where t': "res_fold (\<lambda>(k, v). mpt_insert ops k v) m (t\<lparr>mpt_inner := i\<rparr>) = Inr t'"
    "\<And>k. nonempty_opt (view (mpt_inner t') k) = overlay m (\<lambda>k. nonempty_opt (view i k)) k"
    by fastforce
  have "hm_get m k = None" using Cons.prems e by (simp add: map_of_eq_None_iff)
  then have "overlay m (\<lambda>k. nonempty_opt (view i k)) k' =
      overlay (e # m) (\<lambda>k. nonempty_opt (view (mpt_inner t) k)) k'" for k'
    using i e by (auto simp: overlay_def split: option.split)
  moreover have "mpt_insert ops k v t = Inr (t\<lparr>mpt_inner := i\<rparr>)"
    using i(1) by (simp add: mpt_insert_def map_trie_err_def)
  ultimately show ?case using t' e by simp
qed

lemma commit_layers:
  assumes law: "trie_lawful ops view" and "gs_wf s"
  shows "\<exists>root s'. commit ops s = Inr (root, s') \<and> length (hash_bytes root) = 32 \<and> gs_wf s' \<and>
    stash_map s' = [] \<and>
    gs_layers view s' = (gs_layers view s)\<lparr>l_root := l_block (gs_layers view s)\<rparr>"
proof -
  from trie_writes [OF law, of "stash_map s" "gs_trie s"] assms(2) obtain t where
    t: "res_fold (\<lambda>(k, v). mpt_insert ops k v) (stash_map s) (gs_trie s) = Inr t"
    "\<And>k. nonempty_opt (view (mpt_inner t) k) =
      overlay (stash_map s) (\<lambda>k. nonempty_opt (view (mpt_inner (gs_trie s)) k)) k"
    by (auto simp: gs_wf_def)
  from law obtain r i where r: "trie_root ops (mpt_inner t) = Inr (r, i)" "length r = 32"
    "view i = view (mpt_inner t)"
    unfolding trie_lawful_def by metis
  let ?s = "s\<lparr>stash_map := [], gs_trie := \<lparr>mpt_root = Hash r, mpt_inner = i\<rparr>\<rparr>"
  have "commit ops s = Inr (Hash r, ?s)"
    using t r by (simp add: commit_def mpt_commit_def map_trie_err_def hash_from_bytes_def HASH_LEN_def
        ensure_len_def)
  moreover have "gs_layers view ?s = (gs_layers view s)\<lparr>l_root := l_block (gs_layers view s)\<rparr>"
    by (simp add: gs_layers_def Let_def r(3) t(2))
  ultimately show ?thesis using r assms(2) by (fastforce simp: gs_wf_def)
qed

section \<open>Properties\<close>

text \<open>
  (C5) The service state refines a map with three versions. Over a lawful trie: a read answers the
  transaction version; an insert changes the transaction version at one key (an empty value removes
  it); \<^verbatim>\<open>revert_cache\<close> resets the transaction version to the block version; \<^verbatim>\<open>stash\<close> promotes the
  transaction version to the block version; \<^verbatim>\<open>commit\<close> succeeds with a 32-byte root, whatever the order
  in which the stash is drained, and promotes the block version to the committed one.
\<close>

theorem service_state_refines_layers:
  assumes "trie_lawful ops view" and "gs_wf s"
  defines "L \<equiv> gs_layers view"
  shows "get_bytes_value ops s k = Inr (l_tx (L s) k) \<and>
    L (insert_bytes k v s) = (L s)\<lparr>l_tx := (l_tx (L s))(k := present v)\<rparr> \<and>
    L (revert_cache s) = (L s)\<lparr>l_tx := l_block (L s)\<rparr> \<and>
    L (stash s) = (L s)\<lparr>l_block := l_tx (L s)\<rparr> \<and>
    (\<exists>root s'. commit ops s = Inr (root, s') \<and> length (hash_bytes root) = 32 \<and>
       L s' = (L s)\<lparr>l_root := l_block (L s)\<rparr>)"
proof (intro conjI)
  show "get_bytes_value ops s k = Inr (l_tx (L s) k)"
    unfolding L_def using assms(1) by (rule get_bytes_value_layers)
  show "L (insert_bytes k v s) = (L s)\<lparr>l_tx := (l_tx (L s))(k := present v)\<rparr>"
    by (simp add: L_def gs_layers_def Let_def insert_bytes_def overlay_insert)
  show "L (revert_cache s) = (L s)\<lparr>l_tx := l_block (L s)\<rparr>"
    by (simp add: L_def gs_layers_def Let_def revert_cache_def overlay_def fun_eq_iff)
  show "L (stash s) = (L s)\<lparr>l_block := l_tx (L s)\<rparr>"
    using assms(2) by (simp add: L_def gs_layers_def Let_def stash_def gs_wf_def overlay_fold_insert)
  show "\<exists>root s'. commit ops s = Inr (root, s') \<and> length (hash_bytes root) = 32 \<and>
       L s' = (L s)\<lparr>l_root := l_block (L s)\<rparr>"
    unfolding L_def using commit_layers [OF assms(1,2)] by blast
qed

text \<open>A trie kept as an association list is lawful.\<close>

definition list_trie :: "(bytes, bytes) hash_map trie_ops" where
  "list_trie = \<lparr>trie_new = [], trie_from = (\<lambda>_. Inr []), trie_get = (\<lambda>t k. Inr (hm_get t k)),
     trie_contains = (\<lambda>t k. Inr (hm_contains t k)),
     trie_insert = (\<lambda>k v t. Inr (if v = [] then hm_remove k t else hm_insert k v t)),
     trie_root = (\<lambda>t. Inr (replicate 32 0, t))\<rparr>"

lemma list_trie_lawful: "trie_lawful list_trie hm_get"
  by (auto simp: trie_lawful_def list_trie_def nonempty_opt_def present_def)

theorem service_state_refines_layers_witness:
  "get_bytes_value list_trie (insert_bytes [1] [7] (gs_new (mpt_new list_trie (\<lambda>_. replicate 32 0)))) [1]
     = Inr (Some [7]) \<and>
   (\<exists>root s'. commit list_trie (stash (insert_bytes [1] [7] (gs_new (mpt_new list_trie (\<lambda>_. replicate 32 0)))))
      = Inr (root, s') \<and> l_root (gs_layers hm_get s') [1] = Some [7])"
proof -
  let ?s = "gs_new (mpt_new list_trie (\<lambda>_. replicate 32 0))"
  have wf: "gs_wf (insert_bytes [1] [7] ?s)" "gs_wf (stash (insert_bytes [1] [7] ?s))" by simp_all
  note one = service_state_refines_layers [OF list_trie_lawful wf(1), of "[1]"]
  note two = service_state_refines_layers [OF list_trie_lawful wf(2)]
  have tx: "l_tx (gs_layers hm_get (insert_bytes [1] [7] ?s)) [1] = Some [7]"
    by (simp add: gs_layers_def Let_def insert_bytes_def gs_new_def overlay_def present_def)
  with one two show ?thesis by fastforce
qed

end
