(* ===== verification/Service_Macro.thy ===== *)
theory Service_Macro
  imports Service_State
begin

text \<open>
  The attributes of \<^verbatim>\<open>binding-macro/src\<close>, which turn an \<^verbatim>\<open>impl\<close> block into a \<^verbatim>\<open>Service\<close>: the checks
  of the signatures (\<^verbatim>\<open>read_write.rs\<close>, \<^verbatim>\<open>hooks.rs\<close>, \<^verbatim>\<open>common.rs\<close>), the collection of the methods and
  hooks, and the generated trait implementation (\<^verbatim>\<open>service.rs\<close>).

  A method is the part of the syntax tree the macros read (package \<^verbatim>\<open>syn\<close>) together with the meaning
  of its body. The serializer (package \<^verbatim>\<open>serde_json\<close>) is an argument. A panic of a macro is a compile
  error of the service; a panic of a body is the value \<^const>\<open>None\<close>.
\<close>

section \<open>The world of a service\<close>

text \<open>
  The states of all services, shared by the executor and the service objects, and the memory of the
  service objects themselves.
\<close>

type_synonym 't service_states = "(string, 't general_service_state) hash_map"

record ('t, 'm) world =
  wd_states :: "'t service_states"
  wd_mem :: 'm

type_synonym ('w, 'a) svc_run = "'w \<Rightarrow> 'a option \<times> 'w"
type_synonym ('w, 'a) svc_call = "service_context \<Rightarrow> 'w \<Rightarrow> 'a service_response option \<times> service_context \<times> 'w"

text \<open>The trait \<^verbatim>\<open>Service\<close>.\<close>

record 'w service =
  svc_genesis :: "string \<Rightarrow> ('w, unit) svc_run"
  svc_hook_before :: "executor_params \<Rightarrow> ('w, unit) svc_run"
  svc_hook_after :: "executor_params \<Rightarrow> ('w, unit) svc_run"
  svc_tx_hook_before :: "('w, string) svc_call"
  svc_tx_hook_after :: "('w, string) svc_call"
  svc_write :: "('w, string) svc_call"
  svc_read :: "('w, string) svc_call"

section \<open>The syntax the macros read\<close>

datatype path_segment = Segment (seg_ident: string) (seg_args: bool)

record rust_path =
  leading_colon :: bool
  path_segments :: "path_segment list"

datatype rust_type = PathType rust_path | ReferenceType rust_type | OtherType

datatype pat = PatIdent string | PatOther

datatype fn_arg = Receiver bool bool | Typed pat rust_type

datatype visibility = Inherited | OtherVisibility

record ('p, 'r, 'w) impl_item_method =
  im_vis :: visibility
  im_attrs :: "string list list"
  im_ident :: string
  im_inputs :: "fn_arg list"
  im_output :: "rust_type option"
  im_method :: "'p option \<Rightarrow> ('w, 'r) svc_call"
  im_hook :: "executor_params \<Rightarrow> ('w, unit) svc_run"
  im_genesis :: "'p option \<Rightarrow> ('w, unit) svc_run"

record ('p, 'r) serde =
  sj_from_str :: "string \<Rightarrow> string \<Rightarrow> 'p option"
  sj_to_string :: "'r \<Rightarrow> string option"

text \<open>\<^verbatim>\<open>Path::get_ident\<close> of \<^verbatim>\<open>syn\<close>.\<close>

definition get_ident :: "rust_path \<Rightarrow> string option" where
  "get_ident p =
     (case path_segments p of
        [s] \<Rightarrow> (if \<not> leading_colon p \<and> \<not> seg_args s then Some (seg_ident s) else None)
      | _ \<Rightarrow> None)"

section \<open>Checks of the signatures\<close>

definition path_is_request_context :: "rust_path \<Rightarrow> string \<Rightarrow> bool" where
  "path_is_request_context path bound_name \<longleftrightarrow>
     (if leading_colon path then False
      else length (path_segments path) = 1 \<and> seg_ident (hd (path_segments path)) = bound_name)"

definition get_request_context_pat :: "string \<Rightarrow> fn_arg \<Rightarrow> pat option" where
  "get_request_context_pat bound_name arg =
     (case arg of
        Typed p (PathType path) \<Rightarrow> (if path_is_request_context path bound_name then Some p else None)
      | _ \<Rightarrow> None)"

fun find_request_ident :: "string \<Rightarrow> fn_arg list \<Rightarrow> pat option" where
  "find_request_ident bound_name [] = None"
| "find_request_ident bound_name (a # as) =
     (case get_request_context_pat bound_name a of
        Some p \<Rightarrow> Some p
      | None \<Rightarrow> find_request_ident bound_name as)"

definition assert_type :: "rust_type \<Rightarrow> string \<Rightarrow> (unit, unit) result" where
  "assert_type ty ty_str =
     (case ty of
        PathType path \<Rightarrow>
          (if \<not> leading_colon path \<and> length (path_segments path) = 1 \<and>
              seg_ident (hd (path_segments path)) = ty_str
           then Inr () else Inl Panic)
      | _ \<Rightarrow> Inl Panic)"

definition assert_reference_type :: "rust_type \<Rightarrow> string \<Rightarrow> (unit, unit) result" where
  "assert_reference_type ty ty_str =
     (case ty of ReferenceType t \<Rightarrow> assert_type t ty_str | _ \<Rightarrow> Inl Panic)"

definition arg_is_mutable_receiver :: "fn_arg \<Rightarrow> bool" where
  "arg_is_mutable_receiver arg = (case arg of Receiver reference mutability \<Rightarrow> reference \<and> mutability | _ \<Rightarrow> False)"

definition arg_is_immutable_receiver :: "fn_arg \<Rightarrow> bool" where
  "arg_is_immutable_receiver arg = (case arg of Receiver reference mutability \<Rightarrow> reference \<and> \<not> mutability | _ \<Rightarrow> False)"

definition verify_visibiity :: "visibility \<Rightarrow> (unit, unit) result" where
  "verify_visibiity v = (case v of Inherited \<Rightarrow> Inr () | _ \<Rightarrow> Inl Panic)"

definition verify_inputs :: "fn_arg list \<Rightarrow> bool \<Rightarrow> (unit, unit) result" where
  "verify_inputs inputs mutable =
     (if length inputs < 2 \<or> length inputs > 3 then Inl Panic
      else if mutable \<and> \<not> arg_is_mutable_receiver (inputs ! 0) then Inl Panic
      else if \<not> mutable \<and> \<not> arg_is_immutable_receiver (inputs ! 0) then Inl Panic
      else (case inputs ! 1 of
              Typed _ ty \<Rightarrow> assert_type ty ''ServiceContext''
            | _ \<Rightarrow> Inl Panic))"

definition verify_ret_type :: "rust_type option \<Rightarrow> (unit, unit) result" where
  "verify_ret_type ret = (case ret of Some t \<Rightarrow> assert_type t ''ServiceResponse'' | None \<Rightarrow> Inl Panic)"

definition verify_read_or_write ::
    "('p, 'r, 'w) impl_item_method \<Rightarrow> bool \<Rightarrow> (unit, ('p, 'r, 'w) impl_item_method) result" where
  "verify_read_or_write item mutable =
     res_bind (verify_visibiity (im_vis item)) (\<lambda>_.
       res_bind (verify_inputs (im_inputs item) mutable) (\<lambda>_.
         res_bind (verify_ret_type (im_output item)) (\<lambda>_. Inr item)))"

definition verify_hook :: "('p, 'r, 'w) impl_item_method \<Rightarrow> (unit, ('p, 'r, 'w) impl_item_method) result" where
  "verify_hook item =
     (if length (im_inputs item) \<noteq> 2 then Inl Panic
      else if \<not> arg_is_mutable_receiver (im_inputs item ! 0) then Inl Panic
      else res_bind
        (case im_inputs item ! 1 of
           Typed _ ty \<Rightarrow> assert_reference_type ty ''ExecutorParams''
         | _ \<Rightarrow> Inl Panic)
        (\<lambda>_. Inr item))"

text \<open>
  \<^verbatim>\<open>gen_cycles_code\<close>: the argument that carries the context must be a plain variable; the generated
  guard is \<^const>\<open>with_cycles\<close>.
\<close>

definition gen_cycles_code ::
    "u64 \<Rightarrow> 'r \<Rightarrow> ('p, 'r, 'w) impl_item_method \<Rightarrow> (unit, ('p, 'r, 'w) impl_item_method) result" where
  "gen_cycles_code cycles dflt item =
     (case find_request_ident ''ServiceContext'' (im_inputs item) of
        None \<Rightarrow> Inl Panic
      | Some PatOther \<Rightarrow> Inl Panic
      | Some (PatIdent _) \<Rightarrow>
          Inr (item\<lparr>im_method := (\<lambda>payload ctx w.
            (case sub_cycles ctx cycles of
               (True, ctx) \<Rightarrow> im_method item payload ctx w
             | (False, ctx) \<Rightarrow>
                 (Some (from_error dflt 3 ''cycles macro consume cycles fialed: out of cycles''), ctx, w)))\<rparr>))"

section \<open>Collecting the methods\<close>

datatype ('p, 'r, 'w) service_method =
    Read "('p, 'r, 'w) impl_item_method"
  | Write "('p, 'r, 'w) impl_item_method"

record ('p, 'r, 'w) hooks =
  hk_before :: "('p, 'r, 'w) impl_item_method option"
  hk_after :: "('p, 'r, 'w) impl_item_method option"
  hk_tx_before :: "('p, 'r, 'w) impl_item_method option"
  hk_tx_after :: "('p, 'r, 'w) impl_item_method option"

record ('p, 'r, 'w) method_meta =
  mm_method :: "('p, 'r, 'w) impl_item_method"
  mm_payload :: "string option"
  mm_readonly :: bool

text \<open>The loops over the attributes visit every segment of every attribute path in order.\<close>

definition attr_segments :: "('p, 'r, 'w) impl_item_method \<Rightarrow> string list" where
  "attr_segments item = concat (im_attrs item)"

definition find_service_method :: "('p, 'r, 'w) impl_item_method \<Rightarrow> ('p, 'r, 'w) service_method option" where
  "find_service_method item =
     (case find (\<lambda>s. s = ''read'' \<or> s = ''write'') (attr_segments item) of
        None \<Rightarrow> None
      | Some s \<Rightarrow> Some (if s = ''read'' then Read item else Write item))"

text \<open>At most one segment of the block may name the attribute.\<close>

definition unique_method ::
    "string \<Rightarrow> ('p, 'r, 'w) impl_item_method list \<Rightarrow> (unit, ('p, 'r, 'w) impl_item_method option) result" where
  "unique_method name items =
     (case concat (map (\<lambda>i. map (\<lambda>_. i) (filter (\<lambda>s. s = name) (attr_segments i))) items) of
        [] \<Rightarrow> Inr None
      | [i] \<Rightarrow> Inr (Some i)
      | _ \<Rightarrow> Inl Panic)"

definition find_genesis ::
    "('p, 'r, 'w) impl_item_method list \<Rightarrow> (unit, ('p, 'r, 'w) impl_item_method option) result" where
  "find_genesis items = unique_method ''genesis'' items"

definition extract_hooks :: "('p, 'r, 'w) impl_item_method list \<Rightarrow> (unit, ('p, 'r, 'w) hooks) result" where
  "extract_hooks items =
     res_bind (unique_method ''hook_before'' items) (\<lambda>b.
       res_bind (unique_method ''hook_after'' items) (\<lambda>a.
         res_bind (unique_method ''tx_hook_before'' items) (\<lambda>tb.
           res_bind (unique_method ''tx_hook_after'' items) (\<lambda>ta.
             Inr \<lparr>hk_before = b, hk_after = a, hk_tx_before = tb, hk_tx_after = ta\<rparr>))))"

definition payload_ident :: "fn_arg \<Rightarrow> (unit, string) result" where
  "payload_ident arg =
     (case arg of
        Typed _ (PathType path) \<Rightarrow> expect (get_ident path)
      | _ \<Rightarrow> Inl Panic)"

definition extract_method_meta :: "('p, 'r, 'w) service_method \<Rightarrow> (unit, ('p, 'r, 'w) method_meta) result" where
  "extract_method_meta sm =
     (let (item, readonly) = (case sm of Read i \<Rightarrow> (i, True) | Write i \<Rightarrow> (i, False))
      in if length (im_inputs item) = 2 then
           Inr \<lparr>mm_method = item, mm_payload = None, mm_readonly = readonly\<rparr>
         else if length (im_inputs item) = 3 then
           res_bind (payload_ident (im_inputs item ! 2))
             (\<lambda>p. Inr \<lparr>mm_method = item, mm_payload = Some p, mm_readonly = readonly\<rparr>)
         else Inl Panic)"

definition split_list_for_metadata ::
    "('p, 'r, 'w) method_meta list \<Rightarrow> bool \<Rightarrow> (string \<times> ('p, 'r, 'w) impl_item_method \<times> string) list" where
  "split_list_for_metadata list readonly =
     map (\<lambda>meta. (im_ident (mm_method meta), mm_method meta, the (mm_payload meta)))
       (filter (\<lambda>meta. mm_readonly meta = readonly \<and> mm_payload meta \<noteq> None) list)"

definition split_list_for_metadata_nonepayload ::
    "('p, 'r, 'w) method_meta list \<Rightarrow> bool \<Rightarrow> (string \<times> ('p, 'r, 'w) impl_item_method) list" where
  "split_list_for_metadata_nonepayload list readonly =
     map (\<lambda>meta. (im_ident (mm_method meta), mm_method meta))
       (filter (\<lambda>meta. mm_readonly meta = readonly \<and> mm_payload meta = None) list)"

section \<open>The generated code\<close>

text \<open>The data of a successful answer is serialized; \<^verbatim>\<open>null\<close> becomes the empty string.\<close>

definition encode_response ::
    "('p, 'r) serde \<Rightarrow> 'r service_response option \<times> service_context \<times> 'w
     \<Rightarrow> string service_response option \<times> service_context \<times> 'w" where
  "encode_response sj out =
     (case out of
        (None, ctx, w) \<Rightarrow> (None, ctx, w)
      | (Some res, ctx, w) \<Rightarrow>
          (if \<not> is_error res then
             (case sj_to_string sj (succeed_data res) of
                None \<Rightarrow> (None, ctx, w)
              | Some data_json \<Rightarrow>
                  (Some (from_succeed (if data_json = ''null'' then '''' else data_json)), ctx, w))
           else (Some (from_error '''' (code res) (error_message res)), ctx, w)))"

definition tx_hook_body ::
    "('p, 'r) serde \<Rightarrow> ('p, 'r, 'w) impl_item_method option \<Rightarrow> ('w, string) svc_call" where
  "tx_hook_body sj hook ctx w =
     (case hook of
        Some item \<Rightarrow> encode_response sj (im_method item None ctx w)
      | None \<Rightarrow> (Some (from_succeed ''''), ctx, w))"

definition hook_body ::
    "('p, 'r, 'w) impl_item_method option \<Rightarrow> executor_params \<Rightarrow> ('w, unit) svc_run" where
  "hook_body hook params w = (case hook of Some item \<Rightarrow> im_hook item params w | None \<Rightarrow> (Some (), w))"

definition get_genesis_body ::
    "('p, 'r) serde \<Rightarrow> ('p, 'r, 'w) impl_item_method option
     \<Rightarrow> (unit, string \<Rightarrow> ('w, unit) svc_run) result" where
  "get_genesis_body sj genesis =
     (case genesis of
        None \<Rightarrow> Inr (\<lambda>_ w. (Some (), w))
      | Some item \<Rightarrow>
          (if length (im_inputs item) = 1 then Inr (\<lambda>_. im_genesis item None)
           else if length (im_inputs item) = 2 then
             res_bind (payload_ident (im_inputs item ! 1))
               (\<lambda>p. Inr (\<lambda>payload w.
                  (case sj_from_str sj p payload of
                     None \<Rightarrow> (None, w)
                   | Some v \<Rightarrow> im_genesis item (Some v) w)))
           else Inl Panic))"

definition dispatch ::
    "('p, 'r) serde \<Rightarrow> ('p, 'r, 'w) method_meta list \<Rightarrow> bool \<Rightarrow> ('w, string) svc_call" where
  "dispatch sj metas readonly ctx w =
     (case map_of (split_list_for_metadata metas readonly) (ctx_service_method ctx) of
        Some (item, p) \<Rightarrow>
          (case sj_from_str sj p (ctx_service_payload ctx) of
             None \<Rightarrow> (Some (from_error '''' 1 ''decode service payload failed''), ctx, w)
           | Some payload \<Rightarrow> encode_response sj (im_method item (Some payload) ctx w))
      | None \<Rightarrow>
          (case map_of (split_list_for_metadata_nonepayload metas readonly) (ctx_service_method ctx) of
             Some item \<Rightarrow> encode_response sj (im_method item None ctx w)
           | None \<Rightarrow>
               (Some (from_error '''' 2
                  (''not found method:'' @ debug_string (ctx_service_method ctx) @
                   '' of service:'' @ debug_string (ctx_service_name ctx))), ctx, w)))"

definition gen_service_code ::
    "('p, 'r) serde \<Rightarrow> ('p, 'r, 'w) impl_item_method list \<Rightarrow> (unit, 'w service) result" where
  "gen_service_code sj items =
     res_bind (find_genesis items) (\<lambda>genesis.
       res_bind (get_genesis_body sj genesis) (\<lambda>genesis_body.
         res_bind (extract_hooks items) (\<lambda>hooks.
           res_bind (res_collect extract_method_meta (List.map_filter find_service_method items)) (\<lambda>metas.
             Inr \<lparr>svc_genesis = genesis_body,
                  svc_hook_before = hook_body (hk_before hooks),
                  svc_hook_after = hook_body (hk_after hooks),
                  svc_tx_hook_before = tx_hook_body sj (hk_tx_before hooks),
                  svc_tx_hook_after = tx_hook_body sj (hk_tx_after hooks),
                  svc_write = dispatch sj metas False,
                  svc_read = dispatch sj metas True\<rparr>))))"

section \<open>Which method a call reaches\<close>

text \<open>The class of a method: \<^const>\<open>True\<close> for \<^verbatim>\<open>read\<close>, \<^const>\<open>False\<close> for \<^verbatim>\<open>write\<close>.\<close>

definition method_kind :: "('p, 'r, 'w) impl_item_method \<Rightarrow> bool option" where
  "method_kind item =
     map_option (\<lambda>s. s = ''read'') (find (\<lambda>s. s = ''read'' \<or> s = ''write'') (attr_segments item))"

definition method_named ::
    "('p, 'r, 'w) impl_item_method list \<Rightarrow> bool \<Rightarrow> string \<Rightarrow> ('p, 'r, 'w) impl_item_method option" where
  "method_named items readonly name =
     find (\<lambda>i. im_ident i = name \<and> method_kind i = Some readonly) items"

text \<open>A direct call of one method on a serialized payload.\<close>

definition call_method :: "('p, 'r) serde \<Rightarrow> ('p, 'r, 'w) impl_item_method \<Rightarrow> ('w, string) svc_call" where
  "call_method sj item ctx w =
     (if length (im_inputs item) = 2 then encode_response sj (im_method item None ctx w)
      else (case payload_ident (im_inputs item ! 2) of
              Inl _ \<Rightarrow> (None, ctx, w)
            | Inr p \<Rightarrow>
                (case sj_from_str sj p (ctx_service_payload ctx) of
                   None \<Rightarrow> (Some (from_error '''' 1 ''decode service payload failed''), ctx, w)
                 | Some payload \<Rightarrow> encode_response sj (im_method item (Some payload) ctx w))))"

definition not_found_method :: "service_context \<Rightarrow> string service_response" where
  "not_found_method ctx =
     from_error '''' 2
       (''not found method:'' @ debug_string (ctx_service_method ctx) @
        '' of service:'' @ debug_string (ctx_service_name ctx))"

lemma find_service_method_kind:
  "find_service_method i = map_option (\<lambda>r. if r then Read i else Write i) (method_kind i)"
  by (auto simp: find_service_method_def method_kind_def split: option.split)

lemma extract_method_meta_Inr:
  "extract_method_meta (if r then Read i else Write i) = Inr m \<longleftrightarrow>
     (length (im_inputs i) = 2 \<and> m = \<lparr>mm_method = i, mm_payload = None, mm_readonly = r\<rparr>) \<or>
     (length (im_inputs i) = 3 \<and>
       (\<exists>p. payload_ident (im_inputs i ! 2) = Inr p \<and>
            m = \<lparr>mm_method = i, mm_payload = Some p, mm_readonly = r\<rparr>))"
  by (auto simp: extract_method_meta_def res_bind_Inr_iff)

lemma method_metas:
  assumes "res_collect extract_method_meta (List.map_filter find_service_method items) = Inr metas"
  shows "map (\<lambda>m. (mm_method m, mm_readonly m)) metas =
      List.map_filter (\<lambda>i. map_option (Pair i) (method_kind i)) items \<and>
    (\<forall>m \<in> set metas.
       (mm_payload m = None \<longrightarrow> length (im_inputs (mm_method m)) = 2) \<and>
       (\<forall>p. mm_payload m = Some p \<longrightarrow>
          length (im_inputs (mm_method m)) = 3 \<and> payload_ident (im_inputs (mm_method m) ! 2) = Inr p))"
  using assms
proof (induction items arbitrary: metas)
  case Nil
  then show ?case by (simp add: map_filter_def)
next
  case (Cons i items)
  show ?case
  proof (cases "method_kind i")
    case None
    then show ?thesis using Cons by (simp add: find_service_method_kind List.map_filter_simps)
  next
    case (Some r)
    let ?s = "if r then Read i else Write i"
    have "List.map_filter find_service_method (i # items) = ?s # List.map_filter find_service_method items"
      using Some by (simp add: find_service_method_kind [of i] List.map_filter_simps)
    with Cons.prems obtain m ms where m: "extract_method_meta ?s = Inr m" and
      ms: "res_collect extract_method_meta (List.map_filter find_service_method items) = Inr ms" and
      metas: "metas = m # ms"
      by (auto split: sum.splits)
    from m show ?thesis
      using Cons.IH [OF ms] Some metas unfolding extract_method_meta_Inr
      by (auto simp: List.map_filter_simps)
  qed
qed

lemma map_of_meta:
  assumes "distinct (map (\<lambda>m. im_ident (mm_method m)) metas)"
  shows "map_of (map (\<lambda>m. (im_ident (mm_method m), f m)) (filter P metas)) name =
    map_option f (find (\<lambda>m. im_ident (mm_method m) = name \<and> P m) metas)"
  using assms by (induction metas) (auto simp: map_of_eq_None_iff find_None_iff)

lemma find_unique:
  "find P xs = Some x \<Longrightarrow> distinct (map f xs) \<Longrightarrow> (\<And>y. P y \<Longrightarrow> f y = c) \<Longrightarrow>
   find (\<lambda>y. P y \<and> Q y) xs = (if Q x then Some x else None)"
proof (induction xs)
  case (Cons y ys)
  show ?case
  proof (cases "P y")
    case True
    then have "\<not> P z" if "z \<in> set ys" for z using that Cons.prems by force
    then have "find (\<lambda>y. P y \<and> Q y) ys = None" by (auto simp: find_None_iff)
    then show ?thesis using True Cons.prems by auto
  qed (use Cons in auto)
qed simp

lemma find_metas:
  assumes "map (\<lambda>m. (mm_method m, mm_readonly m)) metas =
      List.map_filter (\<lambda>i. map_option (Pair i) (method_kind i)) items"
  shows "map_option mm_method (find (\<lambda>m. im_ident (mm_method m) = name \<and> mm_readonly m = r) metas) =
    method_named items r name"
  using assms
proof (induction items arbitrary: metas)
  case Nil
  then show ?case by (simp add: method_named_def map_filter_def)
next
  case (Cons i items)
  then show ?case
    by (cases "method_kind i") (auto simp: method_named_def List.map_filter_simps)
qed

lemma metas_distinct:
  assumes "map (\<lambda>m. (mm_method m, mm_readonly m)) metas =
      List.map_filter (\<lambda>i. map_option (Pair i) (method_kind i)) items"
    and "distinct (map im_ident items)"
  shows "distinct (map (\<lambda>m. im_ident (mm_method m)) metas)"
proof -
  have "map (\<lambda>m. im_ident (mm_method m)) metas =
      map (im_ident \<circ> fst) (map (\<lambda>m. (mm_method m, mm_readonly m)) metas)" by simp
  also have "\<dots> = map im_ident (filter (\<lambda>i. method_kind i \<noteq> None) items)"
    unfolding assms(1) by (induction items) (auto simp: List.map_filter_simps split: option.split)
  finally show ?thesis using assms(2) by (simp add: distinct_map_filter)
qed

lemma dispatch_method:
  assumes metas: "res_collect extract_method_meta (List.map_filter find_service_method items) = Inr metas"
    and dist: "distinct (map im_ident items)"
  shows "dispatch sj metas r ctx w =
    (case method_named items r (ctx_service_method ctx) of
       Some item \<Rightarrow> call_method sj item ctx w
     | None \<Rightarrow> (Some (not_found_method ctx), ctx, w))"
proof -
  let ?n = "ctx_service_method ctx"
  let ?P = "\<lambda>m. im_ident (mm_method m) = ?n \<and> mm_readonly m = r"
  note mm = method_metas [OF metas]
  note d = metas_distinct [OF conjunct1 [OF mm] dist]
  note lookup = map_of_meta [OF d]
  have with_p: "map_of (split_list_for_metadata metas r) ?n =
      map_option (\<lambda>m. (mm_method m, the (mm_payload m)))
        (find (\<lambda>m. ?P m \<and> mm_payload m \<noteq> None) metas)"
    unfolding split_list_for_metadata_def by (simp add: lookup conj_assoc)
  have no_p: "map_of (split_list_for_metadata_nonepayload metas r) ?n =
      map_option mm_method (find (\<lambda>m. ?P m \<and> mm_payload m = None) metas)"
    unfolding split_list_for_metadata_nonepayload_def by (simp add: lookup conj_assoc)
  show ?thesis
  proof (cases "find ?P metas")
    case None
    then have "find (\<lambda>m. ?P m \<and> Q m) metas = None" for Q by (auto simp: find_None_iff)
    moreover have "method_named items r ?n = None"
      using find_metas [OF conjunct1 [OF mm], of ?n r] None by simp
    ultimately show ?thesis by (simp add: dispatch_def with_p no_p not_found_method_def)
  next
    case (Some m)
    have uniq: "find (\<lambda>m. ?P m \<and> Q m) metas = (if Q m then Some m else None)" for Q
      by (rule find_unique [OF Some d, where c = ?n]) simp
    have "m \<in> set metas" using Some by (auto simp: find_Some_iff)
    moreover have "method_named items r ?n = Some (mm_method m)"
      using find_metas [OF conjunct1 [OF mm], of ?n r] Some by simp
    ultimately show ?thesis
      using mm unfolding dispatch_def with_p no_p uniq
      by (cases "mm_payload m") (auto simp: call_method_def)
  qed
qed

section \<open>Property\<close>

text \<open>
  (C37) A call of a generated service reaches the method it names. Provided the methods of the block
  have different names, \<^verbatim>\<open>write_\<close> runs the body of the method named in the context if that method is
  marked \<^verbatim>\<open>write\<close>, on the decoded payload, and answers its serialized response; a payload that does
  not decode gives code 1, an unknown method or one marked \<^verbatim>\<open>read\<close> code 2, and neither changes the
  context or the world. \<^verbatim>\<open>read_\<close> does the same for the methods marked \<^verbatim>\<open>read\<close>.
\<close>

theorem generated_dispatch:
  assumes "gen_service_code sj items = Inr svc" and "distinct (map im_ident items)"
  shows "svc_write svc ctx w =
      (case method_named items False (ctx_service_method ctx) of
         Some item \<Rightarrow> call_method sj item ctx w
       | None \<Rightarrow> (Some (not_found_method ctx), ctx, w)) \<and>
    svc_read svc ctx w =
      (case method_named items True (ctx_service_method ctx) of
         Some item \<Rightarrow> call_method sj item ctx w
       | None \<Rightarrow> (Some (not_found_method ctx), ctx, w))"
  using assms by (auto simp: gen_service_code_def res_bind_Inr_iff dispatch_method)

end
