(* ===== verification/Store_Primitive.thy ===== *)
theory Store_Primitive
  imports Service_State
begin

text \<open>
  The scalar stores of \<^verbatim>\<open>framework/src/binding/store/primitive.rs\<close>: \<^verbatim>\<open>StoreBool\<close>, \<^verbatim>\<open>StoreUint64\<close> with
  its checked arithmetic, and \<^verbatim>\<open>StoreString\<close>. They are generic in the service state: the operations
  take its \<^verbatim>\<open>get\<close> and \<^verbatim>\<open>insert\<close>, the codec of hashes and the codec of the value; the client lemmas
  are proved from the interface \<^verbatim>\<open>kv_state\<close>.

  An error of the state makes the trait method panic, so every operation returns a value or a panic.
\<close>

text \<open>\<^verbatim>\<open>unwrap_or_else(|e| panic!(..))\<close>.\<close>

definition or_panic :: "('e, 'a) result \<Rightarrow> ('e, 'a) result" where
  "or_panic r = (case r of Inl _ \<Rightarrow> Inl Panic | Inr a \<Rightarrow> Inr a)"

definition store_key :: "(bytes \<Rightarrow> bytes) \<Rightarrow> string \<Rightarrow> string \<Rightarrow> hash" where
  "store_key digest var_name suffix = hash_digest digest (str_bytes (var_name @ suffix))"

definition store_bool_new :: "(bytes \<Rightarrow> bytes) \<Rightarrow> string \<Rightarrow> hash" where
  "store_bool_new digest var_name = store_key digest var_name ''bool''"

definition store_uint64_new :: "(bytes \<Rightarrow> bytes) \<Rightarrow> string \<Rightarrow> hash" where
  "store_uint64_new digest var_name = store_key digest var_name ''uint64''"

definition store_string_new :: "(bytes \<Rightarrow> bytes) \<Rightarrow> string \<Rightarrow> hash" where
  "store_string_new digest var_name = store_key digest var_name ''string''"

text \<open>A read of an absent scalar writes the default back.\<close>

definition scalar_get ::
    "'s st_get \<Rightarrow> 's st_ins \<Rightarrow> hash codec \<Rightarrow> 'v codec \<Rightarrow> 'v \<Rightarrow> hash \<Rightarrow> 's \<Rightarrow> (state_error, 'v \<times> 's) result" where
  "scalar_get get ins hc vc dflt key s =
     res_bind (state_get get hc vc s key) (\<lambda>r. case r of
         Some v \<Rightarrow> Inr (v, s)
       | None \<Rightarrow> res_bind (state_insert ins hc vc key dflt s) (\<lambda>s. Inr (dflt, s)))"

definition store_bool_get ::
    "'s st_get \<Rightarrow> 's st_ins \<Rightarrow> hash codec \<Rightarrow> hash \<Rightarrow> 's \<Rightarrow> (state_error, bool \<times> 's) result" where
  "store_bool_get get ins hc key s = or_panic (scalar_get get ins hc bool_codec False key s)"

definition store_bool_set ::
    "'s st_ins \<Rightarrow> hash codec \<Rightarrow> hash \<Rightarrow> bool \<Rightarrow> 's \<Rightarrow> (state_error, 's) result" where
  "store_bool_set ins hc key b s = or_panic (state_insert ins hc bool_codec key b s)"

definition uint_get ::
    "'s st_get \<Rightarrow> 's st_ins \<Rightarrow> hash codec \<Rightarrow> u64 codec \<Rightarrow> hash \<Rightarrow> 's \<Rightarrow> (state_error, u64 \<times> 's) result" where
  "uint_get get ins hc uc key s = or_panic (scalar_get get ins hc uc 0 key s)"

definition uint_set ::
    "'s st_ins \<Rightarrow> hash codec \<Rightarrow> u64 codec \<Rightarrow> hash \<Rightarrow> u64 \<Rightarrow> 's \<Rightarrow> (state_error, 's) result" where
  "uint_set ins hc uc key v s = or_panic (state_insert ins hc uc key v s)"

text \<open>The arithmetic operations answer \<^const>\<open>True\<close> when they did not happen.\<close>

definition uint_add ::
    "'s st_get \<Rightarrow> 's st_ins \<Rightarrow> hash codec \<Rightarrow> u64 codec \<Rightarrow> hash \<Rightarrow> u64 \<Rightarrow> 's \<Rightarrow> (state_error, bool \<times> 's) result" where
  "uint_add get ins hc uc key val s =
     res_bind (uint_get get ins hc uc key s) (\<lambda>(sv, s).
       case overflowing_add val sv of
         (added, False) \<Rightarrow> res_map (\<lambda>s. (False, s)) (uint_set ins hc uc key added s)
       | (_, True) \<Rightarrow> Inr (True, s))"

definition uint_sub ::
    "'s st_get \<Rightarrow> 's st_ins \<Rightarrow> hash codec \<Rightarrow> u64 codec \<Rightarrow> hash \<Rightarrow> u64 \<Rightarrow> 's \<Rightarrow> (state_error, bool \<times> 's) result" where
  "uint_sub get ins hc uc key val s =
     res_bind (uint_get get ins hc uc key s) (\<lambda>(sv, s).
       if sv \<ge> val then res_map (\<lambda>s. (False, s)) (uint_set ins hc uc key (sv - val) s)
       else Inr (True, s))"

definition uint_mul ::
    "'s st_get \<Rightarrow> 's st_ins \<Rightarrow> hash codec \<Rightarrow> u64 codec \<Rightarrow> hash \<Rightarrow> u64 \<Rightarrow> 's \<Rightarrow> (state_error, bool \<times> 's) result" where
  "uint_mul get ins hc uc key val s =
     res_bind (uint_get get ins hc uc key s) (\<lambda>(sv, s).
       case overflowing_mul val sv of
         (mul, False) \<Rightarrow> res_map (\<lambda>s. (False, s)) (uint_set ins hc uc key mul s)
       | (_, True) \<Rightarrow> Inr (True, s))"

definition uint_pow ::
    "'s st_get \<Rightarrow> 's st_ins \<Rightarrow> hash codec \<Rightarrow> u64 codec \<Rightarrow> hash \<Rightarrow> u32 \<Rightarrow> 's \<Rightarrow> (state_error, bool \<times> 's) result" where
  "uint_pow get ins hc uc key val s =
     res_bind (uint_get get ins hc uc key s) (\<lambda>(sv, s).
       case overflowing_pow sv (unat val) of
         (pow, False) \<Rightarrow> res_map (\<lambda>s. (False, s)) (uint_set ins hc uc key pow s)
       | (_, True) \<Rightarrow> Inr (True, s))"

definition uint_div ::
    "'s st_get \<Rightarrow> 's st_ins \<Rightarrow> hash codec \<Rightarrow> u64 codec \<Rightarrow> hash \<Rightarrow> u64 \<Rightarrow> 's \<Rightarrow> (state_error, bool \<times> 's) result" where
  "uint_div get ins hc uc key val s =
     res_bind (uint_get get ins hc uc key s) (\<lambda>(sv, s).
       if val = 0 then Inr (True, s)
       else res_map (\<lambda>s. (False, s)) (uint_set ins hc uc key (sv div val) s))"

definition uint_rem ::
    "'s st_get \<Rightarrow> 's st_ins \<Rightarrow> hash codec \<Rightarrow> u64 codec \<Rightarrow> hash \<Rightarrow> u64 \<Rightarrow> 's \<Rightarrow> (state_error, bool \<times> 's) result" where
  "uint_rem get ins hc uc key val s =
     res_bind (uint_get get ins hc uc key s) (\<lambda>(sv, s).
       if val = 0 then Inr (True, s)
       else res_map (\<lambda>s. (False, s)) (uint_set ins hc uc key (sv mod val) s))"

definition store_string_get ::
    "'s st_get \<Rightarrow> 's st_ins \<Rightarrow> hash codec \<Rightarrow> hash \<Rightarrow> 's \<Rightarrow> (state_error, string \<times> 's) result" where
  "store_string_get get ins hc key s = or_panic (scalar_get get ins hc string_codec '''' key s)"

definition store_string_set ::
    "'s st_ins \<Rightarrow> hash codec \<Rightarrow> hash \<Rightarrow> string \<Rightarrow> 's \<Rightarrow> (state_error, 's) result" where
  "store_string_set ins hc key v s = or_panic (state_insert ins hc string_codec key v s)"

definition store_string_len ::
    "'s st_get \<Rightarrow> 's st_ins \<Rightarrow> hash codec \<Rightarrow> hash \<Rightarrow> 's \<Rightarrow> (state_error, u64 \<times> 's) result" where
  "store_string_len get ins hc key s =
     res_map (\<lambda>(v, s). (of_nat (length v), s)) (store_string_get get ins hc key s)"

definition store_string_is_empty ::
    "'s st_get \<Rightarrow> 's st_ins \<Rightarrow> hash codec \<Rightarrow> hash \<Rightarrow> 's \<Rightarrow> (state_error, bool \<times> 's) result" where
  "store_string_is_empty get ins hc key s =
     res_map (\<lambda>(v, s). (v = [], s)) (store_string_get get ins hc key s)"

section \<open>Lemmas over the state interface\<close>

text \<open>The number a stored integer stands for; an absent one is 0.\<close>

definition uint_value :: "'s st_get \<Rightarrow> hash codec \<Rightarrow> u64 codec \<Rightarrow> hash \<Rightarrow> 's \<Rightarrow> nat" where
  "uint_value get hc uc key s =
     (case state_get get hc uc s key of Inr (Some v) \<Rightarrow> unat v | _ \<Rightarrow> 0)"

text \<open>The stored bytes, if any, can be read and decoded.\<close>

definition uint_readable :: "'s st_get \<Rightarrow> hash codec \<Rightarrow> u64 codec \<Rightarrow> hash \<Rightarrow> 's \<Rightarrow> bool" where
  "uint_readable get hc uc key s \<longleftrightarrow> is_ok (state_get get hc uc s key)"

text \<open>The outcome of a checked operation: the flag, and the number afterwards.\<close>

definition uint_outcome ::
    "'s st_get \<Rightarrow> hash codec \<Rightarrow> u64 codec \<Rightarrow> hash \<Rightarrow> (state_error, bool \<times> 's) result \<Rightarrow> bool \<Rightarrow> nat \<Rightarrow> bool" where
  "uint_outcome get hc uc key r failed n \<longleftrightarrow>
     (\<exists>s'. r = Inr (failed, s') \<and> uint_value get hc uc key s' = n \<and> uint_readable get hc uc key s')"

context kv_state
begin

lemma uint_set_ok:
  assumes "codec_lawful hc" "codec_lawful uc" "codec_nonempty uc"
  shows "\<exists>s'. uint_set ins hc uc key v s = Inr s' \<and> uint_value get hc uc key s' = unat v \<and>
    uint_readable get hc uc key s'"
proof -
  obtain kb where "encode_fixed hc key = Inr kb" using assms(1) by (rule codec_lawfulE)
  moreover obtain vb where "encode_fixed uc v = Inr vb" using assms(2) by (rule codec_lawfulE)
  ultimately have i: "state_insert ins hc uc key v s = Inr (ins kb vb s)"
    by (simp add: state_insert_def map_codec_err_def)
  from state_get_insert_same [OF assms(2,3) i] i show ?thesis
    by (simp add: uint_set_def or_panic_def uint_value_def uint_readable_def)
qed

lemma uint_get_ok:
  assumes "codec_lawful hc" "codec_lawful uc" "codec_nonempty uc" "uint_readable get hc uc key s"
  shows "\<exists>v s'. uint_get get ins hc uc key s = Inr (v, s') \<and> unat v = uint_value get hc uc key s \<and>
    uint_value get hc uc key s' = uint_value get hc uc key s \<and> uint_readable get hc uc key s'"
proof -
  from assms(4) obtain r where r: "state_get get hc uc s key = Inr r"
    by (auto simp: uint_readable_def is_ok_def split: sum.splits)
  show ?thesis
  proof (cases r)
    case None
    from uint_set_ok [OF assms(1-3), of key 0 s] obtain s' where s':
      "state_insert ins hc uc key 0 s = Inr s'" "uint_value get hc uc key s' = 0" "uint_readable get hc uc key s'"
      by (auto simp: uint_set_def or_panic_def split: sum.splits)
    then show ?thesis
      using r None by (simp add: uint_get_def scalar_get_def or_panic_def uint_value_def)
  next
    case (Some v)
    then show ?thesis
      using r assms(4) by (simp add: uint_get_def scalar_get_def or_panic_def uint_value_def)
  qed
qed

lemma uint_op_set:
  assumes "codec_lawful hc" "codec_lawful uc" "codec_nonempty uc"
  shows "uint_outcome get hc uc key (res_map (\<lambda>s. (False, s)) (uint_set ins hc uc key v s)) False (unat v)"
  using uint_set_ok [OF assms, of key v s] by (auto simp: uint_outcome_def)

lemma uint_ops:
  assumes "codec_lawful hc" "codec_lawful uc" "codec_nonempty uc" "uint_readable get hc uc key s"
  defines "n \<equiv> uint_value get hc uc key s"
  shows "uint_outcome get hc uc key (uint_add get ins hc uc key v s)
      (n + unat v \<ge> 2 ^ 64) (if n + unat v \<ge> 2 ^ 64 then n else n + unat v)" (is ?add)
    and "uint_outcome get hc uc key (uint_sub get ins hc uc key v s)
      (n < unat v) (if n < unat v then n else n - unat v)" (is ?sub)
    and "uint_outcome get hc uc key (uint_mul get ins hc uc key v s)
      (n * unat v \<ge> 2 ^ 64) (if n * unat v \<ge> 2 ^ 64 then n else n * unat v)" (is ?mul)
    and "uint_outcome get hc uc key (uint_pow get ins hc uc key e s)
      (n ^ unat e \<ge> 2 ^ 64) (if n ^ unat e \<ge> 2 ^ 64 then n else n ^ unat e)" (is ?pow)
    and "uint_outcome get hc uc key (uint_div get ins hc uc key v s)
      (v = 0) (if v = 0 then n else n div unat v)" (is ?div)
    and "uint_outcome get hc uc key (uint_rem get ins hc uc key v s)
      (v = 0) (if v = 0 then n else n mod unat v)" (is ?rem)
proof -
  from uint_get_ok [OF assms(1-4)] obtain sv s1 where g: "uint_get get ins hc uc key s = Inr (sv, s1)"
    and sv: "unat sv = n" and s1: "uint_value get hc uc key s1 = n" "uint_readable get hc uc key s1"
    by (auto simp: n_def)
  let ?put = "\<lambda>w. res_map (\<lambda>s. (False, s)) (uint_set ins hc uc key w s1)"
  have key: "uint_outcome get hc uc key (if f then Inr (True, s1) else ?put w) f (if f then n else m)"
    if "\<not> f \<Longrightarrow> unat w = m" for f w m
    using uint_op_set [OF assms(1-3), of key w s1] s1 that by (cases f) (simp_all add: uint_outcome_def)
  have "uint_add get ins hc uc key v s = (if n + unat v \<ge> 2 ^ 64 then Inr (True, s1) else ?put (v + sv))"
    by (simp add: uint_add_def g overflowing_add_def sv)
  moreover have "unat (v + sv) = n + unat v" if "\<not> n + unat v \<ge> 2 ^ 64"
    using that sv by (subst unat_add_exact) simp_all
  ultimately show ?add using key by presburger
  have "uint_sub get ins hc uc key v s = (if n < unat v then Inr (True, s1) else ?put (sv - v))"
    by (simp add: uint_sub_def g word_le_unat sv not_le)
  moreover have "unat (sv - v) = n - unat v" if "\<not> n < unat v"
    using that sv by (subst unat_sub_exact) (simp_all add: word_le_unat)
  ultimately show ?sub using key by presburger
  have "uint_mul get ins hc uc key v s = (if n * unat v \<ge> 2 ^ 64 then Inr (True, s1) else ?put (v * sv))"
    by (simp add: uint_mul_def g overflowing_mul_def sv mult.commute [of "unat v"])
  moreover have "unat (v * sv) = n * unat v" if "\<not> n * unat v \<ge> 2 ^ 64"
    using that sv by (subst unat_mul_exact) (simp_all add: mult.commute [of "unat v"])
  ultimately show ?mul using key by presburger
  have "uint_pow get ins hc uc key e s = (if n ^ unat e \<ge> 2 ^ 64 then Inr (True, s1) else ?put (sv ^ unat e))"
    by (simp add: uint_pow_def g overflowing_pow_def sv)
  moreover have "unat (sv ^ unat e) = n ^ unat e" if "\<not> n ^ unat e \<ge> 2 ^ 64"
    using that sv by (subst unat_pow_exact) simp_all
  ultimately show ?pow using key by presburger
  have "uint_div get ins hc uc key v s = (if v = 0 then Inr (True, s1) else ?put (sv div v))"
    by (simp add: uint_div_def g)
  moreover have "unat (sv div v) = n div unat v" by (simp add: unat_div sv)
  ultimately show ?div using key by presburger
  have "uint_rem get ins hc uc key v s = (if v = 0 then Inr (True, s1) else ?put (sv mod v))"
    by (simp add: uint_rem_def g)
  moreover have "unat (sv mod v) = n mod unat v" by (simp add: unat_mod sv)
  ultimately show ?rem using key by presburger
qed

end

section \<open>Properties\<close>

text \<open>
  (C7) Checked arithmetic of a stored integer on the service state. With lawful codecs and a readable
  value, each operation returns; it answers the failure flag exactly when the exact result does not
  fit in 64 bits, would be negative, or divides by zero, and then the number is unchanged; otherwise
  the stored number becomes the exact result.
\<close>

theorem store_uint64_exact:
  assumes "codec_lawful hc" "codec_lawful uc" "codec_nonempty uc"
    and "uint_readable (get_bytes_value ops) hc uc key s"
    and "uint_value (get_bytes_value ops) hc uc key s = n"
  shows "uint_outcome (get_bytes_value ops) hc uc key (uint_add (get_bytes_value ops) insert_bytes hc uc key v s)
      (n + unat v \<ge> 2 ^ 64) (if n + unat v \<ge> 2 ^ 64 then n else n + unat v) \<and>
    uint_outcome (get_bytes_value ops) hc uc key (uint_sub (get_bytes_value ops) insert_bytes hc uc key v s)
      (n < unat v) (if n < unat v then n else n - unat v) \<and>
    uint_outcome (get_bytes_value ops) hc uc key (uint_mul (get_bytes_value ops) insert_bytes hc uc key v s)
      (n * unat v \<ge> 2 ^ 64) (if n * unat v \<ge> 2 ^ 64 then n else n * unat v) \<and>
    uint_outcome (get_bytes_value ops) hc uc key (uint_pow (get_bytes_value ops) insert_bytes hc uc key e s)
      (n ^ unat e \<ge> 2 ^ 64) (if n ^ unat e \<ge> 2 ^ 64 then n else n ^ unat e) \<and>
    uint_outcome (get_bytes_value ops) hc uc key (uint_div (get_bytes_value ops) insert_bytes hc uc key v s)
      (v = 0) (if v = 0 then n else n div unat v) \<and>
    uint_outcome (get_bytes_value ops) hc uc key (uint_rem (get_bytes_value ops) insert_bytes hc uc key v s)
      (v = 0) (if v = 0 then n else n mod unat v)"
  using gss.uint_ops [OF assms(1-4)] unfolding assms(5) by blast

theorem store_uint64_exact_witness:
  "uint_outcome (get_bytes_value list_trie) raw_hash_codec le_u64_codec (Hash [1])
     (uint_add (get_bytes_value list_trie) insert_bytes raw_hash_codec le_u64_codec (Hash [1]) 5
       (gs_new (mpt_new list_trie (\<lambda>b. b)))) False 5"
proof -
  let ?s = "gs_new (mpt_new list_trie (\<lambda>b. b))"
  have none: "state_get (get_bytes_value list_trie) raw_hash_codec le_u64_codec ?s (Hash [1]) = Inr None"
    by (simp add: state_get_def raw_hash_codec_def map_codec_err_def get_bytes_value_def gs_new_def
        mpt_get_def mpt_new_def list_trie_def map_trie_err_def)
  have "uint_readable (get_bytes_value list_trie) raw_hash_codec le_u64_codec (Hash [1]) ?s"
    by (simp add: uint_readable_def none)
  moreover have "uint_value (get_bytes_value list_trie) raw_hash_codec le_u64_codec (Hash [1]) ?s = 0"
    by (simp add: uint_value_def none)
  ultimately show ?thesis
    using store_uint64_exact [where v = 5, OF raw_hash_codec_lawful le_u64_codec_lawful, THEN conjunct1]
    by force
qed

end
