(* ===== verification/Store_Map.thy ===== *)
theory Store_Map
  imports Store_Primitive
begin

text \<open>
  \<^verbatim>\<open>DefaultStoreMap\<close> of \<^verbatim>\<open>framework/src/binding/store/map.rs\<close> with the sixteen key buckets of
  \<^verbatim>\<open>store/mod.rs\<close>. The map keeps each value under its own state key, and the keys in sixteen buckets
  chosen by the last byte of the encoded key; a bucket is read from the state when it is first needed
  and then served from memory, and \<^verbatim>\<open>bucket_lens\<close> holds the running totals that the iterator uses.

  The client lemmas are proved from \<^verbatim>\<open>kv_state\<close>: the store map refines a finite map.
\<close>

section \<open>Buckets\<close>

text \<open>\<^verbatim>\<open>Bucket<K>(Vec<K>)\<close>. Indices are below sixteen: see \<^verbatim>\<open>get_bucket_index\<close>.\<close>

type_synonym 'k bucket = "'k list"

fun find_index :: "'k \<Rightarrow> 'k bucket \<Rightarrow> nat" where
  "find_index key [] = 0"
| "find_index key (item # rest) = (if item = key then 0 else Suc (find_index key rest))"

definition bucket_remove_item :: "'k \<Rightarrow> 'k bucket \<Rightarrow> (state_error, 'k \<times> 'k bucket) result" where
  "bucket_remove_item key b =
     (let idx = find_index key b in
      if idx < length b then Inr (b ! idx, take idx b @ drop (Suc idx) b) else Inl (Err GetNone))"

record 'k fixed_buckets =
  keys_bucket :: "'k bucket list"
  bucket_lens :: "u64 list"
  is_recovered :: "bool list"

definition fixed_buckets_new :: "'k fixed_buckets" where
  "fixed_buckets_new =
     \<lparr>keys_bucket = replicate 16 [], bucket_lens = replicate 17 0, is_recovered = replicate 16 False\<rparr>"

definition update_index_interval :: "nat \<Rightarrow> 'k fixed_buckets \<Rightarrow> 'k fixed_buckets" where
  "update_index_interval index fb =
     fb\<lparr>bucket_lens :=
       snd (fold (\<lambda>i (acc, lens).
              let acc = acc + of_nat (length (keys_bucket fb ! (i - 1))) in (acc, lens[i := acc]))
            [index + 1..<17] (bucket_lens fb ! index, bucket_lens fb))\<rparr>"

definition recover_bucket :: "nat \<Rightarrow> 'k bucket \<Rightarrow> 'k fixed_buckets \<Rightarrow> 'k fixed_buckets" where
  "recover_bucket index bucket fb =
     update_index_interval index
       (fb\<lparr>keys_bucket := (keys_bucket fb)[index := bucket], is_recovered := (is_recovered fb)[index := True]\<rparr>)"

definition buckets_insert :: "nat \<Rightarrow> 'k \<Rightarrow> 'k fixed_buckets \<Rightarrow> 'k fixed_buckets" where
  "buckets_insert index key fb =
     update_index_interval index
       (fb\<lparr>keys_bucket := (keys_bucket fb)[index := keys_bucket fb ! index @ [key]]\<rparr>)"

definition buckets_contains :: "nat \<Rightarrow> 'k \<Rightarrow> 'k fixed_buckets \<Rightarrow> bool" where
  "buckets_contains index key fb \<longleftrightarrow> key \<in> set (keys_bucket fb ! index)"

definition buckets_remove_item ::
    "nat \<Rightarrow> 'k \<Rightarrow> 'k fixed_buckets \<Rightarrow> (state_error, 'k \<times> 'k fixed_buckets) result" where
  "buckets_remove_item index key fb =
     (if buckets_contains index key fb then
        res_map (\<lambda>(val, b). (val, update_index_interval index
            (fb\<lparr>keys_bucket := (keys_bucket fb)[index := b]\<rparr>)))
          (bucket_remove_item key (keys_bucket fb ! index))
      else Inl (Err GetNone))"

definition get_abs_index_interval :: "nat \<Rightarrow> 'k fixed_buckets \<Rightarrow> u64 \<times> u64" where
  "get_abs_index_interval index fb = (bucket_lens fb ! index, bucket_lens fb ! (index + 1))"

text \<open>The last byte shifted right by four; an empty key indexes out of bounds.\<close>

definition get_bucket_index :: "bytes \<Rightarrow> (state_error, nat) result" where
  "get_bucket_index b = (if b = [] then Inl Panic else Inr (unat (drop_bit 4 (last b))))"

section \<open>The map\<close>

text \<open>
  The codecs a map uses: its keys, its values, 64-bit integers, and \<^verbatim>\<open>rlp\<close>'s lists of byte strings;
  and the hash function.
\<close>

record ('k, 'v) map_env =
  me_key :: "'k codec"
  me_val :: "'v codec"
  me_u64 :: "u64 codec"
  me_rlp :: "bytes list codec"
  me_digest :: "bytes \<Rightarrow> bytes"

definition bucket_encode :: "('k, 'v) map_env \<Rightarrow> 'k bucket \<Rightarrow> (state_error, bytes) result" where
  "bucket_encode env b =
     res_bind (or_panic (map_codec_err (res_collect (encode_fixed (me_key env)) b)))
       (\<lambda>inner. map_codec_err (encode_fixed (me_rlp env) inner))"

definition bucket_decode :: "('k, 'v) map_env \<Rightarrow> bytes \<Rightarrow> (state_error, 'k bucket) result" where
  "bucket_decode env bs =
     res_bind (map_codec_err (decode_fixed (me_rlp env) bs))
       (\<lambda>inner. case res_collect (decode_fixed (me_key env)) inner of
            Inl Panic \<Rightarrow> Inl Panic
          | Inl (Err _) \<Rightarrow> Inl (Err (CodecErr (Decoder ''decode K from bytes fail'')))
          | Inr b \<Rightarrow> Inr b)"

record 'k store_map =
  sm_var_name :: string
  sm_keys :: "'k fixed_buckets"
  sm_len_key :: bytes
  sm_len :: u64

definition map_len_key :: "string \<Rightarrow> bytes" where
  "map_len_key name = str_bytes (name @ ''_map_len'')"

definition get_map_key :: "('k, 'v) map_env \<Rightarrow> string \<Rightarrow> bytes \<Rightarrow> bytes" where
  "get_map_key env name key_bytes =
     (let name_bytes = str_bytes name @ key_bytes in
      if length key_bytes > 32 then hash_bytes (hash_digest (me_digest env) name_bytes) else name_bytes)"

definition get_bucket_name :: "string \<Rightarrow> nat \<Rightarrow> bytes" where
  "get_bucket_name name index = str_bytes (name @ ''_bucket_'') @ to_le_bytes (of_nat index)"

definition store_map_new ::
    "('k, 'v) map_env \<Rightarrow> 's st_get \<Rightarrow> 's \<Rightarrow> string \<Rightarrow> (state_error, 'k store_map) result" where
  "store_map_new env get s name =
     res_bind (or_panic (state_get get bytes_codec (me_u64 env) s (map_len_key name))) (\<lambda>r.
       Inr \<lparr>sm_var_name = name, sm_keys = fixed_buckets_new, sm_len_key = map_len_key name,
            sm_len = (case r of None \<Rightarrow> 0 | Some n \<Rightarrow> n)\<rparr>)"

definition inner_contains ::
    "('k, 'v) map_env \<Rightarrow> 's st_get \<Rightarrow> 's \<Rightarrow> 'k store_map \<Rightarrow> nat \<Rightarrow> 'k \<Rightarrow> (state_error, bool \<times> 'k store_map) result" where
  "inner_contains env get s m bkt_idx key =
     (if is_recovered (sm_keys m) ! bkt_idx then Inr (buckets_contains bkt_idx key (sm_keys m), m)
      else
        res_bind (get s (get_bucket_name (sm_var_name m) bkt_idx)) (\<lambda>r.
          res_bind (case r of Some bs \<Rightarrow> bucket_decode env bs | None \<Rightarrow> Inr []) (\<lambda>bkt.
            Inr (key \<in> set bkt, m\<lparr>sm_keys := recover_bucket bkt_idx bkt (sm_keys m)\<rparr>))))"

definition len_set ::
    "('k, 'v) map_env \<Rightarrow> 's st_ins \<Rightarrow> u64 \<Rightarrow> 's \<Rightarrow> 'k store_map \<Rightarrow> (state_error, 's \<times> 'k store_map) result" where
  "len_set env ins n s m =
     res_map (\<lambda>b. (ins (sm_len_key m) b s, m\<lparr>sm_len := n\<rparr>)) (map_codec_err (encode_fixed (me_u64 env) n))"

definition len_add_one ::
    "('k, 'v) map_env \<Rightarrow> 's st_ins \<Rightarrow> 's \<Rightarrow> 'k store_map \<Rightarrow> (state_error, 's \<times> 'k store_map) result" where
  "len_add_one env ins s m = len_set env ins (sm_len m + 1) s m"

definition len_sub_one ::
    "('k, 'v) map_env \<Rightarrow> 's st_ins \<Rightarrow> 's \<Rightarrow> 'k store_map \<Rightarrow> (state_error, 's \<times> 'k store_map) result" where
  "len_sub_one env ins s m = len_set env ins (sm_len m - 1) s m"

text \<open>Writing the in-memory bucket back to the state.\<close>

definition save_bucket ::
    "('k, 'v) map_env \<Rightarrow> 's st_ins \<Rightarrow> nat \<Rightarrow> 's \<Rightarrow> 'k store_map \<Rightarrow> (state_error, 's) result" where
  "save_bucket env ins bkt_idx s m =
     res_map (\<lambda>bb. ins (get_bucket_name (sm_var_name m) bkt_idx) bb s)
       (bucket_encode env (keys_bucket (sm_keys m) ! bkt_idx))"

definition inner_insert ::
    "('k, 'v) map_env \<Rightarrow> 's st_get \<Rightarrow> 's st_ins \<Rightarrow> 'k \<Rightarrow> 'v \<Rightarrow> 's \<Rightarrow> 'k store_map
     \<Rightarrow> (state_error, 's \<times> 'k store_map) result" where
  "inner_insert env get ins key val s m =
     res_bind (map_codec_err (encode_fixed (me_key env) key)) (\<lambda>key_bytes.
     res_bind (get_bucket_index key_bytes) (\<lambda>bkt_idx.
     res_bind (inner_contains env get s m bkt_idx key) (\<lambda>(found, m).
     res_bind
       (if found then Inr (s, m)
        else
          (let m = m\<lparr>sm_keys := buckets_insert bkt_idx key (sm_keys m)\<rparr> in
           res_bind (save_bucket env ins bkt_idx s m) (\<lambda>s. len_add_one env ins s m)))
     (\<lambda>(s, m).
       res_map (\<lambda>s. (s, m))
         (state_insert ins bytes_codec (me_val env) (get_map_key env (sm_var_name m) key_bytes) val s)))))"

definition inner_get ::
    "('k, 'v) map_env \<Rightarrow> 's st_get \<Rightarrow> 'k \<Rightarrow> 's \<Rightarrow> 'k store_map \<Rightarrow> (state_error, 'v option \<times> 'k store_map) result" where
  "inner_get env get key s m =
     res_bind (map_codec_err (encode_fixed (me_key env) key)) (\<lambda>key_bytes.
     res_bind (get_bucket_index key_bytes) (\<lambda>bkt_idx.
     res_bind (inner_contains env get s m bkt_idx key) (\<lambda>(found, m).
       if found then
         res_map (\<lambda>v. (v, m))
           (state_get get bytes_codec (me_val env) s (get_map_key env (sm_var_name m) key_bytes))
       else Inr (None, m))))"

definition inner_remove ::
    "('k, 'v) map_env \<Rightarrow> 's st_get \<Rightarrow> 's st_ins \<Rightarrow> 'k \<Rightarrow> 's \<Rightarrow> 'k store_map
     \<Rightarrow> (state_error, 'v option \<times> 's \<times> 'k store_map) result" where
  "inner_remove env get ins key s m =
     res_bind (map_codec_err (encode_fixed (me_key env) key)) (\<lambda>key_bytes.
     res_bind (get_bucket_index key_bytes) (\<lambda>bkt_idx.
     res_bind (inner_contains env get s m bkt_idx key) (\<lambda>(found, m).
       if found then
         res_bind (inner_get env get key s m) (\<lambda>(opt, m).
         res_bind (expect opt) (\<lambda>val.
         res_bind (buckets_remove_item bkt_idx key (sm_keys m)) (\<lambda>(_, keys).
         let m = m\<lparr>sm_keys := keys\<rparr> in
         res_bind (save_bucket env ins bkt_idx s m) (\<lambda>s.
         let s = ins (get_map_key env (sm_var_name m) key_bytes) [] s in
         res_map (\<lambda>(s, m). (Some val, s, m)) (len_sub_one env ins s m)))))
       else Inr (None, s, m))))"

text \<open>The trait methods; \<^verbatim>\<open>contains\<close> answers false on an error.\<close>

definition store_map_get ::
    "('k, 'v) map_env \<Rightarrow> 's st_get \<Rightarrow> 'k \<Rightarrow> 's \<Rightarrow> 'k store_map \<Rightarrow> (state_error, 'v option \<times> 'k store_map) result" where
  "store_map_get env get key s m = or_panic (inner_get env get key s m)"

definition store_map_insert ::
    "('k, 'v) map_env \<Rightarrow> 's st_get \<Rightarrow> 's st_ins \<Rightarrow> 'k \<Rightarrow> 'v \<Rightarrow> 's \<Rightarrow> 'k store_map
     \<Rightarrow> (state_error, 's \<times> 'k store_map) result" where
  "store_map_insert env get ins key val s m = or_panic (inner_insert env get ins key val s m)"

definition store_map_remove ::
    "('k, 'v) map_env \<Rightarrow> 's st_get \<Rightarrow> 's st_ins \<Rightarrow> 'k \<Rightarrow> 's \<Rightarrow> 'k store_map
     \<Rightarrow> (state_error, 'v option \<times> 's \<times> 'k store_map) result" where
  "store_map_remove env get ins key s m = or_panic (inner_remove env get ins key s m)"

definition store_map_contains ::
    "('k, 'v) map_env \<Rightarrow> 's st_get \<Rightarrow> 'k \<Rightarrow> 's \<Rightarrow> 'k store_map \<Rightarrow> (state_error, bool \<times> 'k store_map) result" where
  "store_map_contains env get key s m =
     (case encode_fixed (me_key env) key of
        Inl Panic \<Rightarrow> Inl Panic
      | Inl (Err _) \<Rightarrow> Inr (False, m)
      | Inr key_bytes \<Rightarrow>
          res_bind (get_bucket_index key_bytes) (\<lambda>bkt_idx.
            case inner_contains env get s m bkt_idx key of
              Inl Panic \<Rightarrow> Inl Panic
            | Inl (Err _) \<Rightarrow> Inr (False, m)
            | Inr r \<Rightarrow> Inr r))"

definition store_map_len :: "'k store_map \<Rightarrow> u64" where
  "store_map_len m = sm_len m"

text \<open>\<^verbatim>\<open>iter\<close>: recover every bucket, then \<^verbatim>\<open>next\<close> at each position.\<close>

definition recover_all_buckets ::
    "('k, 'v) map_env \<Rightarrow> 's st_get \<Rightarrow> 's \<Rightarrow> 'k store_map \<Rightarrow> (state_error, 'k store_map) result" where
  "recover_all_buckets env get s m =
     (let idxs = filter (\<lambda>i. \<not> is_recovered (sm_keys m) ! i) [0..<length (is_recovered (sm_keys m))] in
      res_bind (or_panic (res_collect (\<lambda>i. get s (get_bucket_name (sm_var_name m) i)) idxs)) (\<lambda>opt_bytes.
      res_bind (or_panic (res_collect (\<lambda>r. case r of Some bs \<Rightarrow> bucket_decode env bs | None \<Rightarrow> Inr []) opt_bytes))
        (\<lambda>buckets.
          Inr (m\<lparr>sm_keys := fold (\<lambda>(i, b). recover_bucket i b) (zip idxs buckets) (sm_keys m)\<rparr>))))"

definition iter_next ::
    "('k, 'v) map_env \<Rightarrow> 's st_get \<Rightarrow> 's \<Rightarrow> 'k store_map \<Rightarrow> u64
     \<Rightarrow> (state_error, ('k \<times> 'v) option \<times> u64) result" where
  "iter_next env get s m idx =
     (if idx \<ge> sm_len m then Inr (None, idx)
      else
        (case List.find (\<lambda>i. case get_abs_index_interval i (sm_keys m) of (l, r) \<Rightarrow> l \<le> idx \<and> idx < r) [0..<16] of
           None \<Rightarrow> Inr (None, idx)
         | Some i \<Rightarrow>
             (let index = unat (idx - fst (get_abs_index_interval i (sm_keys m)));
                  b = keys_bucket (sm_keys m) ! i in
              if index \<ge> length b then Inl Panic
              else
                res_bind (store_map_get env get (b ! index) s m) (\<lambda>(opt, _).
                res_bind (expect opt) (\<lambda>v. Inr (Some (b ! index, v), idx + 1))))))"

section \<open>Buckets and running totals\<close>

definition prefix_len :: "'k bucket list \<Rightarrow> nat \<Rightarrow> nat" where
  "prefix_len keys j = sum_list (map length (take j keys))"

text \<open>Sixteen buckets, and the running totals are those of the buckets in memory.\<close>

definition buckets_ok :: "'k fixed_buckets \<Rightarrow> bool" where
  "buckets_ok fb \<longleftrightarrow>
     length (keys_bucket fb) = 16 \<and> length (bucket_lens fb) = 17 \<and> length (is_recovered fb) = 16 \<and>
     (\<forall>j \<le> 16. bucket_lens fb ! j = of_nat (prefix_len (keys_bucket fb) j))"

lemma prefix_len_Suc: "j < length keys \<Longrightarrow> prefix_len keys (Suc j) = prefix_len keys j + length (keys ! j)"
  by (simp add: prefix_len_def take_Suc_conv_app_nth)

lemma prefix_len_mono:
  assumes "i \<le> j"
  shows "prefix_len keys i \<le> prefix_len keys j"
proof -
  obtain d where "j = i + d" using assms le_Suc_ex by blast
  then show ?thesis by (simp add: prefix_len_def take_add)
qed

lemma prefix_len_update: "j \<le> i \<Longrightarrow> prefix_len (keys[i := b]) j = prefix_len keys j"
  by (simp add: prefix_len_def)

lemma update_index_fold:
  assumes "length keys = 16" "length lens = 17" "index < 16"
    and "\<forall>j \<le> index. lens ! j = of_nat (prefix_len keys j)"
    and "index + 1 \<le> n" "n \<le> 17"
  shows "\<exists>lens'. fold (\<lambda>i (acc, lens).
              let acc = acc + of_nat (length (keys ! (i - 1))) in (acc, lens[i := acc]))
            [index + 1..<n] (lens ! index, lens) = (of_nat (prefix_len keys (n - 1)), lens') \<and>
       length lens' = 17 \<and> (\<forall>j < n. lens' ! j = (of_nat (prefix_len keys j) :: u64))"
  using assms(5,6)
proof (induction n rule: dec_induct)
  case base
  show ?case using assms(2,4) by (intro exI [of _ lens]) (simp add: less_Suc_eq_le)
next
  case (step n)
  then obtain lens' where l: "fold (\<lambda>i (acc, lens).
              let acc = acc + of_nat (length (keys ! (i - 1))) in (acc, lens[i := acc]))
            [index + 1..<n] (lens ! index, lens) = (of_nat (prefix_len keys (n - 1)), lens')"
    "length lens' = 17" "\<forall>j < n. lens' ! j = (of_nat (prefix_len keys j) :: u64)"
    using Suc_leD by blast
  have "prefix_len keys n = prefix_len keys (n - 1) + length (keys ! (n - 1))"
    using prefix_len_Suc [of "n - 1" keys] step assms(1) by simp
  then have acc: "of_nat (prefix_len keys (n - 1)) + of_nat (length (keys ! (n - 1))) =
      (of_nat (prefix_len keys n) :: u64)" by simp
  have "[index + 1..<Suc n] = [index + 1..<n] @ [n]" using step(1) by simp
  then have "fold (\<lambda>i (acc, lens).
              let acc = acc + of_nat (length (keys ! (i - 1))) in (acc, lens[i := acc]))
            [index + 1..<Suc n] (lens ! index, lens) =
          (of_nat (prefix_len keys n), lens'[n := of_nat (prefix_len keys n)])"
    using l(1) acc by (simp only: fold_append comp_apply) (simp add: Let_def)
  moreover have "(lens'[n := of_nat (prefix_len keys n)]) ! j = of_nat (prefix_len keys j)" if "j < Suc n" for j
    using that l(2,3) step by (cases "j = n") simp_all
  ultimately show ?case using l(2) by simp
qed

lemma update_index_interval_ok:
  assumes "length (keys_bucket fb) = 16" "length (bucket_lens fb) = 17" "length (is_recovered fb) = 16"
    and "index < 16" "\<forall>j \<le> index. bucket_lens fb ! j = of_nat (prefix_len (keys_bucket fb) j)"
  shows "buckets_ok (update_index_interval index fb)"
  using update_index_fold [OF assms(1,2,4,5), of 17] assms
  by (auto simp: buckets_ok_def update_index_interval_def)

lemma keys_update_index [simp]:
  "keys_bucket (update_index_interval i fb) = keys_bucket fb"
  "is_recovered (update_index_interval i fb) = is_recovered fb"
  by (simp_all add: update_index_interval_def)

lemma buckets_ok_replace:
  assumes "buckets_ok fb" "i < 16" "keys_bucket fb' = (keys_bucket fb)[i := b]"
    "bucket_lens fb' = bucket_lens fb" "length (is_recovered fb') = 16"
  shows "buckets_ok (update_index_interval i fb')"
  using assms
  by (intro update_index_interval_ok) (auto simp: buckets_ok_def prefix_len_update)

lemma prefix_len_empty: "prefix_len (replicate n []) j = 0"
  by (simp add: prefix_len_def take_replicate sum_list_replicate)

lemma buckets_ok_new: "buckets_ok fixed_buckets_new"
proof -
  have "(replicate 17 0 :: u64 list) ! j = of_nat (prefix_len (replicate 16 [] :: 'k bucket list) j)"
    if "j \<le> 16" for j
    using that by (subst nth_replicate) (simp_all add: prefix_len_empty)
  then have "\<forall>j \<le> 16. (replicate 17 0 :: u64 list) ! j = of_nat (prefix_len (replicate 16 [] :: 'k bucket list) j)"
    by blast
  then show ?thesis by (simp only: buckets_ok_def fixed_buckets_new_def) simp
qed

lemma buckets_ok_ops:
  assumes "buckets_ok fb" "i < 16"
  shows "buckets_ok (recover_bucket i b fb)" "buckets_ok (buckets_insert i k fb)"
proof -
  have "length (is_recovered fb) = 16" using assms(1) by (simp add: buckets_ok_def)
  then show "buckets_ok (recover_bucket i b fb)" "buckets_ok (buckets_insert i k fb)"
    unfolding recover_bucket_def buckets_insert_def
    using assms by (auto intro!: buckets_ok_replace [of fb i])
qed

lemma find_index_in: "k \<in> set b \<Longrightarrow> find_index k b < length b \<and> b ! find_index k b = k"
  by (induction b) auto

lemma bucket_remove_item_in:
  assumes "k \<in> set b" "distinct b"
  shows "\<exists>b'. bucket_remove_item k b = Inr (k, b') \<and> distinct b' \<and> set b' = set b - {k} \<and>
    Suc (length b') = length b"
proof -
  let ?i = "find_index k b"
  from find_index_in [OF assms(1)] have i: "?i < length b" "b ! ?i = k" by auto
  then have split: "b = take ?i b @ k # drop (Suc ?i) b" by (metis id_take_nth_drop)
  let ?b' = "take ?i b @ drop (Suc ?i) b"
  have "distinct (take ?i b @ k # drop (Suc ?i) b)" using assms(2) split by metis
  then have "distinct ?b'" "k \<notin> set ?b'" by auto
  moreover have "set b = insert k (set ?b')" by (subst split) auto
  moreover have "Suc (length ?b') = length b" using i by simp
  ultimately show ?thesis using i by (auto simp: bucket_remove_item_def Let_def)
qed

lemma get_bucket_index_lt: "get_bucket_index b = Inr i \<Longrightarrow> i < 16"
proof -
  have "unat (drop_bit 4 (w :: u8)) < 16" for w
    using unsigned_less [where ?'a = nat, of w]
    by (simp add: drop_bit_eq_div unat_div less_mult_imp_div_less)
  then show "get_bucket_index b = Inr i \<Longrightarrow> i < 16" by (auto simp: get_bucket_index_def split: if_splits)
qed

section \<open>State keys of a map\<close>

lemma str_bytes_append [simp]: "str_bytes (a @ b) = str_bytes a @ str_bytes b"
  by (simp add: str_bytes_def)

lemma length_str_bytes [simp]: "length (str_bytes s) = length s"
  by (simp add: str_bytes_def)

lemma bucket_name_neq_len_key [simp]:
  "get_bucket_name name i \<noteq> map_len_key name" "map_len_key name \<noteq> get_bucket_name name i"
proof -
  have "length (get_bucket_name name i) \<noteq> length (map_len_key name)"
    by (simp add: get_bucket_name_def map_len_key_def)
  then show "get_bucket_name name i \<noteq> map_len_key name" "map_len_key name \<noteq> get_bucket_name name i" by auto
qed

lemma bucket_name_inj:
  assumes "i < 16" "j < 16" "get_bucket_name name i = get_bucket_name name j"
  shows "i = j"
proof -
  have "to_le_bytes (of_nat i) = to_le_bytes (of_nat j)"
    using assms(3) by (simp add: get_bucket_name_def)
  then have eq: "(of_nat i :: u64) = of_nat j" by (metis le_value_to_le_bytes)
  have "unat (of_nat i :: u64) = i" "unat (of_nat j :: u64) = j"
    using assms(1,2) by (auto intro!: of_nat_inverse)
  then show "i = j" using eq by metis
qed

section \<open>The store map as a finite map\<close>

definition key_index :: "('k, 'v) map_env \<Rightarrow> 'k \<Rightarrow> (state_error, nat) result" where
  "key_index env k = res_bind (map_codec_err (encode_fixed (me_key env) k)) get_bucket_index"

definition map_key_of :: "('k, 'v) map_env \<Rightarrow> string \<Rightarrow> 'k \<Rightarrow> bytes" where
  "map_key_of env name k =
     (case encode_fixed (me_key env) k of Inr kb \<Rightarrow> get_map_key env name kb | Inl _ \<Rightarrow> [])"

text \<open>
  What is asked of the codecs and of the keys \<^verbatim>\<open>K\<close> that a map named \<^verbatim>\<open>name\<close> is used with: lawful codecs,
  no empty encoding, and no two of the state keys of the map coincide. The last clause fails for keys
  such as the byte string \<^verbatim>\<open>_map_len\<close>, whose value would be stored under the key of the length.
\<close>

definition map_env_ok :: "('k, 'v) map_env \<Rightarrow> string \<Rightarrow> 'k set \<Rightarrow> bool" where
  "map_env_ok env name K \<longleftrightarrow>
     codec_lawful (me_key env) \<and> codec_lawful (me_val env) \<and> codec_lawful (me_u64 env) \<and>
     codec_lawful (me_rlp env) \<and> codec_nonempty (me_val env) \<and> codec_nonempty (me_u64 env) \<and>
     codec_nonempty (me_rlp env) \<and> (\<forall>k \<in> K. encode_fixed (me_key env) k \<noteq> Inr []) \<and>
     inj_on (map_key_of env name) K \<and>
     (\<forall>k \<in> K. map_key_of env name k \<noteq> map_len_key name \<and>
        (\<forall>i < 16. map_key_of env name k \<noteq> get_bucket_name name i))"

definition stored_bucket ::
    "('k, 'v) map_env \<Rightarrow> 's st_get \<Rightarrow> string \<Rightarrow> 's \<Rightarrow> nat \<Rightarrow> (state_error, 'k bucket) result" where
  "stored_bucket env get name s i =
     res_bind (get s (get_bucket_name name i))
       (\<lambda>r. case r of Some bs \<Rightarrow> bucket_decode env bs | None \<Rightarrow> Inr [])"

text \<open>
  The abstraction: \<^verbatim>\<open>B\<close> are the sixteen buckets as the state holds them, \<^verbatim>\<open>M\<close> is the finite map. In
  the state, every key sits in the bucket of its last byte and its value under its own state key; in
  memory, a recovered bucket equals the stored one; the length counts the keys.
\<close>

definition state_holds ::
    "('k, 'v) map_env \<Rightarrow> 's st_get \<Rightarrow> 'k set \<Rightarrow> string \<Rightarrow> 's \<Rightarrow> ('k \<rightharpoonup> 'v) \<Rightarrow> (nat \<Rightarrow> 'k bucket) \<Rightarrow> bool" where
  "state_holds env get K name s M B \<longleftrightarrow>
     (\<forall>i < 16. stored_bucket env get name s i = Inr (B i) \<and> distinct (B i) \<and>
        (\<forall>k \<in> set (B i). k \<in> K \<and> key_index env k = Inr i)) \<and>
     (\<forall>k. M k \<noteq> None \<longleftrightarrow> (\<exists>i < 16. k \<in> set (B i))) \<and>
     (\<forall>k v. M k = Some v \<longrightarrow>
        state_get get bytes_codec (me_val env) s (map_key_of env name k) = Inr (Some v))"

definition memory_holds :: "'k store_map \<Rightarrow> (nat \<Rightarrow> 'k bucket) \<Rightarrow> bool" where
  "memory_holds m B \<longleftrightarrow>
     buckets_ok (sm_keys m) \<and> sm_len_key m = map_len_key (sm_var_name m) \<and>
     (\<forall>i < 16. keys_bucket (sm_keys m) ! i = (if is_recovered (sm_keys m) ! i then B i else []))"

definition length_holds ::
    "('k, 'v) map_env \<Rightarrow> 's st_get \<Rightarrow> string \<Rightarrow> 's \<Rightarrow> u64 \<Rightarrow> (nat \<Rightarrow> 'k bucket) \<Rightarrow> bool" where
  "length_holds env get name s n B \<longleftrightarrow>
     n = of_nat (\<Sum>i < 16. length (B i)) \<and>
     (state_get get bytes_codec (me_u64 env) s (map_len_key name) = Inr (Some n) \<or>
      state_get get bytes_codec (me_u64 env) s (map_len_key name) = Inr None \<and> n = 0)"

definition map_rep_at ::
    "('k, 'v) map_env \<Rightarrow> 's st_get \<Rightarrow> 'k set \<Rightarrow> 's \<Rightarrow> 'k store_map \<Rightarrow> ('k \<rightharpoonup> 'v) \<Rightarrow> (nat \<Rightarrow> 'k bucket) \<Rightarrow> bool" where
  "map_rep_at env get K s m M B \<longleftrightarrow>
     state_holds env get K (sm_var_name m) s M B \<and> memory_holds m B \<and>
     length_holds env get (sm_var_name m) s (sm_len m) B"

definition map_rep ::
    "('k, 'v) map_env \<Rightarrow> 's st_get \<Rightarrow> 'k set \<Rightarrow> 's \<Rightarrow> 'k store_map \<Rightarrow> ('k \<rightharpoonup> 'v) \<Rightarrow> bool" where
  "map_rep env get K s m M \<longleftrightarrow> (\<exists>B. map_rep_at env get K s m M B)"

lemma map_codec_err_simps [simp]:
  "map_codec_err (Inr a) = Inr a"
  "map_codec_err (Inl (Err e)) = Inl (Err (CodecErr e))"
  "map_codec_err (Inl Panic) = Inl Panic"
  by (simp_all add: map_codec_err_def)

lemma or_panic_Inr_iff: "or_panic r = Inr a \<longleftrightarrow> r = Inr a"
  by (cases r) (simp_all add: or_panic_def)

lemma or_panic_simps [simp]: "or_panic (Inr a) = Inr a" "or_panic (Inl e) = Inl Panic"
  by (simp_all add: or_panic_def)

lemma collect_roundtrip:
  assumes "codec_lawful c"
  shows "\<exists>bs. res_collect (encode_fixed c) xs = Inr bs \<and> res_collect (decode_fixed c) bs = Inr xs"
proof (induction xs)
  case (Cons x xs)
  then obtain bs where "res_collect (encode_fixed c) xs = Inr bs" "res_collect (decode_fixed c) bs = Inr xs"
    by blast
  moreover obtain b where "encode_fixed c x = Inr b" "decode_fixed c b = Inr x"
    using assms by (rule codec_lawfulE)
  ultimately show ?case by (intro exI [of _ "b # bs"]) simp
qed simp

lemma map_env_okD:
  assumes "map_env_ok env name K"
  shows "codec_lawful (me_key env)" "codec_lawful (me_val env)" "codec_lawful (me_u64 env)"
    "codec_lawful (me_rlp env)" "codec_nonempty (me_val env)" "codec_nonempty (me_u64 env)"
    "codec_nonempty (me_rlp env)" "inj_on (map_key_of env name) K"
    "\<And>k. k \<in> K \<Longrightarrow> encode_fixed (me_key env) k \<noteq> Inr []"
    "\<And>k. k \<in> K \<Longrightarrow> map_key_of env name k \<noteq> map_len_key name"
    "\<And>k i. k \<in> K \<Longrightarrow> i < 16 \<Longrightarrow> map_key_of env name k \<noteq> get_bucket_name name i"
  using assms by (simp_all add: map_env_ok_def)

lemma bucket_codec:
  assumes "map_env_ok env name K"
  obtains bb where "bucket_encode env b = Inr bb" "bucket_decode env bb = Inr b" "bb \<noteq> []"
proof -
  obtain bs where bs: "res_collect (encode_fixed (me_key env)) b = Inr bs"
    "res_collect (decode_fixed (me_key env)) bs = Inr b"
    using collect_roundtrip [OF map_env_okD(1) [OF assms], of b] by blast
  obtain bb where bb: "encode_fixed (me_rlp env) bs = Inr bb" "decode_fixed (me_rlp env) bb = Inr bs"
    using map_env_okD(4) [OF assms] by (rule codec_lawfulE)
  have "bb \<noteq> []" using map_env_okD(7) [OF assms] bb(1) by (auto simp: codec_nonempty_def)
  then show thesis using bs bb by (intro that) (auto simp: bucket_encode_def bucket_decode_def)
qed

lemma map_env_key:
  assumes "map_env_ok env name K" "k \<in> K"
  obtains kb i where "encode_fixed (me_key env) k = Inr kb" "get_bucket_index kb = Inr i" "i < 16"
    "key_index env k = Inr i" "get_map_key env name kb = map_key_of env name k"
proof -
  obtain kb where kb: "encode_fixed (me_key env) k = Inr kb"
    using map_env_okD(1) [OF assms(1)] by (rule codec_lawfulE)
  then have "kb \<noteq> []" using map_env_okD(9) [OF assms] by auto
  then obtain i where i: "get_bucket_index kb = Inr i" by (auto simp: get_bucket_index_def)
  show thesis
    using kb i get_bucket_index_lt [OF i] by (intro that) (simp_all add: key_index_def map_key_of_def)
qed

lemma state_holdsD:
  assumes "state_holds env get K name s M B"
  shows "\<And>i. i < 16 \<Longrightarrow> stored_bucket env get name s i = Inr (B i)"
    "\<And>i. i < 16 \<Longrightarrow> distinct (B i)"
    "\<And>i k. i < 16 \<Longrightarrow> k \<in> set (B i) \<Longrightarrow> k \<in> K \<and> key_index env k = Inr i"
    "\<And>k. M k \<noteq> None \<longleftrightarrow> (\<exists>i < 16. k \<in> set (B i))"
    "\<And>k v. M k = Some v \<Longrightarrow>
        state_get get bytes_codec (me_val env) s (map_key_of env name k) = Inr (Some v)"
  using assms unfolding state_holds_def by blast+

lemma state_holdsI:
  assumes "\<And>i. i < 16 \<Longrightarrow> stored_bucket env get name s i = Inr (B i)"
    "\<And>i. i < 16 \<Longrightarrow> distinct (B i)"
    "\<And>i k. i < 16 \<Longrightarrow> k \<in> set (B i) \<Longrightarrow> k \<in> K \<and> key_index env k = Inr i"
    "\<And>k. M k \<noteq> None \<longleftrightarrow> (\<exists>i < 16. k \<in> set (B i))"
    "\<And>k v. M k = Some v \<Longrightarrow>
        state_get get bytes_codec (me_val env) s (map_key_of env name k) = Inr (Some v)"
  shows "state_holds env get K name s M B"
  using assms unfolding state_holds_def by blast

lemma memory_holdsD:
  assumes "memory_holds m B"
  shows "buckets_ok (sm_keys m)" "sm_len_key m = map_len_key (sm_var_name m)"
    "\<And>i. i < 16 \<Longrightarrow> keys_bucket (sm_keys m) ! i = (if is_recovered (sm_keys m) ! i then B i else [])"
    "length (is_recovered (sm_keys m)) = 16" "length (keys_bucket (sm_keys m)) = 16"
  using assms unfolding memory_holds_def buckets_ok_def by blast+

text \<open>Changing one bucket, in memory and in the abstraction.\<close>

lemma memory_holds_update:
  assumes "memory_holds m B" "i < 16" "buckets_ok keys"
    "keys_bucket keys = (keys_bucket (sm_keys m))[i := b]"
    "is_recovered keys = (is_recovered (sm_keys m))[i := True]"
    "\<And>j. j < 16 \<Longrightarrow> B' j = (if j = i then b else B j)"
  shows "memory_holds (m\<lparr>sm_keys := keys\<rparr>) B'"
proof -
  have "keys_bucket keys ! j = (if is_recovered keys ! j then B' j else [])" if "j < 16" for j
    using memory_holdsD(3) [OF assms(1) that] memory_holdsD(4,5) [OF assms(1)] assms(2,4-6) that
    by (cases "j = i") simp_all
  then show ?thesis
    using assms(3) memory_holdsD(2) [OF assms(1)] by (simp add: memory_holds_def)
qed

lemma state_holds_lookup:
  assumes "state_holds env get K name s M B" "key_index env k = Inr i" "i < 16"
  shows "M k \<noteq> None \<longleftrightarrow> k \<in> set (B i)"
  using state_holdsD(3,4) [OF assms(1)] assms(2,3) by (metis Inr_inject)

lemma sum_length_upd:
  fixes B :: "nat \<Rightarrow> 'k list"
  assumes "i < 16"
  shows "(\<Sum>j < 16. length ((B(i := x)) j)) + length (B i) = (\<Sum>j < 16. length (B j)) + length x"
proof -
  have "(\<Sum>j < 16. length ((B(i := x)) j)) = length x + (\<Sum>j \<in> {..<16} - {i}. length (B j))"
    using assms by (subst sum.remove [of _ i]) auto
  moreover have "(\<Sum>j < 16. length (B j)) = length (B i) + (\<Sum>j \<in> {..<16} - {i}. length (B j))"
    using assms by (subst sum.remove [of _ i]) auto
  ultimately show ?thesis by simp
qed

lemma inner_contains_ok:
  assumes rep: "map_rep_at env get K s m M B" and i: "key_index env k = Inr i" "i < 16"
  obtains m' where "inner_contains env get s m i k = Inr (M k \<noteq> None, m')"
    "map_rep_at env get K s m' M B" "is_recovered (sm_keys m') ! i" "sm_var_name m' = sm_var_name m"
proof -
  from rep have st: "state_holds env get K (sm_var_name m) s M B" and mem: "memory_holds m B"
    and ln: "length_holds env get (sm_var_name m) s (sm_len m) B"
    by (auto simp: map_rep_at_def)
  note lookup = state_holds_lookup [OF st i]
  show thesis
  proof (cases "is_recovered (sm_keys m) ! i")
    case True
    then show thesis
      using lookup memory_holdsD(3) [OF mem i(2)] rep that
      by (simp add: inner_contains_def buckets_contains_def)
  next
    case False
    let ?keys = "recover_bucket i (B i) (sm_keys m)"
    let ?m = "m\<lparr>sm_keys := ?keys\<rparr>"
    have "memory_holds ?m B"
      using mem i(2) buckets_ok_ops(1) [OF memory_holdsD(1) [OF mem] i(2)]
      by (rule memory_holds_update) (auto simp: recover_bucket_def)
    then have "map_rep_at env get K s ?m M B" using st ln by (simp add: map_rep_at_def)
    moreover have "inner_contains env get s m i k = Inr (M k \<noteq> None, ?m)"
      using state_holdsD(1) [OF st i(2)] lookup False
      by (auto simp: inner_contains_def stored_bucket_def res_bind_Inr_iff)
    moreover have "is_recovered (sm_keys ?m) ! i"
      using memory_holdsD(4) [OF mem] i(2) by (simp add: recover_bucket_def)
    ultimately show thesis using that by simp
  qed
qed

subsection \<open>Writes of the map, over the state interface\<close>

lemma state_get_bytes:
  "state_get get bytes_codec vc s k =
     res_bind (get s k) (\<lambda>r. case r of Some vb \<Rightarrow> res_map Some (map_codec_err (decode_fixed vc vb)) | None \<Rightarrow> Inr None)"
  by (simp add: state_get_def)

lemma state_insert_bytes:
  "encode_fixed vc v = Inr vb \<Longrightarrow> state_insert ins bytes_codec vc k v s = Inr (ins k vb s)"
  by (simp add: state_insert_def)

lemma length_holds_cong:
  "get s' (map_len_key name) = get s (map_len_key name) \<Longrightarrow>
   length_holds env get name s' n B \<longleftrightarrow> length_holds env get name s n B"
  by (simp only: length_holds_def state_get_bytes)

text \<open>
  The state after the writes of one operation: bucket \<^verbatim>\<open>i\<close> was written as \<^verbatim>\<open>b\<close>, the state key of \<^verbatim>\<open>k\<close>
  as \<^verbatim>\<open>r\<close>, nothing else of the map but the length.
\<close>

definition map_writes ::
    "('k, 'v) map_env \<Rightarrow> 's st_get \<Rightarrow> string \<Rightarrow> 's \<Rightarrow> 's \<Rightarrow> nat \<Rightarrow> 'k bucket \<Rightarrow> 'k \<Rightarrow> 'v option \<Rightarrow> bool" where
  "map_writes env get name s s' i b k r \<longleftrightarrow>
     stored_bucket env get name s' i = Inr b \<and>
     state_get get bytes_codec (me_val env) s' (map_key_of env name k) = Inr r \<and>
     (\<forall>x. x \<noteq> get_bucket_name name i \<longrightarrow> x \<noteq> map_key_of env name k \<longrightarrow> x \<noteq> map_len_key name \<longrightarrow>
        get s' x = get s x)"

lemma state_holds_writes:
  assumes st: "state_holds env get K name s M B" and env: "map_env_ok env name K"
    and k: "k \<in> K" "key_index env k = Inr i" "i < 16"
    and w: "map_writes env get name s s' i b k r"
    and b: "distinct b" "set b = (if r = None then set (B i) - {k} else insert k (set (B i)))"
  shows "state_holds env get K name s' (M(k := r)) (B(i := b))"
proof (rule state_holdsI)
  have other: "get s' (get_bucket_name name j) = get s (get_bucket_name name j)" if "j < 16" "j \<noteq> i" for j
    using w that bucket_name_inj [of j i name] k(3) map_env_okD(11) [OF env k(1), of j]
    unfolding map_writes_def by (metis bucket_name_neq_len_key(1))
  show "stored_bucket env get name s' j = Inr ((B(i := b)) j)" if "j < 16" for j
    using w other [OF that] state_holdsD(1) [OF st that]
    by (cases "j = i") (simp_all add: map_writes_def stored_bucket_def)
  show "distinct ((B(i := b)) j)" if "j < 16" for j
    using b(1) state_holdsD(2) [OF st that] by simp
  show "k' \<in> K \<and> key_index env k' = Inr j" if "j < 16" "k' \<in> set ((B(i := b)) j)" for j k'
  proof (cases "j = i")
    case True
    with that b have "k' = k \<or> k' \<in> set (B i)" by (auto split: if_splits)
    then show ?thesis using state_holdsD(3) [OF st k(3)] k True by blast
  next
    case False
    then show ?thesis using that state_holdsD(3) [OF st] by simp
  qed
  show "(M(k := r)) k' \<noteq> None \<longleftrightarrow> (\<exists>j < 16. k' \<in> set ((B(i := b)) j))" for k'
  proof (cases "k' = k")
    case True
    have "k \<notin> set (B j)" if "j < 16" "j \<noteq> i" for j
      using state_holdsD(3) [OF st that(1)] k(2) that(2) by fastforce
    then show ?thesis using True b(2) k(3) by (auto split: if_splits)
  next
    case False
    then show ?thesis using state_holdsD(4) [OF st, of k'] b(2) by (auto split: if_splits)
  qed
  show "state_get get bytes_codec (me_val env) s' (map_key_of env name k') = Inr (Some v)"
    if "(M(k := r)) k' = Some v" for k' v
  proof (cases "k' = k")
    case True
    then show ?thesis using that w by (simp add: map_writes_def)
  next
    case False
    with that have M: "M k' = Some v" by simp
    then obtain j where "j < 16" "k' \<in> set (B j)" using state_holdsD(4) [OF st, of k'] by auto
    then have K: "k' \<in> K" using state_holdsD(3) [OF st] by blast
    have "map_key_of env name k' \<noteq> map_key_of env name k"
      using map_env_okD(8) [OF env] K k(1) False by (meson inj_onD)
    then have "get s' (map_key_of env name k') = get s (map_key_of env name k')"
      using w map_env_okD(10,11) [OF env K] k(3) unfolding map_writes_def by metis
    then show ?thesis using state_holdsD(5) [OF st M] by (simp add: state_get_bytes)
  qed
qed

context kv_state
begin

lemma value_bytes:
  assumes "map_env_ok env name K"
  obtains vb where "encode_fixed (me_val env) v = Inr vb" "decode_fixed (me_val env) vb = Inr v" "vb \<noteq> []"
  using codec_lawfulE [OF map_env_okD(2) [OF assms], of v] map_env_okD(5) [OF assms]
  unfolding codec_nonempty_def by metis

lemma len_set_ok:
  assumes "map_env_ok env name K" "sm_len_key m = map_len_key name"
  obtains nb where "len_set env ins n s m = Inr (ins (map_len_key name) nb s, m\<lparr>sm_len := n\<rparr>)"
    "state_get get bytes_codec (me_u64 env) (ins (map_len_key name) nb s') (map_len_key name) = Inr (Some n)"
proof -
  obtain nb where nb: "encode_fixed (me_u64 env) n = Inr nb" "decode_fixed (me_u64 env) nb = Inr n"
    using map_env_okD(3) [OF assms(1)] by (rule codec_lawfulE)
  then have "nb \<noteq> []" using map_env_okD(6) [OF assms(1)] by (auto simp: codec_nonempty_def)
  then show thesis
    using nb assms(2) by (intro that [of nb]) (simp_all add: len_set_def state_get_bytes present_def)
qed

lemma store_map_get_ok:
  assumes "map_env_ok env (sm_var_name m) K" "map_rep env get K s m M" "k \<in> K"
  shows "\<exists>m'. store_map_get env get k s m = Inr (M k, m') \<and> map_rep env get K s m' M \<and>
    sm_var_name m' = sm_var_name m \<and> sm_len m' = sm_len m"
proof -
  from assms(2) obtain B where rep: "map_rep_at env get K s m M B" by (auto simp: map_rep_def)
  obtain kb i where k: "encode_fixed (me_key env) k = Inr kb" "get_bucket_index kb = Inr i" "i < 16"
    "key_index env k = Inr i" "get_map_key env (sm_var_name m) kb = map_key_of env (sm_var_name m) k"
    using assms(1,3) by (rule map_env_key)
  obtain m' where m': "inner_contains env get s m i k = Inr (M k \<noteq> None, m')"
    "map_rep_at env get K s m' M B" "sm_var_name m' = sm_var_name m"
    using rep k(4,3) by (rule inner_contains_ok)
  have "sm_len m' = sm_len m"
    using rep m'(2) by (simp add: map_rep_at_def length_holds_def)
  moreover have "state_holds env get K (sm_var_name m) s M B" using rep by (simp add: map_rep_at_def)
  note state_holdsD(5) [OF this, of k]
  ultimately show ?thesis
    using k m' by (cases "M k") (auto simp: store_map_get_def inner_get_def map_rep_def)
qed

lemma store_map_contains_ok:
  assumes "map_env_ok env (sm_var_name m) K" "map_rep env get K s m M" "k \<in> K"
  shows "\<exists>m'. store_map_contains env get k s m = Inr (M k \<noteq> None, m') \<and> map_rep env get K s m' M"
proof -
  from assms(2) obtain B where rep: "map_rep_at env get K s m M B" by (auto simp: map_rep_def)
  obtain kb i where k: "encode_fixed (me_key env) k = Inr kb" "get_bucket_index kb = Inr i" "i < 16"
    "key_index env k = Inr i"
    using assms(1,3) by (rule map_env_key)
  obtain m' where m': "inner_contains env get s m i k = Inr (M k \<noteq> None, m')"
    "map_rep_at env get K s m' M B"
    using rep k(4,3) by (rule inner_contains_ok)
  then show ?thesis using k by (auto simp: store_map_contains_def map_rep_def)
qed

end

context kv_state
begin

text \<open>Writing the value of a key that the map already has.\<close>

lemma overwrite_ok:
  assumes env: "map_env_ok env (sm_var_name m) K" and rep: "map_rep_at env get K s m M B"
    and k: "k \<in> K" "key_index env k = Inr i" "i < 16" "k \<in> set (B i)"
    and vb: "decode_fixed (me_val env) vb = Inr v" "vb \<noteq> []"
  shows "map_rep_at env get K (ins (map_key_of env (sm_var_name m) k) vb s) m (M(k \<mapsto> v)) B"
proof -
  let ?name = "sm_var_name m" and ?s = "ins (map_key_of env (sm_var_name m) k) vb s"
  note ne = map_env_okD(10,11) [OF env k(1)]
  from rep have st: "state_holds env get K ?name s M B" by (simp add: map_rep_at_def)
  have "map_writes env get ?name s ?s i (B i) k (Some v)"
    using vb ne(2) [OF k(3)] state_holdsD(1) [OF st k(3)]
    by (simp add: map_writes_def stored_bucket_def state_get_bytes present_def)
  from state_holds_writes [OF st env k(1-3) this] have "state_holds env get K ?name ?s (M(k \<mapsto> v)) (B(i := B i))"
    using k(4) state_holdsD(2) [OF st k(3)] by auto
  moreover have "get ?s (map_len_key ?name) = get s (map_len_key ?name)" using ne(1) by simp
  then have "length_holds env get ?name ?s (sm_len m) B \<longleftrightarrow> length_holds env get ?name s (sm_len m) B"
    by (rule length_holds_cong)
  ultimately show ?thesis using rep by (simp add: map_rep_at_def)
qed

text \<open>Replacing a bucket in memory, writing it back, then writing the length and one value.\<close>

lemma rewrite_ok:
  assumes env: "map_env_ok env (sm_var_name m) K" and rep: "map_rep_at env get K s m M B"
    and k: "k \<in> K" "key_index env k = Inr i" "i < 16"
    and keys: "buckets_ok keys" "keys_bucket keys = (keys_bucket (sm_keys m))[i := b]"
      "is_recovered keys = (is_recovered (sm_keys m))[i := True]"
    and b: "distinct b" "set b = (if r = None then set (B i) - {k} else insert k (set (B i)))"
    and n: "sm_len m + of_nat (length b) = n + of_nat (length (B i))"
    and bb: "bucket_decode env bb = Inr b" "bb \<noteq> []"
    and s': "\<And>x. x \<noteq> get_bucket_name (sm_var_name m) i \<Longrightarrow> x \<noteq> map_key_of env (sm_var_name m) k \<Longrightarrow>
        x \<noteq> map_len_key (sm_var_name m) \<Longrightarrow> get s' x = get s x"
      "get s' (get_bucket_name (sm_var_name m) i) = Inr (present bb)"
      "state_get get bytes_codec (me_val env) s' (map_key_of env (sm_var_name m) k) = Inr r"
      "state_get get bytes_codec (me_u64 env) s' (map_len_key (sm_var_name m)) = Inr (Some n)"
  shows "map_rep env get K s' (m\<lparr>sm_keys := keys, sm_len := n\<rparr>) (M(k := r))"
proof -
  let ?name = "sm_var_name m"
  from rep have st: "state_holds env get K ?name s M B" and mem: "memory_holds m B"
    and ln: "length_holds env get ?name s (sm_len m) B"
    by (auto simp: map_rep_at_def)
  have "map_writes env get ?name s s' i b k r"
    using bb s' by (auto simp: map_writes_def stored_bucket_def present_def)
  from state_holds_writes [OF st env k this b]
  have "state_holds env get K ?name s' (M(k := r)) (B(i := b))" .
  moreover have "memory_holds (m\<lparr>sm_keys := keys\<rparr>) (B(i := b))"
    using mem k(3) keys by (rule memory_holds_update) auto
  then have "memory_holds (m\<lparr>sm_keys := keys, sm_len := n\<rparr>) (B(i := b))"
    by (simp add: memory_holds_def)
  moreover have "n = of_nat (\<Sum>j < 16. length ((B(i := b)) j))"
  proof -
    have "n + of_nat (length (B i)) = of_nat (\<Sum>j < 16. length (B j)) + of_nat (length b)"
      using ln n by (metis length_holds_def)
    also have "\<dots> = of_nat (\<Sum>j < 16. length ((B(i := b)) j)) + of_nat (length (B i))"
      using sum_length_upd [OF k(3), of B b] by (metis of_nat_add)
    finally show ?thesis by (metis add_right_cancel)
  qed
  then have "length_holds env get ?name s' n (B(i := b))"
    unfolding length_holds_def using s'(4) by blast
  ultimately have "map_rep_at env get K s' (m\<lparr>sm_keys := keys, sm_len := n\<rparr>) (M(k := r)) (B(i := b))"
    by (simp add: map_rep_at_def)
  then show ?thesis unfolding map_rep_def by blast
qed

lemma store_map_insert_ok:
  assumes env: "map_env_ok env (sm_var_name m) K" and "map_rep env get K s m M" and k: "k \<in> K"
  shows "\<exists>s' m'. store_map_insert env get ins k v s m = Inr (s', m') \<and> map_rep env get K s' m' (M(k \<mapsto> v)) \<and>
    sm_var_name m' = sm_var_name m \<and> sm_len m' = (if M k = None then sm_len m + 1 else sm_len m) \<and>
    (\<forall>i. key_index env k = Inr i \<longrightarrow> is_recovered (sm_keys m') ! i)"
proof -
  let ?name = "sm_var_name m"
  from assms(2) obtain B where rep0: "map_rep_at env get K s m M B" by (auto simp: map_rep_def)
  obtain kb i where kb: "encode_fixed (me_key env) k = Inr kb" "get_bucket_index kb = Inr i" "i < 16"
    "key_index env k = Inr i" "get_map_key env ?name kb = map_key_of env ?name k"
    using env k by (rule map_env_key)
  obtain m1 where m1: "inner_contains env get s m i k = Inr (M k \<noteq> None, m1)"
    and rep: "map_rep_at env get K s m1 M B" and rec: "is_recovered (sm_keys m1) ! i"
    and name: "sm_var_name m1 = ?name"
    using rep0 kb(4,3) by (rule inner_contains_ok)
  have len1: "sm_len m1 = sm_len m" using rep0 rep by (simp add: map_rep_at_def length_holds_def)
  obtain vb where vb: "encode_fixed (me_val env) v = Inr vb" "decode_fixed (me_val env) vb = Inr v" "vb \<noteq> []"
    using env by (rule value_bytes)
  from rep have st: "state_holds env get K ?name s M B" and mem: "memory_holds m1 B"
    by (auto simp: map_rep_at_def name)
  note lookup = state_holds_lookup [OF st kb(4,3)]
  note ne = map_env_okD(10,11) [OF env k]
  show ?thesis
  proof (cases "M k = None")
    case False
    then have "map_rep_at env get K (ins (map_key_of env ?name k) vb s) m1 (M(k \<mapsto> v)) B"
      using overwrite_ok [OF env [folded name] rep k kb(4,3) _ vb(2,3)] lookup name by simp
    then show ?thesis
      using False m1 kb vb name len1 rec
      by (auto simp: store_map_insert_def inner_insert_def state_insert_bytes map_rep_def)
  next
    case True
    let ?keys = "buckets_insert i k (sm_keys m1)" and ?b = "B i @ [k]"
    let ?m2 = "m1\<lparr>sm_keys := ?keys\<rparr>"
    have bi: "keys_bucket (sm_keys m1) ! i = B i" using memory_holdsD(3) [OF mem kb(3)] rec by simp
    have rec_upd: "(is_recovered (sm_keys m1))[i := True] = is_recovered (sm_keys m1)"
      using rec by (metis (full_types) list_update_id)
    have keys: "buckets_ok ?keys" "keys_bucket ?keys = (keys_bucket (sm_keys m1))[i := ?b]"
      "is_recovered ?keys = (is_recovered (sm_keys m1))[i := True]"
      using buckets_ok_ops(2) [OF memory_holdsD(1) [OF mem] kb(3)] rec_upd bi
      by (simp_all add: buckets_insert_def)
    obtain bb where bb: "bucket_encode env ?b = Inr bb" "bucket_decode env bb = Inr ?b" "bb \<noteq> []"
      using env by (rule bucket_codec)
    let ?s1 = "ins (get_bucket_name ?name i) bb s"
    obtain nb where nb: "len_set env ins (sm_len m + 1) ?s1 ?m2 =
        Inr (ins (map_len_key ?name) nb ?s1, ?m2\<lparr>sm_len := sm_len m + 1\<rparr>)"
      "state_get get bytes_codec (me_u64 env) (ins (map_len_key ?name) nb s) (map_len_key ?name) = Inr (Some (sm_len m + 1))"
      by (rule len_set_ok [OF env, of ?m2]) (use memory_holdsD(2) [OF mem] name in simp)
    let ?s2 = "ins (map_len_key ?name) nb ?s1"
    let ?s3 = "ins (map_key_of env ?name k) vb ?s2"
    have "save_bucket env ins i s ?m2 = Inr ?s1"
      using bb(1) keys(2) kb(3) name memory_holdsD(5) [OF mem] by (simp add: save_bucket_def)
    then have run: "store_map_insert env get ins k v s m = Inr (?s3, ?m2\<lparr>sm_len := sm_len m + 1\<rparr>)"
      using m1 kb vb True nb(1) name len1
      by (simp add: store_map_insert_def inner_insert_def Let_def len_add_one_def state_insert_bytes)
    have "map_rep env get K ?s3 (m1\<lparr>sm_keys := ?keys, sm_len := sm_len m + 1\<rparr>) (M(k := Some v))"
    proof (rule rewrite_ok [OF _ rep k kb(4,3) keys, of "Some v" "sm_len m + 1" bb])
      show "map_env_ok env (sm_var_name m1) K" using env name by simp
      show "distinct ?b" using state_holdsD(2) [OF st kb(3)] lookup True by simp
      show "sm_len m1 + of_nat (length ?b) = sm_len m + 1 + of_nat (length (B i))" using len1 by simp
    qed (use bb vb nb ne(1) ne(2) [OF kb(3)] name in
        \<open>simp_all add: state_get_bytes present_def\<close>)
    then show ?thesis using run name True kb(4) rec by (auto simp: buckets_insert_def)
  qed
qed

end

context kv_state
begin

lemma store_map_remove_ok:
  assumes env: "map_env_ok env (sm_var_name m) K" and "map_rep env get K s m M" and k: "k \<in> K"
  shows "\<exists>s' m'. store_map_remove env get ins k s m = Inr (M k, s', m') \<and> map_rep env get K s' m' (M(k := None)) \<and>
    sm_var_name m' = sm_var_name m \<and> sm_len m' = (if M k = None then sm_len m else sm_len m - 1)"
proof -
  let ?name = "sm_var_name m"
  from assms(2) obtain B where rep0: "map_rep_at env get K s m M B" by (auto simp: map_rep_def)
  obtain kb i where kb: "encode_fixed (me_key env) k = Inr kb" "get_bucket_index kb = Inr i" "i < 16"
    "key_index env k = Inr i" "get_map_key env ?name kb = map_key_of env ?name k"
    using env k by (rule map_env_key)
  obtain m1 where m1: "inner_contains env get s m i k = Inr (M k \<noteq> None, m1)"
    and rep: "map_rep_at env get K s m1 M B" and rec: "is_recovered (sm_keys m1) ! i"
    and name: "sm_var_name m1 = ?name"
    using rep0 kb(4,3) by (rule inner_contains_ok)
  have len1: "sm_len m1 = sm_len m" using rep0 rep by (simp add: map_rep_at_def length_holds_def)
  from rep have st: "state_holds env get K ?name s M B" and mem: "memory_holds m1 B"
    by (auto simp: map_rep_at_def name)
  note lookup = state_holds_lookup [OF st kb(4,3)]
  note ne = map_env_okD(10,11) [OF env k]
  show ?thesis
  proof (cases "M k")
    case None
    then have "M(k := None) = M" by auto
    then show ?thesis
      using None m1 kb rep name len1 by (auto simp: store_map_remove_def inner_remove_def map_rep_def)
  next
    case (Some v)
    have rec_upd: "(is_recovered (sm_keys m1))[i := True] = is_recovered (sm_keys m1)"
      using rec by (metis (full_types) list_update_id)
    have bi: "keys_bucket (sm_keys m1) ! i = B i" using memory_holdsD(3) [OF mem kb(3)] rec by simp
    have "inner_contains env get s m1 i k = Inr (True, m1)"
      using rec bi lookup Some by (simp add: inner_contains_def buckets_contains_def)
    then have g: "inner_get env get k s m1 = Inr (Some v, m1)"
      using kb state_holdsD(5) [OF st Some] name by (simp add: inner_get_def)
    from lookup Some have "k \<in> set (B i)" by simp
    from bucket_remove_item_in [OF this state_holdsD(2) [OF st kb(3)]] obtain b where
      b: "bucket_remove_item k (B i) = Inr (k, b)" "distinct b" "set b = set (B i) - {k}"
        "Suc (length b) = length (B i)"
      by blast
    let ?fb = "(sm_keys m1)\<lparr>keys_bucket := (keys_bucket (sm_keys m1))[i := b]\<rparr>"
    let ?keys = "update_index_interval i ?fb"
    let ?m2 = "m1\<lparr>sm_keys := ?keys\<rparr>"
    have r: "buckets_remove_item i k (sm_keys m1) = Inr (k, ?keys)"
      using b(1) bi \<open>k \<in> set (B i)\<close> by (simp add: buckets_remove_item_def buckets_contains_def)
    have keys: "buckets_ok ?keys" "keys_bucket ?keys = (keys_bucket (sm_keys m1))[i := b]"
      "is_recovered ?keys = (is_recovered (sm_keys m1))[i := True]"
      using buckets_ok_replace [OF memory_holdsD(1) [OF mem] kb(3), of ?fb b] memory_holdsD(4) [OF mem] rec_upd
      by simp_all
    obtain bb where bb: "bucket_encode env b = Inr bb" "bucket_decode env bb = Inr b" "bb \<noteq> []"
      using env by (rule bucket_codec)
    let ?s1 = "ins (get_bucket_name ?name i) bb s"
    let ?s2 = "ins (map_key_of env ?name k) [] ?s1"
    obtain nb where nb: "len_set env ins (sm_len m - 1) ?s2 ?m2 =
        Inr (ins (map_len_key ?name) nb ?s2, ?m2\<lparr>sm_len := sm_len m - 1\<rparr>)"
      "state_get get bytes_codec (me_u64 env) (ins (map_len_key ?name) nb ?s2) (map_len_key ?name) = Inr (Some (sm_len m - 1))"
      by (rule len_set_ok [OF env, of ?m2]) (use memory_holdsD(2) [OF mem] name in simp)
    let ?s3 = "ins (map_len_key ?name) nb ?s2"
    have "save_bucket env ins i s ?m2 = Inr ?s1"
      using bb(1) keys(2) kb(3) name memory_holdsD(5) [OF mem] by (simp add: save_bucket_def)
    then have run: "store_map_remove env get ins k s m = Inr (Some v, ?s3, ?m2\<lparr>sm_len := sm_len m - 1\<rparr>)"
      using m1 kb Some g r nb(1) name len1
      by (simp add: store_map_remove_def inner_remove_def Let_def len_sub_one_def)
    have "map_rep env get K ?s3 (m1\<lparr>sm_keys := ?keys, sm_len := sm_len m - 1\<rparr>) (M(k := None))"
    proof (rule rewrite_ok [OF _ rep k kb(4,3) keys, of None "sm_len m - 1" bb])
      show "map_env_ok env (sm_var_name m1) K" using env name by simp
      have "(of_nat (length (B i)) :: u64) = of_nat (length b) + 1" using b(4) by (metis of_nat_Suc add.commute)
      then show "sm_len m1 + of_nat (length b) = sm_len m - 1 + of_nat (length (B i))" using len1 by simp
      show "state_get get bytes_codec (me_u64 env) ?s3 (map_len_key (sm_var_name m1)) = Inr (Some (sm_len m - 1))"
        using nb(2) name by simp
    qed (use b bb ne(1) ne(2) [OF kb(3)] name in \<open>simp_all add: state_get_bytes present_def\<close>)
    then show ?thesis using run name Some by auto
  qed
qed

end

subsection \<open>Opening a map\<close>

lemma memory_holds_new:
  fixes B :: "nat \<Rightarrow> 'k bucket"
  shows "memory_holds \<lparr>sm_var_name = name, sm_keys = fixed_buckets_new, sm_len_key = map_len_key name, sm_len = n\<rparr> B"
proof -
  have "keys_bucket (fixed_buckets_new :: 'k fixed_buckets) ! i = (if is_recovered (fixed_buckets_new :: 'k fixed_buckets) ! i then B i else [])"
    if "i < 16" for i
    using that nth_replicate [of i 16 False] nth_replicate [of i 16 "[] :: 'k bucket"]
    by (simp add: fixed_buckets_new_def del: replicate.simps)
  then show ?thesis by (simp add: memory_holds_def buckets_ok_new)
qed

lemma store_map_new_ok:
  assumes "state_holds env get K name s M B" "length_holds env get name s n B"
  shows "\<exists>m. store_map_new env get s name = Inr m \<and> map_rep_at env get K s m M B \<and> sm_var_name m = name"
proof -
  let ?m = "\<lparr>sm_var_name = name, sm_keys = fixed_buckets_new, sm_len_key = map_len_key name, sm_len = n\<rparr>"
  have "store_map_new env get s name = Inr ?m"
    using assms(2) by (auto simp: store_map_new_def length_holds_def)
  moreover have "map_rep_at env get K s ?m M B"
    using assms memory_holds_new [of name n B] by (simp add: map_rep_at_def)
  ultimately show ?thesis by auto
qed

lemma store_map_new_empty:
  assumes "\<And>i. i < 16 \<Longrightarrow> get s (get_bucket_name name i) = Inr None" "get s (map_len_key name) = Inr None"
  shows "\<exists>m. store_map_new env get s name = Inr m \<and> map_rep env get K s m Map.empty \<and> sm_var_name m = name"
proof -
  have "state_holds env get K name s Map.empty (\<lambda>_. [])"
    using assms(1) by (intro state_holdsI) (auto simp: stored_bucket_def)
  moreover have "length_holds env get name s 0 (\<lambda>_. [])"
    using assms(2) by (simp add: length_holds_def state_get_bytes)
  ultimately show ?thesis
    using store_map_new_ok [of env get K name s Map.empty "\<lambda>_. []" 0] unfolding map_rep_def by blast
qed

lemma store_map_reopen:
  assumes "map_rep env get K s m M"
  shows "\<exists>m'. store_map_new env get s (sm_var_name m) = Inr m' \<and> map_rep env get K s m' M \<and>
    sm_var_name m' = sm_var_name m"
  using assms store_map_new_ok [of env get K "sm_var_name m" s M] unfolding map_rep_def map_rep_at_def by blast

text \<open>The length counts the keys.\<close>

lemma map_rep_len:
  assumes "map_rep env get K s m M"
  shows "finite (dom M) \<and> sm_len m = of_nat (card (dom M))"
proof -
  from assms obtain B where st: "state_holds env get K (sm_var_name m) s M B"
    and ln: "length_holds env get (sm_var_name m) s (sm_len m) B"
    by (auto simp: map_rep_def map_rep_at_def)
  have dom: "dom M = (\<Union>i < 16. set (B i))" using state_holdsD(4) [OF st] by blast
  have "card (\<Union>i < 16. set (B i)) = (\<Sum>i < 16. card (set (B i)))"
  proof (rule card_UN_disjoint)
    show "\<forall>i\<in>{..<16}. \<forall>j\<in>{..<16}. i \<noteq> j \<longrightarrow> set (B i) \<inter> set (B j) = {}"
    proof (intro ballI impI equals0I)
      fix i j k assume "i \<in> {..<16}" "j \<in> {..<16}" "i \<noteq> j" "k \<in> set (B i) \<inter> set (B j)"
      then show False using state_holdsD(3) [OF st, of i k] state_holdsD(3) [OF st, of j k] by simp
    qed
  qed auto
  moreover have "(\<Sum>i < 16. card (set (B i))) = (\<Sum>i < 16. length (B i))"
    using state_holdsD(2) [OF st] by (intro sum.cong) (auto simp: distinct_card)
  ultimately have "card (dom M) = (\<Sum>i < 16. length (B i))" using dom by simp
  then show ?thesis using ln dom by (simp only: length_holds_def) simp
qed

section \<open>Sequences of operations\<close>

datatype ('k, 'v) map_op = MapInsert 'k 'v | MapRemove 'k

fun map_op_key :: "('k, 'v) map_op \<Rightarrow> 'k" where
  "map_op_key (MapInsert k v) = k"
| "map_op_key (MapRemove k) = k"

fun map_op_step ::
    "('k, 'v) map_env \<Rightarrow> 's st_get \<Rightarrow> 's st_ins \<Rightarrow> ('k, 'v) map_op \<Rightarrow> 's \<times> 'k store_map
     \<Rightarrow> (state_error, 's \<times> 'k store_map) result" where
  "map_op_step env get ins (MapInsert k v) (s, m) = store_map_insert env get ins k v s m"
| "map_op_step env get ins (MapRemove k) (s, m) = res_map snd (store_map_remove env get ins k s m)"

fun map_op_spec :: "('k, 'v) map_op \<Rightarrow> ('k \<rightharpoonup> 'v) \<Rightarrow> 'k \<rightharpoonup> 'v" where
  "map_op_spec (MapInsert k v) M = M(k \<mapsto> v)"
| "map_op_spec (MapRemove k) M = M(k := None)"

context kv_state
begin

lemma map_ops_ok:
  assumes "map_env_ok env (sm_var_name m) K" "map_rep env get K s m M" "\<forall>op \<in> set ops. map_op_key op \<in> K"
  shows "\<exists>s' m'. res_fold (map_op_step env get ins) ops (s, m) = Inr (s', m') \<and>
    map_rep env get K s' m' (fold map_op_spec ops M) \<and> sm_var_name m' = sm_var_name m"
  using assms
proof (induction ops arbitrary: s m M)
  case (Cons op ops)
  have "\<exists>s1 m1. map_op_step env get ins op (s, m) = Inr (s1, m1) \<and> map_rep env get K s1 m1 (map_op_spec op M) \<and>
      sm_var_name m1 = sm_var_name m"
  proof (cases op)
    case (MapInsert k v)
    then show ?thesis using store_map_insert_ok [OF Cons.prems(1,2), of k v] Cons.prems(3) by auto
  next
    case (MapRemove k)
    then show ?thesis using store_map_remove_ok [OF Cons.prems(1,2), of k] Cons.prems(3) by auto
  qed
  then obtain s1 m1 where 1: "map_op_step env get ins op (s, m) = Inr (s1, m1)"
    "map_rep env get K s1 m1 (map_op_spec op M)" "sm_var_name m1 = sm_var_name m"
    by blast
  have "map_env_ok env (sm_var_name m1) K" "\<forall>op \<in> set ops. map_op_key op \<in> K"
    using Cons.prems 1(3) by auto
  from Cons.IH [OF this(1) 1(2) this(2)] show ?case using 1 by simp
qed auto

end

section \<open>Properties\<close>

text \<open>
  (C8) The store map refines a finite map. On a service state that holds nothing of the map yet, with
  lawful codecs and keys whose state keys do not coincide: every sequence of inserts and removes runs
  without a panic; afterwards every \<^verbatim>\<open>get\<close> and \<^verbatim>\<open>contains\<close> answers what the finite map after the same
  updates answers; the length is the number of its keys; and a map opened again on the same state
  answers the same.
\<close>

theorem store_map_refines:
  assumes "map_env_ok env name K"
    and "\<forall>i < 16. get_bytes_value ops s (get_bucket_name name i) = Inr None"
    and "get_bytes_value ops s (map_len_key name) = Inr None"
    and "\<forall>op \<in> set upds. map_op_key op \<in> K"
  shows "\<exists>m s' m' m2. store_map_new env (get_bytes_value ops) s name = Inr m \<and>
    res_fold (map_op_step env (get_bytes_value ops) insert_bytes) upds (s, m) = Inr (s', m') \<and>
    (\<forall>k \<in> K. \<exists>n. store_map_get env (get_bytes_value ops) k s' m' = Inr (fold map_op_spec upds Map.empty k, n)) \<and>
    (\<forall>k \<in> K. \<exists>n. store_map_contains env (get_bytes_value ops) k s' m' =
       Inr (k \<in> dom (fold map_op_spec upds Map.empty), n)) \<and>
    store_map_len m' = of_nat (card (dom (fold map_op_spec upds Map.empty))) \<and>
    store_map_new env (get_bytes_value ops) s' name = Inr m2 \<and>
    (\<forall>k \<in> K. \<exists>n. store_map_get env (get_bytes_value ops) k s' m2 = Inr (fold map_op_spec upds Map.empty k, n))"
proof -
  let ?get = "get_bytes_value ops" and ?M = "fold map_op_spec upds Map.empty"
  obtain m where m: "store_map_new env ?get s name = Inr m" "map_rep env ?get K s m Map.empty" "sm_var_name m = name"
    using store_map_new_empty [of ?get s name env K] assms(2,3) by blast
  from gss.map_ops_ok [of env m K, OF _ m(2) assms(4)] assms(1) m(3) obtain s' m' where
    r: "res_fold (map_op_step env ?get insert_bytes) upds (s, m) = Inr (s', m')"
    "map_rep env ?get K s' m' ?M" "sm_var_name m' = name"
    by auto
  obtain m2 where m2: "store_map_new env ?get s' name = Inr m2" "map_rep env ?get K s' m2 ?M" "sm_var_name m2 = name"
    using store_map_reopen [OF r(2)] r(3) by auto
  have "\<exists>n. store_map_get env ?get k s' m' = Inr (?M k, n)" "\<exists>n. store_map_get env ?get k s' m2 = Inr (?M k, n)"
    "\<exists>n. store_map_contains env ?get k s' m' = Inr (k \<in> dom ?M, n)" if "k \<in> K" for k
    using gss.store_map_get_ok [of env m' K ops s' ?M k] gss.store_map_get_ok [of env m2 K ops s' ?M k]
      gss.store_map_contains_ok [of env m' K ops s' ?M k] r m2 assms(1) that
    by (auto simp: domIff)
  moreover have "store_map_len m' = of_nat (card (dom ?M))"
    using map_rep_len [OF r(2)] by (simp add: store_map_len_def)
  ultimately show ?thesis using m(1) r(1) m2(1) by blast
qed

text \<open>A map from byte strings to integers, with the keys 1 and 2.\<close>

definition example_map_env :: "(bytes, u64) map_env" where
  "example_map_env = \<lparr>me_key = bytes_codec, me_val = le_u64_codec, me_u64 = le_u64_codec,
     me_rlp = tagged_list_codec, me_digest = (\<lambda>b. b)\<rparr>"

definition example_state :: "(bytes, bytes) hash_map general_service_state" where
  "example_state = gs_new (mpt_new list_trie (\<lambda>b. b))"

lemma example_state_empty: "get_bytes_value list_trie example_state k = Inr None"
  by (simp add: example_state_def get_bytes_value_def gs_new_def mpt_new_def mpt_get_def list_trie_def
      map_trie_err_def)

lemma example_map_env_ok: "map_env_ok example_map_env ''m'' {[1], [2]}"
proof -
  have key: "map_key_of example_map_env ''m'' [x] = str_bytes ''m'' @ [x]" for x
    by (simp add: map_key_of_def example_map_env_def get_map_key_def Let_def)
  have "map_key_of example_map_env ''m'' [x] \<noteq> map_len_key ''m''" for x
    by (simp add: key map_len_key_def str_bytes_def)
  moreover have "length (map_key_of example_map_env ''m'' [x]) \<noteq> length (get_bucket_name ''m'' i)" for x i
    by (simp add: key get_bucket_name_def)
  then have "map_key_of example_map_env ''m'' [x] \<noteq> get_bucket_name ''m'' i" for x i by metis
  moreover have "inj_on (map_key_of example_map_env ''m'') {[1], [2]}" by (simp add: inj_on_def key)
  ultimately show ?thesis
    by (simp add: map_env_ok_def)
      (simp add: example_map_env_def le_u64_codec_lawful bytes_codec_lawful tagged_list_codec_lawful)
qed

theorem store_map_refines_witness:
  "\<exists>m s' m' n. store_map_new example_map_env (get_bytes_value list_trie) example_state ''m'' = Inr m \<and>
     res_fold (map_op_step example_map_env (get_bytes_value list_trie) insert_bytes)
       [MapInsert [1] 10, MapInsert [2] 20, MapRemove [1]] (example_state, m) = Inr (s', m') \<and>
     store_map_get example_map_env (get_bytes_value list_trie) [2] s' m' = Inr (Some 20, n) \<and>
     store_map_len m' = 1"
proof -
  let ?upds = "[MapInsert [1] 10, MapInsert [2] 20, MapRemove [1]] :: (bytes, u64) map_op list"
  have spec: "fold map_op_spec ?upds Map.empty = [[2] \<mapsto> 20]" by auto
  have "\<forall>op \<in> set ?upds. map_op_key op \<in> {[1], [2]}" by simp
  from store_map_refines [OF example_map_env_ok _ _ this, of list_trie example_state]
  obtain m s' m' where
    "store_map_new example_map_env (get_bytes_value list_trie) example_state ''m'' = Inr m"
    "res_fold (map_op_step example_map_env (get_bytes_value list_trie) insert_bytes) ?upds (example_state, m) = Inr (s', m')"
    "\<forall>k \<in> {[1], [2]}. \<exists>n. store_map_get example_map_env (get_bytes_value list_trie) k s' m' =
       Inr (fold map_op_spec ?upds Map.empty k, n)"
    "store_map_len m' = of_nat (card (dom (fold map_op_spec ?upds Map.empty)))"
    using example_state_empty by blast
  then show ?thesis unfolding spec by fastforce
qed

text \<open>
  The buckets kept in memory are not rolled back with the state. If a key is inserted and the state
  reverts its cache, the map object still lists the key, and has no value for it.
\<close>

lemma store_map_insert_invariant:
  assumes "store_map_insert env get ins k v s m = Inr (s', m')"
    and "\<And>x y t. P t \<Longrightarrow> P (ins x y t)" "P s"
  shows "P s'"
  using assms
  by (auto simp: store_map_insert_def or_panic_Inr_iff inner_insert_def res_bind_Inr_iff Let_def
      save_bucket_def len_add_one_def len_set_def state_insert_def res_map_Inr_iff
      split: if_splits)

text \<open>
  (C10) Revert leaves a map object stale. Take a map over a service state with an empty cache, insert a
  key it does not have, and let the executor revert the cache, which gives back the state from before
  the insert. The same map object then answers \<^verbatim>\<open>contains\<close> with true and \<^verbatim>\<open>get\<close> with nothing, and
  \<^verbatim>\<open>remove\<close> panics.
\<close>

theorem store_map_stale_after_revert:
  assumes "map_env_ok env (sm_var_name m) K" "map_rep env (get_bytes_value ops) K s m M" "k \<in> K" "M k = None"
    and "cache_map s = []"
    and "get_bytes_value ops s (map_key_of env (sm_var_name m) k) = Inr None"
    and "store_map_insert env (get_bytes_value ops) insert_bytes k v s m = Inr (s', m')"
  shows "revert_cache s' = s \<and>
    store_map_contains env (get_bytes_value ops) k (revert_cache s') m' = Inr (True, m') \<and>
    store_map_get env (get_bytes_value ops) k (revert_cache s') m' = Inr (None, m') \<and>
    store_map_remove env (get_bytes_value ops) insert_bytes k (revert_cache s') m' = Inl Panic"
proof -
  let ?get = "get_bytes_value ops"
  have "revert_cache s' = revert_cache s"
    by (rule store_map_insert_invariant [OF assms(7), of "\<lambda>t. revert_cache t = revert_cache s"])
      (simp_all add: revert_cache_def insert_bytes_def)
  then have s: "revert_cache s' = s" using assms(5) by (simp add: revert_cache_def)
  from gss.store_map_insert_ok [OF assms(1-3), of v] assms(7) have
    rep: "map_rep env ?get K s' m' (M(k \<mapsto> v))" and name: "sm_var_name m' = sm_var_name m"
    and rec: "\<And>i. key_index env k = Inr i \<Longrightarrow> is_recovered (sm_keys m') ! i"
    by auto
  obtain kb i where kb: "encode_fixed (me_key env) k = Inr kb" "get_bucket_index kb = Inr i" "i < 16"
    "key_index env k = Inr i" "get_map_key env (sm_var_name m) kb = map_key_of env (sm_var_name m) k"
    using assms(1,3) by (rule map_env_key)
  from rep obtain B where st: "state_holds env ?get K (sm_var_name m) s' (M(k \<mapsto> v)) B" and mem: "memory_holds m' B"
    by (auto simp: map_rep_def map_rep_at_def name)
  have "k \<in> set (keys_bucket (sm_keys m') ! i)"
    using state_holds_lookup [OF st kb(4,3)] memory_holdsD(3) [OF mem kb(3)] rec [OF kb(4)] by simp
  then have c: "inner_contains env ?get s m' i k = Inr (True, m')"
    using rec [OF kb(4)] by (simp add: inner_contains_def buckets_contains_def)
  then have g: "inner_get env ?get k s m' = Inr (None, m')"
    using kb assms(6) name by (simp add: inner_get_def state_get_bytes)
  show ?thesis
    using s kb c g by (simp add: store_map_contains_def store_map_get_def store_map_remove_def inner_remove_def)
qed

theorem store_map_stale_after_revert_witness:
  "\<exists>m s' m'. store_map_new example_map_env (get_bytes_value list_trie) example_state ''m'' = Inr m \<and>
     store_map_insert example_map_env (get_bytes_value list_trie) insert_bytes [1] 10 example_state m = Inr (s', m') \<and>
     store_map_contains example_map_env (get_bytes_value list_trie) [1] (revert_cache s') m' = Inr (True, m') \<and>
     store_map_get example_map_env (get_bytes_value list_trie) [1] (revert_cache s') m' = Inr (None, m')"
proof -
  obtain m where m: "store_map_new example_map_env (get_bytes_value list_trie) example_state ''m'' = Inr m"
    "map_rep example_map_env (get_bytes_value list_trie) {[1], [2]} example_state m Map.empty" "sm_var_name m = ''m''"
    using store_map_new_empty [of "get_bytes_value list_trie" example_state "''m''" example_map_env "{[1], [2]}"]
      example_state_empty by blast
  have env: "map_env_ok example_map_env (sm_var_name m) {[1], [2]}" using example_map_env_ok m(3) by simp
  obtain s' m' where i: "store_map_insert example_map_env (get_bytes_value list_trie) insert_bytes [1] 10 example_state m = Inr (s', m')"
    using gss.store_map_insert_ok [OF env m(2), of "[1]" 10] by auto
  have "cache_map example_state = []" by (simp add: example_state_def gs_new_def)
  from store_map_stale_after_revert [OF env m(2) _ _ this example_state_empty i] m(1) i show ?thesis by auto
qed

section \<open>Iteration\<close>

lemma fold_recover_ok:
  assumes "memory_holds m B" "\<forall>i \<in> set idxs. i < 16"
  shows "memory_holds (m\<lparr>sm_keys := fold (\<lambda>(i, b). recover_bucket i b) (zip idxs (map B idxs)) (sm_keys m)\<rparr>) B \<and>
    (\<forall>i < 16. (i \<in> set idxs \<or> is_recovered (sm_keys m) ! i) \<longrightarrow>
       is_recovered (fold (\<lambda>(i, b). recover_bucket i b) (zip idxs (map B idxs)) (sm_keys m)) ! i)"
  using assms
proof (induction idxs arbitrary: m)
  case (Cons i idxs)
  let ?m = "m\<lparr>sm_keys := recover_bucket i (B i) (sm_keys m)\<rparr>"
  have i: "i < 16" using Cons.prems(2) by simp
  have "memory_holds ?m B"
    using Cons.prems(1) i buckets_ok_ops(1) [OF memory_holdsD(1) [OF Cons.prems(1)] i]
    by (rule memory_holds_update) (auto simp: recover_bucket_def)
  moreover have "is_recovered (sm_keys ?m) = (is_recovered (sm_keys m))[i := True]"
    by (simp add: recover_bucket_def)
  ultimately show ?case
    using Cons.IH [of ?m] Cons.prems(2) memory_holdsD(4) [OF Cons.prems(1)] i
    by (auto simp: nth_list_update)
qed simp

lemma recover_all_ok:
  assumes rep: "map_rep_at env get K s m M B"
  obtains m' where "recover_all_buckets env get s m = Inr m'" "map_rep_at env get K s m' M B"
    "keys_bucket (sm_keys m') = map B [0..<16]" "sm_var_name m' = sm_var_name m"
proof -
  let ?idxs = "filter (\<lambda>i. \<not> is_recovered (sm_keys m) ! i) [0..<16]"
  let ?keys = "fold (\<lambda>(i, b). recover_bucket i b) (zip ?idxs (map B ?idxs)) (sm_keys m)"
  let ?m = "m\<lparr>sm_keys := ?keys\<rparr>"
  from rep have st: "state_holds env get K (sm_var_name m) s M B" and mem: "memory_holds m B"
    and ln: "length_holds env get (sm_var_name m) s (sm_len m) B"
    by (auto simp: map_rep_at_def)
  have "\<exists>r. get s (get_bucket_name (sm_var_name m) i) = Inr r \<and>
      (case r of Some bs \<Rightarrow> bucket_decode env bs | None \<Rightarrow> Inr []) = Inr (B i)" if "i < 16" for i
    using state_holdsD(1) [OF st that] by (auto simp: stored_bucket_def res_bind_Inr_iff)
  then obtain r where r: "\<And>i. i < 16 \<Longrightarrow> get s (get_bucket_name (sm_var_name m) i) = Inr (r i)"
    "\<And>i. i < 16 \<Longrightarrow> (case r i of Some bs \<Rightarrow> bucket_decode env bs | None \<Rightarrow> Inr []) = Inr (B i)"
    by metis
  have c1: "res_collect (\<lambda>i. get s (get_bucket_name (sm_var_name m) i)) ?idxs = Inr (map r ?idxs)"
    using r(1) by (intro res_collect_total) auto
  have "res_collect (\<lambda>r. case r of Some bs \<Rightarrow> bucket_decode env bs | None \<Rightarrow> Inr []) (map r xs) = Inr (map B xs)"
    if "\<forall>i \<in> set xs. i < 16" for xs
    using that r(2) by (induction xs) auto
  then have c2: "res_collect (\<lambda>r. case r of Some bs \<Rightarrow> bucket_decode env bs | None \<Rightarrow> Inr []) (map r ?idxs)
      = Inr (map B ?idxs)"
    by simp
  have run: "recover_all_buckets env get s m = Inr ?m"
    unfolding recover_all_buckets_def Let_def memory_holdsD(4) [OF mem] c1 by (simp add: c2)
  have fr: "memory_holds ?m B" "\<forall>i < 16. is_recovered ?keys ! i"
    using fold_recover_ok [OF mem, of ?idxs] by auto
  then have "map_rep_at env get K s ?m M B" using st ln by (simp add: map_rep_at_def)
  moreover have "keys_bucket ?keys = map B [0..<16]"
    using memory_holdsD(3,5) [OF fr(1)] fr(2) by (intro nth_equalityI) simp_all
  ultimately show thesis using run by (intro that [of ?m]) simp_all
qed

lemma concat_prefix:
  assumes "i < length keys" "j < length (keys ! i)"
  shows "concat keys ! (prefix_len keys i + j) = keys ! i ! j"
proof -
  have "concat keys = concat (take i keys) @ keys ! i @ concat (drop (Suc i) keys)"
    using assms(1) by (metis concat.simps(2) concat_append id_take_nth_drop)
  moreover have "length (concat (take i keys)) = prefix_len keys i"
    by (simp add: prefix_len_def length_concat)
  ultimately show ?thesis using assms(2) by (simp add: nth_append)
qed

lemma prefix_len_all: "prefix_len keys (length keys) = length (concat keys)"
  by (simp add: prefix_len_def length_concat)

text \<open>The position before a total lies in one of the intervals.\<close>

lemma prefix_interval:
  "n < prefix_len keys j \<Longrightarrow> \<exists>i < j. prefix_len keys i \<le> n \<and> n < prefix_len keys (Suc i)"
proof (induction j)
  case 0
  then show ?case by (simp add: prefix_len_def)
next
  case (Suc j)
  then show ?case by (cases "n < prefix_len keys j") (auto simp: less_Suc_eq)
qed

lemma distinct_concat_buckets:
  assumes "distinct idxs" "\<And>i. i \<in> set idxs \<Longrightarrow> distinct (B i)"
    "\<And>i j. i \<in> set idxs \<Longrightarrow> j \<in> set idxs \<Longrightarrow> i \<noteq> j \<Longrightarrow> set (B i) \<inter> set (B j) = {}"
  shows "distinct (concat (map B idxs))"
  using assms
proof (induction idxs)
  case (Cons i idxs)
  have "set (B i) \<inter> set (B j) = {}" if "j \<in> set idxs" for j
    using Cons.prems(1,3) that by (metis distinct.simps(2) list.set_intros(1,2))
  then show ?case using Cons by (auto simp: disjoint_iff)
qed simp

context kv_state
begin

lemma iter_next_ok:
  assumes env: "map_env_ok env (sm_var_name m) K" and rep: "map_rep_at env get K s m M B"
    and all: "keys_bucket (sm_keys m) = map B [0..<16]"
    and small: "card (dom M) < 2 ^ 64"
  defines "ks \<equiv> concat (map B [0..<16])"
  shows "distinct ks \<and> set ks = dom M"
    and "n < length ks \<Longrightarrow>
      \<exists>v. M (ks ! n) = Some v \<and> iter_next env get s m (of_nat n) = Inr (Some (ks ! n, v), of_nat (Suc n))"
    and "iter_next env get s m (of_nat (length ks)) = Inr (None, of_nat (length ks))"
proof -
  let ?keys = "map B [0..<16]"
  from rep have st: "state_holds env get K (sm_var_name m) s M B" and mem: "memory_holds m B"
    by (auto simp: map_rep_at_def)
  have "set (B i) \<inter> set (B j) = {}" if "i < 16" "j < 16" "i \<noteq> j" for i j
    using state_holdsD(3) [OF st that(1)] state_holdsD(3) [OF st that(2)] that(3) by fastforce
  then have "distinct ks"
    unfolding ks_def using state_holdsD(2) [OF st] by (intro distinct_concat_buckets) auto
  moreover have set: "set ks = dom M"
  proof (rule set_eqI)
    fix k show "k \<in> set ks \<longleftrightarrow> k \<in> dom M"
      using state_holdsD(4) [OF st, of k] by (auto simp: ks_def Bex_def)
  qed
  ultimately show "distinct ks \<and> set ks = dom M" by blast
  have total: "length ks = card (dom M)" using \<open>distinct ks\<close> set by (metis distinct_card)
  have len: "sm_len m = of_nat (length ks)"
    using map_rep_len [of env get K s m M] rep total by (auto simp: map_rep_def)
  have un: "unat (of_nat j :: u64) = j" if "j \<le> length ks" for j
    using that small total by (intro of_nat_inverse) auto
  have lens: "unat (bucket_lens (sm_keys m) ! j) = prefix_len ?keys j" if "j \<le> 16" for j
  proof -
    have "prefix_len ?keys j \<le> length ks"
      using prefix_len_mono [OF that, of ?keys] prefix_len_all [of ?keys] by (simp add: ks_def)
    then show ?thesis
      using memory_holdsD(1) [OF mem] that un by (simp add: buckets_ok_def all)
  qed
  show "iter_next env get s m (of_nat (length ks)) = Inr (None, of_nat (length ks))"
    by (simp add: iter_next_def len)
  assume n: "n < length ks"
  let ?P = "\<lambda>i. case get_abs_index_interval i (sm_keys m) of (l, r) \<Rightarrow> l \<le> of_nat n \<and> of_nat n < r"
  have P: "?P i \<longleftrightarrow> prefix_len ?keys i \<le> n \<and> n < prefix_len ?keys (Suc i)" if "i < 16" for i
    using lens [of i] lens [of "Suc i"] un [of n] n that
    by (simp add: get_abs_index_interval_def word_le_unat word_less_unat)
  have "n < prefix_len ?keys 16" using n prefix_len_all [of ?keys] by (simp add: ks_def)
  from prefix_interval [OF this] obtain i0 where i0: "i0 < 16" "prefix_len ?keys i0 \<le> n" "n < prefix_len ?keys (Suc i0)"
    by blast
  then have "?P i0" using P [OF i0(1)] by simp
  then have "List.find ?P [0..<16] \<noteq> None" using i0(1) unfolding find_None_iff by fastforce
  then obtain i where f: "List.find ?P [0..<16] = Some i" by auto
  then have i: "i < 16" "prefix_len ?keys i \<le> n" "n < prefix_len ?keys (Suc i)"
    using P [of i] unfolding find_Some_iff by auto
  let ?j = "n - prefix_len ?keys i"
  have j: "?j < length (B i)" using i prefix_len_Suc [of i ?keys] by simp
  have "ks ! n = B i ! ?j" using concat_prefix [of i ?keys ?j] i j by (simp add: ks_def)
  then have key: "ks ! n = keys_bucket (sm_keys m) ! i ! ?j" "ks ! n \<in> set (B i)" using i(1) j by (simp_all add: all)
  obtain v where v: "M (ks ! n) = Some v" using state_holdsD(4) [OF st, of "ks ! n"] key(2) i(1) by auto
  obtain m' where g: "store_map_get env get (ks ! n) s m = Inr (Some v, m')"
    using store_map_get_ok [OF env, of s M "ks ! n"] rep v state_holdsD(3) [OF st i(1) key(2)]
    by (auto simp: map_rep_def)
  have idx: "unat (of_nat n - bucket_lens (sm_keys m) ! i) = ?j"
    using lens [of i] un [of n] n i by (simp add: unat_sub_exact word_le_unat)
  have "\<not> (of_nat n :: u64) \<ge> sm_len m"
    using n un [of n] un [of "length ks"] by (simp add: len word_le_unat)
  then have "iter_next env get s m (of_nat n) = Inr (Some (ks ! n, v), of_nat n + 1)"
    using f idx j key g i(1) by (simp add: iter_next_def Let_def get_abs_index_interval_def all)
  then show "\<exists>v. M (ks ! n) = Some v \<and> iter_next env get s m (of_nat n) = Inr (Some (ks ! n, v), of_nat (Suc n))"
    using v by (simp add: add.commute)
qed

end

text \<open>
  (C9) Iteration. For a store map with fewer than $2^{64}$ keys, \<^verbatim>\<open>iter\<close> recovers every bucket without
  a panic; there is then an enumeration of the map's keys without repetition such that \<^verbatim>\<open>next\<close> at each
  position answers that key with its value and moves on by one, and answers nothing at the end.
\<close>

theorem store_map_iter_complete:
  assumes "map_env_ok env (sm_var_name m) K" "map_rep env (get_bytes_value ops) K s m M"
    and "card (dom M) < 2 ^ 64"
  shows "\<exists>m' ks. recover_all_buckets env (get_bytes_value ops) s m = Inr m' \<and> distinct ks \<and> set ks = dom M \<and>
    (\<forall>n < length ks. \<exists>v. M (ks ! n) = Some v \<and>
       iter_next env (get_bytes_value ops) s m' (of_nat n) = Inr (Some (ks ! n, v), of_nat (Suc n))) \<and>
    iter_next env (get_bytes_value ops) s m' (of_nat (length ks)) = Inr (None, of_nat (length ks))"
proof -
  from assms(2) obtain B where "map_rep_at env (get_bytes_value ops) K s m M B" by (auto simp: map_rep_def)
  then obtain m' where m': "recover_all_buckets env (get_bytes_value ops) s m = Inr m'"
    "map_rep_at env (get_bytes_value ops) K s m' M B" "keys_bucket (sm_keys m') = map B [0..<16]"
    "sm_var_name m' = sm_var_name m"
    by (rule recover_all_ok)
  have "map_env_ok env (sm_var_name m') K" using assms(1) m'(4) by simp
  note it = gss.iter_next_ok [OF this m'(2,3) assms(3)]
  from it(1,3) it(2) m'(1) show ?thesis by blast
qed

theorem store_map_iter_complete_witness:
  "\<exists>m s' m' m2. store_map_new example_map_env (get_bytes_value list_trie) example_state ''m'' = Inr m \<and>
     store_map_insert example_map_env (get_bytes_value list_trie) insert_bytes [1] 10 example_state m = Inr (s', m') \<and>
     recover_all_buckets example_map_env (get_bytes_value list_trie) s' m' = Inr m2 \<and>
     iter_next example_map_env (get_bytes_value list_trie) s' m2 0 = Inr (Some ([1], 10), 1)"
proof -
  let ?get = "get_bytes_value list_trie"
  obtain m where m: "store_map_new example_map_env ?get example_state ''m'' = Inr m"
    "map_rep example_map_env ?get {[1], [2]} example_state m Map.empty" "sm_var_name m = ''m''"
    using store_map_new_empty [of ?get example_state "''m''" example_map_env "{[1], [2]}"]
      example_state_empty by blast
  have env: "map_env_ok example_map_env (sm_var_name m) {[1], [2]}" using example_map_env_ok m(3) by simp
  obtain s' m' where i: "store_map_insert example_map_env ?get insert_bytes [1] 10 example_state m = Inr (s', m')"
    "map_rep example_map_env ?get {[1], [2]} s' m' [[1] \<mapsto> 10]" "sm_var_name m' = sm_var_name m"
    using gss.store_map_insert_ok [OF env m(2), of "[1]" 10] by auto
  obtain m2 ks where r: "recover_all_buckets example_map_env ?get s' m' = Inr m2" "distinct ks" "set ks = {[1]}"
    "\<forall>n < length ks. \<exists>v. [[1] \<mapsto> 10] (ks ! n) = Some v \<and>
       iter_next example_map_env ?get s' m2 (of_nat n) = Inr (Some (ks ! n, v), of_nat (Suc n))"
    using store_map_iter_complete [OF env [folded i(3)] i(2)] by auto
  have "length ks = 1" using distinct_card [OF r(2)] r(3) by simp
  then obtain x where "ks = [x]" by (auto simp: length_Suc_conv)
  then have "ks = [[1]]" using r(3) by simp
  then show ?thesis using m(1) i(1) r(1,4) by auto
qed

end
