(* ===== verification/Store_Array.thy ===== *)
theory Store_Array
  imports Store_Map
begin

text \<open>
  \<^verbatim>\<open>DefaultStoreArray\<close> of \<^verbatim>\<open>framework/src/binding/store/array.rs\<close>: a list of element keys stored under
  the key of the array, and each element stored under the hash of its own encoding. The lemmas show
  that the array refines a list as long as its elements are pairwise different, and what happens when
  two equal elements are pushed.
\<close>

record 'e array_env =
  ar_elem :: "'e codec"
  ar_hash :: "hash codec"
  ar_rlp :: "bytes list codec"
  ar_digest :: "bytes \<Rightarrow> bytes"

record store_array =
  sa_var_name :: hash
  sa_keys :: "hash list"

text \<open>\<^verbatim>\<open>FixedKeys<Hash>\<close> has the same encoding as a bucket of hashes.\<close>

definition fixed_keys_encode :: "'e array_env \<Rightarrow> hash list \<Rightarrow> (state_error, bytes) result" where
  "fixed_keys_encode env ks =
     res_bind (or_panic (map_codec_err (res_collect (encode_fixed (ar_hash env)) ks)))
       (\<lambda>inner. map_codec_err (encode_fixed (ar_rlp env) inner))"

definition fixed_keys_decode :: "'e array_env \<Rightarrow> bytes \<Rightarrow> (state_error, hash list) result" where
  "fixed_keys_decode env bs =
     res_bind (map_codec_err (decode_fixed (ar_rlp env) bs))
       (\<lambda>inner. case res_collect (decode_fixed (ar_hash env)) inner of
            Inl Panic \<Rightarrow> Inl Panic
          | Inl (Err _) \<Rightarrow> Inl (Err (CodecErr (Decoder ''decode K from bytes fail'')))
          | Inr b \<Rightarrow> Inr b)"

definition store_array_new ::
    "'e array_env \<Rightarrow> 's st_get \<Rightarrow> 's \<Rightarrow> string \<Rightarrow> (state_error, store_array) result" where
  "store_array_new env get s name =
     (let var_name = hash_digest (ar_digest env) (str_bytes (name @ ''array'')) in
      res_bind (or_panic (state_get get (ar_hash env) bytes_codec s var_name)) (\<lambda>opt_bs.
      res_bind (case opt_bs of Some bs \<Rightarrow> or_panic (fixed_keys_decode env bs) | None \<Rightarrow> Inr []) (\<lambda>ks.
        Inr \<lparr>sa_var_name = var_name, sa_keys = ks\<rparr>)))"

definition store_array_get ::
    "'e array_env \<Rightarrow> 's st_get \<Rightarrow> 's \<Rightarrow> store_array \<Rightarrow> u64 \<Rightarrow> (state_error, 'e option) result" where
  "store_array_get env get s a index =
     (if unat index < length (sa_keys a)
      then or_panic (state_get get (ar_hash env) (ar_elem env) s (sa_keys a ! unat index))
      else Inr None)"

definition store_array_push ::
    "'e array_env \<Rightarrow> 's st_ins \<Rightarrow> 'e \<Rightarrow> 's \<Rightarrow> store_array \<Rightarrow> (state_error, 's \<times> store_array) result" where
  "store_array_push env ins elm s a =
     or_panic
       (res_bind (map_codec_err (encode_fixed (ar_elem env) elm)) (\<lambda>eb.
        let key = hash_digest (ar_digest env) eb; a = a\<lparr>sa_keys := sa_keys a @ [key]\<rparr> in
        res_bind (fixed_keys_encode env (sa_keys a)) (\<lambda>kb.
        res_bind (state_insert ins (ar_hash env) bytes_codec (sa_var_name a) kb s) (\<lambda>s.
        res_map (\<lambda>s. (s, a)) (state_insert ins (ar_hash env) (ar_elem env) key elm s)))))"

text \<open>\<^verbatim>\<open>Vec::remove\<close> panics when the index is out of range.\<close>

definition store_array_remove ::
    "'e array_env \<Rightarrow> 's st_ins \<Rightarrow> u64 \<Rightarrow> 's \<Rightarrow> store_array \<Rightarrow> (state_error, 's \<times> store_array) result" where
  "store_array_remove env ins index s a =
     (let i = unat index; ks = sa_keys a in
      if i \<ge> length ks then Inl Panic
      else or_panic
        (let key = ks ! i; a = a\<lparr>sa_keys := take i ks @ drop (Suc i) ks\<rparr> in
         res_bind (fixed_keys_encode env (sa_keys a)) (\<lambda>kb.
         res_bind (state_insert ins (ar_hash env) bytes_codec (sa_var_name a) kb s) (\<lambda>s.
         res_map (\<lambda>s. (s, a)) (state_insert ins (ar_hash env) bytes_codec key [] s)))))"

definition store_array_len :: "store_array \<Rightarrow> u64" where
  "store_array_len a = of_nat (length (sa_keys a))"

definition array_iter_next ::
    "'e array_env \<Rightarrow> 's st_get \<Rightarrow> 's \<Rightarrow> store_array \<Rightarrow> u64 \<Rightarrow> (state_error, (u64 \<times> 'e) option \<times> u64) result" where
  "array_iter_next env get s a idx =
     (if idx < store_array_len a then
        res_bind (store_array_get env get s a idx) (\<lambda>opt.
        res_bind (expect opt) (\<lambda>ele. Inr (Some (idx, ele), idx + 1)))
      else Inr (None, idx))"

section \<open>The array as a list\<close>

definition elem_key :: "'e array_env \<Rightarrow> 'e \<Rightarrow> hash" where
  "elem_key env x =
     hash_digest (ar_digest env) (case encode_fixed (ar_elem env) x of Inr b \<Rightarrow> b | Inl _ \<Rightarrow> [])"

text \<open>
  Lawful codecs, and the elements \<^verbatim>\<open>E\<close> that the array is used with have different hashes, none of
  which is the key of the array itself.
\<close>

definition array_env_ok :: "'e array_env \<Rightarrow> hash \<Rightarrow> 'e set \<Rightarrow> bool" where
  "array_env_ok env var_name E \<longleftrightarrow>
     codec_lawful (ar_elem env) \<and> codec_nonempty (ar_elem env) \<and> codec_lawful (ar_hash env) \<and>
     codec_lawful (ar_rlp env) \<and> codec_nonempty (ar_rlp env) \<and>
     inj_on (elem_key env) E \<and> var_name \<notin> elem_key env ` E"

definition array_rep ::
    "'e array_env \<Rightarrow> 's st_get \<Rightarrow> 's \<Rightarrow> store_array \<Rightarrow> 'e list \<Rightarrow> bool" where
  "array_rep env get s a xs \<longleftrightarrow>
     sa_keys a = map (elem_key env) xs \<and>
     (\<forall>x \<in> set xs. state_get get (ar_hash env) (ar_elem env) s (elem_key env x) = Inr (Some x))"

lemma array_env_okD:
  assumes "array_env_ok env var_name E"
  shows "codec_lawful (ar_elem env)" "codec_nonempty (ar_elem env)" "codec_lawful (ar_hash env)"
    "codec_lawful (ar_rlp env)" "codec_nonempty (ar_rlp env)" "inj_on (elem_key env) E"
    "\<And>x. x \<in> E \<Longrightarrow> elem_key env x \<noteq> var_name"
  using assms by (auto simp: array_env_ok_def)

lemma fixed_keys_encode_ok:
  assumes "array_env_ok env var_name E"
  obtains kb where "fixed_keys_encode env ks = Inr kb" "fixed_keys_decode env kb = Inr ks" "kb \<noteq> []"
proof -
  obtain bs where bs: "res_collect (encode_fixed (ar_hash env)) ks = Inr bs"
    "res_collect (decode_fixed (ar_hash env)) bs = Inr ks"
    using collect_roundtrip [OF array_env_okD(3) [OF assms], of ks] by blast
  obtain kb where kb: "encode_fixed (ar_rlp env) bs = Inr kb" "decode_fixed (ar_rlp env) kb = Inr bs"
    using array_env_okD(4) [OF assms] by (rule codec_lawfulE)
  have "kb \<noteq> []" using array_env_okD(5) [OF assms] kb(1) by (auto simp: codec_nonempty_def)
  then show thesis using bs kb by (intro that) (auto simp: fixed_keys_encode_def fixed_keys_decode_def)
qed

context kv_state
begin

text \<open>Typed reads under hash keys: a write is seen at its own hash only.\<close>

lemma hash_read_write:
  assumes "codec_lawful hc" "encode_fixed hc h = Inr kb"
  shows "state_get get hc vc (ins kb vb s) h' =
    (if h' = h then (if vb = [] then Inr None else res_map Some (map_codec_err (decode_fixed vc vb)))
     else state_get get hc vc s h')"
proof (cases "h' = h")
  case True
  then show ?thesis using assms(2) by (simp add: state_get_def present_def)
next
  case False
  obtain kb' where kb': "encode_fixed hc h' = Inr kb'" using assms(1) by (rule codec_lawfulE)
  then have "kb' \<noteq> kb" using codec_lawful_inj [OF assms(1)] assms(2) False by blast
  then show ?thesis using kb' False by (simp add: state_get_def)
qed

lemma store_array_push_ok:
  assumes env: "array_env_ok env (sa_var_name a) E" and x: "x \<in> E" "set xs \<subseteq> E"
    and rep: "array_rep env get s a xs"
  shows "\<exists>s' a'. store_array_push env ins x s a = Inr (s', a') \<and> array_rep env get s' a' (xs @ [x]) \<and>
    sa_var_name a' = sa_var_name a"
proof -
  note e = array_env_okD [OF env]
  obtain eb where eb: "encode_fixed (ar_elem env) x = Inr eb" "decode_fixed (ar_elem env) eb = Inr x"
    using e(1) by (rule codec_lawfulE)
  then have "eb \<noteq> []" using e(2) by (auto simp: codec_nonempty_def)
  have key: "hash_digest (ar_digest env) eb = elem_key env x" by (simp add: elem_key_def eb)
  obtain kb where kb: "fixed_keys_encode env (sa_keys a @ [elem_key env x]) = Inr kb"
    using env by (rule fixed_keys_encode_ok)
  obtain vn where vn: "encode_fixed (ar_hash env) (sa_var_name a) = Inr vn" using e(3) by (rule codec_lawfulE)
  obtain en where en: "encode_fixed (ar_hash env) (elem_key env x) = Inr en" using e(3) by (rule codec_lawfulE)
  let ?s = "ins en eb (ins vn kb s)" and ?a = "a\<lparr>sa_keys := sa_keys a @ [elem_key env x]\<rparr>"
  have "store_array_push env ins x s a = Inr (?s, ?a)"
    using eb(1) kb vn en by (simp add: store_array_push_def Let_def key state_insert_def)
  moreover have "state_get get (ar_hash env) (ar_elem env) ?s (elem_key env y) = Inr (Some y)"
    if "y \<in> set (xs @ [x])" for y
  proof (cases "y = x")
    case True
    then show ?thesis using eb(2) \<open>eb \<noteq> []\<close> by (simp add: hash_read_write [OF e(3) en])
  next
    case False
    then have y: "y \<in> set xs" "y \<in> E" using that x(2) by auto
    then have "elem_key env y \<noteq> elem_key env x" using e(6) x(1) False by (meson inj_onD)
    then show ?thesis
      using rep y e(7) [OF y(2)] by (simp add: hash_read_write [OF e(3) en] hash_read_write [OF e(3) vn] array_rep_def)
  qed
  ultimately show ?thesis using rep by (auto simp: array_rep_def)
qed

text \<open>Removing an element that occurs once.\<close>

lemma store_array_remove_ok:
  assumes env: "array_env_ok env (sa_var_name a) E" and xs: "set xs \<subseteq> E" "distinct xs" "unat i < length xs"
    and rep: "array_rep env get s a xs"
  shows "\<exists>s' a'. store_array_remove env ins i s a = Inr (s', a') \<and>
    array_rep env get s' a' (take (unat i) xs @ drop (Suc (unat i)) xs) \<and> sa_var_name a' = sa_var_name a"
proof -
  note e = array_env_okD [OF env]
  let ?x = "xs ! unat i" and ?rest = "take (unat i) xs @ drop (Suc (unat i)) xs"
  have keys: "sa_keys a = map (elem_key env) xs" using rep by (simp add: array_rep_def)
  obtain kb where kb: "fixed_keys_encode env (map (elem_key env) ?rest) = Inr kb"
    using env by (rule fixed_keys_encode_ok)
  obtain vn where vn: "encode_fixed (ar_hash env) (sa_var_name a) = Inr vn" using e(3) by (rule codec_lawfulE)
  obtain en where en: "encode_fixed (ar_hash env) (elem_key env ?x) = Inr en" using e(3) by (rule codec_lawfulE)
  let ?s = "ins en [] (ins vn kb s)" and ?a = "a\<lparr>sa_keys := map (elem_key env) ?rest\<rparr>"
  have "store_array_remove env ins i s a = Inr (?s, ?a)"
    using kb vn en xs(3)
    by (simp add: store_array_remove_def Let_def keys take_map drop_map state_insert_def)
  moreover have "state_get get (ar_hash env) (ar_elem env) ?s (elem_key env y) = Inr (Some y)"
    if y: "y \<in> set ?rest" for y
  proof -
    have "distinct (take (unat i) xs @ ?x # drop (Suc (unat i)) xs)"
      using xs(2) id_take_nth_drop [OF xs(3)] by simp
    then have "y \<noteq> ?x" using y by auto
    moreover have "y \<in> set xs" using y by (auto dest: in_set_takeD in_set_dropD)
    moreover have "?x \<in> set xs" using xs(3) by simp
    ultimately have "y \<in> E" "elem_key env y \<noteq> elem_key env ?x"
      using e(6) xs(1) by (auto dest: inj_onD)
    then show ?thesis
      using rep \<open>y \<in> set xs\<close> e(7) by (simp add: hash_read_write [OF e(3) en] hash_read_write [OF e(3) vn] array_rep_def)
  qed
  ultimately show ?thesis by (auto simp: array_rep_def)
qed

lemma store_array_get_ok:
  assumes "array_rep env get s a xs"
  shows "store_array_get env get s a i = Inr (if unat i < length xs then Some (xs ! unat i) else None)"
  using assms by (auto simp: store_array_get_def array_rep_def)

text \<open>Removing one of two equal elements erases the value of both.\<close>

lemma store_array_duplicate:
  assumes env: "array_env_ok env (sa_var_name a) E" and x: "x \<in> E" and rep: "array_rep env get s a []"
  shows "\<exists>s1 a1 s2 a2 s3 a3. store_array_push env ins x s a = Inr (s1, a1) \<and>
    store_array_push env ins x s1 a1 = Inr (s2, a2) \<and> store_array_remove env ins 0 s2 a2 = Inr (s3, a3) \<and>
    store_array_len a3 = 1 \<and> store_array_get env get s3 a3 0 = Inr None \<and>
    array_iter_next env get s3 a3 0 = Inl Panic"
proof -
  note e = array_env_okD [OF env]
  obtain s1 a1 where 1: "store_array_push env ins x s a = Inr (s1, a1)" "array_rep env get s1 a1 [x]"
    "sa_var_name a1 = sa_var_name a"
    using store_array_push_ok [OF env x _ rep] by auto
  obtain s2 a2 where 2: "store_array_push env ins x s1 a1 = Inr (s2, a2)" "array_rep env get s2 a2 [x, x]"
    "sa_var_name a2 = sa_var_name a"
    using store_array_push_ok [OF _ x _ 1(2), of] env 1(3) x by auto
  obtain kb where kb: "fixed_keys_encode env [elem_key env x] = Inr kb" using env by (rule fixed_keys_encode_ok)
  obtain vn where vn: "encode_fixed (ar_hash env) (sa_var_name a) = Inr vn" using e(3) by (rule codec_lawfulE)
  obtain en where en: "encode_fixed (ar_hash env) (elem_key env x) = Inr en" using e(3) by (rule codec_lawfulE)
  have keys: "sa_keys a2 = [elem_key env x, elem_key env x]" using 2(2) by (simp add: array_rep_def)
  let ?s = "ins en [] (ins vn kb s2)" and ?a = "a2\<lparr>sa_keys := [elem_key env x]\<rparr>"
  have r: "store_array_remove env ins 0 s2 a2 = Inr (?s, ?a)"
    using kb vn en 2(3) by (simp add: store_array_remove_def Let_def keys state_insert_def)
  have "store_array_get env get ?s ?a 0 = Inr None"
    by (simp add: store_array_get_def hash_read_write [OF e(3) en])
  then show ?thesis
    using 1(1) 2(1) r by (auto simp: store_array_len_def array_iter_next_def)
qed

end

section \<open>Properties\<close>

text \<open>
  (C11) The store array refines a list of different elements. On the service state, a push of an element
  appends it, a removal inside the range removes exactly that position, a read answers the element at
  the position or nothing beyond the end, and a removal beyond the end panics.
\<close>

theorem store_array_refines:
  assumes "array_env_ok env (sa_var_name a) E" "x \<in> E" "set xs \<subseteq> E" "distinct xs"
    and "array_rep env (get_bytes_value ops) s a xs"
  shows "(\<exists>s' a'. store_array_push env insert_bytes x s a = Inr (s', a') \<and>
       array_rep env (get_bytes_value ops) s' a' (xs @ [x])) \<and>
    (unat i < length xs \<longrightarrow> (\<exists>s' a'. store_array_remove env insert_bytes i s a = Inr (s', a') \<and>
       array_rep env (get_bytes_value ops) s' a' (take (unat i) xs @ drop (Suc (unat i)) xs))) \<and>
    (length xs \<le> unat i \<longrightarrow> store_array_remove env insert_bytes i s a = Inl Panic) \<and>
    store_array_get env (get_bytes_value ops) s a i = Inr (if unat i < length xs then Some (xs ! unat i) else None) \<and>
    store_array_len a = of_nat (length xs)"
proof (intro conjI impI)
  show "length xs \<le> unat i \<Longrightarrow> store_array_remove env insert_bytes i s a = Inl Panic"
    using assms(5) by (simp add: store_array_remove_def array_rep_def)
  show "store_array_len a = of_nat (length xs)"
    using assms(5) by (simp add: store_array_len_def array_rep_def)
qed (use gss.store_array_push_ok [OF assms(1-3,5)] gss.store_array_remove_ok [OF assms(1,3,4) _ assms(5)]
      gss.store_array_get_ok [OF assms(5)] in blast)+

text \<open>
  (C12) Equal elements share one slot. Push the same element twice onto an empty array and remove the
  first: the array reports length 1, reads nothing at position 0, and its iterator panics.
\<close>

theorem store_array_duplicate_loses_value:
  assumes "array_env_ok env (sa_var_name a) E" "x \<in> E" "array_rep env (get_bytes_value ops) s a []"
  shows "\<exists>s1 a1 s2 a2 s3 a3. store_array_push env insert_bytes x s a = Inr (s1, a1) \<and>
    store_array_push env insert_bytes x s1 a1 = Inr (s2, a2) \<and>
    store_array_remove env insert_bytes 0 s2 a2 = Inr (s3, a3) \<and>
    store_array_len a3 = 1 \<and> store_array_get env (get_bytes_value ops) s3 a3 0 = Inr None \<and>
    array_iter_next env (get_bytes_value ops) s3 a3 0 = Inl Panic"
  using assms by (rule gss.store_array_duplicate)

definition example_array_env :: "u64 array_env" where
  "example_array_env = \<lparr>ar_elem = le_u64_codec, ar_hash = raw_hash_codec, ar_rlp = tagged_list_codec,
     ar_digest = (\<lambda>b. b)\<rparr>"

lemma example_array_ok:
  "array_env_ok example_array_env (sa_var_name \<lparr>sa_var_name = Hash [], sa_keys = []\<rparr>) UNIV"
  "array_rep example_array_env (get_bytes_value list_trie) example_state \<lparr>sa_var_name = Hash [], sa_keys = []\<rparr> []"
proof -
  have key: "elem_key example_array_env x = Hash (to_le_bytes x)" for x
    by (simp add: elem_key_def example_array_env_def le_u64_codec_def hash_digest_def)
  have "[] \<noteq> to_le_bytes x" for x using length_to_le_bytes [of x] by fastforce
  moreover have "inj (elem_key example_array_env)"
    by (rule injI) (metis hash.inject key le_value_to_le_bytes)
  ultimately show "array_env_ok example_array_env (sa_var_name \<lparr>sa_var_name = Hash [], sa_keys = []\<rparr>) UNIV"
    by (simp add: array_env_ok_def image_iff key)
      (simp add: example_array_env_def le_u64_codec_lawful raw_hash_codec_lawful tagged_list_codec_lawful)
qed (simp add: array_rep_def)

theorem store_array_refines_witness:
  "\<exists>s' a'. store_array_push example_array_env insert_bytes 5 example_state \<lparr>sa_var_name = Hash [], sa_keys = []\<rparr>
     = Inr (s', a') \<and> array_rep example_array_env (get_bytes_value list_trie) s' a' [5]"
  using store_array_refines [OF example_array_ok(1) UNIV_I subset_UNIV distinct.simps(1) [THEN iffD2]
      example_array_ok(2), of 5 0] by auto

theorem store_array_duplicate_loses_value_witness:
  "\<exists>s1 a1 s2 a2 s3 a3.
     store_array_push example_array_env insert_bytes 5 example_state \<lparr>sa_var_name = Hash [], sa_keys = []\<rparr> = Inr (s1, a1) \<and>
     store_array_push example_array_env insert_bytes 5 s1 a1 = Inr (s2, a2) \<and>
     store_array_remove example_array_env insert_bytes 0 s2 a2 = Inr (s3, a3) \<and>
     store_array_get example_array_env (get_bytes_value list_trie) s3 a3 0 = Inr None"
  using store_array_duplicate_loses_value [OF example_array_ok(1) UNIV_I example_array_ok(2), of 5] by blast

end
