(* ===== verification/Storage_Adapter.thy ===== *)
theory Storage_Adapter
  imports Fixed_Codec
begin

text \<open>
  The storage adapters of \<^verbatim>\<open>core/storage/src/adapter\<close>: the one over rocksdb, whose database is a record of
  operations, and the one in memory. An adapter works on encoded keys and values: an operation takes the
  results of encoding its key and its value, and fails in the order in which the source evaluates them.

  The locale \<^verbatim>\<open>byte_store\<close> states what the storage relies on: each category is a finite map of bytes. It is
  interpreted on the adapter in memory, and the adapter over rocksdb satisfies it whenever the database
  keeps its documented contract.
\<close>

section \<open>Categories, keys and errors\<close>

datatype storage_category = CBlock | CBlockHeader | CReceipt | CSignedTransaction | CWal | CHashHeight

datatype storage_error =
    GetNone
  | BatchDecode
  | BatchLengthMismatch
  | CategoryNotFound string
  | RocksDBErr string
  | CodecErr codec_error

definition map_category :: "storage_category \<Rightarrow> string" where
  "map_category c = (case c of
     CBlock \<Rightarrow> ''c1'' | CBlockHeader \<Rightarrow> ''c6'' | CReceipt \<Rightarrow> ''c3'' | CSignedTransaction \<Rightarrow> ''c2''
   | CWal \<Rightarrow> ''c4'' | CHashHeight \<Rightarrow> ''c5'')"

text \<open>The \<^verbatim>\<open>Display\<close> name of a category, which the adapter in memory uses as its key.\<close>

definition category_name :: "storage_category \<Rightarrow> string" where
  "category_name c = (case c of
     CBlock \<Rightarrow> ''Block'' | CBlockHeader \<Rightarrow> ''BlockHeader'' | CReceipt \<Rightarrow> ''Receipt''
   | CSignedTransaction \<Rightarrow> ''SignedTransaction'' | CWal \<Rightarrow> ''Wal'' | CHashHeight \<Rightarrow> ''HashHeight'')"

datatype 'v batch_modify = BatchInsert 'v | BatchRemove

type_synonym encoded = "(storage_error, bytes) result"

record 'db storage_adapter =
  sa_insert :: "storage_category \<Rightarrow> encoded \<Rightarrow> encoded \<Rightarrow> 'db \<Rightarrow> (storage_error, 'db) result"
  sa_get :: "storage_category \<Rightarrow> encoded \<Rightarrow> 'db \<Rightarrow> (storage_error, bytes option) result"
  sa_remove :: "storage_category \<Rightarrow> encoded \<Rightarrow> 'db \<Rightarrow> (storage_error, 'db) result"
  sa_contains :: "storage_category \<Rightarrow> encoded \<Rightarrow> 'db \<Rightarrow> (storage_error, bool) result"
  sa_batch_modify ::
    "storage_category \<Rightarrow> encoded list \<Rightarrow> encoded batch_modify list \<Rightarrow> 'db \<Rightarrow> (storage_error, 'db) result"
  sa_prepare_iter :: "storage_category \<Rightarrow> bytes \<Rightarrow> 'db \<Rightarrow> (storage_error, (bytes \<times> bytes) list) result"

text \<open>The loop that encodes the pairs of a batch before any of them is written.\<close>

definition encode_pair :: "encoded \<times> encoded batch_modify \<Rightarrow> (storage_error, bytes \<times> bytes option) result" where
  "encode_pair p =
     res_bind (fst p) (\<lambda>key.
       (case snd p of
          BatchInsert value \<Rightarrow> res_bind value (\<lambda>v. Inr (key, Some v))
        | BatchRemove \<Rightarrow> Inr (key, None)))"

section \<open>The adapter over rocksdb\<close>

record 'db rocksdb =
  rk_cf_handle :: "string \<Rightarrow> 'db \<Rightarrow> bool"
  rk_put_cf :: "string \<Rightarrow> bytes \<Rightarrow> bytes \<Rightarrow> 'db \<Rightarrow> string + 'db"
  rk_get_cf :: "string \<Rightarrow> bytes \<Rightarrow> 'db \<Rightarrow> string + bytes option"
  rk_delete_cf :: "string \<Rightarrow> bytes \<Rightarrow> 'db \<Rightarrow> string + 'db"
  rk_write :: "string \<Rightarrow> (bytes \<times> bytes option) list \<Rightarrow> 'db \<Rightarrow> string + 'db"
  rk_prefix_iterator_cf :: "string \<Rightarrow> bytes \<Rightarrow> 'db \<Rightarrow> (bytes \<times> bytes) list"

definition rocks_err :: "string + 'a \<Rightarrow> (storage_error, 'a) result" where
  "rocks_err r = (case r of Inl e \<Rightarrow> Inl (Err (RocksDBErr e)) | Inr a \<Rightarrow> Inr a)"

definition get_column :: "'db rocksdb \<Rightarrow> storage_category \<Rightarrow> 'db \<Rightarrow> (storage_error, string) result" where
  "get_column rk c db =
     (let category = map_category c in
      if rk_cf_handle rk category db then Inr category else Inl (Err (CategoryNotFound category)))"

definition rocks_insert ::
    "'db rocksdb \<Rightarrow> storage_category \<Rightarrow> encoded \<Rightarrow> encoded \<Rightarrow> 'db \<Rightarrow> (storage_error, 'db) result" where
  "rocks_insert rk c key val db =
     res_bind (get_column rk c db) (\<lambda>column.
     res_bind key (\<lambda>k.
     res_bind val (\<lambda>v. rocks_err (rk_put_cf rk column k v db))))"

definition rocks_get ::
    "'db rocksdb \<Rightarrow> storage_category \<Rightarrow> encoded \<Rightarrow> 'db \<Rightarrow> (storage_error, bytes option) result" where
  "rocks_get rk c key db =
     res_bind (get_column rk c db) (\<lambda>column. res_bind key (\<lambda>k. rocks_err (rk_get_cf rk column k db)))"

definition rocks_remove ::
    "'db rocksdb \<Rightarrow> storage_category \<Rightarrow> encoded \<Rightarrow> 'db \<Rightarrow> (storage_error, 'db) result" where
  "rocks_remove rk c key db =
     res_bind (get_column rk c db) (\<lambda>column. res_bind key (\<lambda>k. rocks_err (rk_delete_cf rk column k db)))"

definition rocks_contains ::
    "'db rocksdb \<Rightarrow> storage_category \<Rightarrow> encoded \<Rightarrow> 'db \<Rightarrow> (storage_error, bool) result" where
  "rocks_contains rk c key db =
     res_bind (get_column rk c db) (\<lambda>column.
     res_bind key (\<lambda>k. res_map (\<lambda>v. v \<noteq> None) (rocks_err (rk_get_cf rk column k db))))"

definition rocks_batch_modify ::
    "'db rocksdb \<Rightarrow> storage_category \<Rightarrow> encoded list \<Rightarrow> encoded batch_modify list \<Rightarrow> 'db \<Rightarrow> (storage_error, 'db) result" where
  "rocks_batch_modify rk c keys vals db =
     (if length keys \<noteq> length vals then Inl (Err BatchLengthMismatch)
      else
        res_bind (get_column rk c db) (\<lambda>column.
        res_bind (res_collect encode_pair (zip keys vals)) (\<lambda>pairs. rocks_err (rk_write rk column pairs db))))"

definition rocks_prepare_iter ::
    "'db rocksdb \<Rightarrow> storage_category \<Rightarrow> bytes \<Rightarrow> 'db \<Rightarrow> (storage_error, (bytes \<times> bytes) list) result" where
  "rocks_prepare_iter rk c prefix db =
     res_map (\<lambda>column. rk_prefix_iterator_cf rk column prefix db) (get_column rk c db)"

definition rocks_adapter :: "'db rocksdb \<Rightarrow> 'db storage_adapter" where
  "rocks_adapter rk =
     \<lparr>sa_insert = rocks_insert rk, sa_get = rocks_get rk, sa_remove = rocks_remove rk, sa_contains = rocks_contains rk,
      sa_batch_modify = rocks_batch_modify rk, sa_prepare_iter = rocks_prepare_iter rk\<rparr>"

section \<open>The adapter in memory\<close>

type_synonym category_map = "(bytes, bytes) hash_map"
type_synonym memory_db = "(string, category_map) hash_map"

text \<open>
  \<^verbatim>\<open>db.entry(category).or_insert_with(HashMap::new)\<close>: an absent category is read as an empty one. That reading
  also stores the empty map makes no difference to any later operation and is left out.
\<close>

definition memory_category :: "memory_db \<Rightarrow> storage_category \<Rightarrow> category_map" where
  "memory_category db c = (case hm_get db (category_name c) of None \<Rightarrow> [] | Some m \<Rightarrow> m)"

definition memory_insert ::
    "storage_category \<Rightarrow> encoded \<Rightarrow> encoded \<Rightarrow> memory_db \<Rightarrow> (storage_error, memory_db) result" where
  "memory_insert c key val db =
     res_bind key (\<lambda>k.
     res_bind val (\<lambda>v. Inr (hm_insert (category_name c) (hm_insert k v (memory_category db c)) db)))"

definition memory_get :: "storage_category \<Rightarrow> encoded \<Rightarrow> memory_db \<Rightarrow> (storage_error, bytes option) result" where
  "memory_get c key db = res_bind key (\<lambda>k. Inr (hm_get (memory_category db c) k))"

definition memory_remove :: "storage_category \<Rightarrow> encoded \<Rightarrow> memory_db \<Rightarrow> (storage_error, memory_db) result" where
  "memory_remove c key db =
     res_bind key (\<lambda>k. Inr (hm_insert (category_name c) (hm_remove k (memory_category db c)) db))"

definition memory_contains :: "storage_category \<Rightarrow> encoded \<Rightarrow> memory_db \<Rightarrow> (storage_error, bool) result" where
  "memory_contains c key db = res_bind key (\<lambda>k. Inr (hm_get (memory_category db c) k \<noteq> None))"

definition modify_pair :: "bytes \<times> bytes option \<Rightarrow> category_map \<Rightarrow> category_map" where
  "modify_pair p m = (case snd p of Some v \<Rightarrow> hm_insert (fst p) v m | None \<Rightarrow> hm_remove (fst p) m)"

definition memory_batch_modify ::
    "storage_category \<Rightarrow> encoded list \<Rightarrow> encoded batch_modify list \<Rightarrow> memory_db \<Rightarrow> (storage_error, memory_db) result" where
  "memory_batch_modify c keys vals db =
     (if length keys \<noteq> length vals then Inl (Err BatchLengthMismatch)
      else
        res_bind (res_collect encode_pair (zip keys vals)) (\<lambda>pairs.
          Inr (hm_insert (category_name c) (fold modify_pair pairs (memory_category db c)) db)))"

text \<open>The prefix is not used: the iterator runs over the whole category, in the order of the hash map.\<close>

definition memory_prepare_iter ::
    "storage_category \<Rightarrow> bytes \<Rightarrow> memory_db \<Rightarrow> (storage_error, (bytes \<times> bytes) list) result" where
  "memory_prepare_iter c prefix db = Inr (memory_category db c)"

definition memory_adapter :: "memory_db storage_adapter" where
  "memory_adapter =
     \<lparr>sa_insert = memory_insert, sa_get = memory_get, sa_remove = memory_remove, sa_contains = memory_contains,
      sa_batch_modify = memory_batch_modify, sa_prepare_iter = memory_prepare_iter\<rparr>"

section \<open>Typed access\<close>

definition storage_codec_err :: "(codec_error, 'a) result \<Rightarrow> (storage_error, 'a) result" where
  "storage_codec_err r = (case r of Inl (Err e) \<Rightarrow> Inl (Err (CodecErr e)) | Inl Panic \<Rightarrow> Inl Panic | Inr a \<Rightarrow> Inr a)"

abbreviation enc :: "'a codec \<Rightarrow> 'a \<Rightarrow> encoded" where
  "enc c x \<equiv> storage_codec_err (encode_fixed c x)"

definition adapter_insert ::
    "'db storage_adapter \<Rightarrow> storage_category \<Rightarrow> 'k codec \<Rightarrow> 'v codec \<Rightarrow> 'k \<Rightarrow> 'v \<Rightarrow> 'db \<Rightarrow> (storage_error, 'db) result" where
  "adapter_insert ad c kc vc key val db = sa_insert ad c (enc kc key) (enc vc val) db"

definition adapter_get ::
    "'db storage_adapter \<Rightarrow> storage_category \<Rightarrow> 'k codec \<Rightarrow> 'v codec \<Rightarrow> 'k \<Rightarrow> 'db \<Rightarrow> (storage_error, 'v option) result" where
  "adapter_get ad c kc vc key db =
     res_bind (sa_get ad c (enc kc key) db) (\<lambda>opt_bytes.
       (case opt_bytes of
          Some bytes \<Rightarrow> res_map Some (storage_codec_err (decode_fixed vc bytes))
        | None \<Rightarrow> Inr None))"

definition adapter_remove ::
    "'db storage_adapter \<Rightarrow> storage_category \<Rightarrow> 'k codec \<Rightarrow> 'k \<Rightarrow> 'db \<Rightarrow> (storage_error, 'db) result" where
  "adapter_remove ad c kc key db = sa_remove ad c (enc kc key) db"

text \<open>\<^verbatim>\<open>StorageAdapter::get_batch\<close>, the default method of the trait.\<close>

definition adapter_get_batch ::
    "'db storage_adapter \<Rightarrow> storage_category \<Rightarrow> 'k codec \<Rightarrow> 'v codec \<Rightarrow> 'k list \<Rightarrow> 'db \<Rightarrow> (storage_error, 'v option list) result" where
  "adapter_get_batch ad c kc vc keys db = res_collect (\<lambda>key. adapter_get ad c kc vc key db) keys"

section \<open>The contract\<close>

abbreviation apply_pairs :: "(bytes \<times> bytes option) list \<Rightarrow> (bytes \<rightharpoonup> bytes) \<Rightarrow> (bytes \<rightharpoonup> bytes)" where
  "apply_pairs pairs m \<equiv> fold (\<lambda>p m. m(fst p := snd p)) pairs m"

locale byte_store =
  fixes ad :: "'db storage_adapter" and content :: "'db \<Rightarrow> storage_category \<Rightarrow> bytes \<rightharpoonup> bytes" and valid :: "'db \<Rightarrow> bool"
  assumes insert_law: "valid db \<Longrightarrow>
      \<exists>db'. sa_insert ad c (Inr k) (Inr v) db = Inr db' \<and> valid db' \<and>
        content db' = (content db)(c := (content db c)(k \<mapsto> v))"
    and get_law: "valid db \<Longrightarrow> sa_get ad c (Inr k) db = Inr (content db c k)"
    and remove_law: "valid db \<Longrightarrow>
      \<exists>db'. sa_remove ad c (Inr k) db = Inr db' \<and> valid db' \<and> content db' = (content db)(c := (content db c)(k := None))"
    and batch_law: "valid db \<Longrightarrow> length keys = length vals \<Longrightarrow> res_collect encode_pair (zip keys vals) = Inr pairs \<Longrightarrow>
      \<exists>db'. sa_batch_modify ad c keys vals db = Inr db' \<and> valid db' \<and>
        content db' = (content db)(c := apply_pairs pairs (content db c))"

text \<open>The documented contract of the database: column families that are finite maps, atomic batches.\<close>

definition rocks_store_lawful :: "'db rocksdb \<Rightarrow> ('db \<Rightarrow> string \<Rightarrow> bytes \<rightharpoonup> bytes) \<Rightarrow> ('db \<Rightarrow> bool) \<Rightarrow> bool" where
  "rocks_store_lawful rk cf valid \<longleftrightarrow>
     (\<forall>db c. valid db \<longrightarrow> rk_cf_handle rk (map_category c) db) \<and>
     (\<forall>db c k v. valid db \<longrightarrow>
        (\<exists>db'. rk_put_cf rk c k v db = Inr db' \<and> valid db' \<and> cf db' = (cf db)(c := (cf db c)(k \<mapsto> v)))) \<and>
     (\<forall>db c k. valid db \<longrightarrow> rk_get_cf rk c k db = Inr (cf db c k)) \<and>
     (\<forall>db c k. valid db \<longrightarrow>
        (\<exists>db'. rk_delete_cf rk c k db = Inr db' \<and> valid db' \<and> cf db' = (cf db)(c := (cf db c)(k := None)))) \<and>
     (\<forall>db c ps. valid db \<longrightarrow>
        (\<exists>db'. rk_write rk c ps db = Inr db' \<and> valid db' \<and> cf db' = (cf db)(c := apply_pairs ps (cf db c))))"

lemma map_category_inj [simp]: "map_category c = map_category d \<longleftrightarrow> c = d"
  by (cases c; cases d) (simp_all add: map_category_def)

lemma category_name_inj [simp]: "category_name c = category_name d \<longleftrightarrow> c = d"
  by (cases c; cases d) (simp_all add: category_name_def)

lemma storage_codec_err_Inr [simp]: "storage_codec_err (Inr x) = Inr x"
  by (simp add: storage_codec_err_def)

lemma rocks_err_Inr [simp]: "rocks_err (Inr x) = Inr x"
  by (simp add: rocks_err_def)

lemma hm_get_fold_modify: "hm_get (fold modify_pair pairs m) = apply_pairs pairs (hm_get m)"
proof (induction pairs arbitrary: m)
  case (Cons p pairs)
  have "hm_get (modify_pair p m) = (hm_get m)(fst p := snd p)"
    by (cases "snd p") (auto simp: modify_pair_def update_conv' delete_conv' fun_eq_iff)
  with Cons show ?case by simp
qed simp

definition memory_content :: "memory_db \<Rightarrow> storage_category \<Rightarrow> bytes \<rightharpoonup> bytes" where
  "memory_content db c = hm_get (memory_category db c)"

lemma memory_content_insert:
  "memory_content (hm_insert (category_name c) m db) = (memory_content db)(c := hm_get m)"
  by (auto simp: memory_content_def memory_category_def update_conv' fun_eq_iff)

interpretation mem: byte_store memory_adapter memory_content "\<lambda>_. True"
  by unfold_locales
    (auto simp: memory_adapter_def memory_insert_def memory_get_def memory_remove_def memory_batch_modify_def
      memory_content_insert hm_get_fold_modify memory_content_def [symmetric], auto simp: fun_eq_iff memory_content_def)

lemma rocks_byte_store:
  assumes "rocks_store_lawful rk cf valid"
  shows "byte_store (rocks_adapter rk) (\<lambda>db c. cf db (map_category c)) valid"
proof -
  have column: "valid db \<Longrightarrow> get_column rk c db = Inr (map_category c)" for db c
    using assms by (simp add: rocks_store_lawful_def get_column_def)
  have upd: "cf db' = (cf db)(map_category c := m) \<Longrightarrow>
      (\<lambda>d. cf db' (map_category d)) = (\<lambda>d. cf db (map_category d))(c := m)" for db db' c m
    by (auto simp: fun_eq_iff)
  show ?thesis
  proof
    show "\<exists>db'. sa_insert (rocks_adapter rk) c (Inr k) (Inr v) db = Inr db' \<and> valid db' \<and>
        (\<lambda>c. cf db' (map_category c)) = (\<lambda>c. cf db (map_category c))(c := (cf db (map_category c))(k \<mapsto> v))"
      if "valid db" for db c k v
    proof -
      obtain db' where "rk_put_cf rk (map_category c) k v db = Inr db'" "valid db'"
        "cf db' = (cf db)(map_category c := (cf db (map_category c))(k \<mapsto> v))"
        using assms \<open>valid db\<close> unfolding rocks_store_lawful_def by blast
      then show ?thesis using column [OF \<open>valid db\<close>] upd
        by (auto simp: rocks_adapter_def rocks_insert_def)
    qed
    show "sa_get (rocks_adapter rk) c (Inr k) db = Inr (cf db (map_category c) k)" if "valid db" for db c k
      using assms that column [OF that] by (simp add: rocks_adapter_def rocks_get_def rocks_store_lawful_def)
    show "\<exists>db'. sa_remove (rocks_adapter rk) c (Inr k) db = Inr db' \<and> valid db' \<and>
        (\<lambda>c. cf db' (map_category c)) = (\<lambda>c. cf db (map_category c))(c := (cf db (map_category c))(k := None))"
      if "valid db" for db c k
    proof -
      obtain db' where "rk_delete_cf rk (map_category c) k db = Inr db'" "valid db'"
        "cf db' = (cf db)(map_category c := (cf db (map_category c))(k := None))"
        using assms \<open>valid db\<close> unfolding rocks_store_lawful_def by blast
      then show ?thesis using column [OF \<open>valid db\<close>] upd
        by (auto simp: rocks_adapter_def rocks_remove_def)
    qed
    show "\<exists>db'. sa_batch_modify (rocks_adapter rk) c keys vals db = Inr db' \<and> valid db' \<and>
        (\<lambda>c. cf db' (map_category c)) =
          (\<lambda>c. cf db (map_category c))(c := apply_pairs pairs (cf db (map_category c)))"
      if "valid db" "length keys = length vals" "res_collect encode_pair (zip keys vals) = Inr pairs"
      for db c keys vals pairs
    proof -
      obtain db' where "rk_write rk (map_category c) pairs db = Inr db'" "valid db'"
        "cf db' = (cf db)(map_category c := apply_pairs pairs (cf db (map_category c)))"
        using assms \<open>valid db\<close> unfolding rocks_store_lawful_def by blast
      then show ?thesis using column [OF \<open>valid db\<close>] upd that(2,3)
        by (auto simp: rocks_adapter_def rocks_batch_modify_def)
    qed
  qed
qed

section \<open>Typed access through the contract\<close>

definition round_trips :: "'a codec \<Rightarrow> 'a \<Rightarrow> bool" where
  "round_trips c x \<longleftrightarrow> (\<exists>b. encode_fixed c x = Inr b \<and> decode_fixed c b = Inr x)"

text \<open>The encoding of a key that has one.\<close>

definition key_bytes :: "'k codec \<Rightarrow> 'k \<Rightarrow> bytes" where
  "key_bytes kc k = (case encode_fixed kc k of Inr b \<Rightarrow> b | Inl _ \<Rightarrow> [])"

definition encodable :: "'k codec \<Rightarrow> 'k \<Rightarrow> bool" where
  "encodable kc k \<longleftrightarrow> (\<exists>b. encode_fixed kc k = Inr b)"

lemma enc_key: "encodable kc k \<Longrightarrow> enc kc k = Inr (key_bytes kc k)"
  by (auto simp: encodable_def key_bytes_def)

lemma round_trips_encodable: "round_trips c x \<Longrightarrow> encodable c x"
  by (auto simp: round_trips_def encodable_def)

lemma round_trips_decode: "round_trips c x \<Longrightarrow> decode_fixed c (key_bytes c x) = Inr x"
  by (auto simp: round_trips_def key_bytes_def)

context byte_store
begin

lemma insert_typed:
  assumes "valid db" "encodable kc k" "encodable vc v"
  obtains db' where "adapter_insert ad c kc vc k v db = Inr db'" "valid db'"
    "content db' = (content db)(c := (content db c)(key_bytes kc k \<mapsto> key_bytes vc v))"
  using insert_law [OF assms(1), of c "key_bytes kc k" "key_bytes vc v"] assms(2,3)
  by (auto simp: adapter_insert_def enc_key)

lemma get_typed:
  assumes "valid db" "encodable kc k"
  shows "adapter_get ad c kc vc k db =
    (case content db c (key_bytes kc k) of
       Some b \<Rightarrow> res_map Some (storage_codec_err (decode_fixed vc b)) | None \<Rightarrow> Inr None)"
  using get_law [OF assms(1)] by (simp add: adapter_get_def enc_key [OF assms(2)])

lemma remove_typed:
  assumes "valid db" "encodable kc k"
  obtains db' where "adapter_remove ad c kc k db = Inr db'" "valid db'"
    "content db' = (content db)(c := (content db c)(key_bytes kc k := None))"
  using remove_law [OF assms(1), of c "key_bytes kc k"] assms(2)
  by (auto simp: adapter_remove_def enc_key)

lemma batch_insert_typed:
  assumes "valid db" "\<And>x. x \<in> set xs \<Longrightarrow> encodable kc (f x) \<and> encodable vc (g x)"
  obtains db' where
    "sa_batch_modify ad c (map (\<lambda>x. enc kc (f x)) xs) (map (\<lambda>x. BatchInsert (enc vc (g x))) xs) db = Inr db'"
    "valid db'"
    "content db' = (content db)(c := fold (\<lambda>x m. m(key_bytes kc (f x) \<mapsto> key_bytes vc (g x))) xs (content db c))"
proof -
  have pairs: "res_collect encode_pair
      (zip (map (\<lambda>x. enc kc (f x)) xs) (map (\<lambda>x. BatchInsert (enc vc (g x))) xs)) =
    Inr (map (\<lambda>x. (key_bytes kc (f x), Some (key_bytes vc (g x)))) xs)"
    using assms(2) by (induction xs) (auto simp: encode_pair_def enc_key)
  have fold: "apply_pairs (map (\<lambda>x. (key_bytes kc (f x), Some (key_bytes vc (g x)))) xs) m =
      fold (\<lambda>x m. m(key_bytes kc (f x) \<mapsto> key_bytes vc (g x))) xs m" for m
    by (simp add: fold_map comp_def)
  from batch_law [OF assms(1) _ pairs, of c] that show ?thesis by (auto simp: fold)
qed

end

end
