(* ===== verification/Decimal.thy ===== *)
theory Decimal
  imports Muta_Prelude
begin

text \<open>
  Printing and parsing of unsigned integers in the standard library: \<^verbatim>\<open>to_string\<close> and
  \<^verbatim>\<open>str::parse\<close>, which accepts a leading plus sign and refuses empty input, other characters and values
  that do not fit.
\<close>

definition digit_char :: "nat \<Rightarrow> char" where
  "digit_char d = char_of (48 + d)"

definition digit_value :: "char \<Rightarrow> nat option" where
  "digit_value c = (let n = (of_char c :: nat) in if 48 \<le> n \<and> n \<le> 57 then Some (n - 48) else None)"

fun show_decimal :: "nat \<Rightarrow> string" where
  "show_decimal n = (if n < 10 then [digit_char n] else show_decimal (n div 10) @ [digit_char (n mod 10)])"

declare show_decimal.simps [simp del]

fun read_digits :: "nat \<Rightarrow> string \<Rightarrow> nat option" where
  "read_digits acc [] = Some acc"
| "read_digits acc (c # cs) = (case digit_value c of None \<Rightarrow> None | Some d \<Rightarrow> read_digits (10 * acc + d) cs)"

definition parse_decimal :: "nat \<Rightarrow> string \<Rightarrow> nat option" where
  "parse_decimal bound s =
     (let digits = (case s of c # cs \<Rightarrow> if c = CHR ''+'' then cs else s | [] \<Rightarrow> []) in
      if digits = [] then None
      else (case read_digits 0 digits of None \<Rightarrow> None | Some n \<Rightarrow> if n < bound then Some n else None))"

definition u64_to_string :: "u64 \<Rightarrow> string" where
  "u64_to_string w = show_decimal (unat w)"

definition parse_u64 :: "string \<Rightarrow> u64 option" where
  "parse_u64 s = map_option word_of_nat (parse_decimal (2 ^ 64) s)"

section \<open>Round trip\<close>

lemma digit_value_digit_char [simp]: "d < 10 \<Longrightarrow> digit_value (digit_char d) = Some d"
  by (simp add: digit_value_def digit_char_def)

lemma digit_char_cases:
  assumes "d < 10"
  shows "digit_char d \<noteq> CHR ''+''" "digit_char d \<noteq> CHR '':''" "digit_char d \<noteq> CHR ''.''"
proof -
  have code: "(of_char (digit_char d) :: nat) = 48 + d" using assms by (simp add: digit_char_def)
  show "digit_char d \<noteq> CHR ''+''"
  proof
    assume "digit_char d = CHR ''+''"
    with code show False by simp
  qed
  show "digit_char d \<noteq> CHR '':''"
  proof
    assume "digit_char d = CHR '':''"
    with code assms show False by simp
  qed
  show "digit_char d \<noteq> CHR ''.''"
  proof
    assume "digit_char d = CHR ''.''"
    with code show False by simp
  qed
qed

lemma show_decimal_not_empty [simp]: "show_decimal n \<noteq> []"
  by (subst show_decimal.simps) simp

lemma show_decimal_digits: "c \<in> set (show_decimal n) \<Longrightarrow> \<exists>d < 10. c = digit_char d"
proof (induction n rule: show_decimal.induct)
  case (1 n)
  show ?case
  proof (cases "n < 10")
    case True
    with 1(2) show ?thesis by (subst (asm) show_decimal.simps) auto
  next
    case False
    with 1(2) have "c \<in> set (show_decimal (n div 10)) \<or> c = digit_char (n mod 10)"
      by (subst (asm) show_decimal.simps) auto
    with 1(1) [OF False] show ?thesis by (auto intro: exI [of _ "n mod 10"])
  qed
qed

lemma read_digits_append:
  "read_digits acc (s @ t) = (case read_digits acc s of None \<Rightarrow> None | Some n \<Rightarrow> read_digits n t)"
  by (induction s arbitrary: acc) (simp_all split: option.splits)

lemma read_show [simp]: "read_digits 0 (show_decimal n) = Some n"
proof (induction n rule: show_decimal.induct)
  case (1 n)
  then show ?case
    by (subst show_decimal.simps) (auto simp: read_digits_append)
qed

lemma parse_show: "n < bound \<Longrightarrow> parse_decimal bound (show_decimal n) = Some n"
proof -
  assume "n < bound"
  have "hd (show_decimal n) \<noteq> CHR ''+''"
    using show_decimal_digits [OF hd_in_set [OF show_decimal_not_empty]] digit_char_cases(1) by metis
  then have "(case show_decimal n of c # cs \<Rightarrow> if c = CHR ''+'' then cs else show_decimal n | [] \<Rightarrow> []) = show_decimal n"
    using show_decimal_not_empty [of n] by (cases "show_decimal n") auto
  with \<open>n < bound\<close> show ?thesis by (simp add: parse_decimal_def)
qed

lemma parse_u64_to_string [simp]: "parse_u64 (u64_to_string w) = Some w"
proof -
  have "unat w < 2 ^ 64" using unsigned_less [where ?'a = nat, of w] by simp
  then show ?thesis by (simp add: parse_u64_def u64_to_string_def parse_show)
qed

lemma u64_to_string_inj [simp]: "u64_to_string a = u64_to_string b \<longleftrightarrow> a = b"
  by (metis option.inject parse_u64_to_string)

end
