(* ===== verification/Storage.thy ===== *)
theory Storage
  imports Storage_Adapter Decimal
begin

text \<open>
  The block storage \<^verbatim>\<open>ImplStorage\<close> of \<^verbatim>\<open>core/storage/src/lib.rs\<close> over any adapter: blocks, headers,
  transactions and receipts by height and hash, the latest block with its copy in memory, and the latest
  proof. The protobuf codecs of the values are the fields of \<^verbatim>\<open>storage_codecs\<close>.

  The lemmas show that the storage is a set of finite maps behind its keys, what the range scan of
  \<^verbatim>\<open>get_transactions\<close> returns, that decoding in chunks changes nothing, and which header a removed block leaves.
\<close>

section \<open>Keys\<close>

datatype common_prefix = CommonPrefix (cp_block_height: bytes)

definition prefix_new :: "u64 \<Rightarrow> common_prefix" where
  "prefix_new block_height = CommonPrefix (to_be_bytes block_height)"

definition prefix_height :: "common_prefix \<Rightarrow> u64" where
  "prefix_height p = le_value (rev (cp_block_height p))"

text \<open>\<^verbatim>\<open>copy_from_slice\<close> of the first 32 bytes: a shorter hash panics.\<close>

definition make_hash_key :: "common_prefix \<Rightarrow> hash \<Rightarrow> ('e, bytes) result" where
  "make_hash_key p h =
     (if length (hash_bytes h) < 32 then Inl Panic else Inr (cp_block_height p @ take 32 (hash_bytes h)))"

definition prefix_from_slice :: "bytes \<Rightarrow> ('e, common_prefix) result" where
  "prefix_from_slice b = (if length b < 8 then Inl Panic else Inr (CommonPrefix (take 8 b)))"

definition block_key_codec :: "common_prefix codec" where
  "block_key_codec = \<lparr>encode_fixed = (\<lambda>p. Inr (cp_block_height p)), decode_fixed = prefix_from_slice\<rparr>"

record common_hash_key =
  ck_prefix :: common_prefix
  ck_hash :: hash

definition hash_key_new :: "u64 \<Rightarrow> hash \<Rightarrow> common_hash_key" where
  "hash_key_new block_height h = \<lparr>ck_prefix = prefix_new block_height, ck_hash = h\<rparr>"

definition hash_key_height :: "common_hash_key \<Rightarrow> u64" where
  "hash_key_height k = prefix_height (ck_prefix k)"

definition decode_hash_key :: "bytes \<Rightarrow> (codec_error, common_hash_key) result" where
  "decode_hash_key b =
     res_bind (prefix_from_slice b) (\<lambda>p.
     res_bind (map_types_err (hash_from_bytes (drop 8 b))) (\<lambda>h. Inr \<lparr>ck_prefix = p, ck_hash = h\<rparr>))"

definition hash_key_codec :: "common_hash_key codec" where
  "hash_key_codec = \<lparr>encode_fixed = (\<lambda>k. make_hash_key (ck_prefix k) (ck_hash k)), decode_fixed = decode_hash_key\<rparr>"

definition hash_key_to_string :: "(bytes \<Rightarrow> string) \<Rightarrow> common_hash_key \<Rightarrow> string" where
  "hash_key_to_string hex_encode k = u64_to_string (hash_key_height k) @ '':'' @ hash_as_hex hex_encode (ck_hash k)"

text \<open>\<^verbatim>\<open>str::split\<close> on one character.\<close>

fun split_on :: "char \<Rightarrow> string \<Rightarrow> string list" where
  "split_on c [] = [[]]"
| "split_on c (x # xs) =
     (if x = c then [] # split_on c xs
      else (case split_on c xs of [] \<Rightarrow> [[x]] | p # ps \<Rightarrow> (x # p) # ps))"

definition hash_key_from_str :: "(string \<Rightarrow> string + bytes) \<Rightarrow> string \<Rightarrow> (unit, common_hash_key) result" where
  "hash_key_from_str hex_decode s =
     (let parts = split_on CHR '':'' s in
      res_bind (ok_or () (parse_u64 (parts ! 0))) (\<lambda>height.
        (if length parts < 2 then Inl Panic
         else
           (case hash_from_hex hex_decode (parts ! 1) of
              Inl Panic \<Rightarrow> Inl Panic
            | Inl (Err _) \<Rightarrow> Inl (Err ())
            | Inr h \<Rightarrow> Inr (hash_key_new height h)))))"

section \<open>The storage\<close>

record storage_codecs =
  sc_stx :: "signed_transaction codec"
  sc_receipt :: "receipt codec"
  sc_block :: "block codec"
  sc_header :: "block_header codec"
  sc_proof :: "block_proof codec"
  sc_hash :: "hash codec"
  sc_digest :: "bytes \<Rightarrow> bytes"

record 'db storage =
  st_db :: 'db
  st_latest_block :: "block option"

definition storage_new :: "'db \<Rightarrow> 'db storage" where
  "storage_new db = \<lparr>st_db = db, st_latest_block = None\<rparr>"

definition LATEST_BLOCK_KEY :: "storage_codecs \<Rightarrow> hash" where
  "LATEST_BLOCK_KEY cs = hash_digest (sc_digest cs) (str_bytes ''latest_hash'')"

definition LATEST_PROOF_KEY :: "storage_codecs \<Rightarrow> hash" where
  "LATEST_PROOF_KEY cs = hash_digest (sc_digest cs) (str_bytes ''latest_proof'')"

definition BATCH_VALUE_DECODE_NUMBER :: nat where
  "BATCH_VALUE_DECODE_NUMBER = 1000"

text \<open>The macro \<^verbatim>\<open>batch_insert!\<close>: the items under height and hash, then the height of each hash.\<close>

definition batch_insert ::
    "'db storage_adapter \<Rightarrow> storage_codecs \<Rightarrow> storage_category \<Rightarrow> 'v codec \<Rightarrow> ('v \<Rightarrow> hash) \<Rightarrow> u64 \<Rightarrow> 'v list \<Rightarrow>
     'db storage \<Rightarrow> (storage_error, 'db storage) result" where
  "batch_insert ad cs c vc tx_hash block_height items st =
     res_bind
       (sa_batch_modify ad c (map (\<lambda>i. enc hash_key_codec (hash_key_new block_height (tx_hash i))) items)
          (map (\<lambda>i. BatchInsert (enc vc i)) items) (st_db st)) (\<lambda>db.
     res_bind
       (sa_batch_modify ad CHashHeight (map (\<lambda>i. enc (sc_hash cs) (tx_hash i)) items)
          (map (\<lambda>i. BatchInsert (enc le_u64_codec block_height)) items) db) (\<lambda>db.
     Inr (st\<lparr>st_db := db\<rparr>)))"

definition insert_transactions ::
    "'db storage_adapter \<Rightarrow> storage_codecs \<Rightarrow> u64 \<Rightarrow> signed_transaction list \<Rightarrow> 'db storage \<Rightarrow>
     (storage_error, 'db storage) result" where
  "insert_transactions ad cs block_height signed_txs st =
     batch_insert ad cs CSignedTransaction (sc_stx cs) stx_tx_hash block_height signed_txs st"

definition insert_receipts ::
    "'db storage_adapter \<Rightarrow> storage_codecs \<Rightarrow> u64 \<Rightarrow> receipt list \<Rightarrow> 'db storage \<Rightarrow>
     (storage_error, 'db storage) result" where
  "insert_receipts ad cs block_height receipts st =
     batch_insert ad cs CReceipt (sc_receipt cs) rc_tx_hash block_height receipts st"

text \<open>The loop over the iterator, which stops at another height or after as many hits as hashes were asked for.\<close>

fun scan_found ::
    "u64 \<Rightarrow> hash list \<Rightarrow> nat \<Rightarrow> (bytes \<times> bytes) list \<Rightarrow> (storage_error, (hash \<times> bytes) list) result" where
  "scan_found block_height hashes 0 kvs = Inr []"
| "scan_found block_height hashes (Suc count) [] = Inr []"
| "scan_found block_height hashes (Suc count) (kv # kvs) =
     res_bind (storage_codec_err (decode_hash_key (fst kv))) (\<lambda>key.
       (if hash_key_height key \<noteq> block_height then Inr []
        else if ck_hash key \<notin> set hashes then scan_found block_height hashes (Suc count) kvs
        else res_map (\<lambda>found. (ck_hash key, snd kv) # found) (scan_found block_height hashes count kvs)))"

text \<open>\<^verbatim>\<open>slice::chunks\<close>.\<close>

function chunks_of :: "nat \<Rightarrow> 'a list \<Rightarrow> 'a list list" where
  "chunks_of n xs = (if xs = [] \<or> n = 0 then [] else take n xs # chunks_of n (drop n xs))"
  by pat_completeness auto
termination by (relation "measure (\<lambda>(n, xs). length xs)") (auto simp: neq_Nil_conv)

declare chunks_of.simps [simp del]

definition decode_entry :: "'v codec \<Rightarrow> hash \<times> bytes \<Rightarrow> (storage_error, hash \<times> 'v) result" where
  "decode_entry vc p = res_map (\<lambda>v. (fst p, v)) (storage_codec_err (decode_fixed vc (snd p)))"

text \<open>
  More than a thousand values are decoded by one task per chunk. A task that panics makes \<^verbatim>\<open>try_join_all\<close> fail;
  otherwise the first error in the order of the chunks is returned.
\<close>

definition decode_batch ::
    "'v codec \<Rightarrow> (hash \<times> bytes) list \<Rightarrow> (storage_error, (hash \<times> 'v) list) result" where
  "decode_batch vc found =
     (if length found \<le> BATCH_VALUE_DECODE_NUMBER then res_collect (decode_entry vc) found
      else
        (let tasks = map (res_collect (decode_entry vc)) (chunks_of BATCH_VALUE_DECODE_NUMBER found) in
         if Inl Panic \<in> set tasks then Inl (Err BatchDecode)
         else res_map concat (res_collect (\<lambda>t. t) tasks)))"

text \<open>\<^verbatim>\<open>hashes.iter().map(|h| found.remove(&h))\<close>: a hash asked for twice is found once.\<close>

fun take_found :: "hash list \<Rightarrow> (hash, 'v) hash_map \<Rightarrow> 'v option list" where
  "take_found [] found = []"
| "take_found (h # hs) found = hm_get found h # take_found hs (hm_remove h found)"

definition get_by_scan ::
    "'db storage_adapter \<Rightarrow> storage_category \<Rightarrow> 'v codec \<Rightarrow> u64 \<Rightarrow> hash list \<Rightarrow> 'db storage \<Rightarrow>
     (storage_error, 'v option list) result" where
  "get_by_scan ad c vc block_height hashes st =
     res_bind (sa_prepare_iter ad c (cp_block_height (prefix_new block_height)) (st_db st)) (\<lambda>kvs.
     res_bind (scan_found block_height hashes (length hashes) kvs) (\<lambda>found.
     res_bind (decode_batch vc found) (\<lambda>decoded.
     Inr (take_found hashes (fold (\<lambda>(k, v) m. hm_insert k v m) decoded [])))))"

definition get_transactions ::
    "'db storage_adapter \<Rightarrow> storage_codecs \<Rightarrow> u64 \<Rightarrow> hash list \<Rightarrow> 'db storage \<Rightarrow>
     (storage_error, signed_transaction option list) result" where
  "get_transactions ad cs block_height hashes st = get_by_scan ad CSignedTransaction (sc_stx cs) block_height hashes st"

definition get_receipts ::
    "'db storage_adapter \<Rightarrow> storage_codecs \<Rightarrow> u64 \<Rightarrow> hash list \<Rightarrow> 'db storage \<Rightarrow>
     (storage_error, receipt option list) result" where
  "get_receipts ad cs block_height hashes st = get_by_scan ad CReceipt (sc_receipt cs) block_height hashes st"

definition get_transaction_by_hash ::
    "'db storage_adapter \<Rightarrow> storage_codecs \<Rightarrow> hash \<Rightarrow> 'db storage \<Rightarrow> (storage_error, signed_transaction option) result" where
  "get_transaction_by_hash ad cs h st =
     res_bind (adapter_get ad CHashHeight (sc_hash cs) le_u64_codec h (st_db st)) (\<lambda>opt.
       (case opt of
          Some block_height \<Rightarrow>
            adapter_get ad CSignedTransaction hash_key_codec (sc_stx cs) (hash_key_new block_height h) (st_db st)
        | None \<Rightarrow> Inr None))"

definition get_receipt_by_hash ::
    "'db storage_adapter \<Rightarrow> storage_codecs \<Rightarrow> hash \<Rightarrow> 'db storage \<Rightarrow> (storage_error, receipt option) result" where
  "get_receipt_by_hash ad cs h st =
     res_bind (adapter_get ad CHashHeight (sc_hash cs) le_u64_codec h (st_db st)) (\<lambda>opt.
       (case opt of
          Some block_height \<Rightarrow>
            adapter_get ad CReceipt hash_key_codec (sc_receipt cs) (hash_key_new block_height h) (st_db st)
        | None \<Rightarrow> Inr None))"

text \<open>The macro \<^verbatim>\<open>ensure_get!\<close>.\<close>

definition ensure_get ::
    "'db storage_adapter \<Rightarrow> storage_category \<Rightarrow> 'k codec \<Rightarrow> 'v codec \<Rightarrow> 'k \<Rightarrow> 'db storage \<Rightarrow> (storage_error, 'v) result" where
  "ensure_get ad c kc vc key st = res_bind (adapter_get ad c kc vc key (st_db st)) (ok_or GetNone)"

definition update_latest_proof ::
    "'db storage_adapter \<Rightarrow> storage_codecs \<Rightarrow> block_proof \<Rightarrow> 'db storage \<Rightarrow> (storage_error, 'db storage) result" where
  "update_latest_proof ad cs pf st =
     res_map (\<lambda>db. st\<lparr>st_db := db\<rparr>)
       (adapter_insert ad CBlock (sc_hash cs) (sc_proof cs) (LATEST_PROOF_KEY cs) pf (st_db st))"

definition get_latest_proof ::
    "'db storage_adapter \<Rightarrow> storage_codecs \<Rightarrow> 'db storage \<Rightarrow> (storage_error, block_proof) result" where
  "get_latest_proof ad cs st = ensure_get ad CBlock (sc_hash cs) (sc_proof cs) (LATEST_PROOF_KEY cs) st"

definition storage_get_block ::
    "'db storage_adapter \<Rightarrow> storage_codecs \<Rightarrow> u64 \<Rightarrow> 'db storage \<Rightarrow> (storage_error, block option) result" where
  "storage_get_block ad cs height st =
     adapter_get ad CBlock block_key_codec (sc_block cs) (prefix_new height) (st_db st)"

definition get_block_header ::
    "'db storage_adapter \<Rightarrow> storage_codecs \<Rightarrow> u64 \<Rightarrow> 'db storage \<Rightarrow> (storage_error, block_header option) result" where
  "get_block_header ad cs height st =
     res_bind (adapter_get ad CBlockHeader block_key_codec (sc_header cs) (prefix_new height) (st_db st)) (\<lambda>opt_header.
       (case opt_header of
          Some header \<Rightarrow> Inr (Some header)
        | None \<Rightarrow> res_map (map_option blk_header) (storage_get_block ad cs height st)))"

definition set_block ::
    "'db storage_adapter \<Rightarrow> storage_codecs \<Rightarrow> block \<Rightarrow> 'db storage \<Rightarrow> (storage_error, 'db storage) result" where
  "set_block ad cs blk st =
     (let key = prefix_new (hdr_height (blk_header blk)) in
      res_bind (adapter_insert ad CBlock block_key_codec (sc_block cs) key blk (st_db st)) (\<lambda>db.
      res_bind (adapter_insert ad CBlockHeader block_key_codec (sc_header cs) key (blk_header blk) db) (\<lambda>db.
      Inr (st\<lparr>st_db := db\<rparr>))))"

definition remove_block ::
    "'db storage_adapter \<Rightarrow> u64 \<Rightarrow> 'db storage \<Rightarrow> (storage_error, 'db storage) result" where
  "remove_block ad height st =
     res_map (\<lambda>db. st\<lparr>st_db := db\<rparr>) (adapter_remove ad CBlock block_key_codec (prefix_new height) (st_db st))"

definition get_latest_block ::
    "'db storage_adapter \<Rightarrow> storage_codecs \<Rightarrow> 'db storage \<Rightarrow> (storage_error, block) result" where
  "get_latest_block ad cs st =
     (case st_latest_block st of
        Some blk \<Rightarrow> Inr blk
      | None \<Rightarrow> ensure_get ad CBlock (sc_hash cs) (sc_block cs) (LATEST_BLOCK_KEY cs) st)"

definition get_latest_block_header ::
    "'db storage_adapter \<Rightarrow> storage_codecs \<Rightarrow> 'db storage \<Rightarrow> (storage_error, block_header) result" where
  "get_latest_block_header ad cs st =
     (case st_latest_block st of
        Some blk \<Rightarrow> Inr (blk_header blk)
      | None \<Rightarrow>
          res_map blk_header (ensure_get ad CBlock (sc_hash cs) (sc_block cs) (LATEST_BLOCK_KEY cs) st))"

definition set_latest_block ::
    "'db storage_adapter \<Rightarrow> storage_codecs \<Rightarrow> block \<Rightarrow> 'db storage \<Rightarrow> (storage_error, 'db storage) result" where
  "set_latest_block ad cs blk st =
     res_map (\<lambda>db. st\<lparr>st_db := db, st_latest_block := Some blk\<rparr>)
       (adapter_insert ad CBlock (sc_hash cs) (sc_block cs) (LATEST_BLOCK_KEY cs) blk (st_db st))"

definition insert_block ::
    "'db storage_adapter \<Rightarrow> storage_codecs \<Rightarrow> block \<Rightarrow> 'db storage \<Rightarrow> (storage_error, 'db storage) result" where
  "insert_block ad cs blk st = res_bind (set_block ad cs blk st) (set_latest_block ad cs blk)"


section \<open>Reference model: finite maps\<close>

record chain_maps =
  cm_blocks :: "u64 \<rightharpoonup> block"
  cm_headers :: "u64 \<rightharpoonup> block_header"
  cm_txs :: "u64 \<times> hash \<rightharpoonup> signed_transaction"
  cm_receipts :: "u64 \<times> hash \<rightharpoonup> receipt"
  cm_heights :: "hash \<rightharpoonup> u64"
  cm_latest :: "block option"
  cm_proof :: "block_proof option"

definition empty_maps :: chain_maps where
  "empty_maps = \<lparr>cm_blocks = Map.empty, cm_headers = Map.empty, cm_txs = Map.empty, cm_receipts = Map.empty,
     cm_heights = Map.empty, cm_latest = None, cm_proof = None\<rparr>"

datatype storage_op =
    InsertBlock block
  | SetBlock block
  | SetLatestBlock block
  | RemoveBlock u64
  | InsertTransactions u64 "signed_transaction list"
  | InsertReceipts u64 "receipt list"
  | UpdateLatestProof block_proof

fun storage_step ::
    "'db storage_adapter \<Rightarrow> storage_codecs \<Rightarrow> storage_op \<Rightarrow> 'db storage \<Rightarrow> (storage_error, 'db storage) result" where
  "storage_step ad cs (InsertBlock b) st = insert_block ad cs b st"
| "storage_step ad cs (SetBlock b) st = set_block ad cs b st"
| "storage_step ad cs (SetLatestBlock b) st = set_latest_block ad cs b st"
| "storage_step ad cs (RemoveBlock n) st = remove_block ad n st"
| "storage_step ad cs (InsertTransactions n txs) st = insert_transactions ad cs n txs st"
| "storage_step ad cs (InsertReceipts n rs) st = insert_receipts ad cs n rs st"
| "storage_step ad cs (UpdateLatestProof p) st = update_latest_proof ad cs p st"

fun map_step :: "storage_op \<Rightarrow> chain_maps \<Rightarrow> chain_maps" where
  "map_step (InsertBlock b) m =
     (let n = hdr_height (blk_header b) in
      m\<lparr>cm_blocks := (cm_blocks m)(n \<mapsto> b), cm_headers := (cm_headers m)(n \<mapsto> blk_header b), cm_latest := Some b\<rparr>)"
| "map_step (SetBlock b) m =
     (let n = hdr_height (blk_header b) in
      m\<lparr>cm_blocks := (cm_blocks m)(n \<mapsto> b), cm_headers := (cm_headers m)(n \<mapsto> blk_header b)\<rparr>)"
| "map_step (SetLatestBlock b) m = m\<lparr>cm_latest := Some b\<rparr>"
| "map_step (RemoveBlock n) m = m\<lparr>cm_blocks := (cm_blocks m)(n := None)\<rparr>"
| "map_step (InsertTransactions n txs) m =
     m\<lparr>cm_txs := fold (\<lambda>t f. f((n, stx_tx_hash t) \<mapsto> t)) txs (cm_txs m),
       cm_heights := fold (\<lambda>t f. f(stx_tx_hash t \<mapsto> n)) txs (cm_heights m)\<rparr>"
| "map_step (InsertReceipts n rs) m =
     m\<lparr>cm_receipts := fold (\<lambda>r f. f((n, rc_tx_hash r) \<mapsto> r)) rs (cm_receipts m),
       cm_heights := fold (\<lambda>r f. f(rc_tx_hash r \<mapsto> n)) rs (cm_heights m)\<rparr>"
| "map_step (UpdateLatestProof p) m = m\<lparr>cm_proof := Some p\<rparr>"

text \<open>What the reads must return for given maps.\<close>

definition reads_agree :: "'db storage_adapter \<Rightarrow> storage_codecs \<Rightarrow> chain_maps \<Rightarrow> 'db storage \<Rightarrow> bool" where
  "reads_agree ad cs m st \<longleftrightarrow>
     (\<forall>n. storage_get_block ad cs n st = Inr (cm_blocks m n)) \<and>
     (\<forall>n. get_block_header ad cs n st =
        Inr (case cm_headers m n of Some h \<Rightarrow> Some h | None \<Rightarrow> map_option blk_header (cm_blocks m n))) \<and>
     (\<forall>h. length (hash_bytes h) = 32 \<longrightarrow>
        get_transaction_by_hash ad cs h st = Inr (case cm_heights m h of None \<Rightarrow> None | Some n \<Rightarrow> cm_txs m (n, h)) \<and>
        get_receipt_by_hash ad cs h st = Inr (case cm_heights m h of None \<Rightarrow> None | Some n \<Rightarrow> cm_receipts m (n, h))) \<and>
     get_latest_block ad cs st = ok_or GetNone (cm_latest m) \<and>
     get_latest_block_header ad cs st = ok_or GetNone (map_option blk_header (cm_latest m)) \<and>
     get_latest_proof ad cs st = ok_or GetNone (cm_proof m)"

text \<open>
  What the storage relies on: digests and hash keys have their length, the encoding of a hash key is never as
  short as a height, the two fixed keys differ, and the stored values decode to themselves.
\<close>

definition keys_lawful :: "storage_codecs \<Rightarrow> bool" where
  "keys_lawful cs \<longleftrightarrow>
     (\<forall>b. length (sc_digest cs b) = 32) \<and>
     (\<forall>h. length (hash_bytes h) = 32 \<longrightarrow> round_trips (sc_hash cs) h \<and> length (key_bytes (sc_hash cs) h) \<noteq> 8) \<and>
     LATEST_BLOCK_KEY cs \<noteq> LATEST_PROOF_KEY cs"

fun op_ok :: "storage_codecs \<Rightarrow> storage_op \<Rightarrow> bool" where
  "op_ok cs (InsertBlock b) \<longleftrightarrow> round_trips (sc_block cs) b \<and> round_trips (sc_header cs) (blk_header b)"
| "op_ok cs (SetBlock b) \<longleftrightarrow> round_trips (sc_block cs) b \<and> round_trips (sc_header cs) (blk_header b)"
| "op_ok cs (SetLatestBlock b) \<longleftrightarrow> round_trips (sc_block cs) b"
| "op_ok cs (RemoveBlock n) \<longleftrightarrow> True"
| "op_ok cs (InsertTransactions n txs) \<longleftrightarrow>
     list_all (\<lambda>t. round_trips (sc_stx cs) t \<and> length (hash_bytes (stx_tx_hash t)) = 32) txs"
| "op_ok cs (InsertReceipts n rs) \<longleftrightarrow>
     list_all (\<lambda>r. round_trips (sc_receipt cs) r \<and> length (hash_bytes (rc_tx_hash r)) = 32) rs"
| "op_ok cs (UpdateLatestProof p) \<longleftrightarrow> round_trips (sc_proof cs) p"

section \<open>Keys and maps\<close>

lemma prefix_height_new [simp]: "prefix_height (prefix_new n) = n"
  by (simp add: prefix_height_def prefix_new_def to_be_bytes_def)

lemma to_be_bytes_inj [simp]: "to_be_bytes a = to_be_bytes b \<longleftrightarrow> a = b"
  by (metis prefix_height_new prefix_new_def)

definition hash_key :: "u64 \<times> hash \<Rightarrow> bytes" where
  "hash_key p = to_be_bytes (fst p) @ hash_bytes (snd p)"

abbreviation hash_keys :: "(u64 \<times> hash) set" where
  "hash_keys \<equiv> {p. length (hash_bytes (snd p)) = 32}"

lemma block_key_simps [simp]:
  "encodable block_key_codec (prefix_new n)" "key_bytes block_key_codec (prefix_new n) = to_be_bytes n"
  by (simp_all add: encodable_def key_bytes_def block_key_codec_def prefix_new_def)

lemma hash_key_simps [simp]:
  assumes "length (hash_bytes h) = 32"
  shows "encodable hash_key_codec (hash_key_new n h)" "key_bytes hash_key_codec (hash_key_new n h) = hash_key (n, h)"
  using assms by (simp_all add: encodable_def key_bytes_def hash_key_codec_def make_hash_key_def hash_key_new_def
      hash_key_def prefix_new_def)

lemma hash_key_inj: "inj_on hash_key hash_keys"
  by (auto simp: inj_on_def hash_key_def intro: hash.expand)

lemma u64_codec_simps [simp]:
  "encodable le_u64_codec n" "key_bytes le_u64_codec n = to_le_bytes n" "decode_fixed le_u64_codec (to_le_bytes n) = Inr n"
  by (simp_all add: encodable_def key_bytes_def le_u64_codec_def)

definition maps_to :: "('k \<Rightarrow> bytes) \<Rightarrow> ('v \<Rightarrow> bytes) \<Rightarrow> 'k set \<Rightarrow> (bytes \<rightharpoonup> bytes) \<Rightarrow> ('k \<rightharpoonup> 'v) \<Rightarrow> bool" where
  "maps_to K V D F M \<longleftrightarrow> (\<forall>k \<in> D. F (K k) = map_option V (M k))"

lemma maps_to_update: "maps_to K V D F M \<Longrightarrow> inj_on K D \<Longrightarrow> k \<in> D \<Longrightarrow> maps_to K V D (F(K k := map_option V v)) (M(k := v))"
  by (auto simp: maps_to_def inj_on_def)

lemma maps_to_other: "maps_to K V D F M \<Longrightarrow> b \<notin> K ` D \<Longrightarrow> maps_to K V D (F(b := v)) M"
  by (auto simp: maps_to_def)

lemma maps_to_fold:
  assumes "maps_to K V D F M" "inj_on K D" "\<And>x. x \<in> set xs \<Longrightarrow> f x \<in> D"
  shows "maps_to K V D (fold (\<lambda>x m. m(K (f x) \<mapsto> V (g x))) xs F) (fold (\<lambda>x m. m(f x \<mapsto> g x)) xs M)"
  using assms
proof (induction xs arbitrary: F M)
  case (Cons x xs)
  have "maps_to K V D (F(K (f x) \<mapsto> V (g x))) (M(f x \<mapsto> g x))"
    using maps_to_update [OF Cons.prems(1,2), of "f x" "Some (g x)"] Cons.prems(3) by simp
  from Cons.IH [OF this Cons.prems(2)] Cons.prems(3) show ?case by (simp del: fun_upd_apply)
qed simp

abbreviation vals_ok :: "'v codec \<Rightarrow> ('k \<rightharpoonup> 'v) \<Rightarrow> bool" where
  "vals_ok c M \<equiv> \<forall>x \<in> ran M. round_trips c x"

lemma vals_ok_fold: "vals_ok c M \<Longrightarrow> list_all (\<lambda>x. round_trips c x) xs \<Longrightarrow> vals_ok c (fold (\<lambda>x m. m(f x \<mapsto> x)) xs M)"
proof (induction xs arbitrary: M)
  case (Cons x xs)
  have "vals_ok c (M(f x \<mapsto> x))" using Cons.prems by (auto simp: ran_def)
  from Cons.IH [OF this] Cons.prems(2) show ?case by (simp del: fun_upd_apply)
qed simp

definition represents :: "storage_codecs \<Rightarrow> (storage_category \<Rightarrow> bytes \<rightharpoonup> bytes) \<Rightarrow> block option \<Rightarrow> chain_maps \<Rightarrow> bool" where
  "represents cs f latest m \<longleftrightarrow>
     maps_to to_be_bytes (key_bytes (sc_block cs)) UNIV (f CBlock) (cm_blocks m) \<and> vals_ok (sc_block cs) (cm_blocks m) \<and>
     maps_to to_be_bytes (key_bytes (sc_header cs)) UNIV (f CBlockHeader) (cm_headers m) \<and> vals_ok (sc_header cs) (cm_headers m) \<and>
     maps_to hash_key (key_bytes (sc_stx cs)) hash_keys (f CSignedTransaction) (cm_txs m) \<and> vals_ok (sc_stx cs) (cm_txs m) \<and>
     maps_to hash_key (key_bytes (sc_receipt cs)) hash_keys (f CReceipt) (cm_receipts m) \<and> vals_ok (sc_receipt cs) (cm_receipts m) \<and>
     maps_to (key_bytes (sc_hash cs)) to_le_bytes {h. length (hash_bytes h) = 32} (f CHashHeight) (cm_heights m) \<and>
     f CBlock (key_bytes (sc_hash cs) (LATEST_BLOCK_KEY cs)) = map_option (key_bytes (sc_block cs)) (cm_latest m) \<and>
     pred_option (round_trips (sc_block cs)) (cm_latest m) \<and>
     f CBlock (key_bytes (sc_hash cs) (LATEST_PROOF_KEY cs)) = map_option (key_bytes (sc_proof cs)) (cm_proof m) \<and>
     pred_option (round_trips (sc_proof cs)) (cm_proof m) \<and>
     (latest = None \<or> latest = cm_latest m) \<and>
     dom (f CSignedTransaction) \<subseteq> hash_key ` hash_keys \<and> dom (f CReceipt) \<subseteq> hash_key ` hash_keys"

lemma dom_fold_update: "dom (fold (\<lambda>x m. m(f x \<mapsto> g x)) xs F) = dom F \<union> f ` set xs"
proof (induction xs arbitrary: F)
  case (Cons x xs)
  from Cons [of "F(f x \<mapsto> g x)"] show ?case by (auto simp del: fun_upd_apply)
qed simp

lemma represents_empty: "represents cs (\<lambda>_ _. None) None empty_maps"
  by (simp add: represents_def empty_maps_def maps_to_def)

lemma latest_keys:
  assumes "keys_lawful cs"
  shows "encodable (sc_hash cs) (LATEST_BLOCK_KEY cs)" "encodable (sc_hash cs) (LATEST_PROOF_KEY cs)"
    "key_bytes (sc_hash cs) (LATEST_BLOCK_KEY cs) \<noteq> key_bytes (sc_hash cs) (LATEST_PROOF_KEY cs)"
    "key_bytes (sc_hash cs) (LATEST_BLOCK_KEY cs) \<noteq> to_be_bytes n"
    "key_bytes (sc_hash cs) (LATEST_PROOF_KEY cs) \<noteq> to_be_bytes n"
proof -
  have rt: "round_trips (sc_hash cs) (LATEST_BLOCK_KEY cs)" "round_trips (sc_hash cs) (LATEST_PROOF_KEY cs)"
    "length (key_bytes (sc_hash cs) (LATEST_BLOCK_KEY cs)) \<noteq> 8" "length (key_bytes (sc_hash cs) (LATEST_PROOF_KEY cs)) \<noteq> 8"
    using assms by (simp_all add: keys_lawful_def LATEST_BLOCK_KEY_def LATEST_PROOF_KEY_def hash_digest_def)
  from rt(1,2) show "encodable (sc_hash cs) (LATEST_BLOCK_KEY cs)" "encodable (sc_hash cs) (LATEST_PROOF_KEY cs)"
    by (simp_all add: round_trips_encodable)
  from rt(3,4) show "key_bytes (sc_hash cs) (LATEST_BLOCK_KEY cs) \<noteq> to_be_bytes n"
    "key_bytes (sc_hash cs) (LATEST_PROOF_KEY cs) \<noteq> to_be_bytes n" by (metis length_to_be_bytes)+
  show "key_bytes (sc_hash cs) (LATEST_BLOCK_KEY cs) \<noteq> key_bytes (sc_hash cs) (LATEST_PROOF_KEY cs)"
    using round_trips_decode [OF rt(1)] round_trips_decode [OF rt(2)] assms by (auto simp: keys_lawful_def)
qed

lemma hash_keys_lawful:
  assumes "keys_lawful cs"
  shows "inj_on (key_bytes (sc_hash cs)) {h. length (hash_bytes h) = 32}"
    "length (hash_bytes h) = 32 \<Longrightarrow> encodable (sc_hash cs) h"
proof -
  have rt: "length (hash_bytes h) = 32 \<Longrightarrow> round_trips (sc_hash cs) h" for h
    using assms by (simp add: keys_lawful_def)
  show "length (hash_bytes h) = 32 \<Longrightarrow> encodable (sc_hash cs) h" by (simp add: rt round_trips_encodable)
  show "inj_on (key_bytes (sc_hash cs)) {h. length (hash_bytes h) = 32}"
    by (rule inj_onI) (metis (mono_tags, lifting) Inr_inject mem_Collect_eq round_trips_decode rt)
qed


section \<open>Every operation refines its map step\<close>

lemma represents_set_block:
  assumes "represents cs f latest m" "keys_lawful cs" "round_trips (sc_block cs) b" "round_trips (sc_header cs) h"
  shows "represents cs
    (f(CBlock := (f CBlock)(to_be_bytes n \<mapsto> key_bytes (sc_block cs) b),
       CBlockHeader := (f CBlockHeader)(to_be_bytes n \<mapsto> key_bytes (sc_header cs) h))) latest
    (m\<lparr>cm_blocks := (cm_blocks m)(n \<mapsto> b), cm_headers := (cm_headers m)(n \<mapsto> h)\<rparr>)"
  using assms latest_keys(4,5) [OF assms(2), of n] unfolding represents_def maps_to_def by (auto simp: ran_def)

lemma represents_set_latest:
  assumes "represents cs f latest m" "keys_lawful cs" "round_trips (sc_block cs) b"
  shows "represents cs
    (f(CBlock := (f CBlock)(key_bytes (sc_hash cs) (LATEST_BLOCK_KEY cs) \<mapsto> key_bytes (sc_block cs) b))) (Some b)
    (m\<lparr>cm_latest := Some b\<rparr>)"
  using assms latest_keys(3) [OF assms(2)] latest_keys(3) [OF assms(2), THEN not_sym] latest_keys(4) [OF assms(2), THEN not_sym]
  unfolding represents_def maps_to_def by auto

lemma represents_proof:
  assumes "represents cs f latest m" "keys_lawful cs" "round_trips (sc_proof cs) p"
  shows "represents cs
    (f(CBlock := (f CBlock)(key_bytes (sc_hash cs) (LATEST_PROOF_KEY cs) \<mapsto> key_bytes (sc_proof cs) p))) latest
    (m\<lparr>cm_proof := Some p\<rparr>)"
  using assms latest_keys(3) [OF assms(2)] latest_keys(3) [OF assms(2), THEN not_sym] latest_keys(5) [OF assms(2), THEN not_sym]
  unfolding represents_def maps_to_def by auto

lemma represents_remove:
  assumes "represents cs f latest m" "keys_lawful cs"
  shows "represents cs (f(CBlock := (f CBlock)(to_be_bytes n := None))) latest
    (m\<lparr>cm_blocks := (cm_blocks m)(n := None)\<rparr>)"
  using assms latest_keys(4,5) [OF assms(2), of n] unfolding represents_def maps_to_def
  by (auto simp: ran_def split: if_splits)

lemma represents_transactions:
  assumes "represents cs f latest m" "keys_lawful cs"
    and "list_all (\<lambda>t. round_trips (sc_stx cs) t \<and> length (hash_bytes (stx_tx_hash t)) = 32) txs"
  shows "represents cs
    (f(CSignedTransaction := fold (\<lambda>t m. m(hash_key (n, stx_tx_hash t) \<mapsto> key_bytes (sc_stx cs) t)) txs (f CSignedTransaction),
       CHashHeight := fold (\<lambda>t m. m(key_bytes (sc_hash cs) (stx_tx_hash t) \<mapsto> to_le_bytes n)) txs (f CHashHeight))) latest
    (map_step (InsertTransactions n txs) m)"
proof -
  have mem: "\<And>t. t \<in> set txs \<Longrightarrow> (n, stx_tx_hash t) \<in> hash_keys" "\<And>t. t \<in> set txs \<Longrightarrow> stx_tx_hash t \<in> {h. length (hash_bytes h) = 32}"
    using assms(3) by (auto simp: list_all_iff)
  have "maps_to hash_key (key_bytes (sc_stx cs)) hash_keys
      (fold (\<lambda>t m. m(hash_key (n, stx_tx_hash t) \<mapsto> key_bytes (sc_stx cs) t)) txs (f CSignedTransaction))
      (fold (\<lambda>t f. f((n, stx_tx_hash t) \<mapsto> t)) txs (cm_txs m))"
    using assms(1) by (intro maps_to_fold hash_key_inj mem(1)) (simp_all add: represents_def)
  moreover have "maps_to (key_bytes (sc_hash cs)) to_le_bytes {h. length (hash_bytes h) = 32}
      (fold (\<lambda>t m. m(key_bytes (sc_hash cs) (stx_tx_hash t) \<mapsto> to_le_bytes n)) txs (f CHashHeight))
      (fold (\<lambda>t f. f(stx_tx_hash t \<mapsto> n)) txs (cm_heights m))"
    using assms(1) by (intro maps_to_fold hash_keys_lawful(1) [OF assms(2)] mem(2)) (simp_all add: represents_def)
  moreover have "vals_ok (sc_stx cs) (fold (\<lambda>t f. f((n, stx_tx_hash t) \<mapsto> t)) txs (cm_txs m))"
    using assms(1,3) by (intro vals_ok_fold) (auto simp: represents_def list_all_iff)
  moreover have "dom (fold (\<lambda>t m. m(hash_key (n, stx_tx_hash t) \<mapsto> key_bytes (sc_stx cs) t)) txs (f CSignedTransaction)) \<subseteq> hash_key ` hash_keys"
    using assms(1) mem(1) unfolding dom_fold_update represents_def by blast
  ultimately show ?thesis using assms(1) by (simp add: represents_def)
qed

lemma represents_receipts:
  assumes "represents cs f latest m" "keys_lawful cs"
    and "list_all (\<lambda>r. round_trips (sc_receipt cs) r \<and> length (hash_bytes (rc_tx_hash r)) = 32) rs"
  shows "represents cs
    (f(CReceipt := fold (\<lambda>r m. m(hash_key (n, rc_tx_hash r) \<mapsto> key_bytes (sc_receipt cs) r)) rs (f CReceipt),
       CHashHeight := fold (\<lambda>r m. m(key_bytes (sc_hash cs) (rc_tx_hash r) \<mapsto> to_le_bytes n)) rs (f CHashHeight))) latest
    (map_step (InsertReceipts n rs) m)"
proof -
  have mem: "\<And>r. r \<in> set rs \<Longrightarrow> (n, rc_tx_hash r) \<in> hash_keys" "\<And>r. r \<in> set rs \<Longrightarrow> rc_tx_hash r \<in> {h. length (hash_bytes h) = 32}"
    using assms(3) by (auto simp: list_all_iff)
  have "maps_to hash_key (key_bytes (sc_receipt cs)) hash_keys
      (fold (\<lambda>r m. m(hash_key (n, rc_tx_hash r) \<mapsto> key_bytes (sc_receipt cs) r)) rs (f CReceipt))
      (fold (\<lambda>r f. f((n, rc_tx_hash r) \<mapsto> r)) rs (cm_receipts m))"
    using assms(1) by (intro maps_to_fold hash_key_inj mem(1)) (simp_all add: represents_def)
  moreover have "maps_to (key_bytes (sc_hash cs)) to_le_bytes {h. length (hash_bytes h) = 32}
      (fold (\<lambda>r m. m(key_bytes (sc_hash cs) (rc_tx_hash r) \<mapsto> to_le_bytes n)) rs (f CHashHeight))
      (fold (\<lambda>r f. f(rc_tx_hash r \<mapsto> n)) rs (cm_heights m))"
    using assms(1) by (intro maps_to_fold hash_keys_lawful(1) [OF assms(2)] mem(2)) (simp_all add: represents_def)
  moreover have "vals_ok (sc_receipt cs) (fold (\<lambda>r f. f((n, rc_tx_hash r) \<mapsto> r)) rs (cm_receipts m))"
    using assms(1,3) by (intro vals_ok_fold) (auto simp: represents_def list_all_iff)
  moreover have "dom (fold (\<lambda>r m. m(hash_key (n, rc_tx_hash r) \<mapsto> key_bytes (sc_receipt cs) r)) rs (f CReceipt)) \<subseteq> hash_key ` hash_keys"
    using assms(1) mem(1) unfolding dom_fold_update represents_def by blast
  ultimately show ?thesis using assms(1) by (simp add: represents_def)
qed

context byte_store
begin

lemma set_block_step:
  assumes "valid (st_db st)" "represents cs (content (st_db st)) (st_latest_block st) m" "keys_lawful cs"
    and "round_trips (sc_block cs) b" "round_trips (sc_header cs) (blk_header b)"
  shows "\<exists>st'. set_block ad cs b st = Inr st' \<and> valid (st_db st') \<and>
    represents cs (content (st_db st')) (st_latest_block st') (map_step (SetBlock b) m)"
proof -
  let ?k = "prefix_new (hdr_height (blk_header b))"
  obtain db1 where 1: "adapter_insert ad CBlock block_key_codec (sc_block cs) ?k b (st_db st) = Inr db1" "valid db1"
    "content db1 = (content (st_db st))(CBlock := (content (st_db st) CBlock)(key_bytes block_key_codec ?k \<mapsto> key_bytes (sc_block cs) b))"
    using insert_typed [OF assms(1) _ round_trips_encodable [OF assms(4)]] by (metis block_key_simps(1))
  obtain db2 where 2: "adapter_insert ad CBlockHeader block_key_codec (sc_header cs) ?k (blk_header b) db1 = Inr db2" "valid db2"
    "content db2 = (content db1)(CBlockHeader := (content db1 CBlockHeader)(key_bytes block_key_codec ?k \<mapsto> key_bytes (sc_header cs) (blk_header b)))"
    using insert_typed [OF 1(2) _ round_trips_encodable [OF assms(5)]] by (metis block_key_simps(1))
  have "represents cs (content db2) (st_latest_block st) (map_step (SetBlock b) m)"
    using represents_set_block [OF assms(2-5), of "hdr_height (blk_header b)"] by (simp add: 1(3) 2(3) Let_def)
  with 1 2 show ?thesis by (auto simp: set_block_def Let_def)
qed

lemma set_latest_step:
  assumes "valid (st_db st)" "represents cs (content (st_db st)) (st_latest_block st) m" "keys_lawful cs"
    and "round_trips (sc_block cs) b"
  shows "\<exists>st'. set_latest_block ad cs b st = Inr st' \<and> valid (st_db st') \<and>
    represents cs (content (st_db st')) (st_latest_block st') (map_step (SetLatestBlock b) m)"
proof -
  obtain db1 where 1: "adapter_insert ad CBlock (sc_hash cs) (sc_block cs) (LATEST_BLOCK_KEY cs) b (st_db st) = Inr db1" "valid db1"
    "content db1 = (content (st_db st))(CBlock := (content (st_db st) CBlock)(key_bytes (sc_hash cs) (LATEST_BLOCK_KEY cs) \<mapsto> key_bytes (sc_block cs) b))"
    using insert_typed [OF assms(1) latest_keys(1) [OF assms(3)] round_trips_encodable [OF assms(4)]] by metis
  with represents_set_latest [OF assms(2-4)] show ?thesis by (auto simp: set_latest_block_def)
qed

lemma proof_step:
  assumes "valid (st_db st)" "represents cs (content (st_db st)) (st_latest_block st) m" "keys_lawful cs"
    and "round_trips (sc_proof cs) p"
  shows "\<exists>st'. update_latest_proof ad cs p st = Inr st' \<and> valid (st_db st') \<and>
    represents cs (content (st_db st')) (st_latest_block st') (map_step (UpdateLatestProof p) m)"
proof -
  obtain db1 where 1: "adapter_insert ad CBlock (sc_hash cs) (sc_proof cs) (LATEST_PROOF_KEY cs) p (st_db st) = Inr db1" "valid db1"
    "content db1 = (content (st_db st))(CBlock := (content (st_db st) CBlock)(key_bytes (sc_hash cs) (LATEST_PROOF_KEY cs) \<mapsto> key_bytes (sc_proof cs) p))"
    using insert_typed [OF assms(1) latest_keys(2) [OF assms(3)] round_trips_encodable [OF assms(4)]] by metis
  with represents_proof [OF assms(2-4)] show ?thesis by (auto simp: update_latest_proof_def)
qed

lemma remove_step:
  assumes "valid (st_db st)" "represents cs (content (st_db st)) (st_latest_block st) m" "keys_lawful cs"
  shows "\<exists>st'. remove_block ad n st = Inr st' \<and> valid (st_db st') \<and>
    represents cs (content (st_db st')) (st_latest_block st') (map_step (RemoveBlock n) m)"
proof -
  obtain db1 where 1: "adapter_remove ad CBlock block_key_codec (prefix_new n) (st_db st) = Inr db1" "valid db1"
    "content db1 = (content (st_db st))(CBlock := (content (st_db st) CBlock)(key_bytes block_key_codec (prefix_new n) := None))"
    using remove_typed [OF assms(1) block_key_simps(1)] by metis
  with represents_remove [OF assms(2,3), of n] show ?thesis by (auto simp: remove_block_def)
qed

lemma batch_insert_step:
  fixes items :: "'v list"
  assumes "valid (st_db st)" "keys_lawful cs" "c \<noteq> CHashHeight"
    and "list_all (\<lambda>i. round_trips vc i \<and> length (hash_bytes (h i)) = 32) items"
  obtains st' where "batch_insert ad cs c vc h n items st = Inr st'" "valid (st_db st')" "st_latest_block st' = st_latest_block st"
    "content (st_db st') = (content (st_db st))
       (c := fold (\<lambda>i m. m(hash_key (n, h i) \<mapsto> key_bytes vc i)) items (content (st_db st) c),
        CHashHeight := fold (\<lambda>i m. m(key_bytes (sc_hash cs) (h i) \<mapsto> to_le_bytes n)) items (content (st_db st) CHashHeight))"
proof -
  have item: "round_trips vc i" "length (hash_bytes (h i)) = 32" if "i \<in> set items" for i
    using assms(4) that by (auto simp: list_all_iff)
  have keys: "fold (\<lambda>i m. m(key_bytes hash_key_codec (hash_key_new n (h i)) \<mapsto> key_bytes vc i)) items M =
      fold (\<lambda>i m. m(hash_key (n, h i) \<mapsto> key_bytes vc i)) items M" for M
    by (rule fold_cong) (simp_all add: item(2))
  obtain db1 where 1: "sa_batch_modify ad c (map (\<lambda>i. enc hash_key_codec (hash_key_new n (h i))) items)
      (map (\<lambda>i. BatchInsert (enc vc i)) items) (st_db st) = Inr db1" "valid db1"
    "content db1 = (content (st_db st))(c := fold (\<lambda>i m. m(hash_key (n, h i) \<mapsto> key_bytes vc i)) items (content (st_db st) c))"
    using batch_insert_typed [OF assms(1), of items hash_key_codec "\<lambda>i. hash_key_new n (h i)" vc "\<lambda>i. i" c]
    by (auto simp: item round_trips_encodable keys)
  obtain db2 where 2: "sa_batch_modify ad CHashHeight (map (\<lambda>i. enc (sc_hash cs) (h i)) items)
      (map (\<lambda>i. BatchInsert (enc le_u64_codec n)) items) db1 = Inr db2" "valid db2"
    "content db2 = (content db1)(CHashHeight := fold (\<lambda>i m. m(key_bytes (sc_hash cs) (h i) \<mapsto> to_le_bytes n)) items (content db1 CHashHeight))"
    using batch_insert_typed [OF 1(2), of items "sc_hash cs" h le_u64_codec "\<lambda>_. n" CHashHeight]
    by (auto simp: item hash_keys_lawful(2) [OF assms(2)])
  show ?thesis
    by (rule that [of "st\<lparr>st_db := db2\<rparr>"]) (use assms(3) 1 2 in \<open>simp_all add: batch_insert_def\<close>)
qed

end


lemma maps_to_decode:
  assumes "maps_to K (key_bytes c) D F M" "vals_ok c M" "k \<in> D"
  shows "(case F (K k) of Some b \<Rightarrow> res_map Some (storage_codec_err (decode_fixed c b)) | None \<Rightarrow> Inr None) = Inr (M k)"
proof (cases "M k")
  case (Some v)
  then have "round_trips c v" using assms(2) by (auto simp: ran_def)
  with Some assms(1,3) show ?thesis by (simp add: maps_to_def round_trips_decode)
qed (use assms in \<open>simp add: maps_to_def\<close>)

lemma key_value_decode:
  assumes "x = map_option (key_bytes c) v" "pred_option (round_trips c) v"
  shows "res_bind (case x of Some b \<Rightarrow> res_map Some (storage_codec_err (decode_fixed c b)) | None \<Rightarrow> Inr None) (ok_or e) = ok_or e v"
  using assms by (cases v) (simp_all add: round_trips_decode)

context byte_store
begin

lemma storage_step_refines:
  assumes "valid (st_db st)" "represents cs (content (st_db st)) (st_latest_block st) m" "keys_lawful cs" "op_ok cs op"
  shows "\<exists>st'. storage_step ad cs op st = Inr st' \<and> valid (st_db st') \<and>
    represents cs (content (st_db st')) (st_latest_block st') (map_step op m)"
proof (cases op)
  case (InsertBlock b)
  obtain st1 where 1: "set_block ad cs b st = Inr st1" "valid (st_db st1)"
    "represents cs (content (st_db st1)) (st_latest_block st1) (map_step (SetBlock b) m)"
    using set_block_step [OF assms(1-3)] assms(4) InsertBlock by auto
  obtain st2 where 2: "set_latest_block ad cs b st1 = Inr st2" "valid (st_db st2)"
    "represents cs (content (st_db st2)) (st_latest_block st2) (map_step (SetLatestBlock b) (map_step (SetBlock b) m))"
    using set_latest_step [OF 1(2,3) assms(3)] assms(4) InsertBlock by auto
  from 1 2 show ?thesis by (simp add: InsertBlock insert_block_def Let_def)
next
  case (SetBlock b)
  with set_block_step [OF assms(1-3)] assms(4) show ?thesis by simp
next
  case (SetLatestBlock b)
  with set_latest_step [OF assms(1-3)] assms(4) show ?thesis by simp
next
  case (RemoveBlock n)
  with remove_step [OF assms(1-3)] show ?thesis by simp
next
  case (InsertTransactions n txs)
  then have ok: "list_all (\<lambda>t. round_trips (sc_stx cs) t \<and> length (hash_bytes (stx_tx_hash t)) = 32) txs"
    using assms(4) by simp
  show ?thesis
    by (rule batch_insert_step [OF assms(1,3) _ ok, of CSignedTransaction n])
      (use represents_transactions [OF assms(2,3) ok, of n] in \<open>auto simp: InsertTransactions insert_transactions_def\<close>)
next
  case (InsertReceipts n rs)
  then have ok: "list_all (\<lambda>r. round_trips (sc_receipt cs) r \<and> length (hash_bytes (rc_tx_hash r)) = 32) rs"
    using assms(4) by simp
  show ?thesis
    by (rule batch_insert_step [OF assms(1,3) _ ok, of CReceipt n])
      (use represents_receipts [OF assms(2,3) ok, of n] in \<open>auto simp: InsertReceipts insert_receipts_def\<close>)
next
  case (UpdateLatestProof p)
  with proof_step [OF assms(1-3)] assms(4) show ?thesis by simp
qed

lemma storage_history:
  assumes "valid (st_db st)" "represents cs (content (st_db st)) (st_latest_block st) m" "keys_lawful cs" "list_all (op_ok cs) ops"
  shows "\<exists>st'. res_fold (storage_step ad cs) ops st = Inr st' \<and> valid (st_db st') \<and>
    represents cs (content (st_db st')) (st_latest_block st') (fold map_step ops m)"
  using assms
proof (induction ops arbitrary: st m)
  case (Cons op ops)
  obtain st1 where "storage_step ad cs op st = Inr st1" "valid (st_db st1)"
    "represents cs (content (st_db st1)) (st_latest_block st1) (map_step op m)"
    using storage_step_refines [OF Cons.prems(1-3)] Cons.prems(4) by auto
  with Cons.IH [of st1 "map_step op m"] Cons.prems(3,4) show ?case by simp
qed simp

lemma represents_reads:
  assumes "valid (st_db st)" "represents cs (content (st_db st)) (st_latest_block st) m" "keys_lawful cs"
  shows "reads_agree ad cs m st"
proof -
  note rep = assms(2) [unfolded represents_def]
  have blocks: "storage_get_block ad cs n st = Inr (cm_blocks m n)" for n
    using maps_to_decode [of to_be_bytes "sc_block cs" UNIV "content (st_db st) CBlock" "cm_blocks m" n] rep
    by (simp add: storage_get_block_def get_typed [OF assms(1)])
  have headers: "get_block_header ad cs n st =
      Inr (case cm_headers m n of Some h \<Rightarrow> Some h | None \<Rightarrow> map_option blk_header (cm_blocks m n))" for n
    using maps_to_decode [of to_be_bytes "sc_header cs" UNIV "content (st_db st) CBlockHeader" "cm_headers m" n] rep
    by (simp add: get_block_header_def get_typed [OF assms(1)] blocks split: option.split)
  have height: "adapter_get ad CHashHeight (sc_hash cs) le_u64_codec h (st_db st) = Inr (cm_heights m h)"
    if "length (hash_bytes h) = 32" for h
  proof -
    have "content (st_db st) CHashHeight (key_bytes (sc_hash cs) h) = map_option to_le_bytes (cm_heights m h)"
      using rep that by (simp add: maps_to_def)
    then show ?thesis
      by (simp add: get_typed [OF assms(1) hash_keys_lawful(2) [OF assms(3) that]] split: option.split)
  qed
  have txs: "get_transaction_by_hash ad cs h st = Inr (case cm_heights m h of None \<Rightarrow> None | Some n \<Rightarrow> cm_txs m (n, h))"
    if "length (hash_bytes h) = 32" for h
    using maps_to_decode [of hash_key "sc_stx cs" hash_keys "content (st_db st) CSignedTransaction" "cm_txs m"] rep that
    by (simp add: get_transaction_by_hash_def height get_typed [OF assms(1)] split: option.split)
  have receipts: "get_receipt_by_hash ad cs h st = Inr (case cm_heights m h of None \<Rightarrow> None | Some n \<Rightarrow> cm_receipts m (n, h))"
    if "length (hash_bytes h) = 32" for h
    using maps_to_decode [of hash_key "sc_receipt cs" hash_keys "content (st_db st) CReceipt" "cm_receipts m"] rep that
    by (simp add: get_receipt_by_hash_def height get_typed [OF assms(1)] split: option.split)
  have latest: "ensure_get ad CBlock (sc_hash cs) (sc_block cs) (LATEST_BLOCK_KEY cs) st = ok_or GetNone (cm_latest m)"
    unfolding ensure_get_def get_typed [OF assms(1) latest_keys(1) [OF assms(3)]]
    by (rule key_value_decode) (simp_all add: rep)
  have pf: "get_latest_proof ad cs st = ok_or GetNone (cm_proof m)"
    unfolding get_latest_proof_def ensure_get_def get_typed [OF assms(1) latest_keys(2) [OF assms(3)]]
    by (rule key_value_decode) (simp_all add: rep)
  have "st_latest_block st = None \<or> st_latest_block st = cm_latest m" using rep by simp
  then have block: "get_latest_block ad cs st = ok_or GetNone (cm_latest m)"
    and header: "get_latest_block_header ad cs st = ok_or GetNone (map_option blk_header (cm_latest m))"
    using latest by (cases "st_latest_block st"; cases "cm_latest m"; simp add: get_latest_block_def get_latest_block_header_def)+
  show ?thesis unfolding reads_agree_def using blocks headers txs receipts block header pf by blast
qed

end


section \<open>The range scan\<close>

lemma append_le_prefix:
  fixes a b :: "'a::linorder list"
  shows "length a = length b \<Longrightarrow> a @ x \<le> b @ y \<Longrightarrow> a \<le> b"
proof (induction a b rule: list_induct2)
  case (Cons u a v b)
  then show ?case by auto
qed simp

lemma decode_hash_key_simp [simp]:
  "length (hash_bytes h) = 32 \<Longrightarrow> decode_hash_key (hash_key (n, h)) = Inr (hash_key_new n h)"
  by (simp add: decode_hash_key_def hash_key_def prefix_from_slice_def hash_from_bytes_def ensure_len_def HASH_LEN_def
      map_types_err_def hash_key_new_def prefix_new_def)

lemma hash_key_new_simps [simp]: "hash_key_height (hash_key_new n h) = n" "ck_hash (hash_key_new n h) = h"
  by (simp_all add: hash_key_height_def hash_key_new_def)

text \<open>The hits of a scan over decoded entries.\<close>

definition scan_hits :: "u64 \<Rightarrow> hash list \<Rightarrow> ((u64 \<times> hash) \<times> bytes) list \<Rightarrow> (hash \<times> bytes) list" where
  "scan_hits n hashes es =
     map (\<lambda>e. (snd (fst e), snd e)) (filter (\<lambda>e. snd (fst e) \<in> set hashes) (takeWhile (\<lambda>e. fst (fst e) = n) es))"

lemma scan_found_hits:
  assumes "fst ` set es \<subseteq> hash_keys" "length (scan_hits n hashes es) \<le> count"
  shows "scan_found n hashes count (map (\<lambda>e. (hash_key (fst e), snd e)) es) = Inr (scan_hits n hashes es)"
  using assms
proof (induction es arbitrary: count)
  case Nil
  then show ?case by (cases count) (simp_all add: scan_hits_def)
next
  case (Cons e es)
  obtain a h v where e: "e = ((a, h), v)" by (cases e) auto
  have h: "length (hash_bytes h) = 32" using Cons.prems(1) e by auto
  have sub: "fst ` set es \<subseteq> hash_keys" using Cons.prems(1) by simp
  show ?case
  proof (cases count)
    case 0
    with Cons.prems(2) show ?thesis by simp
  next
    case (Suc c)
    have "a = n \<Longrightarrow> h \<notin> set hashes \<Longrightarrow> scan_hits n hashes (e # es) = scan_hits n hashes es"
      "a = n \<Longrightarrow> h \<in> set hashes \<Longrightarrow> scan_hits n hashes (e # es) = (h, v) # scan_hits n hashes es"
      "a \<noteq> n \<Longrightarrow> scan_hits n hashes (e # es) = []"
      by (simp_all add: scan_hits_def e)
    with Cons.IH [OF sub, of "Suc c"] Cons.IH [OF sub, of c] Cons.prems(2) Suc h show ?thesis
      by (cases "a = n"; cases "h \<in> set hashes") (simp_all add: e)
  qed
qed

text \<open>In key order the entries of the height come first.\<close>

lemma sorted_takeWhile_filter:
  assumes "sorted (map (\<lambda>e. hash_key (fst e)) es)" "fst ` set es \<subseteq> hash_keys"
    and "\<And>e. e \<in> set es \<Longrightarrow> to_be_bytes n \<le> hash_key (fst e)"
  shows "takeWhile (\<lambda>e. fst (fst e) = n) es = filter (\<lambda>e. fst (fst e) = n) es"
  using assms
proof (induction es)
  case (Cons e es)
  show ?case
  proof (cases "fst (fst e) = n")
    case True
    with Cons show ?thesis by simp
  next
    case False
    have "to_be_bytes n \<le> to_be_bytes (fst (fst e))"
      using Cons.prems(3) [of e] append_le_prefix [of "to_be_bytes n" "to_be_bytes (fst (fst e))" "[]"]
      by (simp add: hash_key_def)
    with False have lt: "to_be_bytes n < to_be_bytes (fst (fst e))" by (simp add: less_le)
    have "fst (fst e') \<noteq> n" if "e' \<in> set es" for e'
    proof
      assume "fst (fst e') = n"
      with Cons.prems(1) that have "to_be_bytes (fst (fst e)) @ hash_bytes (snd (fst e)) \<le> to_be_bytes n @ hash_bytes (snd (fst e'))"
        by (auto simp: hash_key_def)
      then have "to_be_bytes (fst (fst e)) \<le> to_be_bytes n" by (rule append_le_prefix [rotated]) simp
      with lt show False by simp
    qed
    with False show ?thesis by (simp add: filter_empty_conv)
  qed
qed simp

lemma concat_chunks_of: "0 < n \<Longrightarrow> concat (chunks_of n xs) = xs"
  by (induction n xs rule: chunks_of.induct) (subst chunks_of.simps, simp)

lemma res_collect_concat:
  "res_map concat (res_collect (\<lambda>t. t) (map (res_collect f) xss)) = res_collect f (concat xss)"
proof (induction xss)
  case (Cons xs xss)
  have app: "res_collect f (xs @ ys) = res_bind (res_collect f xs) (\<lambda>a. res_map ((@) a) (res_collect f ys))" for ys
    by (induction xs) (simp_all split: sum.splits add: res_bind_def res_map_def)
  show ?case
    by (cases "res_collect f xs"; cases "res_collect (\<lambda>t. t) (map (res_collect f) xss)")
      (simp_all add: app Cons [symmetric])
qed simp

text \<open>Decoding in chunks gives what decoding one by one gives, when no value makes the decoder panic.\<close>

lemma decode_batch_eq:
  assumes "\<And>p. p \<in> set found \<Longrightarrow> decode_fixed vc (snd p) \<noteq> Inl Panic"
  shows "decode_batch vc found = res_collect (decode_entry vc) found"
proof -
  have no_panic: "res_collect (decode_entry vc) xs \<noteq> Inl Panic" if "set xs \<subseteq> set found" for xs
    using that assms
    by (induction xs) (auto simp: decode_entry_def res_map_def storage_codec_err_def split: sum.splits failure.splits)
  have chunks: "concat (chunks_of BATCH_VALUE_DECODE_NUMBER found) = found"
    by (rule concat_chunks_of) (simp add: BATCH_VALUE_DECODE_NUMBER_def)
  have "set xs \<subseteq> set (concat (chunks_of BATCH_VALUE_DECODE_NUMBER found))"
    if "xs \<in> set (chunks_of BATCH_VALUE_DECODE_NUMBER found)" for xs using that by auto
  then have "Inl Panic \<notin> res_collect (decode_entry vc) ` set (chunks_of BATCH_VALUE_DECODE_NUMBER found)"
    unfolding chunks using no_panic by (auto dest: sym)
  then show ?thesis by (simp add: decode_batch_def Let_def res_collect_concat chunks)
qed

lemma take_found_eq:
  "take_found hs found = map (\<lambda>i. if hs ! i \<in> set (take i hs) then None else hm_get found (hs ! i)) [0..<length hs]"
proof (induction hs arbitrary: found)
  case (Cons h hs)
  have "[0..<length (h # hs)] = 0 # map Suc [0..<length hs]" by (simp add: map_Suc_upt upt_conv_Cons del: upt_Suc)
  then show ?case by (simp add: Cons del: upt_Suc)
qed simp


lemma entries_of:
  assumes "fst ` set kvs \<subseteq> hash_key ` hash_keys"
  obtains es where "kvs = map (\<lambda>e. (hash_key (fst e), snd e)) es" "fst ` set es \<subseteq> hash_keys"
proof -
  have "\<exists>es. kvs = map (\<lambda>e. (hash_key (fst e), snd e)) es \<and> fst ` set es \<subseteq> hash_keys"
    using assms
  proof (induction kvs)
    case (Cons kv kvs)
    then obtain es p where "kvs = map (\<lambda>e. (hash_key (fst e), snd e)) es" "fst ` set es \<subseteq> hash_keys"
      "fst kv = hash_key p" "p \<in> hash_keys" by auto
    then show ?case by (intro exI [of _ "(p, snd kv) # es"]) (auto intro: prod_eqI)
  qed simp
  with that show ?thesis by blast
qed

lemma map_of_fold_insert_distinct:
  "distinct (map fst xs) \<Longrightarrow> hm_get (fold (\<lambda>(k, v) m. hm_insert k v m) xs []) = map_of xs"
proof -
  assume d: "distinct (map fst xs)"
  have "hm_get (fold (\<lambda>(k, v) m. hm_insert k v m) xs m) k = (case map_of (rev xs) k of None \<Rightarrow> hm_get m k | Some v \<Rightarrow> Some v)"
    for m k
    by (induction xs arbitrary: m) (auto simp: map_add_def split: option.splits)
  moreover have "map_of (rev xs) = map_of xs" using d by (simp add: map_of_inject_set rev_map [symmetric])
  ultimately show ?thesis by (auto simp: fun_eq_iff split: option.splits)
qed

lemma get_by_scan_spec:
  assumes iter: "sa_prepare_iter ad c (to_be_bytes n) (st_db st) = Inr kvs" "sorted (map fst kvs)" "distinct (map fst kvs)"
    and sound: "\<And>k v. (k, v) \<in> set kvs \<Longrightarrow> to_be_bytes n \<le> k \<and> F k = Some v"
    and complete: "\<And>k. k \<in> dom F \<Longrightarrow> take 8 k = to_be_bytes n \<Longrightarrow> k \<in> fst ` set kvs"
    and shape: "dom F \<subseteq> hash_key ` hash_keys" and maps: "maps_to hash_key (key_bytes vc) hash_keys F M" "vals_ok vc M"
    and hashes: "list_all (\<lambda>h. length (hash_bytes h) = 32) hashes"
  shows "get_by_scan ad c vc n hashes st =
    Inr (map (\<lambda>i. if hashes ! i \<in> set (take i hashes) then None else M (n, hashes ! i)) [0..<length hashes])"
proof -
  have "fst ` set kvs \<subseteq> hash_key ` hash_keys" using sound shape by force
  then obtain es where es: "kvs = map (\<lambda>e. (hash_key (fst e), snd e)) es" "fst ` set es \<subseteq> hash_keys"
    by (rule entries_of)
  define hits where "hits = scan_hits n hashes es"
  have keys: "fst e \<in> hash_keys" "F (hash_key (fst e)) = Some (snd e)" if "e \<in> set es" for e
    using that es(2) sound [of "hash_key (fst e)" "snd e"] by (auto simp: es(1))
  have first: "takeWhile (\<lambda>e. fst (fst e) = n) es = filter (\<lambda>e. fst (fst e) = n) es"
    using iter(2) es(2) sound by (intro sorted_takeWhile_filter) (auto simp: es(1) comp_def)
  then have hits_set: "(h, v) \<in> set hits \<longleftrightarrow> ((n, h), v) \<in> set es \<and> h \<in> set hashes" for h v
    by (auto simp: hits_def scan_hits_def image_iff)
  have stored: "\<exists>x. M (n, h) = Some x \<and> v = key_bytes vc x \<and> round_trips vc x" if "(h, v) \<in> set hits" for h v
  proof -
    have "map_option (key_bytes vc) (M (n, h)) = Some v"
      using keys [of "((n, h), v)"] that maps(1) by (simp add: hits_set maps_to_def)
    then obtain x where x: "M (n, h) = Some x" "v = key_bytes vc x" by auto
    moreover have "round_trips vc x" using maps(2) ranI [of M, OF x(1)] by blast
    ultimately show ?thesis by blast
  qed
  have d: "distinct es" "inj_on (\<lambda>e. hash_key (fst e)) (set es)"
    using iter(3) by (simp_all add: es(1) comp_def distinct_map)
  have "inj_on (\<lambda>e. snd (fst e)) (set (filter (\<lambda>e. snd (fst e) \<in> set hashes) (filter (\<lambda>e. fst (fst e) = n) es)))"
  proof (rule inj_onI)
    fix a b assume ab: "a \<in> set (filter (\<lambda>e. snd (fst e) \<in> set hashes) (filter (\<lambda>e. fst (fst e) = n) es))"
      "b \<in> set (filter (\<lambda>e. snd (fst e) \<in> set hashes) (filter (\<lambda>e. fst (fst e) = n) es))" "snd (fst a) = snd (fst b)"
    then have "fst a = fst b" by (intro prod_eqI) simp_all
    then show "a = b" using inj_onD [OF d(2), of a b] ab by simp
  qed
  then have dist: "distinct (map fst hits)"
    using d(1) by (simp add: hits_def scan_hits_def first distinct_map comp_def)
  have "length hits \<le> length hashes"
  proof -
    have "length hits = card (fst ` set hits)" using dist distinct_card [of "map fst hits"] by simp
    also have "\<dots> \<le> card (set hashes)" by (rule card_mono) (auto simp: hits_set)
    finally show ?thesis using card_length [of hashes] by simp
  qed
  then have scan: "scan_found n hashes (length hashes) kvs = Inr hits"
    using scan_found_hits [OF es(2), of n hashes "length hashes"] by (simp add: es(1) hits_def)
  have dec: "res_collect (decode_entry vc) hits = Inr (map (\<lambda>(h, v). (h, the (M (n, h)))) hits)"
    by (rule res_collect_total) (auto simp: decode_entry_def round_trips_decode dest!: stored)
  have batch: "decode_batch vc hits = Inr (map (\<lambda>(h, v). (h, the (M (n, h)))) hits)"
    unfolding dec [symmetric] by (rule decode_batch_eq) (auto simp: round_trips_decode dest!: stored)
  have "hm_get (fold (\<lambda>(k, v) m. hm_insert k v m) (map (\<lambda>(h, v). (h, the (M (n, h)))) hits) []) h = M (n, h)"
    if "h \<in> set hashes" for h
  proof -
    have d: "distinct (map fst (map (\<lambda>(h, v). (h, the (M (n, h)))) hits))" using dist by (simp add: split_beta comp_def)
    show ?thesis
    proof (cases "M (n, h)")
      case None
      then have "h \<notin> fst ` set hits" using stored [of h] by auto
      then have "map_of (map (\<lambda>(h, v). (h, the (M (n, h)))) hits) h = None"
        by (auto simp: map_of_eq_None_iff) (metis fst_conv image_eqI)
      then show ?thesis unfolding map_of_fold_insert_distinct [OF d] by (simp only: None)
    next
      case (Some x)
      have h32: "(n, h) \<in> hash_keys" using hashes that by (simp add: list_all_iff)
      then have "hash_key (n, h) \<in> dom F" using maps(1) Some by (auto simp: maps_to_def)
      then have "hash_key (n, h) \<in> fst ` set kvs" by (rule complete) (simp add: hash_key_def)
      then obtain e where e: "e \<in> set es" "hash_key (fst e) = hash_key (n, h)" by (auto simp: es(1))
      then have "fst e = (n, h)" using inj_onD [OF hash_key_inj e(2) keys(1) [OF e(1)] h32] by simp
      then have "e = ((n, h), snd e)" by (metis prod.collapse)
      with e(1) that have "(h, snd e) \<in> set hits" unfolding hits_set by metis
      then have "(h, x) \<in> set (map (\<lambda>(h, v). (h, the (M (n, h)))) hits)"
        using imageI [of "(h, snd e)" "set hits" "\<lambda>(h, v). (h, the (M (n, h)))"] Some by simp
      then show ?thesis unfolding map_of_fold_insert_distinct [OF d] Some by (rule map_of_is_SomeI [OF d])
    qed
  qed
  then have "take_found hashes (fold (\<lambda>(k, v) m. hm_insert k v m) (map (\<lambda>(h, v). (h, the (M (n, h)))) hits) []) =
      map (\<lambda>i. if hashes ! i \<in> set (take i hashes) then None else M (n, hashes ! i)) [0..<length hashes]"
    unfolding take_found_eq by (intro map_cong refl) simp
  then show ?thesis by (simp only: get_by_scan_def prefix_new_def common_prefix.sel iter(1) scan batch res_bind_simps)
qed


section \<open>Concrete storages\<close>

text \<open>A database with sorted iteration, and codecs for one block, one transaction and one receipt.\<close>

definition list_column :: "memory_db \<Rightarrow> string \<Rightarrow> category_map" where
  "list_column db c = (case hm_get db c of None \<Rightarrow> [] | Some m \<Rightarrow> m)"

definition list_rocks :: "memory_db rocksdb" where
  "list_rocks =
     \<lparr>rk_cf_handle = (\<lambda>c db. True),
      rk_put_cf = (\<lambda>c k v db. Inr (hm_insert c (hm_insert k v (list_column db c)) db)),
      rk_get_cf = (\<lambda>c k db. Inr (hm_get (list_column db c) k)),
      rk_delete_cf = (\<lambda>c k db. Inr (hm_insert c (hm_remove k (list_column db c)) db)),
      rk_write = (\<lambda>c ps db. Inr (hm_insert c (fold modify_pair ps (list_column db c)) db)),
      rk_prefix_iterator_cf = (\<lambda>c p db. sort_key fst (filter (\<lambda>kv. p \<le> fst kv) (list_column db c)))\<rparr>"

definition list_valid :: "memory_db \<Rightarrow> bool" where
  "list_valid db \<longleftrightarrow> (\<forall>c. hm_wf (list_column db c))"

definition list_content :: "memory_db \<Rightarrow> string \<Rightarrow> bytes \<rightharpoonup> bytes" where
  "list_content db c = hm_get (list_column db c)"

definition const_codec :: "'a \<Rightarrow> 'a codec" where
  "const_codec x = \<lparr>encode_fixed = (\<lambda>_. Inr [7]), decode_fixed = (\<lambda>_. Inr x)\<rparr>"

definition storage_example_proof :: block_proof where
  "storage_example_proof = \<lparr>pf_height = 0, pf_round = 0, pf_block_hash = Hash [], pf_signature = [], pf_bitmap = []\<rparr>"

definition storage_example_block :: block where
  "storage_example_block =
     \<lparr>blk_header =
        \<lparr>hdr_chain_id = Hash [], hdr_height = 5, hdr_exec_height = 4, hdr_prev_hash = Hash [], hdr_timestamp = 0,
         hdr_order_root = Hash [], hdr_order_signed_transactions_hash = Hash [], hdr_confirm_root = [],
         hdr_state_root = Hash [], hdr_receipt_root = [], hdr_cycles_used = [], hdr_proposer = Address [],
         hdr_proof = storage_example_proof, hdr_validator_version = 0, hdr_validators = []\<rparr>,
      blk_ordered_tx_hashes = []\<rparr>"

definition storage_example_stx :: signed_transaction where
  "storage_example_stx =
     \<lparr>stx_raw = \<lparr>raw_chain_id = Hash [], raw_cycles_price = 1, raw_cycles_limit = 1, raw_nonce = Hash [],
        raw_request = \<lparr>req_method = ''m'', req_service_name = ''s'', req_payload = ''p''\<rparr>, raw_timeout = 1, raw_sender = Address []\<rparr>,
      stx_tx_hash = Hash (replicate 32 9), stx_pubkey = [], stx_signature = []\<rparr>"

definition storage_example_receipt :: receipt where
  "storage_example_receipt =
     \<lparr>rc_state_root = Hash [], rc_height = 5, rc_tx_hash = Hash (replicate 32 9), rc_cycles_used = 1, rc_events = [],
      rc_response = \<lparr>rr_service_name = ''s'', rr_method = ''m'', rr_response = \<lparr>code = 0, succeed_data = [], error_message = []\<rparr>\<rparr>\<rparr>"

definition example_codecs :: storage_codecs where
  "example_codecs =
     \<lparr>sc_stx = const_codec storage_example_stx, sc_receipt = const_codec storage_example_receipt,
      sc_block = const_codec storage_example_block, sc_header = const_codec (blk_header storage_example_block),
      sc_proof = const_codec storage_example_proof,
      sc_hash = \<lparr>encode_fixed = (\<lambda>h. Inr (hash_bytes h)), decode_fixed = (\<lambda>b. Inr (Hash b))\<rparr>,
      sc_digest = (\<lambda>b. take 32 (b @ replicate 32 0))\<rparr>"

lemma example_codecs_lawful: "keys_lawful example_codecs"
  by (simp add: keys_lawful_def example_codecs_def round_trips_def key_bytes_def LATEST_BLOCK_KEY_def LATEST_PROOF_KEY_def
      hash_digest_def str_bytes_def min_def)


lemma list_column_insert [simp]: "list_column (hm_insert c m db) d = (if d = c then m else list_column db d)"
  by (simp add: list_column_def)

lemma hm_wf_fold_modify: "hm_wf m \<Longrightarrow> hm_wf (fold modify_pair ps m)"
proof (induction ps arbitrary: m)
  case (Cons p ps)
  have "hm_wf (modify_pair p m)" using Cons.prems by (auto simp: modify_pair_def split: option.split)
  with Cons.IH show ?case by simp
qed simp

lemma list_rocks_store: "rocks_store_lawful list_rocks list_content list_valid"
  unfolding rocks_store_lawful_def
  by (auto simp: list_rocks_def list_valid_def list_content_def hm_get_fold_modify hm_wf_fold_modify fun_eq_iff)

section \<open>Theorems\<close>

text \<open>
  What is documented of the iterator over a column family: it is in key order, starts at the prefix, shows
  stored pairs, and misses no key that has the prefix.
\<close>

definition rocks_iter_lawful :: "'db rocksdb \<Rightarrow> ('db \<Rightarrow> string \<Rightarrow> bytes \<rightharpoonup> bytes) \<Rightarrow> ('db \<Rightarrow> bool) \<Rightarrow> bool" where
  "rocks_iter_lawful rk cf valid \<longleftrightarrow>
     (\<forall>db c p. valid db \<longrightarrow>
        (let kvs = rk_prefix_iterator_cf rk c p db in
         sorted (map fst kvs) \<and> distinct (map fst kvs) \<and>
         (\<forall>(k, v) \<in> set kvs. p \<le> k \<and> cf db c k = Some v) \<and>
         (\<forall>k \<in> dom (cf db c). take (length p) k = p \<longrightarrow> k \<in> fst ` set kvs)))"

lemma prefix_le: "take (length p) k = p \<Longrightarrow> p \<le> (k :: bytes)"
proof -
  assume "take (length p) k = p"
  then obtain r where "k = p @ r" by (metis append_take_drop_id)
  then show ?thesis by (induction p arbitrary: k) simp_all
qed

lemma list_rocks_iter: "rocks_iter_lawful list_rocks list_content list_valid"
proof -
  have "sorted (map fst (sort_key fst kvs))" for kvs :: "(bytes \<times> bytes) list" by simp
  moreover have "distinct (map fst (sort_key fst (filter P kvs)))" if "hm_wf kvs" for kvs :: "(bytes \<times> bytes) list" and P
    using that distinct_map_filter [of fst kvs P]
    by (metis distinct_map distinct_sort set_sort)
  ultimately show ?thesis
    by (auto simp: rocks_iter_lawful_def list_rocks_def list_valid_def list_content_def Let_def prefix_le image_iff
        dest: map_of_SomeD)
qed

text \<open>
  (C26) \<^bold>\<open>The storage is a set of finite maps.\<close> Any sequence of writes returns, over the adapter in memory and over
  any lawful database, and afterwards every read of a block, a header, a transaction or receipt by hash, the
  latest block and the latest proof gives what the same writes give on finite maps, although all of them share
  three column families, one index of heights and a copy of the latest block in memory.
\<close>

theorem storage_refines_maps:
  assumes "keys_lawful cs" "list_all (op_ok cs) ops"
  shows "(\<exists>st. res_fold (storage_step memory_adapter cs) ops (storage_new []) = Inr st \<and>
      reads_agree memory_adapter cs (fold map_step ops empty_maps) st) \<and>
    (\<forall>rk cf valid db. rocks_store_lawful rk cf valid \<and> valid db \<and> cf db = (\<lambda>_ _. None) \<longrightarrow>
      (\<exists>st. res_fold (storage_step (rocks_adapter rk) cs) ops (storage_new (db :: 'db)) = Inr st \<and>
        reads_agree (rocks_adapter rk) cs (fold map_step ops empty_maps) st))"
proof (intro conjI allI impI)
  have "memory_content [] = (\<lambda>_ _. None)" by (simp add: memory_content_def memory_category_def fun_eq_iff)
  then have "represents cs (memory_content (st_db (storage_new []))) (st_latest_block (storage_new [])) empty_maps"
    using represents_empty by (simp add: storage_new_def)
  from mem.storage_history [OF _ this assms] mem.represents_reads [OF _ _ assms(1)]
  show "\<exists>st. res_fold (storage_step memory_adapter cs) ops (storage_new []) = Inr st \<and>
      reads_agree memory_adapter cs (fold map_step ops empty_maps) st" by blast
next
  fix rk :: "'db rocksdb" and cf valid db
  assume rk: "rocks_store_lawful rk cf valid \<and> valid db \<and> cf db = (\<lambda>_ _. None)"
  then have store: "byte_store (rocks_adapter rk) (\<lambda>db c. cf db (map_category c)) valid"
    by (simp add: rocks_byte_store)
  have "represents cs (\<lambda>c. cf (st_db (storage_new db)) (map_category c)) (st_latest_block (storage_new db)) empty_maps"
    using represents_empty rk by (simp add: storage_new_def)
  moreover have "valid (st_db (storage_new db))" using rk by (simp add: storage_new_def)
  ultimately show "\<exists>st. res_fold (storage_step (rocks_adapter rk) cs) ops (storage_new db) = Inr st \<and>
      reads_agree (rocks_adapter rk) cs (fold map_step ops empty_maps) st"
    using byte_store.storage_history [OF store _ _ assms] byte_store.represents_reads [OF store _ _ assms(1)] by blast
qed

abbreviation example_ops :: "storage_op list" where
  "example_ops \<equiv> [InsertTransactions 5 [storage_example_stx], InsertReceipts 5 [storage_example_receipt],
     InsertBlock storage_example_block, UpdateLatestProof storage_example_proof]"

lemma example_ops_ok: "list_all (op_ok example_codecs) example_ops"
  by (simp add: example_codecs_def const_codec_def round_trips_def storage_example_stx_def storage_example_receipt_def)

lemma reads_agree_tx:
  "reads_agree ad cs m st \<Longrightarrow> length (hash_bytes h) = 32 \<Longrightarrow>
     get_transaction_by_hash ad cs h st = Inr (case cm_heights m h of None \<Rightarrow> None | Some n \<Rightarrow> cm_txs m (n, h))"
  by (simp add: reads_agree_def)

theorem storage_refines_maps_witness:
  "\<exists>st. res_fold (storage_step (rocks_adapter list_rocks) example_codecs) example_ops (storage_new []) = Inr st \<and>
     storage_get_block (rocks_adapter list_rocks) example_codecs 5 st = Inr (Some storage_example_block) \<and>
     get_transaction_by_hash (rocks_adapter list_rocks) example_codecs (Hash (replicate 32 9)) st = Inr (Some storage_example_stx)"
proof -
  have "rocks_store_lawful list_rocks list_content list_valid \<and> list_valid [] \<and> list_content [] = (\<lambda>_ _. None)"
    using list_rocks_store by (simp add: list_valid_def list_content_def list_column_def fun_eq_iff)
  from conjunct2 [OF storage_refines_maps [OF example_codecs_lawful example_ops_ok], THEN spec, THEN spec, THEN spec,
      THEN spec, THEN mp, OF this]
  obtain st where st: "res_fold (storage_step (rocks_adapter list_rocks) example_codecs) example_ops (storage_new []) = Inr st"
    "reads_agree (rocks_adapter list_rocks) example_codecs (fold map_step example_ops empty_maps) st" by (elim exE conjE)
  have "cm_blocks (fold map_step example_ops empty_maps) 5 = Some storage_example_block"
    "cm_heights (fold map_step example_ops empty_maps) (Hash (replicate 32 9)) = Some 5"
    "cm_txs (fold map_step example_ops empty_maps) (5, Hash (replicate 32 9)) = Some storage_example_stx"
    by (simp_all add: storage_example_block_def storage_example_stx_def storage_example_receipt_def Let_def)
  with conjunct1 [OF st(2) [unfolded reads_agree_def]] reads_agree_tx [OF st(2), of "Hash (replicate 32 9)"] st(1)
  show ?thesis by (intro exI [of _ st]) (simp del: res_fold.simps fold_simps)
qed

text \<open>
  (C27) \<^bold>\<open>A range scan finds exactly the stored transactions.\<close> After any sequence of writes, asking for any list of
  hashes at a height gives one answer per hash, in order: the stored transaction of that height or none, and
  none for every repetition of a hash.
\<close>

theorem get_transactions_spec:
  assumes "rocks_store_lawful rk cf valid" "rocks_iter_lawful rk cf valid" "valid db" "cf db = (\<lambda>_ _. None)"
    and "keys_lawful cs" "list_all (op_ok cs) ops" "list_all (\<lambda>h. length (hash_bytes h) = 32) hashes"
  shows "\<exists>st. res_fold (storage_step (rocks_adapter rk) cs) ops (storage_new db) = Inr st \<and>
    get_transactions (rocks_adapter rk) cs n hashes st =
      Inr (map (\<lambda>i. if hashes ! i \<in> set (take i hashes) then None
                     else cm_txs (fold map_step ops empty_maps) (n, hashes ! i)) [0..<length hashes])"
proof -
  have store: "byte_store (rocks_adapter rk) (\<lambda>db c. cf db (map_category c)) valid"
    using assms(1) by (rule rocks_byte_store)
  have "represents cs (\<lambda>c. cf (st_db (storage_new db)) (map_category c)) (st_latest_block (storage_new db)) empty_maps"
    "valid (st_db (storage_new db))"
    using represents_empty assms(3,4) by (simp_all add: storage_new_def)
  from byte_store.storage_history [OF store this(2,1) assms(5,6)]
  obtain st where st: "res_fold (storage_step (rocks_adapter rk) cs) ops (storage_new db) = Inr st" "valid (st_db st)"
    and rep: "represents cs (\<lambda>c. cf (st_db st) (map_category c)) (st_latest_block st) (fold map_step ops empty_maps)" by blast
  let ?c = "map_category CSignedTransaction"
  let ?kvs = "rk_prefix_iterator_cf rk ?c (to_be_bytes n) (st_db st)"
  have "let kvs = ?kvs in sorted (map fst kvs) \<and> distinct (map fst kvs) \<and>
      (\<forall>(k, v) \<in> set kvs. to_be_bytes n \<le> k \<and> cf (st_db st) ?c k = Some v) \<and>
      (\<forall>k \<in> dom (cf (st_db st) ?c). take (length (to_be_bytes n)) k = to_be_bytes n \<longrightarrow> k \<in> fst ` set kvs)"
    using assms(2) st(2) unfolding rocks_iter_lawful_def by blast
  then have it: "sorted (map fst ?kvs)" "distinct (map fst ?kvs)"
    "\<And>k v. (k, v) \<in> set ?kvs \<Longrightarrow> to_be_bytes n \<le> k \<and> cf (st_db st) ?c k = Some v"
    "\<And>k. k \<in> dom (cf (st_db st) ?c) \<Longrightarrow> take 8 k = to_be_bytes n \<Longrightarrow> k \<in> fst ` set ?kvs"
    unfolding Let_def length_to_be_bytes by blast+
  have rep': "dom (cf (st_db st) ?c) \<subseteq> hash_key ` hash_keys"
    "maps_to hash_key (key_bytes (sc_stx cs)) hash_keys (cf (st_db st) ?c) (cm_txs (fold map_step ops empty_maps))"
    "vals_ok (sc_stx cs) (cm_txs (fold map_step ops empty_maps))"
    using rep by (simp_all add: represents_def)
  have iter: "sa_prepare_iter (rocks_adapter rk) CSignedTransaction (to_be_bytes n) (st_db st) = Inr ?kvs"
    using assms(1) st(2) by (simp add: rocks_adapter_def rocks_prepare_iter_def get_column_def rocks_store_lawful_def)
  have "get_by_scan (rocks_adapter rk) CSignedTransaction (sc_stx cs) n hashes st =
      Inr (map (\<lambda>i. if hashes ! i \<in> set (take i hashes) then None
                     else cm_txs (fold map_step ops empty_maps) (n, hashes ! i)) [0..<length hashes])"
    by (rule get_by_scan_spec [OF iter it rep' assms(7)])
  with st(1) show ?thesis by (auto simp: get_transactions_def)
qed

theorem get_transactions_spec_witness:
  "\<exists>st. res_fold (storage_step (rocks_adapter list_rocks) example_codecs) example_ops (storage_new []) = Inr st \<and>
     get_transactions (rocks_adapter list_rocks) example_codecs 5 [Hash (replicate 32 9), Hash (replicate 32 8), Hash (replicate 32 9)] st =
       Inr [Some storage_example_stx, None, None]"
proof -
  have "list_valid []" "list_content [] = (\<lambda>_ _. None)"
    by (simp_all add: list_valid_def list_content_def list_column_def fun_eq_iff)
  from get_transactions_spec [OF list_rocks_store list_rocks_iter this example_codecs_lawful example_ops_ok,
      of "[Hash (replicate 32 9), Hash (replicate 32 8), Hash (replicate 32 9)]" 5]
  show ?thesis
    by (simp add: upt_rec storage_example_block_def storage_example_stx_def storage_example_receipt_def empty_maps_def Let_def
        numeral_eq_Suc)
qed

text \<open>
  \<^bold>\<open>A removed block keeps its header.\<close> After a block is stored and removed, it cannot be read, but its header
  is still returned: only the entry of the block is removed.
\<close>

theorem remove_block_keeps_header:
  assumes "keys_lawful cs" "round_trips (sc_block cs) b" "round_trips (sc_header cs) (blk_header b)"
  shows "\<exists>st. res_fold (storage_step memory_adapter cs) [InsertBlock b, RemoveBlock (hdr_height (blk_header b))] (storage_new []) = Inr st \<and>
    storage_get_block memory_adapter cs (hdr_height (blk_header b)) st = Inr None \<and>
    get_block_header memory_adapter cs (hdr_height (blk_header b)) st = Inr (Some (blk_header b))"
proof -
  let ?ops = "[InsertBlock b, RemoveBlock (hdr_height (blk_header b))]"
  have "memory_content [] = (\<lambda>_ _. None)" by (simp add: memory_content_def memory_category_def fun_eq_iff)
  then have "represents cs (memory_content (st_db (storage_new []))) (st_latest_block (storage_new [])) empty_maps"
    using represents_empty by (simp add: storage_new_def)
  from mem.storage_history [OF _ this assms(1), of ?ops] mem.represents_reads [OF _ _ assms(1)] assms(2,3)
  obtain st where "res_fold (storage_step memory_adapter cs) ?ops (storage_new []) = Inr st"
    "reads_agree memory_adapter cs (fold map_step ?ops empty_maps) st" by fastforce
  then show ?thesis by (intro exI [of _ st]) (simp add: reads_agree_def Let_def)
qed

theorem remove_block_keeps_header_witness:
  "\<exists>st. storage_get_block memory_adapter example_codecs 5 st = Inr None \<and>
     get_block_header memory_adapter example_codecs 5 st = Inr (Some (blk_header storage_example_block))"
proof -
  have "round_trips (sc_block example_codecs) storage_example_block"
    "round_trips (sc_header example_codecs) (blk_header storage_example_block)"
    by (simp_all add: example_codecs_def const_codec_def round_trips_def)
  from remove_block_keeps_header [OF example_codecs_lawful this] show ?thesis
    by (auto simp: storage_example_block_def)
qed

end
