(* ===== verification/Service_SDK.thy ===== *)
theory Service_SDK
  imports Service_Macro Store_Map Store_Array Storage
begin

text \<open>
  What a service may do: the SDK of \<^verbatim>\<open>framework/src/binding/sdk\<close> over the state of its own name, the
  queries of \<^verbatim>\<open>chain_querier.rs\<close> over the block storage, and the methods of its context. An error of
  the state or the storage panics.

  The relations \<^verbatim>\<open>sdk_step\<close> and \<^verbatim>\<open>ctx_step\<close> are the single steps these interfaces allow: the fields
  behind them are private, so a service reaches nothing else. The lemmas show what every sequence of
  such steps keeps.
\<close>

section \<open>The factory and the SDK\<close>

datatype sdk_error = SdkNotFoundService string

text \<open>A handle to the state of a service is its name.\<close>

definition get_sdk :: "('t, 'm) world \<Rightarrow> string \<Rightarrow> (sdk_error, string) result" where
  "get_sdk w name =
     (case hm_get (wd_states w) name of
        None \<Rightarrow> Inl (Err (SdkNotFoundService name))
      | Some _ \<Rightarrow> Inr name)"

definition sdk_read ::
    "('t general_service_state \<Rightarrow> (state_error, 'a) result) \<Rightarrow> string \<Rightarrow> (('t, 'm) world, 'a) svc_run" where
  "sdk_read f name w =
     (case hm_get (wd_states w) name of
        None \<Rightarrow> (None, w)
      | Some s \<Rightarrow> (case f s of Inl _ \<Rightarrow> (None, w) | Inr a \<Rightarrow> (Some a, w)))"

definition sdk_write ::
    "('t general_service_state \<Rightarrow> (state_error, 't general_service_state) result) \<Rightarrow> string
     \<Rightarrow> (('t, 'm) world, unit) svc_run" where
  "sdk_write f name w =
     (case hm_get (wd_states w) name of
        None \<Rightarrow> (None, w)
      | Some s \<Rightarrow>
          (case f s of
             Inl _ \<Rightarrow> (None, w)
           | Inr s' \<Rightarrow> (Some (), w\<lparr>wd_states := hm_insert name s' (wd_states w)\<rparr>)))"

definition alloc_or_recover_map ::
    "('k, 'v) map_env \<Rightarrow> 't trie_ops \<Rightarrow> string \<Rightarrow> string \<Rightarrow> (('t, 'm) world, 'k store_map) svc_run" where
  "alloc_or_recover_map env ops var_name =
     sdk_read (\<lambda>s. store_map_new env (get_bytes_value ops) s var_name)"

definition alloc_or_recover_array ::
    "'e array_env \<Rightarrow> 't trie_ops \<Rightarrow> string \<Rightarrow> string \<Rightarrow> (('t, 'm) world, store_array) svc_run" where
  "alloc_or_recover_array env ops var_name =
     sdk_read (\<lambda>s. store_array_new env (get_bytes_value ops) s var_name)"

definition alloc_or_recover_uint64 :: "(bytes \<Rightarrow> bytes) \<Rightarrow> string \<Rightarrow> hash" where
  "alloc_or_recover_uint64 digest var_name = store_uint64_new digest var_name"

definition alloc_or_recover_string :: "(bytes \<Rightarrow> bytes) \<Rightarrow> string \<Rightarrow> hash" where
  "alloc_or_recover_string digest var_name = store_string_new digest var_name"

definition alloc_or_recover_bool :: "(bytes \<Rightarrow> bytes) \<Rightarrow> string \<Rightarrow> hash" where
  "alloc_or_recover_bool digest var_name = store_bool_new digest var_name"

definition sdk_get_value ::
    "'t trie_ops \<Rightarrow> 'k codec \<Rightarrow> 'v codec \<Rightarrow> 'k \<Rightarrow> string \<Rightarrow> (('t, 'm) world, 'v option) svc_run" where
  "sdk_get_value ops kc vc key = sdk_read (\<lambda>s. state_get (get_bytes_value ops) kc vc s key)"

definition sdk_set_value ::
    "'k codec \<Rightarrow> 'v codec \<Rightarrow> 'k \<Rightarrow> 'v \<Rightarrow> string \<Rightarrow> (('t, 'm) world, unit) svc_run" where
  "sdk_set_value kc vc key val = sdk_write (state_insert insert_bytes kc vc key val)"

definition sdk_get_account_value ::
    "'t trie_ops \<Rightarrow> (bytes \<Rightarrow> bytes) \<Rightarrow> hash codec \<Rightarrow> 'k codec \<Rightarrow> 'v codec \<Rightarrow> address \<Rightarrow> 'k \<Rightarrow> string
     \<Rightarrow> (('t, 'm) world, 'v option) svc_run" where
  "sdk_get_account_value ops digest hc kc vc a key =
     sdk_read (\<lambda>s. state_get_account_value (get_bytes_value ops) digest hc kc vc s a key)"

definition sdk_set_account_value ::
    "(bytes \<Rightarrow> bytes) \<Rightarrow> hash codec \<Rightarrow> 'k codec \<Rightarrow> 'v codec \<Rightarrow> address \<Rightarrow> 'k \<Rightarrow> 'v \<Rightarrow> string
     \<Rightarrow> (('t, 'm) world, unit) svc_run" where
  "sdk_set_account_value digest hc kc vc a key val =
     sdk_write (state_set_account_value insert_bytes digest hc kc vc a key val)"

section \<open>Queries of the chain\<close>

datatype chain_query_error = AsyncStorage

definition query_err :: "(storage_error, 'a) result \<Rightarrow> (chain_query_error, 'a) result" where
  "query_err r =
     (case r of Inl (Err _) \<Rightarrow> Inl (Err AsyncStorage) | Inl Panic \<Rightarrow> Inl Panic | Inr a \<Rightarrow> Inr a)"

definition query_transaction_by_hash ::
    "'db storage_adapter \<Rightarrow> storage_codecs \<Rightarrow> 'db storage \<Rightarrow> hash
     \<Rightarrow> (chain_query_error, signed_transaction option) result" where
  "query_transaction_by_hash ad cs st tx_hash = query_err (get_transaction_by_hash ad cs tx_hash st)"

definition query_block_by_height ::
    "'db storage_adapter \<Rightarrow> storage_codecs \<Rightarrow> 'db storage \<Rightarrow> u64 option
     \<Rightarrow> (chain_query_error, block option) result" where
  "query_block_by_height ad cs st height =
     (case height of
        Some u \<Rightarrow> query_err (storage_get_block ad cs u st)
      | None \<Rightarrow> res_map Some (query_err (get_latest_block ad cs st)))"

definition query_receipt_by_hash ::
    "'db storage_adapter \<Rightarrow> storage_codecs \<Rightarrow> 'db storage \<Rightarrow> hash
     \<Rightarrow> (chain_query_error, receipt option) result" where
  "query_receipt_by_hash ad cs st tx_hash = query_err (get_receipt_by_hash ad cs tx_hash st)"

definition sdk_query :: "(chain_query_error, 'a) result \<Rightarrow> ('w, 'a) svc_run" where
  "sdk_query r w = (case r of Inl _ \<Rightarrow> (None, w) | Inr a \<Rightarrow> (Some a, w))"

definition sdk_get_transaction_by_hash ::
    "'db storage_adapter \<Rightarrow> storage_codecs \<Rightarrow> 'db storage \<Rightarrow> hash \<Rightarrow> ('w, signed_transaction option) svc_run" where
  "sdk_get_transaction_by_hash ad cs st tx_hash = sdk_query (query_transaction_by_hash ad cs st tx_hash)"

definition sdk_get_block_by_height ::
    "'db storage_adapter \<Rightarrow> storage_codecs \<Rightarrow> 'db storage \<Rightarrow> u64 option \<Rightarrow> ('w, block option) svc_run" where
  "sdk_get_block_by_height ad cs st height = sdk_query (query_block_by_height ad cs st height)"

definition sdk_get_receipt_by_hash ::
    "'db storage_adapter \<Rightarrow> storage_codecs \<Rightarrow> 'db storage \<Rightarrow> hash \<Rightarrow> ('w, receipt option) svc_run" where
  "sdk_get_receipt_by_hash ad cs st tx_hash = sdk_query (query_receipt_by_hash ad cs st tx_hash)"

section \<open>What a service can reach\<close>

text \<open>One access: an insertion into the cache of one state, or a change of the service's own memory.\<close>

inductive sdk_step :: "('t, 'm) world \<Rightarrow> ('t, 'm) world \<Rightarrow> bool" where
  sdk_insert:
    "hm_get (wd_states w) name = Some s \<Longrightarrow>
     sdk_step w (w\<lparr>wd_states := hm_insert name (insert_bytes k v s) (wd_states w)\<rparr>)"
| sdk_memory: "sdk_step w (w\<lparr>wd_mem := m\<rparr>)"

inductive ctx_step :: "service_context \<Rightarrow> service_context \<Rightarrow> bool" where
  ctx_cycles: "ctx_step ctx (snd (sub_cycles ctx n))"
| ctx_emit: "ctx_step ctx (emit_event ctx service name message)"
| ctx_cancel: "ctx_step ctx (cancel ctx reason)"

abbreviation sdk_reach :: "('t, 'm) world \<Rightarrow> ('t, 'm) world \<Rightarrow> bool" where
  "sdk_reach \<equiv> sdk_step\<^sup>*\<^sup>*"

abbreviation ctx_reach :: "service_context \<Rightarrow> service_context \<Rightarrow> bool" where
  "ctx_reach \<equiv> ctx_step\<^sup>*\<^sup>*"

text \<open>
  A service whose operations use nothing but these interfaces, on every path, panics included.
\<close>

definition run_lawful :: "(('t, 'm) world, 'a) svc_run \<Rightarrow> bool" where
  "run_lawful f \<longleftrightarrow> (\<forall>w. sdk_reach w (snd (f w)))"

definition call_lawful :: "(('t, 'm) world, 'a) svc_call \<Rightarrow> bool" where
  "call_lawful f \<longleftrightarrow>
     (\<forall>ctx w. ctx_reach ctx (fst (snd (f ctx w))) \<and> sdk_reach w (snd (snd (f ctx w))))"

definition service_lawful :: "('t, 'm) world service \<Rightarrow> bool" where
  "service_lawful svc \<longleftrightarrow>
     (\<forall>payload. run_lawful (svc_genesis svc payload)) \<and>
     (\<forall>params. run_lawful (svc_hook_before svc params) \<and> run_lawful (svc_hook_after svc params)) \<and>
     call_lawful (svc_tx_hook_before svc) \<and> call_lawful (svc_tx_hook_after svc) \<and>
     call_lawful (svc_write svc) \<and> call_lawful (svc_read svc)"

text \<open>The SDK takes such steps.\<close>

lemma sdk_read_lawful: "run_lawful (sdk_read f name)"
  by (simp add: run_lawful_def sdk_read_def split: option.split sum.split)

lemma sdk_write_lawful:
  assumes "\<And>s s'. f s = Inr s' \<Longrightarrow> \<exists>k v. s' = insert_bytes k v s"
  shows "run_lawful (sdk_write f name)"
  unfolding run_lawful_def sdk_write_def
  by (auto split: option.split sum.split dest!: assms intro!: sdk_insert)

lemma sdk_query_lawful: "run_lawful (sdk_query r)"
  by (simp add: run_lawful_def sdk_query_def split: sum.split)

lemma sdk_lawful:
  "run_lawful (alloc_or_recover_map env ops v name)"
  "run_lawful (alloc_or_recover_array env' ops v name)"
  "run_lawful (sdk_get_value ops kc vc key name)"
  "run_lawful (sdk_set_value kc vc key val name)"
  "run_lawful (sdk_get_account_value ops digest hc kc vc a key name)"
  "run_lawful (sdk_set_account_value digest hc kc vc a key val name)"
  by (auto intro!: sdk_read_lawful sdk_write_lawful simp: alloc_or_recover_map_def
      alloc_or_recover_array_def sdk_get_value_def sdk_set_value_def sdk_get_account_value_def
      sdk_set_account_value_def state_insert_def state_set_account_value_def res_bind_Inr_iff)
    blast+

lemma sdk_queries_lawful:
  "run_lawful (sdk_get_transaction_by_hash ad cs st h)"
  "run_lawful (sdk_get_block_by_height ad cs st ht)"
  "run_lawful (sdk_get_receipt_by_hash ad cs st h)"
  by (simp_all add: sdk_get_transaction_by_hash_def sdk_get_block_by_height_def
      sdk_get_receipt_by_hash_def sdk_query_lawful)

section \<open>What every sequence of steps keeps\<close>

text \<open>The states without their caches: what the transactions before this one have left.\<close>

definition block_states :: "'t service_states \<Rightarrow> 't service_states" where
  "block_states ss = map (\<lambda>(n, s). (n, Service_State.revert_cache s)) ss"

definition states_wf :: "'t service_states \<Rightarrow> bool" where
  "states_wf ss \<longleftrightarrow> (\<forall>(n, s) \<in> set ss. gs_wf s)"

lemma revert_insert [simp]:
  "Service_State.revert_cache (insert_bytes k v s) = Service_State.revert_cache s"
  by (simp add: revert_cache_def insert_bytes_def)

lemma block_states_update:
  "hm_get ss name = Some s \<Longrightarrow> Service_State.revert_cache s' = Service_State.revert_cache s \<Longrightarrow>
   block_states (hm_insert name s' ss) = block_states ss"
  by (induction ss) (auto simp: block_states_def split: if_splits)

lemma states_wf_update:
  "states_wf ss \<Longrightarrow> gs_wf s' \<Longrightarrow> states_wf (hm_insert name s' ss)"
  by (induction ss) (auto simp: states_wf_def split: if_splits)

lemma states_wf_get: "states_wf ss \<Longrightarrow> hm_get ss name = Some s \<Longrightarrow> gs_wf s"
  by (auto simp: states_wf_def dest!: map_of_SomeD)

lemma block_states_names [simp]: "map fst (block_states ss) = map fst ss"
  by (simp add: block_states_def comp_def case_prod_beta)

lemma sdk_reach_keeps:
  assumes "sdk_reach w w'"
  shows "block_states (wd_states w') = block_states (wd_states w) \<and>
    (states_wf (wd_states w) \<longrightarrow> states_wf (wd_states w'))"
  using assms
proof (induction rule: rtranclp_induct)
  case (step w1 w2)
  from step(2) have "block_states (wd_states w2) = block_states (wd_states w1) \<and>
      (states_wf (wd_states w1) \<longrightarrow> states_wf (wd_states w2))"
    by cases (auto simp: block_states_update intro!: states_wf_update gs_wf_ops(2) elim: states_wf_get)
  with step(3) show ?case by simp
qed simp

text \<open>
  A context keeps its call, spends cycles only up to its limit, even where the addition in
  \<^verbatim>\<open>sub_cycles\<close> wraps around, and only gains events.
\<close>

definition ctx_call :: "service_context \<Rightarrow> service_context" where
  "ctx_call ctx = ctx\<lparr>ctx_cycles_used := 0, ctx_events := [], ctx_canceled := None\<rparr>"

lemma ctx_call_simps [simp]:
  "ctx_call (ctx\<lparr>ctx_cycles_used := c\<rparr>) = ctx_call ctx"
  "ctx_call (ctx\<lparr>ctx_events := e\<rparr>) = ctx_call ctx"
  "ctx_call (ctx\<lparr>ctx_canceled := r\<rparr>) = ctx_call ctx"
  by (simp_all add: ctx_call_def)

lemma ctx_callD:
  assumes "ctx_call c = ctx_call c'"
  shows "ctx_tx_hash c = ctx_tx_hash c'" "ctx_cycles_limit c = ctx_cycles_limit c'"
    "ctx_height c = ctx_height c'" "ctx_service_name c = ctx_service_name c'"
    "ctx_service_method c = ctx_service_method c'"
  using arg_cong [OF assms, of ctx_tx_hash] arg_cong [OF assms, of ctx_cycles_limit]
    arg_cong [OF assms, of ctx_height] arg_cong [OF assms, of ctx_service_name]
    arg_cong [OF assms, of ctx_service_method]
  by (simp_all add: ctx_call_def)

lemma ctx_reach_keeps:
  assumes "ctx_reach c c'"
  shows "ctx_call c' = ctx_call c \<and> (\<exists>es. ctx_events c' = ctx_events c @ es) \<and>
    (ctx_cycles_used c \<le> ctx_cycles_limit c \<longrightarrow> ctx_cycles_used c' \<le> ctx_cycles_limit c')"
  using assms
proof (induction rule: rtranclp_induct)
  case (step c1 c2)
  from step(2) have "ctx_call c2 = ctx_call c1 \<and> (\<exists>es. ctx_events c2 = ctx_events c1 @ es) \<and>
    (ctx_cycles_used c1 \<le> ctx_cycles_limit c1 \<longrightarrow> ctx_cycles_used c2 \<le> ctx_cycles_limit c2)"
    by cases (auto simp: sub_cycles_def emit_event_def cancel_def)
  with step(3) show ?case by auto
qed simp

section \<open>Generated services\<close>

text \<open>A service generated from methods that use only these interfaces is lawful.\<close>

definition item_lawful :: "('p, 'r, ('t, 'm) world) impl_item_method \<Rightarrow> bool" where
  "item_lawful i \<longleftrightarrow>
     (\<forall>p. call_lawful (im_method i p) \<and> run_lawful (im_genesis i p)) \<and> (\<forall>params. run_lawful (im_hook i params))"

lemma call_lawful_answer: "call_lawful (\<lambda>ctx w. (f ctx w, ctx, w))"
  by (simp add: call_lawful_def)

lemma run_lawful_answer: "run_lawful (\<lambda>w. (f w, w))"
  by (simp add: run_lawful_def)

lemma snd_encode_response [simp]: "snd (encode_response sj out) = snd out"
  by (auto simp: encode_response_def split: prod.split option.split)

lemma encode_response_lawful: "call_lawful f \<Longrightarrow> call_lawful (\<lambda>ctx w. encode_response sj (f ctx w))"
  by (simp add: call_lawful_def)

lemma dispatch_lawful:
  assumes "\<forall>m \<in> set metas. item_lawful (mm_method m)"
  shows "call_lawful (dispatch sj metas r)"
proof -
  have "item_lawful i" if "map_of (split_list_for_metadata metas r) n = Some (i, p)" for n i p
    using map_of_SomeD [OF that] assms by (auto simp: split_list_for_metadata_def)
  moreover have "item_lawful i" if "map_of (split_list_for_metadata_nonepayload metas r) n = Some i" for n i
    using map_of_SomeD [OF that] assms by (auto simp: split_list_for_metadata_nonepayload_def)
  ultimately show ?thesis
    unfolding call_lawful_def dispatch_def
    by (simp add: item_lawful_def call_lawful_def split: option.split)
qed

lemma unique_method_in: "unique_method name items = Inr (Some i) \<Longrightarrow> i \<in> set items"
proof -
  assume a: "unique_method name items = Inr (Some i)"
  let ?l = "concat (map (\<lambda>i. map (\<lambda>_. i) (filter (\<lambda>s. s = name) (attr_segments i))) items)"
  have "?l = [i]" using a by (auto simp: unique_method_def split: list.splits)
  then have "i \<in> set ?l" by simp
  then show ?thesis by auto
qed

lemma hook_body_lawful: "(\<And>i. h = Some i \<Longrightarrow> item_lawful i) \<Longrightarrow> run_lawful (hook_body h params)"
  by (cases h) (simp_all add: hook_body_def [abs_def] run_lawful_def item_lawful_def)

lemma tx_hook_body_lawful: "(\<And>i. h = Some i \<Longrightarrow> item_lawful i) \<Longrightarrow> call_lawful (tx_hook_body sj h)"
  by (cases h)
    (simp_all add: tx_hook_body_def [abs_def] call_lawful_answer encode_response_lawful item_lawful_def)

lemma genesis_body_lawful:
  assumes "get_genesis_body sj h = Inr f" "\<And>i. h = Some i \<Longrightarrow> item_lawful i"
  shows "run_lawful (f payload)"
  using assms
  by (cases h) (auto simp: get_genesis_body_def item_lawful_def run_lawful_def res_bind_Inr_iff
      split: if_splits option.split)

lemma generated_lawful:
  assumes gen: "gen_service_code sj items = Inr svc" and items: "\<forall>i \<in> set items. item_lawful i"
  shows "service_lawful svc"
proof -
  from gen obtain g gb h metas where
    g: "unique_method ''genesis'' items = Inr g" "get_genesis_body sj g = Inr gb" and
    h: "extract_hooks items = Inr h" and
    m: "res_collect extract_method_meta (List.map_filter find_service_method items) = Inr metas" and
    svc: "svc = \<lparr>svc_genesis = gb, svc_hook_before = hook_body (hk_before h),
      svc_hook_after = hook_body (hk_after h), svc_tx_hook_before = tx_hook_body sj (hk_tx_before h),
      svc_tx_hook_after = tx_hook_body sj (hk_tx_after h), svc_write = dispatch sj metas False,
      svc_read = dispatch sj metas True\<rparr>"
    unfolding gen_service_code_def find_genesis_def res_bind_Inr_iff by auto
  have uniq: "item_lawful i" if "unique_method n items = Inr (Some i)" for n i
    using unique_method_in [OF that] items by blast
  have hooks: "item_lawful i" if "hk_before h = Some i \<or> hk_after h = Some i \<or> hk_tx_before h = Some i \<or> hk_tx_after h = Some i" for i
    using h that uniq unfolding extract_hooks_def res_bind_Inr_iff by auto
  have "(mm_method mt, mm_readonly mt) \<in> set (List.map_filter (\<lambda>i. map_option (Pair i) (method_kind i)) items)"
    if "mt \<in> set metas" for mt
    using that conjunct1 [OF method_metas [OF m], symmetric] by auto
  then have "\<forall>mt \<in> set metas. item_lawful (mm_method mt)"
    using items by (force simp: map_filter_def)
  from dispatch_lawful [OF this] show ?thesis
    unfolding service_lawful_def svc
    using hooks by (auto intro!: hook_body_lawful tx_hook_body_lawful genesis_body_lawful [OF g(2)]
        intro: uniq [of "''genesis''"] simp: g(1))
qed

end
