(* ===== verification/Executor.thy ===== *)
theory Executor
  imports Service_SDK
begin

text \<open>
  The executor of \<^verbatim>\<open>framework/src/executor\<close>: it opens the states of all services from one root, runs
  the hooks and the transactions of a block, each transaction on the caches of the states, and commits
  the states and then their roots.

  The services and their constructors (trait \<^verbatim>\<open>ServiceMapping\<close>) are an argument; that a service acts
  through its SDK and its context only is \<^const>\<open>service_lawful\<close>. A panic that \<^verbatim>\<open>catch_unwind\<close> stops is
  the value \<^const>\<open>None\<close> of a service call. A failed commit leaves the executor unchanged in the model;
  the code leaves a partly drained stash behind, and every caller drops the executor then.
\<close>

section \<open>Definitions\<close>

datatype executor_error =
    NotFoundService string
  | InitService
  | QueryService
  | CallService
  | TxHook
  | ExecState state_error
  | MappingError string

definition state_err :: "(state_error, 'a) result \<Rightarrow> (executor_error, 'a) result" where
  "state_err r =
     (case r of Inl (Err e) \<Rightarrow> Inl (Err (ExecState e)) | Inl Panic \<Rightarrow> Inl Panic | Inr a \<Rightarrow> Inr a)"

definition SERVICE_NOT_FOUND_CODE :: u64 where "SERVICE_NOT_FOUND_CODE = 62077"

datatype hook_type = HookBefore | HookAfter

datatype exec_type = ExecRead | ExecWrite

record 't exec_env =
  ee_ops :: "'t trie_ops"
  ee_digest :: "bytes \<Rightarrow> bytes"
  ee_hash :: "hash codec"

text \<open>The trait \<^verbatim>\<open>ServiceMapping\<close>: the constructor of a service reads its state through the SDK.\<close>

record ('t, 'm) service_mapping =
  list_service_name :: "string list"
  mapping_get_service ::
    "string \<Rightarrow> ('t, 'm) world \<Rightarrow> (executor_error, ('t, 'm) world service) result \<times> ('t, 'm) world"

record ('t, 'm) executor =
  ex_mapping :: "('t, 'm) service_mapping"
  ex_world :: "('t, 'm) world"
  ex_root_state :: "'t general_service_state"
  ex_services :: "(string, ('t, 'm) world service) hash_map"

record service_param =
  sp_name :: string
  sp_payload :: string

subsection \<open>The state map\<close>

definition states_stash :: "('t, 'm) world \<Rightarrow> ('t, 'm) world" where
  "states_stash w = w\<lparr>wd_states := map (\<lambda>(n, s). (n, stash s)) (wd_states w)\<rparr>"

definition states_revert_cache :: "('t, 'm) world \<Rightarrow> ('t, 'm) world" where
  "states_revert_cache w = w\<lparr>wd_states := map (\<lambda>(n, s). (n, Service_State.revert_cache s)) (wd_states w)\<rparr>"

subsection \<open>Hooks of a transaction\<close>

datatype ('t, 'm) tx_hooks = NoHooks | CommitHooks "('t, 'm) world service list"

definition kan ::
    "(('t, 'm) world, string) svc_call \<Rightarrow> service_context \<Rightarrow> ('t, 'm) world
     \<Rightarrow> (executor_error, string service_response) result \<times> service_context \<times> ('t, 'm) world" where
  "kan hook ctx w =
     (case hook ctx w of
        (Some res, ctx, w) \<Rightarrow> (Inr res, ctx, states_stash w)
      | (None, ctx, w) \<Rightarrow> (Inl (Err TxHook), ctx, states_revert_cache w))"

fun kan_all ::
    "(('t, 'm) world, string) svc_call list \<Rightarrow> service_context \<Rightarrow> ('t, 'm) world
     \<Rightarrow> (executor_error, string service_response list) result \<times> service_context \<times> ('t, 'm) world" where
  "kan_all [] ctx w = (Inr [], ctx, w)"
| "kan_all (h # hs) ctx w =
     (case kan h ctx w of
        (Inl e, ctx, w) \<Rightarrow> (Inl e, ctx, w)
      | (Inr resp, ctx, w) \<Rightarrow>
          (case kan_all hs ctx w of
             (Inl e, ctx, w) \<Rightarrow> (Inl e, ctx, w)
           | (Inr resps, ctx, w) \<Rightarrow> (Inr (resp # resps), ctx, w)))"

definition tx_hooks_before ::
    "('t, 'm) tx_hooks \<Rightarrow> service_context \<Rightarrow> ('t, 'm) world
     \<Rightarrow> (executor_error, string service_response list) result \<times> service_context \<times> ('t, 'm) world" where
  "tx_hooks_before hooks ctx w =
     (case hooks of
        NoHooks \<Rightarrow> (Inr [from_succeed ''default_implement''], ctx, w)
      | CommitHooks svcs \<Rightarrow> kan_all (map svc_tx_hook_before svcs) ctx w)"

definition tx_hooks_after ::
    "('t, 'm) tx_hooks \<Rightarrow> service_context \<Rightarrow> ('t, 'm) world
     \<Rightarrow> (executor_error, string service_response list) result \<times> service_context \<times> ('t, 'm) world" where
  "tx_hooks_after hooks ctx w =
     (case hooks of
        NoHooks \<Rightarrow> (Inr [from_succeed ''default_implement''], ctx, w)
      | CommitHooks svcs \<Rightarrow> kan_all (map svc_tx_hook_after svcs) ctx w)"

subsection \<open>Opening the executor\<close>

fun genesis_services ::
    "('t, 'm) service_mapping \<Rightarrow> service_param list \<Rightarrow> ('t, 'm) world
     \<Rightarrow> (executor_error, ('t, 'm) world) result" where
  "genesis_services mapping [] w = Inr w"
| "genesis_services mapping (params # services) w =
     (case hm_get (wd_states w) (sp_name params) of
        None \<Rightarrow> Inl (Err (NotFoundService (sp_name params)))
      | Some _ \<Rightarrow>
          (case mapping_get_service mapping (sp_name params) w of
             (Inl e, w) \<Rightarrow> Inl e
           | (Inr svc, w) \<Rightarrow>
               (case svc_genesis svc (sp_payload params) w of
                  (None, w) \<Rightarrow> Inl (Err InitService)
                | (Some _, w) \<Rightarrow>
                    genesis_services mapping services
                      (w\<lparr>wd_states := map (\<lambda>(n, s). (n, if n = sp_name params then stash s else s)) (wd_states w)\<rparr>))))"

fun commit_all ::
    "'t exec_env \<Rightarrow> 't service_states \<Rightarrow> 't general_service_state
     \<Rightarrow> (executor_error, 't service_states \<times> 't general_service_state) result" where
  "commit_all env [] root_state = Inr ([], root_state)"
| "commit_all env ((name, s) # ss) root_state =
     res_bind (state_err (commit (ee_ops env) s)) (\<lambda>(root, s').
     res_bind (state_err (state_insert insert_bytes string_codec (ee_hash env) name root root_state)) (\<lambda>root_state.
     res_bind (commit_all env ss root_state) (\<lambda>(ss', root_state). Inr ((name, s') # ss', root_state))))"

definition commit_root ::
    "'t exec_env \<Rightarrow> 't service_states \<Rightarrow> 't general_service_state
     \<Rightarrow> (executor_error, hash \<times> 't service_states \<times> 't general_service_state) result" where
  "commit_root env ss root_state =
     res_bind (commit_all env ss root_state) (\<lambda>(ss', root_state).
     res_bind (state_err (commit (ee_ops env) (stash root_state))) (\<lambda>(root, root_state).
     Inr (root, ss', root_state)))"

definition create_genesis ::
    "'t exec_env \<Rightarrow> 'm \<Rightarrow> ('t, 'm) service_mapping \<Rightarrow> service_param list \<Rightarrow> (executor_error, hash) result" where
  "create_genesis env mem mapping services =
     (let new_state = gs_new (mpt_new (ee_ops env) (ee_digest env));
          states = fold (\<lambda>name ss. hm_insert name new_state ss) (list_service_name mapping) []
      in res_bind (genesis_services mapping services \<lparr>wd_states = states, wd_mem = mem\<rparr>) (\<lambda>w.
         res_bind (commit_root env (wd_states w) new_state) (\<lambda>(root, _). Inr root)))"

fun open_states ::
    "'t exec_env \<Rightarrow> 't general_service_state \<Rightarrow> string list \<Rightarrow> 't service_states
     \<Rightarrow> (executor_error, 't service_states) result" where
  "open_states env root_state [] ss = Inr ss"
| "open_states env root_state (name # names) ss =
     res_bind (state_err (state_get (get_bytes_value (ee_ops env)) string_codec (ee_hash env) root_state name)) (\<lambda>r.
     res_bind
       (case r of
          Some service_root \<Rightarrow> state_err (mpt_from (ee_ops env) service_root)
        | None \<Rightarrow> Inr (mpt_new (ee_ops env) (ee_digest env))) (\<lambda>trie.
     open_states env root_state names (hm_insert name (gs_new trie) ss)))"

fun open_services ::
    "('t, 'm) service_mapping \<Rightarrow> string list \<Rightarrow> (string, ('t, 'm) world service) hash_map \<Rightarrow> ('t, 'm) world
     \<Rightarrow> (executor_error, (string, ('t, 'm) world service) hash_map) result \<times> ('t, 'm) world" where
  "open_services mapping [] svcs w = (Inr svcs, w)"
| "open_services mapping (name # names) svcs w =
     (case mapping_get_service mapping name w of
        (Inl e, w) \<Rightarrow> (Inl e, w)
      | (Inr svc, w) \<Rightarrow> open_services mapping names (hm_insert name svc svcs) w)"

definition with_root ::
    "'t exec_env \<Rightarrow> 'm \<Rightarrow> hash \<Rightarrow> ('t, 'm) service_mapping \<Rightarrow> (executor_error, ('t, 'm) executor) result" where
  "with_root env mem root mapping =
     res_bind (state_err (mpt_from (ee_ops env) root)) (\<lambda>trie.
     let root_state = gs_new trie; names = list_service_name mapping in
     res_bind (open_states env root_state names []) (\<lambda>states.
     (case open_services mapping names [] \<lparr>wd_states = states, wd_mem = mem\<rparr> of
        (Inl e, _) \<Rightarrow> Inl e
      | (Inr svcs, w) \<Rightarrow>
          Inr \<lparr>ex_mapping = mapping, ex_world = w, ex_root_state = root_state, ex_services = svcs\<rparr>)))"

text \<open>\<^verbatim>\<open>ServiceExecutorFactory::from_root\<close>.\<close>

definition from_root ::
    "'t exec_env \<Rightarrow> 'm \<Rightarrow> hash \<Rightarrow> ('t, 'm) service_mapping \<Rightarrow> (executor_error, ('t, 'm) executor) result" where
  "from_root env mem root mapping = with_root env mem root mapping"

subsection \<open>Running a block\<close>

definition executor_commit ::
    "'t exec_env \<Rightarrow> ('t, 'm) executor \<Rightarrow> (executor_error, hash) result \<times> ('t, 'm) executor" where
  "executor_commit env ex =
     (case commit_root env (wd_states (ex_world ex)) (ex_root_state ex) of
        Inl e \<Rightarrow> (Inl e, ex)
      | Inr (root, ss, root_state) \<Rightarrow>
          (Inr root, ex\<lparr>ex_world := (ex_world ex)\<lparr>wd_states := ss\<rparr>, ex_root_state := root_state\<rparr>))"

definition get_service :: "('t, 'm) executor \<Rightarrow> string \<Rightarrow> (executor_error, ('t, 'm) world service) result" where
  "get_service ex service = ok_or (NotFoundService service) (hm_get (ex_services ex) service)"

fun hook_names ::
    "('t, 'm) executor \<Rightarrow> hook_type \<Rightarrow> executor_params \<Rightarrow> string list \<Rightarrow> ('t, 'm) world
     \<Rightarrow> (executor_error, unit) result \<times> ('t, 'm) world" where
  "hook_names ex t params [] w = (Inr (), w)"
| "hook_names ex t params (name # names) w =
     (case get_service ex name of
        Inl e \<Rightarrow> (Inl e, w)
      | Inr svc \<Rightarrow>
          (case (case t of HookBefore \<Rightarrow> svc_hook_before svc | HookAfter \<Rightarrow> svc_hook_after svc) params w of
             (None, w) \<Rightarrow> hook_names ex t params names (states_revert_cache w)
           | (Some _, w) \<Rightarrow> hook_names ex t params names (states_stash w)))"

definition hook ::
    "('t, 'm) executor \<Rightarrow> hook_type \<Rightarrow> executor_params \<Rightarrow> ('t, 'm) world
     \<Rightarrow> (executor_error, unit) result \<times> ('t, 'm) world" where
  "hook ex t params w = hook_names ex t params (list_service_name (ex_mapping ex)) w"

definition get_context ::
    "hash option \<Rightarrow> hash option \<Rightarrow> address \<Rightarrow> u64 \<Rightarrow> u64 \<Rightarrow> executor_params \<Rightarrow> transaction_request
     \<Rightarrow> service_context" where
  "get_context tx_hash nonce caller cycles_price cycles_limit params request =
     \<lparr>ctx_tx_hash = tx_hash, ctx_nonce = nonce, ctx_cycles_limit = cycles_limit,
      ctx_cycles_price = cycles_price, ctx_cycles_used = 0, ctx_caller = caller,
      ctx_height = ep_height params, ctx_service_name = req_service_name request,
      ctx_service_method = req_method request, ctx_service_payload = req_payload request,
      ctx_extra = None, ctx_timestamp = ep_timestamp params, ctx_events = [], ctx_canceled = None\<rparr>"

definition get_tx_hooks :: "('t, 'm) executor \<Rightarrow> exec_type \<Rightarrow> (executor_error, ('t, 'm) tx_hooks) result" where
  "get_tx_hooks ex exec_type =
     (case exec_type of
        ExecRead \<Rightarrow> Inr NoHooks
      | ExecWrite \<Rightarrow>
          (case res_collect (get_service ex) (list_service_name (ex_mapping ex)) of
             Inl _ \<Rightarrow> Inl Panic
           | Inr svcs \<Rightarrow> Inr (CommitHooks svcs)))"

definition call :: "('t, 'm) executor \<Rightarrow> exec_type \<Rightarrow> (('t, 'm) world, string) svc_call" where
  "call ex exec_type ctx w =
     (case get_service ex (ctx_service_name ctx) of
        Inl _ \<Rightarrow> (Some (from_error '''' SERVICE_NOT_FOUND_CODE ''can not found service''), ctx, w)
      | Inr svc \<Rightarrow>
          (case exec_type of ExecRead \<Rightarrow> svc_read svc ctx w | ExecWrite \<Rightarrow> svc_write svc ctx w))"

definition truncate_events :: "nat \<Rightarrow> service_context \<Rightarrow> service_context" where
  "truncate_events n ctx = ctx\<lparr>ctx_events := take n (ctx_events ctx)\<rparr>"

text \<open>The middle part of \<^verbatim>\<open>catch_call\<close>: the call itself, or the answer that skips it.\<close>

definition run_tx ::
    "('t, 'm) executor \<Rightarrow> exec_type \<Rightarrow> string service_response list \<Rightarrow> nat \<Rightarrow> service_context \<Rightarrow> ('t, 'm) world
     \<Rightarrow> (executor_error, string service_response) result \<times> service_context \<times> ('t, 'm) world" where
  "run_tx ex exec_type resp event_index ctx w =
     (if list_ex is_error resp then
        (Inr (from_error '''' 65535 ''skip_tx_run''), truncate_events event_index ctx, states_revert_cache w)
      else
        (case call ex exec_type ctx w of
           (Some r, ctx, w) \<Rightarrow> (Inr r, ctx, w)
         | (None, ctx, w) \<Rightarrow> (Inl (Err CallService), ctx, states_revert_cache w)))"

text \<open>The end of \<^verbatim>\<open>catch_call\<close>, from the answer of the call on.\<close>

definition finish_tx ::
    "('t, 'm) tx_hooks \<Rightarrow> nat \<Rightarrow> string service_response \<Rightarrow> service_context \<Rightarrow> ('t, 'm) world
     \<Rightarrow> (executor_error, string service_response) result \<times> service_context \<times> ('t, 'm) world" where
  "finish_tx hooks event_index ret ctx w =
     (let (ctx, w) =
        (if is_error ret
         then (cancel (truncate_events event_index ctx) ''tx_exec_return_code_not_zero'', states_revert_cache w)
         else (ctx, w))
      in case tx_hooks_after hooks ctx w of
           (Inl e, ctx, w) \<Rightarrow> (Inl e, ctx, w)
         | (Inr resp, ctx, w) \<Rightarrow>
             (if list_ex is_error resp
              then (Inr ret, truncate_events event_index ctx, states_revert_cache w)
              else (Inr ret, ctx, states_stash w)))"

definition catch_call ::
    "('t, 'm) executor \<Rightarrow> exec_type \<Rightarrow> service_context \<Rightarrow> ('t, 'm) world
     \<Rightarrow> (executor_error, string service_response) result \<times> service_context \<times> ('t, 'm) world" where
  "catch_call ex exec_type ctx w =
     (case get_tx_hooks ex exec_type of
        Inl e \<Rightarrow> (Inl e, ctx, w)
      | Inr hooks \<Rightarrow>
          (case tx_hooks_before hooks ctx w of
             (Inl e, ctx, w) \<Rightarrow> (Inl e, ctx, w)
           | (Inr resp, ctx, w) \<Rightarrow>
               (let w = states_stash w; event_index = length (ctx_events ctx)
                in case run_tx ex exec_type resp event_index ctx w of
                     (Inl e, ctx, w) \<Rightarrow> (Inl e, ctx, w)
                   | (Inr ret, ctx, w) \<Rightarrow> finish_tx hooks event_index ret ctx w)))"

definition exec_tx ::
    "'t exec_env \<Rightarrow> ('t, 'm) executor \<Rightarrow> executor_params \<Rightarrow> signed_transaction \<Rightarrow> ('t, 'm) world
     \<Rightarrow> (executor_error, receipt) result \<times> ('t, 'm) world" where
  "exec_tx env ex params stx w =
     (let raw = stx_raw stx;
          ctx = get_context (Some (stx_tx_hash stx)) (Some (raw_nonce raw)) (raw_sender raw)
                  (raw_cycles_price raw) (raw_cycles_limit raw) params (raw_request raw)
      in case catch_call ex ExecWrite ctx w of
           (Inl e, ctx, w) \<Rightarrow> (Inl e, w)
         | (Inr exec_resp, ctx, w) \<Rightarrow>
             (Inr \<lparr>rc_state_root = hash_from_empty (ee_digest env),
                   rc_height = ctx_height ctx,
                   rc_tx_hash = stx_tx_hash stx,
                   rc_cycles_used = ctx_cycles_used ctx,
                   rc_events = ctx_events ctx,
                   rc_response = \<lparr>rr_service_name = ctx_service_name ctx,
                     rr_method = ctx_service_method ctx, rr_response = exec_resp\<rparr>\<rparr>, w))"

fun exec_txs ::
    "'t exec_env \<Rightarrow> ('t, 'm) executor \<Rightarrow> executor_params \<Rightarrow> signed_transaction list \<Rightarrow> ('t, 'm) world
     \<Rightarrow> (executor_error, receipt list) result \<times> ('t, 'm) world" where
  "exec_txs env ex params [] w = (Inr [], w)"
| "exec_txs env ex params (stx # txs) w =
     (case exec_tx env ex params stx w of
        (Inl e, w) \<Rightarrow> (Inl e, w)
      | (Inr r, w) \<Rightarrow>
          (case exec_txs env ex params txs w of
             (Inl e, w) \<Rightarrow> (Inl e, w)
           | (Inr rs, w) \<Rightarrow> (Inr (r # rs), w)))"

definition exec ::
    "'t exec_env \<Rightarrow> executor_params \<Rightarrow> signed_transaction list \<Rightarrow> ('t, 'm) executor
     \<Rightarrow> (executor_error, executor_resp) result \<times> ('t, 'm) executor" where
  "exec env params txs ex =
     (case hook ex HookBefore params (ex_world ex) of
        (Inl e, w) \<Rightarrow> (Inl e, ex\<lparr>ex_world := w\<rparr>)
      | (Inr _, w) \<Rightarrow>
          (case exec_txs env ex params txs w of
             (Inl e, w) \<Rightarrow> (Inl e, ex\<lparr>ex_world := w\<rparr>)
           | (Inr receipts, w) \<Rightarrow>
               (case hook ex HookAfter params w of
                  (Inl e, w) \<Rightarrow> (Inl e, ex\<lparr>ex_world := w\<rparr>)
                | (Inr _, w) \<Rightarrow>
                    (case executor_commit env (ex\<lparr>ex_world := w\<rparr>) of
                       (Inl e, ex) \<Rightarrow> (Inl e, ex)
                     | (Inr state_root, ex) \<Rightarrow>
                         (Inr \<lparr>er_receipts = map (\<lambda>r. r\<lparr>rc_state_root := state_root\<rparr>) receipts,
                               er_all_cycles_used = fold (\<lambda>r a. a + rc_cycles_used r) receipts 0,
                               er_state_root = state_root\<rparr>, ex)))))"

definition read ::
    "executor_params \<Rightarrow> address \<Rightarrow> u64 \<Rightarrow> transaction_request \<Rightarrow> ('t, 'm) executor
     \<Rightarrow> (executor_error, string service_response) result \<times> ('t, 'm) executor" where
  "read params caller cycles_price request ex =
     (case call ex ExecRead (get_context None None caller cycles_price u64_max params request) (ex_world ex) of
        (Some r, _, w) \<Rightarrow> (Inr r, ex\<lparr>ex_world := w\<rparr>)
      | (None, _, w) \<Rightarrow> (Inl (Err QueryService), ex\<lparr>ex_world := w\<rparr>))"

section \<open>Well-formed executors\<close>

text \<open>
  Every name the mapping lists has one state and one service object, the services act through their
  interfaces only, and the maps of the states hold a key once.
\<close>

definition exec_wf :: "('t, 'm) executor \<Rightarrow> bool" where
  "exec_wf ex \<longleftrightarrow>
     distinct (map fst (wd_states (ex_world ex))) \<and>
     set (map fst (wd_states (ex_world ex))) = set (list_service_name (ex_mapping ex)) \<and>
     set (map fst (ex_services ex)) = set (list_service_name (ex_mapping ex)) \<and>
     (\<forall>(n, svc) \<in> set (ex_services ex). service_lawful svc) \<and>
     states_wf (wd_states (ex_world ex)) \<and> gs_wf (ex_root_state ex)"

definition mapping_lawful :: "('t, 'm) service_mapping \<Rightarrow> bool" where
  "mapping_lawful m \<longleftrightarrow>
     (\<forall>name w. sdk_reach w (snd (mapping_get_service m name w)) \<and>
        (\<forall>svc. fst (mapping_get_service m name w) = Inr svc \<longrightarrow> service_lawful svc))"

text \<open>What every operation of the executor keeps of the world and of a context.\<close>

definition world_kept :: "('t, 'm) world \<Rightarrow> ('t, 'm) world \<Rightarrow> bool" where
  "world_kept w w' \<longleftrightarrow>
     map fst (wd_states w') = map fst (wd_states w) \<and> (states_wf (wd_states w) \<longrightarrow> states_wf (wd_states w'))"

definition ctx_kept :: "service_context \<Rightarrow> service_context \<Rightarrow> bool" where
  "ctx_kept c c' \<longleftrightarrow>
     ctx_call c' = ctx_call c \<and>
     (ctx_cycles_used c \<le> ctx_cycles_limit c \<longrightarrow> ctx_cycles_used c' \<le> ctx_cycles_limit c')"

lemma world_kept_refl [simp]: "world_kept w w"
  by (simp add: world_kept_def)

lemma world_kept_trans: "world_kept w1 w2 \<Longrightarrow> world_kept w2 w3 \<Longrightarrow> world_kept w1 w3"
  by (simp add: world_kept_def)

lemma world_kept_stash [simp]: "world_kept w (states_stash w)"
  by (auto simp: world_kept_def states_stash_def states_wf_def case_prod_beta)

lemma world_kept_revert [simp]: "world_kept w (states_revert_cache w)"
  by (auto simp: world_kept_def states_revert_cache_def states_wf_def case_prod_beta)

lemma world_kept_sdk: "sdk_reach w w' \<Longrightarrow> world_kept w w'"
  using sdk_reach_keeps [of w w'] unfolding world_kept_def by (metis block_states_names)

lemma ctx_kept_refl [simp]: "ctx_kept c c"
  by (simp add: ctx_kept_def)

lemma ctx_kept_trans: "ctx_kept c1 c2 \<Longrightarrow> ctx_kept c2 c3 \<Longrightarrow> ctx_kept c1 c3"
  by (simp add: ctx_kept_def)

lemma ctx_kept_reach: "ctx_reach c c' \<Longrightarrow> ctx_kept c c'"
  using ctx_reach_keeps [of c c'] by (simp add: ctx_kept_def)

lemma ctx_kept_executor [simp]:
  "ctx_kept c (truncate_events n c)" "ctx_kept c (cancel c reason)"
  by (simp_all add: ctx_kept_def truncate_events_def cancel_def)

lemmas kept_trans = world_kept_trans ctx_kept_trans

lemma call_lawfulD:
  assumes "call_lawful f" "f ctx w = (r, ctx', w')"
  shows "world_kept w w'" "ctx_kept ctx ctx'" "sdk_reach w w'" "ctx_reach ctx ctx'"
  using assms(1)[unfolded call_lawful_def, rule_format, of ctx w] assms(2)
  by (auto intro: world_kept_sdk ctx_kept_reach)

lemma run_lawfulD: "run_lawful f \<Longrightarrow> f w = (r, w') \<Longrightarrow> world_kept w w'"
  unfolding run_lawful_def by (metis snd_conv world_kept_sdk)

lemma kan_kept:
  assumes "call_lawful h" "kan h ctx w = (r, ctx', w')"
  shows "world_kept w w' \<and> ctx_kept ctx ctx' \<and> (r = Inl (Err TxHook) \<or> (\<exists>a. r = Inr a))"
proof -
  obtain o1 c1 w1 where h: "h ctx w = (o1, c1, w1)" by (cases "h ctx w") auto
  show ?thesis
    using assms(2) call_lawfulD(1,2) [OF assms(1) h]
    by (cases o1) (auto simp: kan_def h intro: world_kept_trans)
qed

lemma kan_all_kept:
  assumes "\<forall>h \<in> set hs. call_lawful h" "kan_all hs ctx w = (r, ctx', w')"
  shows "world_kept w w' \<and> ctx_kept ctx ctx' \<and> (r = Inl (Err TxHook) \<or> (\<exists>a. r = Inr a))"
  using assms
proof (induction hs arbitrary: ctx w r ctx' w')
  case (Cons h hs)
  obtain r1 c1 w1 where h: "kan h ctx w = (r1, c1, w1)" by (cases "kan h ctx w") auto
  obtain r2 c2 w2 where hs: "kan_all hs c1 w1 = (r2, c2, w2)" by (cases "kan_all hs c1 w1") auto
  have "call_lawful h" using Cons.prems by simp
  note k1 = kan_kept [OF this h]
  have "\<forall>h \<in> set hs. call_lawful h" using Cons.prems by simp
  note k2 = Cons.IH [OF this hs]
  from Cons.prems(2) h hs k1 k2 show ?case
    by (cases r1; cases r2) (auto intro: kept_trans)
qed simp

text \<open>The services of a well-formed executor.\<close>

lemma get_service_Inr:
  assumes "exec_wf ex" "get_service ex name = Inr svc"
  shows "service_lawful svc"
  using assms by (auto simp: get_service_def exec_wf_def ok_or_def split: option.splits dest!: map_of_SomeD)

lemma get_service_listed:
  assumes "exec_wf ex" "name \<in> set (list_service_name (ex_mapping ex))"
  shows "\<exists>svc. get_service ex name = Inr svc"
proof -
  have "name \<in> fst ` set (ex_services ex)" using assms by (simp add: exec_wf_def)
  then have "hm_get (ex_services ex) name \<noteq> None" by (simp add: map_of_eq_None_iff)
  then show ?thesis by (auto simp: get_service_def ok_or_def)
qed

lemma res_collect_total_upto:
  "(\<And>x. x \<in> set xs \<Longrightarrow> \<exists>y. f x = Inr y) \<Longrightarrow>
   \<exists>ys. res_collect f xs = Inr ys \<and> (\<forall>y \<in> set ys. \<exists>x \<in> set xs. f x = Inr y)"
proof (induction xs)
  case (Cons x xs)
  then obtain y ys where "f x = Inr y" "res_collect f xs = Inr ys" "\<forall>y \<in> set ys. \<exists>x \<in> set xs. f x = Inr y"
    by (metis list.set_intros(1) list.set_intros(2))
  then show ?case by auto
qed simp

lemma get_tx_hooks_wf:
  assumes "exec_wf ex"
  shows "\<exists>svcs. get_tx_hooks ex ExecWrite = Inr (CommitHooks svcs) \<and> (\<forall>svc \<in> set svcs. service_lawful svc) \<and>
    res_collect (get_service ex) (list_service_name (ex_mapping ex)) = Inr svcs"
proof -
  from res_collect_total_upto [of "list_service_name (ex_mapping ex)" "get_service ex"] get_service_listed [OF assms]
  obtain svcs where "res_collect (get_service ex) (list_service_name (ex_mapping ex)) = Inr svcs"
    "\<forall>svc \<in> set svcs. \<exists>n \<in> set (list_service_name (ex_mapping ex)). get_service ex n = Inr svc"
    by blast
  then show ?thesis using get_service_Inr [OF assms] by (auto simp: get_tx_hooks_def)
qed

lemma call_kept:
  assumes "exec_wf ex" "call ex t ctx w = (r, ctx', w')"
  shows "world_kept w w' \<and> ctx_kept ctx ctx'"
proof (cases "get_service ex (ctx_service_name ctx)")
  case (Inr svc)
  note law = get_service_Inr [OF assms(1) Inr]
  have "call_lawful (svc_read svc)" "call_lawful (svc_write svc)" using law by (simp_all add: service_lawful_def)
  then show ?thesis
    using assms(2) Inr by (cases t) (auto simp: call_def dest: call_lawfulD)
qed (use assms in \<open>auto simp: call_def\<close>)

definition tx_result :: "(executor_error, 'a) result \<Rightarrow> bool" where
  "tx_result r \<longleftrightarrow> (case r of Inr _ \<Rightarrow> True | Inl e \<Rightarrow> e = Err TxHook \<or> e = Err CallService)"

lemma tx_result_simps [simp]: "tx_result (Inr a)" "tx_result (Inl (Err TxHook))" "tx_result (Inl (Err CallService))"
  by (simp_all add: tx_result_def)

lemma run_tx_kept:
  assumes "exec_wf ex" "run_tx ex t resp n ctx w = (r, ctx', w')"
  shows "world_kept w w' \<and> ctx_kept ctx ctx' \<and> tx_result r"
proof -
  obtain o1 c1 w1 where c: "call ex t ctx w = (o1, c1, w1)" by (cases "call ex t ctx w") auto
  show ?thesis
    using assms(2) call_kept [OF assms(1) c]
      world_kept_trans [OF _ world_kept_revert]
    by (cases o1) (auto simp: run_tx_def c split: if_splits)
qed

lemma finish_tx_kept:
  assumes "\<forall>svc \<in> set svcs. service_lawful svc" "finish_tx (CommitHooks svcs) n ret ctx w = (r, ctx', w')"
  shows "world_kept w w' \<and> ctx_kept ctx ctx' \<and> tx_result r"
proof -
  define c1 w1 where "c1 = (if is_error ret then cancel (truncate_events n ctx) ''tx_exec_return_code_not_zero'' else ctx)"
    and "w1 = (if is_error ret then states_revert_cache w else w)"
  have k1: "world_kept w w1" "ctx_kept ctx c1"
    using ctx_kept_trans [OF ctx_kept_executor] by (simp_all add: c1_def w1_def)
  obtain r2 c2 w2 where h: "kan_all (map svc_tx_hook_after svcs) c1 w1 = (r2, c2, w2)"
    by (cases "kan_all (map svc_tx_hook_after svcs) c1 w1") auto
  have "\<forall>h \<in> set (map svc_tx_hook_after svcs). call_lawful h" using assms(1) by (auto simp: service_lawful_def)
  note k2 = kan_all_kept [OF this h]
  have eq: "finish_tx (CommitHooks svcs) n ret ctx w =
      (case r2 of Inl e \<Rightarrow> (Inl e, c2, w2)
       | Inr resp \<Rightarrow> (if list_ex is_error resp then (Inr ret, truncate_events n c2, states_revert_cache w2)
                      else (Inr ret, c2, states_stash w2)))"
    using h by (cases "is_error ret") (simp_all add: finish_tx_def tx_hooks_after_def c1_def w1_def split: sum.split)
  have w: "world_kept w w2" and c: "ctx_kept ctx c2" using k1 k2 world_kept_trans ctx_kept_trans by metis+
  note w' = world_kept_trans [OF w] and c' = ctx_kept_trans [OF c]
  show ?thesis
    using assms(2) k2 w c w' c' unfolding eq by (cases r2) (auto split: if_splits)
qed

lemma catch_call_kept:
  assumes "exec_wf ex" "catch_call ex ExecWrite ctx w = (r, ctx', w')"
  shows "world_kept w w' \<and> ctx_kept ctx ctx' \<and> tx_result r"
proof -
  obtain svcs where svcs: "get_tx_hooks ex ExecWrite = Inr (CommitHooks svcs)" "\<forall>svc \<in> set svcs. service_lawful svc"
    using get_tx_hooks_wf [OF assms(1)] by blast
  obtain r1 c1 w1 where b: "tx_hooks_before (CommitHooks svcs) ctx w = (r1, c1, w1)"
    by (cases "tx_hooks_before (CommitHooks svcs) ctx w") auto
  have "\<forall>h \<in> set (map svc_tx_hook_before svcs). call_lawful h" using svcs(2) by (auto simp: service_lawful_def)
  from kan_all_kept [OF this] b
  have k1: "world_kept w w1 \<and> ctx_kept ctx c1 \<and> (r1 = Inl (Err TxHook) \<or> (\<exists>a. r1 = Inr a))"
    by (simp add: tx_hooks_before_def)
  show ?thesis
  proof (cases r1)
    case (Inl e)
    then show ?thesis using assms(2) svcs b k1 by (auto simp: catch_call_def)
  next
    case (Inr resp)
    let ?n = "length (ctx_events c1)"
    obtain r2 c2 w2 where m: "run_tx ex ExecWrite resp ?n c1 (states_stash w1) = (r2, c2, w2)"
      by (cases "run_tx ex ExecWrite resp ?n c1 (states_stash w1)") auto
    note k2 = run_tx_kept [OF assms(1) m]
    have w2: "world_kept w w2" and c2: "ctx_kept ctx c2"
      using k1 k2 world_kept_stash world_kept_trans ctx_kept_trans by metis+
    show ?thesis
    proof (cases r2)
      case (Inl e)
      then show ?thesis using assms(2) svcs b Inr m k2 w2 c2 by (auto simp: catch_call_def Let_def)
    next
      case Ret: (Inr ret)
      have "finish_tx (CommitHooks svcs) ?n ret c2 w2 = (r, ctx', w')"
        using assms(2) svcs b Inr m Ret by (simp add: catch_call_def Let_def)
      from finish_tx_kept [OF svcs(2) this] w2 c2 show ?thesis
        using world_kept_trans ctx_kept_trans by metis
    qed
  qed
qed

section \<open>A block\<close>

lemma hook_names_kept:
  assumes wf: "exec_wf ex" and "set names \<subseteq> set (list_service_name (ex_mapping ex))"
    and "hook_names ex t params names w = (r, w')"
  shows "world_kept w w' \<and> r = Inr ()"
  using assms(2,3)
proof (induction names arbitrary: w)
  case (Cons name names)
  obtain svc where svc: "get_service ex name = Inr svc" using get_service_listed [OF wf] Cons.prems by auto
  let ?h = "case t of HookBefore \<Rightarrow> svc_hook_before svc | HookAfter \<Rightarrow> svc_hook_after svc"
  obtain o1 w1 where h: "?h params w = (o1, w1)" by (cases "?h params w")
  have "run_lawful (?h params)"
    using get_service_Inr [OF wf svc] by (cases t) (simp_all add: service_lawful_def)
  note k = run_lawfulD [OF this h]
  let ?w = "case o1 of None \<Rightarrow> states_revert_cache w1 | Some _ \<Rightarrow> states_stash w1"
  have "world_kept w ?w"
    using world_kept_trans [OF k world_kept_revert] world_kept_trans [OF k world_kept_stash]
    by (simp split: option.split)
  moreover have "hook_names ex t params names ?w = (r, w')"
    using Cons.prems(2) svc h by (auto split: option.splits)
  ultimately show ?case using Cons.IH Cons.prems(1) world_kept_trans by fastforce
qed simp

lemma hook_kept: "exec_wf ex \<Longrightarrow> hook ex t params w = (r, w') \<Longrightarrow> world_kept w w' \<and> r = Inr ()"
  unfolding hook_def by (rule hook_names_kept) auto

text \<open>What a receipt says of its transaction.\<close>

definition receipt_of :: "executor_params \<Rightarrow> signed_transaction \<Rightarrow> receipt \<Rightarrow> bool" where
  "receipt_of params stx r \<longleftrightarrow>
     rc_tx_hash r = stx_tx_hash stx \<and> rc_height r = ep_height params \<and>
     rc_cycles_used r \<le> raw_cycles_limit (stx_raw stx) \<and>
     rr_service_name (rc_response r) = req_service_name (raw_request (stx_raw stx)) \<and>
     rr_method (rc_response r) = req_method (raw_request (stx_raw stx))"

lemma receipt_of_state_root [simp]: "receipt_of params stx (r\<lparr>rc_state_root := h\<rparr>) = receipt_of params stx r"
  by (simp add: receipt_of_def)

lemma exec_tx_kept:
  assumes "exec_wf ex" "exec_tx env ex params stx w = (r, w')"
  shows "world_kept w w' \<and> tx_result r \<and> (\<forall>rc. r = Inr rc \<longrightarrow> receipt_of params stx rc)"
proof -
  let ?raw = "stx_raw stx"
  let ?ctx = "get_context (Some (stx_tx_hash stx)) (Some (raw_nonce ?raw)) (raw_sender ?raw)
                  (raw_cycles_price ?raw) (raw_cycles_limit ?raw) params (raw_request ?raw)"
  obtain r1 c1 w1 where c: "catch_call ex ExecWrite ?ctx w = (r1, c1, w1)"
    by (cases "catch_call ex ExecWrite ?ctx w") auto
  note k = catch_call_kept [OF assms(1) c]
  then have "ctx_call c1 = ctx_call ?ctx" "ctx_cycles_used c1 \<le> ctx_cycles_limit c1"
    by (simp_all add: ctx_kept_def get_context_def)
  with ctx_callD [of c1 ?ctx] have "receipt_of params stx
      \<lparr>rc_state_root = h, rc_height = ctx_height c1, rc_tx_hash = stx_tx_hash stx,
       rc_cycles_used = ctx_cycles_used c1, rc_events = ctx_events c1,
       rc_response = \<lparr>rr_service_name = ctx_service_name c1, rr_method = ctx_service_method c1,
         rr_response = a\<rparr>\<rparr>" for h a
    by (simp add: receipt_of_def get_context_def)
  with k c assms(2) show ?thesis
    by (cases r1) (auto simp: exec_tx_def Let_def tx_result_def)
qed

lemma exec_txs_kept:
  assumes "exec_wf ex" "exec_txs env ex params txs w = (r, w')"
  shows "world_kept w w' \<and> tx_result r \<and> (\<forall>rs. r = Inr rs \<longrightarrow> list_all2 (receipt_of params) txs rs)"
  using assms(2)
proof (induction txs arbitrary: w r w')
  case (Cons stx txs)
  obtain r1 w1 where t: "exec_tx env ex params stx w = (r1, w1)" by (cases "exec_tx env ex params stx w")
  obtain r2 w2 where ts: "exec_txs env ex params txs w1 = (r2, w2)" by (cases "exec_txs env ex params txs w1")
  note k1 = exec_tx_kept [OF assms(1) t] and k2 = Cons.IH [OF ts]
  have "world_kept w w2" using k1 k2 world_kept_trans by blast
  then show ?case
    using Cons.prems t ts k1 k2 by (cases r1; cases r2) (auto simp: tx_result_def)
qed simp

section \<open>Committing\<close>

lemma mpt_commit_hash: "mpt_commit ops t = Inr (root, t') \<Longrightarrow> mpt_root t' = root"
  by (auto simp: mpt_commit_def res_bind_Inr_iff hash_from_bytes_def ensure_len_def split: if_split_asm)

lemma commit_root_hash: "commit ops s = Inr (root, s') \<Longrightarrow> mpt_root (gs_trie s') = root"
  by (auto simp: commit_def res_bind_Inr_iff res_map_Inr_iff dest: mpt_commit_hash)

lemma str_bytes_inj [simp]: "str_bytes a = str_bytes b \<longleftrightarrow> a = b"
  by (metis bytes_str_str_bytes)

definition committed :: "('t \<Rightarrow> bytes \<Rightarrow> bytes option) \<Rightarrow> 't general_service_state \<Rightarrow> 't general_service_state \<Rightarrow> bool" where
  "committed view s s' \<longleftrightarrow>
     gs_wf s' \<and> gs_layers view s' = (gs_layers view s)\<lparr>l_root := l_block (gs_layers view s)\<rparr>"

definition note_roots :: "hash codec \<Rightarrow> 't service_states \<Rightarrow> (bytes \<Rightarrow> bytes option) \<Rightarrow> bytes \<Rightarrow> bytes option" where
  "note_roots hc ss f = fold (\<lambda>(n, s) f. f(str_bytes n := present (key_bytes hc (mpt_root (gs_trie s))))) ss f"

lemma note_roots_other: "\<forall>(n, s) \<in> set ss. str_bytes n \<noteq> k \<Longrightarrow> note_roots hc ss f k = f k"
  unfolding note_roots_def by (induction ss arbitrary: f) auto

lemma note_roots_at:
  assumes "distinct (map fst ss)" "(n, s) \<in> set ss"
  shows "note_roots hc ss f (str_bytes n) = present (key_bytes hc (mpt_root (gs_trie s)))"
  using assms
proof (induction ss arbitrary: f)
  case (Cons x ss)
  show ?case
  proof (cases "x = (n, s)")
    case True
    have "\<forall>(m, t) \<in> set ss. str_bytes m \<noteq> str_bytes n" using Cons.prems True by force
    from note_roots_other [OF this] True show ?thesis by (simp add: note_roots_def)
  next
    case False
    then show ?thesis using Cons by (auto simp: note_roots_def split: prod.split)
  qed
qed simp

lemma commit_all_spec:
  assumes law: "trie_lawful (ee_ops env) view" and hc: "codec_lawful (ee_hash env)"
    and "states_wf ss" "gs_wf rs"
  shows "\<exists>ss' rs'. commit_all env ss rs = Inr (ss', rs') \<and>
    list_all2 (\<lambda>(n, s) (n', s'). n' = n \<and> committed view s s') ss ss' \<and> gs_wf rs' \<and>
    gs_layers view rs' = (gs_layers view rs)\<lparr>l_tx := note_roots (ee_hash env) ss' (l_tx (gs_layers view rs))\<rparr>"
  using assms(3,4)
proof (induction ss arbitrary: rs)
  case Nil
  show ?case using Nil by (simp add: note_roots_def)
next
  case (Cons x ss)
  obtain n s where x: "x = (n, s)" by fastforce
  have "gs_wf s" "states_wf ss" using Cons.prems x by (auto simp: states_wf_def)
  from commit_layers [OF law this(1)] obtain r s' where
    s': "commit (ee_ops env) s = Inr (r, s')" "committed view s s'"
    unfolding committed_def by blast
  from hc obtain b where b: "encode_fixed (ee_hash env) r = Inr b" by (rule codec_lawfulE)
  then have enc: "key_bytes (ee_hash env) r = b" by (simp add: key_bytes_def)
  let ?rs = "insert_bytes (str_bytes n) b rs"
  have ins: "state_insert insert_bytes string_codec (ee_hash env) n r rs = Inr ?rs"
    using b by (simp add: state_insert_def string_codec_def map_codec_err_def)
  have rs: "gs_layers view ?rs = (gs_layers view rs)\<lparr>l_tx := (l_tx (gs_layers view rs))(str_bytes n := present b)\<rparr>"
    by (simp add: gs_layers_def Let_def insert_bytes_def overlay_insert)
  have "gs_wf ?rs" using Cons.prems by simp
  from Cons.IH [OF \<open>states_wf ss\<close> this] obtain ss' rs' where
    IH: "commit_all env ss ?rs = Inr (ss', rs')"
      "list_all2 (\<lambda>(n, s) (n', s'). n' = n \<and> committed view s s') ss ss'" "gs_wf rs'"
      "gs_layers view rs' = (gs_layers view ?rs)\<lparr>l_tx := note_roots (ee_hash env) ss' (l_tx (gs_layers view ?rs))\<rparr>"
    by blast
  have "commit_all env (x # ss) rs = Inr ((n, s') # ss', rs')"
    using s'(1) ins IH(1) by (simp add: x state_err_def)
  moreover have "note_roots (ee_hash env) ((n, s') # ss') f = note_roots (ee_hash env) ss' (f(str_bytes n := present b))" for f
    using enc commit_root_hash [OF s'(1)] by (simp add: note_roots_def)
  ultimately show ?case using IH s'(2) rs x by auto
qed

lemma stash_layers:
  "gs_wf s \<Longrightarrow> gs_layers view (stash s) = (gs_layers view s)\<lparr>l_block := l_tx (gs_layers view s)\<rparr>"
  by (simp add: gs_layers_def Let_def stash_def gs_wf_def overlay_fold_insert)

lemma commit_root_spec:
  assumes law: "trie_lawful (ee_ops env) view" and hc: "codec_lawful (ee_hash env)"
    and ss: "states_wf ss" "distinct (map fst ss)" and rs: "gs_wf rs"
  shows "\<exists>root ss' rs'. commit_root env ss rs = Inr (root, ss', rs') \<and>
    list_all2 (\<lambda>(n, s) (n', s'). n' = n \<and> committed view s s') ss ss' \<and> gs_wf rs' \<and>
    mpt_root (gs_trie rs') = root \<and>
    (\<forall>(n, s') \<in> set ss'. l_root (gs_layers view rs') (str_bytes n) = present (key_bytes (ee_hash env) (mpt_root (gs_trie s'))))"
proof -
  from commit_all_spec [OF law hc ss(1) rs] obtain ss' rs1 where
    c: "commit_all env ss rs = Inr (ss', rs1)"
      "list_all2 (\<lambda>(n, s) (n', s'). n' = n \<and> committed view s s') ss ss'" "gs_wf rs1"
      "gs_layers view rs1 = (gs_layers view rs)\<lparr>l_tx := note_roots (ee_hash env) ss' (l_tx (gs_layers view rs))\<rparr>"
    by blast
  from c(3) have "gs_wf (stash rs1)" by simp
  from commit_layers [OF law this] obtain root rs' where
    r: "commit (ee_ops env) (stash rs1) = Inr (root, rs')" "gs_wf rs'"
      "gs_layers view rs' = (gs_layers view (stash rs1))\<lparr>l_root := l_block (gs_layers view (stash rs1))\<rparr>"
    by blast
  have "commit_root env ss rs = Inr (root, ss', rs')"
    using c(1) r(1) by (simp add: commit_root_def state_err_def)
  moreover have "map fst ss' = map fst ss"
    using c(2) by (induction rule: list_all2_induct) auto
  then have "distinct (map fst ss')" using ss(2) by simp
  then have "l_root (gs_layers view rs') (str_bytes n) = present (key_bytes (ee_hash env) (mpt_root (gs_trie s')))"
    if "(n, s') \<in> set ss'" for n s'
    using note_roots_at [OF _ that] r(3) c(4) stash_layers [OF c(3)] by simp
  ultimately show ?thesis using c(2) r(2) commit_root_hash [OF r(1)] by blast
qed

section \<open>Executors that are reached\<close>

text \<open>An executor is opened at a root and then runs blocks and queries.\<close>

inductive exec_reachable :: "'t exec_env \<Rightarrow> ('t, 'm) service_mapping \<Rightarrow> ('t, 'm) executor \<Rightarrow> bool"
  for env mapping where
  opened: "with_root env mem root mapping = Inr ex \<Longrightarrow> exec_reachable env mapping ex"
| ran: "exec_reachable env mapping ex \<Longrightarrow> exec_reachable env mapping (snd (exec env params txs ex))"
| queried: "exec_reachable env mapping ex \<Longrightarrow> exec_reachable env mapping (snd (read params caller price request ex))"

lemma exec_wf_world: "exec_wf ex \<Longrightarrow> world_kept (ex_world ex) w \<Longrightarrow> exec_wf (ex\<lparr>ex_world := w\<rparr>)"
  unfolding exec_wf_def world_kept_def by (simp del: map_map set_map)

lemma hm_insert_names: "set (map fst (hm_insert k v m)) = insert k (set (map fst m))"
  by (simp add: dom_update)

lemma open_states_wf:
  assumes "open_states env rs names ss = Inr ss'" "states_wf ss" "distinct (map fst ss)"
  shows "states_wf ss' \<and> distinct (map fst ss') \<and> set (map fst ss') = set (map fst ss) \<union> set names"
  using assms
proof (induction names arbitrary: ss)
  case (Cons n ns)
  from Cons.prems(1) obtain t where t: "open_states env rs ns (hm_insert n (gs_new t) ss) = Inr ss'"
    by (auto simp: res_bind_Inr_iff)
  have "states_wf (hm_insert n (gs_new t) ss)" by (rule states_wf_update [OF Cons.prems(2)]) simp
  from Cons.IH [OF t this distinct_update [OF Cons.prems(3)]] show ?case using hm_insert_names [of n "gs_new t" ss] by auto
qed simp

lemma open_services_wf:
  assumes "open_services m names svcs w = (Inr svcs', w')" "mapping_lawful m"
    and "\<forall>(n, svc) \<in> set svcs. service_lawful svc"
  shows "(\<forall>(n, svc) \<in> set svcs'. service_lawful svc) \<and> world_kept w w' \<and>
    set (map fst svcs') = set (map fst svcs) \<union> set names"
  using assms(1,3)
proof (induction names arbitrary: svcs w)
  case (Cons n ns)
  obtain r1 w1 where g: "mapping_get_service m n w = (r1, w1)" by (cases "mapping_get_service m n w")
  with Cons.prems(1) obtain svc where svc: "r1 = Inr svc" "open_services m ns (hm_insert n svc svcs) w1 = (Inr svcs', w')"
    by (cases r1) auto
  have "sdk_reach w w1" "service_lawful svc"
    using assms(2) g svc(1) unfolding mapping_lawful_def by (metis fst_conv snd_conv)+
  moreover have "set (hm_insert n svc svcs) \<subseteq> insert (n, svc) (set svcs)" by (induction svcs) auto
  ultimately have "\<forall>(n, svc) \<in> set (hm_insert n svc svcs). service_lawful svc" using Cons.prems(2) by auto
  from Cons.IH [OF svc(2) this] \<open>sdk_reach w w1\<close> show ?case
    using hm_insert_names [of n svc svcs] world_kept_trans [OF world_kept_sdk] by auto
qed simp

lemma with_root_wf:
  assumes "with_root env mem root mapping = Inr ex" "mapping_lawful mapping"
  shows "exec_wf ex \<and> ex_mapping ex = mapping"
proof -
  from assms(1) obtain t ss svcs w where
    o1: "open_states env (gs_new t) (list_service_name mapping) [] = Inr ss" and
    o2: "open_services mapping (list_service_name mapping) [] \<lparr>wd_states = ss, wd_mem = mem\<rparr> = (Inr svcs, w)" and
    ex: "ex = \<lparr>ex_mapping = mapping, ex_world = w, ex_root_state = gs_new t, ex_services = svcs\<rparr>"
    unfolding with_root_def Let_def res_bind_Inr_iff
    by (elim exE conjE) (auto split: prod.split_asm sum.split_asm)
  from open_states_wf [OF o1] open_services_wf [OF o2 assms(2)] show ?thesis
    unfolding exec_wf_def ex world_kept_def by (simp add: states_wf_def del: set_map)
qed

lemma committed_names:
  "list_all2 (\<lambda>(n, s) (n', s'). n' = n \<and> committed view s s') ss ss' \<Longrightarrow> map fst ss' = map fst ss \<and> states_wf ss'"
  by (induction rule: list_all2_induct) (auto simp: states_wf_def committed_def)

lemma committed_block:
  "list_all2 (\<lambda>(n, s) (n', s'). n' = n \<and> committed view s s') ss ss' \<Longrightarrow>
   \<forall>(n, s') \<in> set ss'. l_root (gs_layers view s') = l_block (gs_layers view s')"
  by (induction rule: list_all2_induct) (auto simp: committed_def)

lemma exec_cases:
  assumes wf: "exec_wf ex" and law: "trie_lawful (ee_ops env) view" and hc: "codec_lawful (ee_hash env)"
    and run: "exec env params txs ex = (r, ex')"
  shows "exec_wf ex' \<and> ex_mapping ex' = ex_mapping ex \<and> tx_result r \<and>
    (\<forall>resp. r = Inr resp \<longrightarrow>
      list_all2 (\<lambda>stx rc. receipt_of params stx rc \<and> rc_state_root rc = er_state_root resp) txs (er_receipts resp) \<and>
      er_all_cycles_used resp = (\<Sum>rc\<leftarrow>er_receipts resp. rc_cycles_used rc) \<and>
      mpt_root (gs_trie (ex_root_state ex')) = er_state_root resp \<and>
      (\<forall>(n, s) \<in> set (wd_states (ex_world ex')).
         l_root (gs_layers view s) = l_block (gs_layers view s) \<and>
         l_root (gs_layers view (ex_root_state ex')) (str_bytes n) =
           present (key_bytes (ee_hash env) (mpt_root (gs_trie s)))))"
proof -
  obtain r1 w1 where h1: "hook ex HookBefore params (ex_world ex) = (r1, w1)"
    by (cases "hook ex HookBefore params (ex_world ex)")
  note k1 = hook_kept [OF wf h1]
  obtain r2 w2 where t: "exec_txs env ex params txs w1 = (r2, w2)" by (cases "exec_txs env ex params txs w1")
  note k2 = exec_txs_kept [OF wf t]
  have w2: "world_kept (ex_world ex) w2" using k1 k2 world_kept_trans by blast
  show ?thesis
  proof (cases r2)
    case (Inl e)
    then show ?thesis using run h1 k1 t k2 exec_wf_world [OF wf w2] by (auto simp: exec_def tx_result_def)
  next
    case (Inr rs)
    obtain r3 w3 where h2: "hook ex HookAfter params w2 = (r3, w3)" by (cases "hook ex HookAfter params w2")
    note k3 = hook_kept [OF wf h2]
    have "world_kept (ex_world ex) w3" using w2 k3 world_kept_trans by blast
    note wf3 = exec_wf_world [OF wf this]
    then have w3: "states_wf (wd_states w3)" "distinct (map fst (wd_states w3))" "gs_wf (ex_root_state ex)"
      by (simp_all add: exec_wf_def)
    from commit_root_spec [OF law hc w3] obtain root ss' rs' where
      c: "commit_root env (wd_states w3) (ex_root_state ex) = Inr (root, ss', rs')"
        "list_all2 (\<lambda>(n, s) (n', s'). n' = n \<and> committed view s s') (wd_states w3) ss'"
        "gs_wf rs'" "mpt_root (gs_trie rs') = root"
        "\<forall>(n, s') \<in> set ss'. l_root (gs_layers view rs') (str_bytes n) = present (key_bytes (ee_hash env) (mpt_root (gs_trie s')))"
      by blast
    let ?ex = "ex\<lparr>ex_world := w3\<lparr>wd_states := ss'\<rparr>, ex_root_state := rs'\<rparr>"
    let ?resp = "\<lparr>er_receipts = map (\<lambda>r. r\<lparr>rc_state_root := root\<rparr>) rs,
      er_all_cycles_used = fold (\<lambda>r a. a + rc_cycles_used r) rs 0, er_state_root = root\<rparr>"
    have eq: "r = Inr ?resp" "ex' = ?ex"
      using run h1 k1 t Inr h2 k3 c(1) by (simp_all add: exec_def executor_commit_def)
    have "exec_wf ?ex"
      using wf3 committed_names [OF c(2)] c(3) by (simp add: exec_wf_def del: set_map)
    moreover have "fold (\<lambda>r a. a + rc_cycles_used r) rs a = a + (\<Sum>rc\<leftarrow>rs. rc_cycles_used rc)" for a
      by (induction rs arbitrary: a) (simp_all add: add.assoc)
    moreover have "list_all2 (\<lambda>stx rc. receipt_of params stx rc \<and> rc_state_root rc = root) txs
        (map (\<lambda>r. r\<lparr>rc_state_root := root\<rparr>) rs)"
      using k2 Inr by (simp add: list_all2_map2)
    moreover have "\<forall>(n, s) \<in> set ss'. l_root (gs_layers view s) = l_block (gs_layers view s) \<and>
        l_root (gs_layers view rs') (str_bytes n) = present (key_bytes (ee_hash env) (mpt_root (gs_trie s)))"
      using c(5) committed_block [OF c(2)] by blast
    ultimately show ?thesis
      using c(4) unfolding eq by (simp add: comp_def)
  qed
qed

lemma read_kept:
  assumes "exec_wf ex"
  shows "exec_wf (snd (read params caller price request ex)) \<and>
    ex_mapping (snd (read params caller price request ex)) = ex_mapping ex \<and>
    fst (read params caller price request ex) \<noteq> Inl Panic"
proof -
  let ?ctx = "get_context None None caller price u64_max params request"
  obtain r c w where c: "call ex ExecRead ?ctx (ex_world ex) = (r, c, w)"
    by (cases "call ex ExecRead ?ctx (ex_world ex)") auto
  then show ?thesis
    using call_kept [OF assms c] exec_wf_world [OF assms] by (cases r) (auto simp: read_def)
qed

lemma exec_reachable_wf:
  assumes "exec_reachable env mapping ex"
    and "mapping_lawful mapping" "trie_lawful (ee_ops env) view" "codec_lawful (ee_hash env)"
  shows "exec_wf ex \<and> ex_mapping ex = mapping"
  using assms(1)
proof induction
  case (ran ex params txs)
  obtain r ex' where e: "exec env params txs ex = (r, ex')" by (cases "exec env params txs ex")
  show ?case using exec_cases [OF conjunct1 [OF ran.IH] assms(3,4) e] ran.IH e by simp
next
  case (queried ex params caller price request)
  then show ?case using read_kept [of ex] by metis
next
  case (opened mem root ex)
  show ?case by (rule with_root_wf [OF opened assms(2)])
qed

section \<open>Transactions that fail\<close>

text \<open>A world between transactions has empty caches; dropping or stashing them then changes nothing.\<close>

definition clean :: "('t, 'm) world \<Rightarrow> bool" where
  "clean w \<longleftrightarrow> (\<forall>(n, s) \<in> set (wd_states w). cache_map s = [])"

lemma clean_stash [simp]: "clean (states_stash w)"
  by (auto simp: clean_def states_stash_def stash_def)

lemma clean_revert [simp]: "clean (states_revert_cache w)"
  by (auto simp: clean_def states_revert_cache_def revert_cache_def)

lemma map_pair_idem: "(\<And>n s. (n, s) \<in> set ss \<Longrightarrow> f s = s) \<Longrightarrow> map (\<lambda>(n, s). (n, f s)) ss = ss"
  by (induction ss) auto

lemma clean_idem:
  assumes "clean w"
  shows "states_revert_cache w = w" "states_stash w = w"
proof -
  have "Service_State.revert_cache s = s" "stash s = s" if "(n, s) \<in> set (wd_states w)" for n s
    using assms that by (auto simp: clean_def revert_cache_def stash_def)
  then have "map (\<lambda>(n, s). (n, Service_State.revert_cache s)) (wd_states w) = wd_states w"
    "map (\<lambda>(n, s). (n, stash s)) (wd_states w) = wd_states w"
    by (simp_all add: map_pair_idem)
  then show "states_revert_cache w = w" "states_stash w = w"
    by (simp_all add: states_revert_cache_def states_stash_def)
qed

lemma revert_reach:
  assumes "sdk_reach w w'" "clean w"
  shows "wd_states (states_revert_cache w') = wd_states w"
proof -
  have "wd_states (states_revert_cache w') = wd_states (states_revert_cache w)"
    using sdk_reach_keeps [OF assms(1)] by (simp add: states_revert_cache_def block_states_def)
  then show ?thesis using clean_idem(1) [OF assms(2)] by simp
qed

lemma kan_clean: "kan h ctx w = (r, ctx', w') \<Longrightarrow> clean w'"
  by (auto simp: kan_def split: prod.splits option.splits)

lemma kan_all_clean: "kan_all hs ctx w = (r, ctx', w') \<Longrightarrow> clean w \<or> hs \<noteq> [] \<Longrightarrow> clean w'"
proof (induction hs arbitrary: ctx w r)
  case (Cons h hs)
  obtain r1 c1 w1 where h: "kan h ctx w = (r1, c1, w1)" by (cases "kan h ctx w") auto
  then have "clean w1" by (rule kan_clean)
  then show ?case using Cons h by (auto split: sum.splits prod.splits)
qed simp

lemma finish_tx_Inr:
  assumes "finish_tx (CommitHooks svcs) n ret ctx w = (Inr r, ctx', w')"
    and "is_error ret \<or> svcs \<noteq> []"
  shows "r = ret \<and> (\<exists>ra c3. tx_hooks_after (CommitHooks svcs)
      (if is_error ret then cancel (truncate_events n ctx) ''tx_exec_return_code_not_zero'' else ctx)
      (if is_error ret then states_revert_cache w else w) = (Inr ra, c3, w') \<and>
    ctx' = (if list_ex is_error ra then truncate_events n c3 else c3))"
proof -
  let ?c = "if is_error ret then cancel (truncate_events n ctx) ''tx_exec_return_code_not_zero'' else ctx"
  let ?w = "if is_error ret then states_revert_cache w else w"
  obtain r2 c2 w2 where h: "tx_hooks_after (CommitHooks svcs) ?c ?w = (r2, c2, w2)"
    by (cases "tx_hooks_after (CommitHooks svcs) ?c ?w") auto
  have "clean w2"
    using kan_all_clean [of "map svc_tx_hook_after svcs" ?c ?w r2 c2 w2] h assms(2)
    by (auto simp: tx_hooks_after_def split: if_splits)
  note idem = clean_idem [OF this]
  have "finish_tx (CommitHooks svcs) n ret ctx w =
      (case r2 of Inl e \<Rightarrow> (Inl e, c2, w2)
       | Inr resp \<Rightarrow> (Inr ret, if list_ex is_error resp then truncate_events n c2 else c2, w2))"
    using h by (cases "is_error ret") (simp_all add: finish_tx_def idem split: sum.split)
  with assms(1) h show ?thesis by (cases r2) auto
qed

lemma call_reach:
  assumes "exec_wf ex" "call ex t ctx w = (r, ctx', w')"
  shows "sdk_reach w w' \<and> ctx_reach ctx ctx'"
proof (cases "get_service ex (ctx_service_name ctx)")
  case (Inr svc)
  have "call_lawful (svc_read svc)" "call_lawful (svc_write svc)"
    using get_service_Inr [OF assms(1) Inr] by (simp_all add: service_lawful_def)
  then show ?thesis
    using assms(2) Inr by (cases t) (auto simp: call_def dest: call_lawfulD)
qed (use assms in \<open>auto simp: call_def\<close>)

text \<open>What a call that fails, or is skipped, leaves once it is reverted.\<close>

lemma run_tx_reverted:
  assumes wf: "exec_wf ex" and run: "run_tx ex ExecWrite resp (length (ctx_events ctx)) ctx w = (Inr ret, ctx', w')"
    and w: "clean w"
  shows "wd_states (states_revert_cache w') = wd_states w \<and>
    ctx_events (truncate_events (length (ctx_events ctx)) ctx') = ctx_events ctx"
proof (cases "list_ex is_error resp")
  case True
  then show ?thesis using run w clean_idem(1) [OF w] by (auto simp: run_tx_def truncate_events_def)
next
  case False
  obtain o1 c1 w1 where c: "call ex ExecWrite ctx w = (o1, c1, w1)" by (cases "call ex ExecWrite ctx w") auto
  note reach = call_reach [OF wf c]
  from ctx_reach_keeps [OF conjunct2 [OF reach]] obtain es where "ctx_events c1 = ctx_events ctx @ es" by blast
  then show ?thesis
    using run False c revert_reach [OF conjunct1 [OF reach] w]
    by (cases o1) (auto simp: run_tx_def truncate_events_def)
qed

section \<open>Properties\<close>

text \<open>
  (C34) A transaction that answers an error leaves what its hooks leave. If \<^verbatim>\<open>catch_call\<close> returns an
  answer with a non-zero code, whether from the service, from an unknown service or because a hook
  skipped the call, then the hooks after the transaction ran on exactly the states and the events the
  hooks before it had left, with the context marked as canceled, and their result is the result:
  nothing the transaction wrote or emitted survives.
\<close>

theorem failed_tx_leaves_hooks_only:
  assumes wf: "exec_wf ex"
    and run: "catch_call ex ExecWrite ctx w = (Inr ret, ctx', w')"
    and err: "is_error ret"
  shows "\<exists>hooks rb c1 w1 c2 w2 ra c3.
    get_tx_hooks ex ExecWrite = Inr hooks \<and>
    tx_hooks_before hooks ctx w = (Inr rb, c1, w1) \<and>
    wd_states w2 = wd_states (states_stash w1) \<and> ctx_events c2 = ctx_events c1 \<and> canceled c2 \<and>
    tx_hooks_after hooks c2 w2 = (Inr ra, c3, w') \<and>
    ctx' = (if list_ex is_error ra then truncate_events (length (ctx_events c1)) c3 else c3)"
proof -
  obtain svcs where svcs: "get_tx_hooks ex ExecWrite = Inr (CommitHooks svcs)" using get_tx_hooks_wf [OF wf] by blast
  obtain rb c1 w1 where b: "tx_hooks_before (CommitHooks svcs) ctx w = (Inr rb, c1, w1)"
    using run svcs by (auto simp: catch_call_def split: prod.splits sum.splits)
  let ?n = "length (ctx_events c1)"
  obtain ret' c2 w2 where m: "run_tx ex ExecWrite rb ?n c1 (states_stash w1) = (Inr ret', c2, w2)"
    and f: "finish_tx (CommitHooks svcs) ?n ret' c2 w2 = (Inr ret, ctx', w')"
    using run svcs b by (auto simp: catch_call_def Let_def split: prod.splits sum.splits)
  have ret: "ret' = ret"
    using f by (auto simp: finish_tx_def Let_def split: prod.splits sum.splits if_splits)
  note rev = run_tx_reverted [OF wf m clean_stash]
  from finish_tx_Inr [OF f] err ret obtain ra c3 where
    a: "tx_hooks_after (CommitHooks svcs) (cancel (truncate_events ?n c2) ''tx_exec_return_code_not_zero'')
      (states_revert_cache w2) = (Inr ra, c3, w')"
      "ctx' = (if list_ex is_error ra then truncate_events ?n c3 else c3)"
    by auto
  have "canceled (cancel (truncate_events ?n c2) ''tx_exec_return_code_not_zero'')"
    "ctx_events (cancel (truncate_events ?n c2) ''tx_exec_return_code_not_zero'') = ctx_events c1"
    using rev by (simp_all add: canceled_def cancel_def)
  with svcs b a rev show ?thesis by blast
qed

text \<open>
  (C36) The hooks after a transaction cannot undo it. When the transaction answered no error, the hooks
  after it run on what it wrote, and whatever they answer the result of \<^verbatim>\<open>catch_call\<close> is what they leave
  stashed: \<^verbatim>\<open>kan\<close> stashes after every hook, so the \<^verbatim>\<open>revert_cache\<close> for an error of a hook finds empty
  caches. Only the events of the transaction are dropped.
\<close>

theorem after_hook_error_keeps_writes:
  assumes wf: "exec_wf ex" and svcs: "list_service_name (ex_mapping ex) \<noteq> []"
    and run: "catch_call ex ExecWrite ctx w = (Inr ret, ctx', w')" and ok: "\<not> is_error ret"
  shows "\<exists>hooks rb c1 w1 c2 w2 ra c3.
    get_tx_hooks ex ExecWrite = Inr hooks \<and>
    tx_hooks_before hooks ctx w = (Inr rb, c1, w1) \<and>
    call ex ExecWrite c1 (states_stash w1) = (Some ret, c2, w2) \<and>
    tx_hooks_after hooks c2 w2 = (Inr ra, c3, w') \<and>
    ctx' = (if list_ex is_error ra then truncate_events (length (ctx_events c1)) c3 else c3)"
proof -
  obtain ss where ss: "get_tx_hooks ex ExecWrite = Inr (CommitHooks ss)"
    and coll: "res_collect (get_service ex) (list_service_name (ex_mapping ex)) = Inr ss"
    using get_tx_hooks_wf [OF wf] by blast
  have "ss \<noteq> []"
    using coll svcs by (cases "list_service_name (ex_mapping ex)") (auto split: sum.splits)
  obtain rb c1 w1 where b: "tx_hooks_before (CommitHooks ss) ctx w = (Inr rb, c1, w1)"
    using run ss by (auto simp: catch_call_def split: prod.splits sum.splits)
  let ?n = "length (ctx_events c1)"
  obtain ret' c2 w2 where m: "run_tx ex ExecWrite rb ?n c1 (states_stash w1) = (Inr ret', c2, w2)"
    and f: "finish_tx (CommitHooks ss) ?n ret' c2 w2 = (Inr ret, ctx', w')"
    using run ss b by (auto simp: catch_call_def Let_def split: prod.splits sum.splits)
  from finish_tx_Inr [OF f] \<open>ss \<noteq> []\<close> ok obtain ra c3 where ret: "ret' = ret" and
    a: "tx_hooks_after (CommitHooks ss) c2 w2 = (Inr ra, c3, w')"
      "ctx' = (if list_ex is_error ra then truncate_events ?n c3 else c3)"
    by auto
  have "call ex ExecWrite c1 (states_stash w1) = (Some ret, c2, w2)"
    using m ret ok by (auto simp: run_tx_def split: if_splits prod.splits option.splits)
  with ss b a show ?thesis by blast
qed

text \<open>
  (C35) Well-formedness of the executor. An executor opened at any root, after any number of blocks and
  queries, has one state and one service object for every listed service and well-formed states; so a
  block never panics and never misses a service: its execution succeeds or stops because a service or
  one of its transaction hooks panicked. A query never panics.
\<close>

theorem executor_well_formed:
  assumes "exec_reachable env mapping ex"
    and "mapping_lawful mapping" and "trie_lawful (ee_ops env) view" and "codec_lawful (ee_hash env)"
  shows "exec_wf ex \<and> tx_result (fst (exec env params txs ex)) \<and>
    fst (read params caller price request ex) \<noteq> Inl Panic"
proof -
  note wf = conjunct1 [OF exec_reachable_wf [OF assms]]
  obtain r ex' where e: "exec env params txs ex = (r, ex')" by (cases "exec env params txs ex")
  have "tx_result r" using exec_cases [OF wf assms(3,4) e] by blast
  then show ?thesis using wf e read_kept [OF wf, of params caller price request] by simp
qed

text \<open>
  (C33) The result of a block. When a well-formed executor runs a block over a lawful trie, there is one
  receipt for every transaction, in their order, with its hash, the height of the block, the service
  and method it called and no more cycles than its limit; every receipt carries the state root of the
  block; the cycles add up to the total; and in the new state every service's block version is
  committed, with its root recorded under its name in the root state, whose root is the state root.
\<close>

theorem exec_block_spec:
  assumes wf: "exec_wf ex" and law: "trie_lawful (ee_ops env) view" and hc: "codec_lawful (ee_hash env)"
    and run: "exec env params txs ex = (Inr resp, ex')"
  shows "list_all2 (\<lambda>stx rc. receipt_of params stx rc \<and> rc_state_root rc = er_state_root resp) txs (er_receipts resp) \<and>
    er_all_cycles_used resp = (\<Sum>rc\<leftarrow>er_receipts resp. rc_cycles_used rc) \<and>
    mpt_root (gs_trie (ex_root_state ex')) = er_state_root resp \<and>
    (\<forall>(n, s) \<in> set (wd_states (ex_world ex')).
       l_root (gs_layers view s) = l_block (gs_layers view s) \<and>
       l_root (gs_layers view (ex_root_state ex')) (str_bytes n) =
         present (key_bytes (ee_hash env) (mpt_root (gs_trie s))))"
  using exec_cases [OF wf law hc run] by blast

section \<open>A concrete executor\<close>

text \<open>
  One service with two methods that store their payload, one of which then answers an error, and a
  hook after the transaction that objects to the payload \<^verbatim>\<open>bad\<close>.
\<close>

type_synonym example_world = "((bytes, bytes) hash_map, unit) world"

definition path_of :: "string \<Rightarrow> rust_type" where
  "path_of name = PathType \<lparr>leading_colon = False, path_segments = [Segment name False]\<rparr>"

definition example_method ::
    "string \<Rightarrow> string service_response \<Rightarrow> (string, string, example_world) impl_item_method" where
  "example_method name answer =
     \<lparr>im_vis = Inherited, im_attrs = [[''write'']], im_ident = name,
      im_inputs = [Receiver True True, Typed (PatIdent ''ctx'') (path_of ''ServiceContext''),
        Typed (PatIdent ''payload'') (path_of ''String'')],
      im_output = Some (path_of ''ServiceResponse''),
      im_method = (\<lambda>p ctx w.
        (case sdk_set_value bytes_codec string_codec [1] (the p) ''kv'' w of
           (None, w) \<Rightarrow> (None, ctx, w)
         | (Some _, w) \<Rightarrow> (Some answer, ctx, w))),
      im_hook = (\<lambda>_ w. (Some (), w)), im_genesis = (\<lambda>_ w. (Some (), w))\<rparr>"

definition example_veto :: "(string, string, example_world) impl_item_method" where
  "example_veto =
     \<lparr>im_vis = Inherited, im_attrs = [[''tx_hook_after'']], im_ident = ''veto'',
      im_inputs = [Receiver True True, Typed (PatIdent ''ctx'') (path_of ''ServiceContext'')],
      im_output = Some (path_of ''ServiceResponse''),
      im_method = (\<lambda>p ctx w.
        (Some (if ctx_service_payload ctx = ''bad'' then from_error '''' 9 ''veto'' else from_succeed ''''), ctx, w)),
      im_hook = (\<lambda>_ w. (Some (), w)), im_genesis = (\<lambda>_ w. (Some (), w))\<rparr>"

definition example_items :: "(string, string, example_world) impl_item_method list" where
  "example_items =
     [example_method ''put'' (from_succeed ''''), example_method ''fail'' (from_error '''' 7 ''no''), example_veto]"

definition example_serde :: "(string, string) serde" where
  "example_serde = \<lparr>sj_from_str = (\<lambda>_. Some), sj_to_string = Some\<rparr>"

definition example_service :: "example_world service" where
  "example_service = projr (gen_service_code example_serde example_items)"

definition example_mapping :: "((bytes, bytes) hash_map, unit) service_mapping" where
  "example_mapping =
     \<lparr>list_service_name = [''kv''],
      mapping_get_service = (\<lambda>name w.
        (if name = ''kv'' then Inr example_service else Inl (Err (NotFoundService name)), w))\<rparr>"

definition example_env :: "(bytes, bytes) hash_map exec_env" where
  "example_env = \<lparr>ee_ops = list_trie, ee_digest = (\<lambda>_. replicate 32 0), ee_hash = raw_hash_codec\<rparr>"

definition example_state :: "(bytes, bytes) hash_map general_service_state" where
  "example_state = gs_new (mpt_new list_trie (\<lambda>_. replicate 32 0))"

definition example_executor :: "((bytes, bytes) hash_map, unit) executor" where
  "example_executor =
     \<lparr>ex_mapping = example_mapping, ex_world = \<lparr>wd_states = [(''kv'', example_state)], wd_mem = ()\<rparr>,
      ex_root_state = gs_new \<lparr>mpt_root = Hash (replicate 32 0), mpt_inner = []\<rparr>,
      ex_services = [(''kv'', example_service)]\<rparr>"

definition example_stx :: "string \<Rightarrow> string \<Rightarrow> signed_transaction" where
  "example_stx method payload =
     \<lparr>stx_raw = \<lparr>raw_chain_id = Hash [], raw_cycles_price = 1, raw_cycles_limit = 100, raw_nonce = Hash [3],
        raw_request = \<lparr>req_method = method, req_service_name = ''kv'', req_payload = payload\<rparr>,
        raw_timeout = 20, raw_sender = Address (replicate 20 0)\<rparr>,
      stx_tx_hash = Hash [5], stx_pubkey = [], stx_signature = []\<rparr>"

definition example_params :: executor_params where
  "example_params =
     \<lparr>ep_state_root = Hash (replicate 32 0), ep_height = 4, ep_timestamp = 9, ep_cycles_limit = 1000,
      ep_proposer = Address (replicate 20 0)\<rparr>"

lemma example_gen: "gen_service_code example_serde example_items = Inr example_service"
proof -
  have "\<exists>svc. gen_service_code example_serde example_items = Inr svc"
    by (simp add: gen_service_code_def example_items_def find_genesis_def unique_method_def attr_segments_def
        example_method_def example_veto_def get_genesis_body_def extract_hooks_def List.map_filter_simps
        find_service_method_def extract_method_meta_def payload_ident_def path_of_def get_ident_def expect_def)
  then show ?thesis by (auto simp: example_service_def)
qed

lemma example_lawful: "service_lawful example_service"
proof (rule generated_lawful [OF example_gen])
  have "call_lawful (im_method (example_method n a) p)" for n a p
    by (simp add: example_method_def call_lawful_def case_prod_beta
        sdk_lawful(4) [unfolded run_lawful_def, rule_format] split: option.split)
  moreover have "call_lawful (im_method example_veto p)" for p
    by (simp add: example_veto_def call_lawful_answer)
  ultimately show "\<forall>i \<in> set example_items. item_lawful i"
    by (simp add: example_items_def item_lawful_def run_lawful_answer)
      (simp add: example_method_def example_veto_def run_lawful_answer)
qed

lemma example_mapping_lawful: "mapping_lawful example_mapping"
  by (simp add: mapping_lawful_def example_mapping_def example_lawful)

lemma example_opened: "with_root example_env () (Hash (replicate 32 0)) example_mapping = Inr example_executor"
  by (simp add: with_root_def example_env_def example_mapping_def mpt_from_def list_trie_def map_trie_err_def
      state_err_def state_get_def string_codec_def map_codec_err_def get_bytes_value_def gs_new_def mpt_get_def
      example_executor_def example_state_def)

lemma example_reachable: "exec_reachable example_env example_mapping example_executor"
  by (rule exec_reachable.opened [OF example_opened])

lemma example_env_laws: "trie_lawful (ee_ops example_env) hm_get" "codec_lawful (ee_hash example_env)"
  by (simp_all add: example_env_def list_trie_lawful raw_hash_codec_lawful)

lemma example_wf: "exec_wf example_executor"
  using with_root_wf [OF example_opened example_mapping_lawful] by blast

definition example_context_of :: "string \<Rightarrow> string \<Rightarrow> service_context" where
  "example_context_of method payload =
     get_context None None (Address []) 1 100 example_params (raw_request (stx_raw (example_stx method payload)))"

theorem failed_tx_leaves_hooks_only_witness:
  "\<exists>hooks rb c1 w1 c2 w2 ra c3 ctx' w'.
    catch_call example_executor ExecWrite (example_context_of ''fail'' ''x'') (ex_world example_executor) =
      (Inr (from_error '''' 7 ''no''), ctx', w') \<and>
    tx_hooks_before hooks (example_context_of ''fail'' ''x'') (ex_world example_executor) = (Inr rb, c1, w1) \<and>
    wd_states w2 = wd_states (states_stash w1) \<and> tx_hooks_after hooks c2 w2 = (Inr ra, c3, w')"
proof -
  let ?c = "catch_call example_executor ExecWrite (example_context_of ''fail'' ''x'') (ex_world example_executor)"
  have "fst ?c = Inr (from_error '''' 7 ''no'')" by code_simp
  then obtain ctx' w' where c: "?c = (Inr (from_error '''' 7 ''no''), ctx', w')" by (cases ?c) auto
  from failed_tx_leaves_hooks_only [OF example_wf c] c show ?thesis by simp blast
qed

theorem after_hook_error_keeps_writes_witness:
  "\<exists>hooks c2 w2 ra c3 ctx' w'.
    catch_call example_executor ExecWrite (example_context_of ''put'' ''bad'') (ex_world example_executor) =
      (Inr (from_succeed ''''), ctx', w') \<and>
    tx_hooks_after hooks c2 w2 = (Inr ra, c3, w') \<and> list_ex is_error ra \<and>
    map (\<lambda>(n, s). (n, stash_map s)) (wd_states w') = [(''kv'', [([1], str_bytes ''bad'')])]"
proof -
  let ?ctx = "example_context_of ''put'' ''bad''"
  let ?c = "catch_call example_executor ExecWrite ?ctx (ex_world example_executor)"
  have "(case ?c of (r, ctx, w) \<Rightarrow> r = Inr (from_succeed '''') \<and>
       map (\<lambda>(n, s). (n, stash_map s)) (wd_states w) = [(''kv'', [([1], str_bytes ''bad'')])])"
    by code_simp
  then obtain ctx' w' where c: "?c = (Inr (from_succeed ''''), ctx', w')" and
    w': "map (\<lambda>(n, s). (n, stash_map s)) (wd_states w') = [(''kv'', [([1], str_bytes ''bad'')])]"
    by (cases ?c) auto
  have "list_service_name (ex_mapping example_executor) \<noteq> []" by code_simp
  from after_hook_error_keeps_writes [OF example_wf this c] obtain hooks rb c1 w1 c2 w2 ra c3 where
    h: "get_tx_hooks example_executor ExecWrite = Inr hooks"
      "tx_hooks_before hooks ?ctx (ex_world example_executor) = (Inr rb, c1, w1)"
      "call example_executor ExecWrite c1 (states_stash w1) = (Some (from_succeed ''''), c2, w2)"
      "tx_hooks_after hooks c2 w2 = (Inr ra, c3, w')"
    by (simp add: is_error_simps) blast
  have "(case get_tx_hooks example_executor ExecWrite of Inr hooks \<Rightarrow>
      (case tx_hooks_before hooks ?ctx (ex_world example_executor) of (_, c1, w1) \<Rightarrow>
        (case call example_executor ExecWrite c1 (states_stash w1) of (_, c2, w2) \<Rightarrow>
          (case tx_hooks_after hooks c2 w2 of (Inr ra, _) \<Rightarrow> list_ex is_error ra))))"
    by code_simp
  then have err: "list_ex is_error ra" using h by simp
  show ?thesis by (intro exI conjI) (rule c, rule h(4), rule err, rule w')
qed

theorem executor_well_formed_witness:
  "exec_wf example_executor \<and>
   tx_result (fst (exec example_env example_params [example_stx ''put'' ''x''] example_executor)) \<and>
   fst (read example_params (Address []) 1 (raw_request (stx_raw (example_stx ''put'' ''x''))) example_executor) \<noteq> Inl Panic"
  using executor_well_formed [OF example_reachable example_mapping_lawful example_env_laws] by blast

theorem exec_block_spec_witness:
  "\<exists>resp ex'. exec example_env example_params [example_stx ''put'' ''x''] example_executor = (Inr resp, ex') \<and>
     map rc_tx_hash (er_receipts resp) = [Hash [5]] \<and> map rc_state_root (er_receipts resp) = [er_state_root resp]"
proof -
  let ?e = "exec example_env example_params [example_stx ''put'' ''x''] example_executor"
  have "is_ok (fst ?e)" by code_simp
  then obtain resp ex' where e: "?e = (Inr resp, ex')" by (cases ?e) (auto simp: is_ok_def split: sum.splits)
  from exec_block_spec [OF example_wf example_env_laws e]
  have "list_all2 (\<lambda>stx rc. receipt_of example_params stx rc \<and> rc_state_root rc = er_state_root resp)
      [example_stx ''put'' ''x''] (er_receipts resp)" by blast
  then have r: "map rc_tx_hash (er_receipts resp) = [Hash [5]]" "map rc_state_root (er_receipts resp) = [er_state_root resp]"
    by (auto simp: list_all2_Cons1 receipt_of_def example_stx_def)
  show ?thesis by (intro exI conjI) (rule e, rule r, rule r)
qed

theorem generated_dispatch_witness:
  "svc_write example_service (example_context_of ''fail'' ''x'') (ex_world example_executor) =
     call_method example_serde (example_method ''fail'' (from_error '''' 7 ''no''))
       (example_context_of ''fail'' ''x'') (ex_world example_executor)"
proof -
  have "distinct (map im_ident example_items)" by code_simp
  moreover have "method_named example_items False ''fail'' = Some (example_method ''fail'' (from_error '''' 7 ''no''))"
    by (simp add: method_named_def example_items_def example_method_def method_kind_def attr_segments_def)
  moreover have "ctx_service_method (example_context_of ''fail'' ''x'') = ''fail''"
    by (simp add: example_context_of_def get_context_def example_stx_def)
  ultimately show ?thesis using generated_dispatch [OF example_gen] by simp
qed

end
