(* ===== verification/Trie_DB.thy ===== *)
theory Trie_DB
  imports Muta_Prelude
begin

text \<open>
  The database of the trie, \<^verbatim>\<open>RocksTrieDB\<close> of \<^verbatim>\<open>framework/src/binding/state/trie_db.rs\<close>: a RocksDB
  handle with an unbounded read/write cache that \<^verbatim>\<open>flush\<close> cuts back to \<^verbatim>\<open>cache_size\<close> entries. The
  database and the random generator are arguments. An operation returns its result together with the
  new value of the structure, since a failing write has already changed the cache.
\<close>

datatype rocks_error = Store | RocksDB string | InsertParameter | BatchLengthMismatch

text \<open>A write batch is a list of puts (\<^const>\<open>Some\<close> value) and deletes (\<^const>\<open>None\<close>).\<close>

record 'd rocks_ops =
  rdb_get :: "'d \<Rightarrow> bytes \<Rightarrow> string + bytes option"
  rdb_put :: "bytes \<Rightarrow> bytes \<Rightarrow> 'd \<Rightarrow> string + 'd"
  rdb_delete :: "bytes \<Rightarrow> 'd \<Rightarrow> string + 'd"
  rdb_write :: "(bytes \<times> bytes option) list \<Rightarrow> 'd \<Rightarrow> string + 'd"

record 'd rocks_trie_db =
  rt_light :: bool
  rt_db :: 'd
  rt_cache_size :: nat
  rt_cache :: "(bytes, bytes) hash_map"

definition rt_new :: "'d \<Rightarrow> bool \<Rightarrow> nat \<Rightarrow> 'd rocks_trie_db" where
  "rt_new db light cache_size =
     \<lparr>rt_light = light, rt_db = db, rt_cache_size = cache_size, rt_cache = []\<rparr>"

definition rt_get ::
    "'d rocks_ops \<Rightarrow> bytes \<Rightarrow> 'd rocks_trie_db \<Rightarrow> (rocks_error, bytes option) result \<times> 'd rocks_trie_db" where
  "rt_get ops key r =
     (case hm_get (rt_cache r) key of
        Some v \<Rightarrow> (Inr (Some v), r)
      | None \<Rightarrow>
          (case rdb_get ops (rt_db r) key of
             Inl _ \<Rightarrow> (Inl (Err Store), r)
           | Inr None \<Rightarrow> (Inr None, r)
           | Inr (Some v) \<Rightarrow> (Inr (Some v), r\<lparr>rt_cache := hm_insert key v (rt_cache r)\<rparr>)))"

definition rt_contains ::
    "'d rocks_ops \<Rightarrow> bytes \<Rightarrow> 'd rocks_trie_db \<Rightarrow> (rocks_error, bool) result \<times> 'd rocks_trie_db" where
  "rt_contains ops key r =
     (if hm_contains (rt_cache r) key then (Inr True, r)
      else
        (case rdb_get ops (rt_db r) key of
           Inl _ \<Rightarrow> (Inl (Err Store), r)
         | Inr (Some v) \<Rightarrow> (Inr True, r\<lparr>rt_cache := hm_insert key v (rt_cache r)\<rparr>)
         | Inr None \<Rightarrow> (Inr False, r)))"

definition rt_insert ::
    "'d rocks_ops \<Rightarrow> bytes \<Rightarrow> bytes \<Rightarrow> 'd rocks_trie_db \<Rightarrow> (rocks_error, unit) result \<times> 'd rocks_trie_db" where
  "rt_insert ops key v r =
     (let r = r\<lparr>rt_cache := hm_insert key v (rt_cache r)\<rparr> in
      case rdb_put ops key v (rt_db r) of
        Inl _ \<Rightarrow> (Inl (Err Store), r)
      | Inr d \<Rightarrow> (Inr (), r\<lparr>rt_db := d\<rparr>))"

definition rt_insert_batch ::
    "'d rocks_ops \<Rightarrow> bytes list \<Rightarrow> bytes list \<Rightarrow> 'd rocks_trie_db
     \<Rightarrow> (rocks_error, unit) result \<times> 'd rocks_trie_db" where
  "rt_insert_batch ops keys vals r =
     (if length keys \<noteq> length vals then (Inl (Err BatchLengthMismatch), r)
      else
        (let batch = map (\<lambda>(k, v). (k, Some v)) (zip keys vals);
             r = r\<lparr>rt_cache := fold (\<lambda>(k, v). hm_insert k v) (zip keys vals) (rt_cache r)\<rparr> in
         case rdb_write ops batch (rt_db r) of
           Inl _ \<Rightarrow> (Inl (Err Store), r)
         | Inr d \<Rightarrow> (Inr (), r\<lparr>rt_db := d\<rparr>)))"

definition rt_remove ::
    "'d rocks_ops \<Rightarrow> bytes \<Rightarrow> 'd rocks_trie_db \<Rightarrow> (rocks_error, unit) result \<times> 'd rocks_trie_db" where
  "rt_remove ops key r =
     (if rt_light r then
        (let r = r\<lparr>rt_cache := hm_remove key (rt_cache r)\<rparr> in
         case rdb_delete ops key (rt_db r) of
           Inl _ \<Rightarrow> (Inl (Err Store), r)
         | Inr d \<Rightarrow> (Inr (), r\<lparr>rt_db := d\<rparr>))
      else (Inr (), r))"

definition rt_remove_batch ::
    "'d rocks_ops \<Rightarrow> bytes list \<Rightarrow> 'd rocks_trie_db \<Rightarrow> (rocks_error, unit) result \<times> 'd rocks_trie_db" where
  "rt_remove_batch ops keys r =
     (if rt_light r then
        (let batch = map (\<lambda>k. (k, None)) keys;
             r = r\<lparr>rt_cache := fold hm_remove keys (rt_cache r)\<rparr> in
         case rdb_write ops batch (rt_db r) of
           Inl _ \<Rightarrow> (Inl (Err Store), r)
         | Inr d \<Rightarrow> (Inr (), r\<lparr>rt_db := d\<rparr>))
      else (Inr (), r))"

text \<open>
  \<^verbatim>\<open>rand_remove_list\<close>: \<^verbatim>\<open>gen g n\<close> is \<^verbatim>\<open>rng.gen_range(0, n)\<close>, which panics for an empty range. The
  index list leaves out the last key.
\<close>

fun pick_indices :: "('g \<Rightarrow> nat \<Rightarrow> nat \<times> 'g) \<Rightarrow> 'g \<Rightarrow> nat list \<Rightarrow> nat \<Rightarrow> nat \<Rightarrow> nat list option" where
  "pick_indices gen g idx_list len 0 = Some []"
| "pick_indices gen g idx_list len (Suc num) =
     (if len = 0 then None
      else
        (let (tmp, g') = gen g len in
         if tmp \<ge> length idx_list then None
         else map_option ((#) (idx_list ! tmp))
           (pick_indices gen g' (take tmp idx_list @ drop (Suc tmp) idx_list) (len - 1) num)))"

definition rand_remove_list :: "('g \<Rightarrow> nat \<Rightarrow> nat \<times> 'g) \<Rightarrow> 'g \<Rightarrow> 'k list \<Rightarrow> nat \<Rightarrow> 'k list option" where
  "rand_remove_list gen seed keys num =
     (if keys = [] then None
      else map_option (map (\<lambda>i. keys ! i))
        (pick_indices gen seed [0..<length keys - 1] (length keys - 1) num))"

definition rt_flush ::
    "('g \<Rightarrow> nat \<Rightarrow> nat \<times> 'g) \<Rightarrow> 'g \<Rightarrow> 'd rocks_trie_db
     \<Rightarrow> (rocks_error, unit) result \<times> 'd rocks_trie_db" where
  "rt_flush gen seed r =
     (let len = length (rt_cache r) in
      if len \<le> rt_cache_size r then (Inr (), r)
      else
        (case rand_remove_list gen seed (hm_keys (rt_cache r)) (len - rt_cache_size r) of
           None \<Rightarrow> (Inl Panic, r)
         | Some remove_list \<Rightarrow> (Inr (), r\<lparr>rt_cache := fold hm_remove remove_list (rt_cache r)\<rparr>)))"

section \<open>What is used of the database and the generator\<close>

fun apply_batch :: "(bytes \<times> bytes option) list \<Rightarrow> (bytes \<Rightarrow> bytes option) \<Rightarrow> bytes \<Rightarrow> bytes option" where
  "apply_batch [] f = f"
| "apply_batch ((k, v) # ops) f = apply_batch ops (f(k := v))"

text \<open>
  \<^verbatim>\<open>view\<close> is the content of the database: a read answers it, a successful put, delete or batch
  updates it. A failed one leaves the handle as it was, as RocksDB's atomic writes do.
\<close>

definition rocks_lawful :: "'d rocks_ops \<Rightarrow> ('d \<Rightarrow> bytes \<Rightarrow> bytes option) \<Rightarrow> bool" where
  "rocks_lawful ops view \<longleftrightarrow>
     (\<forall>d k r. rdb_get ops d k = Inr r \<longrightarrow> r = view d k) \<and>
     (\<forall>d k v d'. rdb_put ops k v d = Inr d' \<longrightarrow> view d' = (view d)(k := Some v)) \<and>
     (\<forall>d k d'. rdb_delete ops k d = Inr d' \<longrightarrow> view d' = (view d)(k := None)) \<and>
     (\<forall>d b d'. rdb_write ops b d = Inr d' \<longrightarrow> view d' = apply_batch b (view d))"

definition gen_range_lawful :: "('g \<Rightarrow> nat \<Rightarrow> nat \<times> 'g) \<Rightarrow> bool" where
  "gen_range_lawful gen \<longleftrightarrow> (\<forall>g n. 0 < n \<longrightarrow> fst (gen g n) < n)"

text \<open>The cache only holds what the database holds.\<close>

definition rt_coherent :: "('d \<Rightarrow> bytes \<Rightarrow> bytes option) \<Rightarrow> 'd rocks_trie_db \<Rightarrow> bool" where
  "rt_coherent view r \<longleftrightarrow> (\<forall>k v. hm_get (rt_cache r) k = Some v \<longrightarrow> view (rt_db r) k = Some v)"

definition rt_inv :: "('d \<Rightarrow> bytes \<Rightarrow> bytes option) \<Rightarrow> 'd rocks_trie_db \<Rightarrow> bool" where
  "rt_inv view r \<longleftrightarrow> rt_coherent view r \<and> hm_wf (rt_cache r)"

section \<open>Lemmas\<close>

lemma fold_insert_get:
  "hm_get (fold (\<lambda>(k, v). hm_insert k v) kvs m) k =
     (apply_batch (map (\<lambda>(k, v). (k, Some v)) kvs) (hm_get m)) k"
proof (induction kvs arbitrary: m)
  case (Cons e kvs)
  obtain a b where "e = (a, b)" by fastforce
  moreover have "hm_get (hm_insert a b m) = (hm_get m)(a := Some b)" for a b by auto
  ultimately show ?case using Cons by simp
qed simp

lemma fold_remove_get:
  "hm_get (fold hm_remove ks m) k = (if k \<in> set ks then None else hm_get m k)"
  by (induction ks arbitrary: m) auto

lemma apply_batch_le:
  assumes "\<And>k v. f k = Some v \<Longrightarrow> g k = Some v" "apply_batch b f k = Some v"
  shows "apply_batch b g k = Some v"
  using assms
proof (induction b f arbitrary: g rule: apply_batch.induct)
  case (2 a c b f)
  have "(g(a := c)) x = Some y" if "(f(a := c)) x = Some y" for x y
    using 2(2) that by (auto split: if_splits)
  from 2(1) [of "g(a := c)", OF this] 2(3) show ?case by (simp add: fun_upd_def)
qed simp

lemma apply_batch_deletes:
  "apply_batch (map (\<lambda>k. (k, None)) ks) f k = (if k \<in> set ks then None else f k)"
  by (induction ks arbitrary: f) auto

lemma pick_indices_ok:
  assumes "gen_range_lawful gen" "length idxs = len" "num \<le> len" "distinct idxs"
  shows "\<exists>js. pick_indices gen g idxs len num = Some js \<and> length js = num \<and> distinct js \<and> set js \<subseteq> set idxs"
  using assms(2-4)
proof (induction num arbitrary: g idxs len)
  case (Suc num)
  obtain tmp g' where t: "gen g len = (tmp, g')" by fastforce
  have "tmp < len" using assms(1) t Suc.prems unfolding gen_range_lawful_def by (metis fst_conv less_Suc_eq_0_disj less_le_trans)
  let ?rest = "take tmp idxs @ drop (Suc tmp) idxs"
  have split: "idxs = take tmp idxs @ idxs ! tmp # drop (Suc tmp) idxs"
    using \<open>tmp < len\<close> Suc.prems by (simp add: id_take_nth_drop)
  then have d: "distinct (take tmp idxs @ idxs ! tmp # drop (Suc tmp) idxs)"
    using Suc.prems(3) by metis
  then have "distinct ?rest" "idxs ! tmp \<notin> set ?rest" by auto
  moreover have "length ?rest = len - 1" "num \<le> len - 1" using \<open>tmp < len\<close> Suc.prems by auto
  ultimately obtain js where "pick_indices gen g' ?rest (len - 1) num = Some js" "length js = num"
    "distinct js" "set js \<subseteq> set ?rest"
    using Suc.IH [of ?rest "len - 1" g'] by blast
  moreover have "set ?rest \<subseteq> set idxs" "idxs ! tmp \<in> set idxs"
    using \<open>tmp < len\<close> Suc.prems by (auto dest: in_set_takeD in_set_dropD)
  ultimately show ?case
    using t \<open>tmp < len\<close> Suc.prems \<open>idxs ! tmp \<notin> set ?rest\<close> by (auto simp: Let_def)
qed simp

lemma length_hm_remove:
  "hm_wf m \<Longrightarrow> k \<in> fst ` set m \<Longrightarrow> length (hm_remove k m) = length m - 1"
proof (induction m)
  case (Cons e m)
  then show ?case
  proof (cases "fst e = k")
    case True
    then have "k \<notin> fst ` set m" using Cons.prems by auto
    then have "hm_remove k m = m" by (induction m) auto
    then show ?thesis using True by simp
  next
    case False
    then have "k \<in> fst ` set m" using Cons.prems by auto
    then have "0 < length m" by (cases m) auto
    then show ?thesis using False Cons \<open>k \<in> fst ` set m\<close> by simp
  qed
qed simp

lemma length_fold_hm_remove:
  assumes "hm_wf m" "distinct ks" "set ks \<subseteq> fst ` set m"
  shows "length (fold hm_remove ks m) = length m - length ks"
  using assms
proof (induction ks arbitrary: m)
  case (Cons k ks)
  have "hm_wf (hm_remove k m)" using Cons.prems(1) by (rule hm_wf_remove)
  moreover have "set ks \<subseteq> fst ` set (hm_remove k m)"
    using Cons.prems(2,3) by (auto simp: hm_keys_remove)
  moreover have "length (hm_remove k m) = length m - 1"
    using Cons.prems by (intro length_hm_remove) auto
  ultimately show ?case using Cons.IH [of "hm_remove k m"] Cons.prems(2) by simp
qed simp

lemma rand_remove_list_ok:
  assumes "gen_range_lawful gen" "num < length keys" "distinct keys"
  shows "\<exists>ks. rand_remove_list gen seed keys num = Some ks \<and> length ks = num \<and> distinct ks \<and>
    set ks \<subseteq> set keys"
proof -
  have "num \<le> length keys - 1" using assms(2) by simp
  from pick_indices_ok [OF assms(1) _ this, of "[0..<length keys - 1]" seed]
  obtain js where js: "pick_indices gen seed [0..<length keys - 1] (length keys - 1) num = Some js"
    "length js = num" "distinct js" "set js \<subseteq> {0..<length keys - 1}"
    by auto
  have lt: "j < length keys" if "j \<in> set js" for j
    using js(4) that by fastforce
  have "distinct (map ((!) keys) js)"
    using js(3) assms(3) lt by (auto simp: distinct_map inj_on_def nth_eq_iff_index_eq)
  moreover have "set (map ((!) keys) js) \<subseteq> set keys"
    using lt by auto
  ultimately show ?thesis
    using js assms(2) by (auto simp: rand_remove_list_def)
qed

lemma pick_all_panics:
  assumes "gen_range_lawful gen" "length idxs = len" "len < num"
  shows "pick_indices gen g idxs len num = None"
  using assms(2,3)
proof (induction num arbitrary: g idxs len)
  case (Suc num)
  show ?case
  proof (cases "len = 0")
    case False
    obtain tmp g' where t: "gen g len = (tmp, g')" by fastforce
    then have "tmp < len" using assms(1) False by (metis gen_range_lawful_def fst_conv neq0_conv)
    then show ?thesis using t Suc by (auto simp: Let_def min_def)
  qed simp
qed simp

lemma rocks_lawful_get: "rocks_lawful ops view \<Longrightarrow> rdb_get ops d k = Inr r \<Longrightarrow> view d k = r"
  by (simp add: rocks_lawful_def)

subsection \<open>Every operation against the content of the database\<close>

lemma apply_batch_puts:
  "apply_batch (map (\<lambda>(k, v). (k, Some v)) (zip ks vs)) f = f(ks [\<mapsto>] vs)"
proof (induction ks arbitrary: vs f)
  case (Cons k ks)
  then show ?case by (cases vs) (simp_all add: fun_upd_def [symmetric])
qed simp

lemma hm_wf_fold_pairs: "hm_wf m \<Longrightarrow> hm_wf (fold (\<lambda>(k, v). hm_insert k v) kvs m)"
proof (induction kvs arbitrary: m)
  case (Cons e kvs)
  then show ?case by (cases e) (simp add: hm_wf_insert)
qed simp

lemma hm_wf_fold_remove: "hm_wf m \<Longrightarrow> hm_wf (fold hm_remove ks m)"
  by (induction ks arbitrary: m) (simp_all add: hm_wf_remove)

lemma rt_get_spec:
  assumes "rocks_lawful ops view" "rt_inv view r" "rt_get ops k r = (res, r')"
  shows "rt_db r' = rt_db r" "rt_inv view r'" "res = Inr (view (rt_db r) k) \<or> res = Inl (Err Store)"
    "res = Inl (Err Store) \<longleftrightarrow> hm_get (rt_cache r) k = None \<and> \<not> is_ok (rdb_get ops (rt_db r) k)"
proof -
  note get = rocks_lawful_get [OF assms(1), of "rt_db r" k]
  note inv = assms(2) [unfolded rt_inv_def rt_coherent_def]
  show "rt_db r' = rt_db r" "rt_inv view r'"
    using assms(3) inv get
    by (auto simp: rt_get_def rt_inv_def rt_coherent_def hm_wf_insert split: option.splits sum.splits if_splits)
  show "res = Inr (view (rt_db r) k) \<or> res = Inl (Err Store)"
    "res = Inl (Err Store) \<longleftrightarrow> hm_get (rt_cache r) k = None \<and> \<not> is_ok (rdb_get ops (rt_db r) k)"
    using assms(3) inv get by (auto simp: rt_get_def is_ok_def split: option.splits sum.splits)
qed

lemma rt_contains_spec:
  assumes "rocks_lawful ops view" "rt_inv view r" "rt_contains ops k r = (res, r')"
  shows "rt_db r' = rt_db r" "rt_inv view r'"
    "res = Inr (view (rt_db r) k \<noteq> None) \<or> res = Inl (Err Store)"
    "res = Inl (Err Store) \<longleftrightarrow> hm_get (rt_cache r) k = None \<and> \<not> is_ok (rdb_get ops (rt_db r) k)"
proof -
  note get = rocks_lawful_get [OF assms(1), of "rt_db r" k]
  note inv = assms(2) [unfolded rt_inv_def rt_coherent_def]
  show "rt_db r' = rt_db r" "rt_inv view r'"
    using assms(3) inv get
    by (auto simp: rt_contains_def rt_inv_def rt_coherent_def hm_wf_insert
        split: option.splits sum.splits if_splits)
  show "res = Inr (view (rt_db r) k \<noteq> None) \<or> res = Inl (Err Store)"
    "res = Inl (Err Store) \<longleftrightarrow> hm_get (rt_cache r) k = None \<and> \<not> is_ok (rdb_get ops (rt_db r) k)"
    using assms(3) inv get
    by (auto simp: rt_contains_def hm_contains_def is_ok_def map_of_eq_None_iff
        split: option.splits sum.splits if_splits)
qed

lemma rt_insert_ok:
  assumes "rocks_lawful ops view" "rt_inv view r" "rt_insert ops k v r = (Inr (), r')"
  shows "view (rt_db r') = (view (rt_db r))(k \<mapsto> v)" "rt_inv view r'"
  using assms
  by (auto simp: rt_insert_def Let_def rocks_lawful_def rt_inv_def rt_coherent_def hm_wf_insert
      split: sum.splits if_splits)

lemma rt_insert_failed:
  assumes "rt_insert ops k v r = (Inl e, r')"
  shows "rt_db r' = rt_db r" "fst (rt_get ops k r') = Inr (Some v)"
    "k' \<noteq> k \<Longrightarrow> hm_get (rt_cache r') k' = hm_get (rt_cache r) k'"
  using assms by (auto simp: rt_insert_def rt_get_def Let_def split: sum.splits)

lemma rt_insert_batch_ok:
  assumes "rocks_lawful ops view" "rt_inv view r" "rt_insert_batch ops ks vs r = (Inr (), r')"
  shows "length ks = length vs" "view (rt_db r') = (view (rt_db r))(ks [\<mapsto>] vs)" "rt_inv view r'"
proof -
  have r': "length ks = length vs" "hm_get (rt_cache r') = (hm_get (rt_cache r))(ks [\<mapsto>] vs)"
    "hm_wf (rt_cache r')" "view (rt_db r') = (view (rt_db r))(ks [\<mapsto>] vs)"
    using assms
    by (auto simp: rt_insert_batch_def Let_def rocks_lawful_def rt_inv_def hm_wf_fold_pairs
        fold_insert_get apply_batch_puts split: sum.splits if_splits)
  moreover have "rt_coherent view r'"
    using assms(2) r'(2,4) apply_batch_le [of "hm_get (rt_cache r)" "view (rt_db r)"]
    by (simp add: rt_inv_def rt_coherent_def apply_batch_puts [symmetric])
  ultimately show "length ks = length vs" "view (rt_db r') = (view (rt_db r))(ks [\<mapsto>] vs)" "rt_inv view r'"
    by (simp_all add: rt_inv_def)
qed

lemma rt_insert_batch_failed:
  assumes "rt_insert_batch ops ks vs r = (Inl e, r')"
  shows "rt_db r' = rt_db r" "length ks \<noteq> length vs \<Longrightarrow> e = Err BatchLengthMismatch \<and> r' = r"
    "length ks = length vs \<Longrightarrow> hm_get (rt_cache r') = (hm_get (rt_cache r))(ks [\<mapsto>] vs)"
  using assms
  by (auto simp: rt_insert_batch_def Let_def fold_insert_get apply_batch_puts split: sum.splits if_splits)

lemma rt_remove_spec:
  assumes "rocks_lawful ops view" "rt_inv view r" "rt_remove ops k r = (res, r')"
  shows "rt_inv view r'" "\<not> rt_light r \<Longrightarrow> res = Inr () \<and> r' = r"
    "rt_light r \<Longrightarrow> res = Inr () \<Longrightarrow>
       view (rt_db r') = (view (rt_db r))(k := None) \<and> hm_get (rt_cache r') k = None"
    "res \<noteq> Inr () \<Longrightarrow> rt_db r' = rt_db r"
  using assms
  by (auto simp: rt_remove_def Let_def rocks_lawful_def rt_inv_def rt_coherent_def hm_wf_remove
      split: sum.splits if_splits)

lemma rt_remove_batch_spec:
  assumes "rocks_lawful ops view" "rt_inv view r" "rt_remove_batch ops ks r = (res, r')"
  shows "rt_inv view r'" "\<not> rt_light r \<Longrightarrow> res = Inr () \<and> r' = r"
    "rt_light r \<Longrightarrow> res = Inr () \<Longrightarrow> view (rt_db r') = view (rt_db r) |` (- set ks)"
    "res \<noteq> Inr () \<Longrightarrow> rt_db r' = rt_db r"
  using assms
  by (auto simp: rt_remove_batch_def Let_def rocks_lawful_def rt_inv_def rt_coherent_def
      hm_wf_fold_remove fold_remove_get apply_batch_deletes restrict_map_def
      split: sum.splits if_splits)

lemma rt_flush_spec:
  assumes "gen_range_lawful gen" "rt_inv view r" "0 < rt_cache_size r"
  shows "\<exists>r'. rt_flush gen seed r = (Inr (), r') \<and> rt_db r' = rt_db r \<and> rt_inv view r' \<and>
    length (rt_cache r') = min (length (rt_cache r)) (rt_cache_size r)"
proof (cases "length (rt_cache r) \<le> rt_cache_size r")
  case True
  then show ?thesis using assms(2) by (simp add: rt_flush_def)
next
  case False
  let ?n = "length (rt_cache r) - rt_cache_size r"
  have wf: "hm_wf (rt_cache r)" using assms(2) by (simp add: rt_inv_def)
  have "?n < length (hm_keys (rt_cache r))" using False assms(3) by (simp add: hm_keys_def)
  from rand_remove_list_ok [OF assms(1) this, of seed] wf
  obtain ks where ks: "rand_remove_list gen seed (hm_keys (rt_cache r)) ?n = Some ks"
    "length ks = ?n" "distinct ks" "set ks \<subseteq> fst ` set (rt_cache r)"
    by (auto simp: hm_keys_def)
  then have "length (fold hm_remove ks (rt_cache r)) = rt_cache_size r"
    using length_fold_hm_remove [OF wf ks(3,4)] False by simp
  then show ?thesis
    using ks False assms(2)
    by (auto simp: rt_flush_def Let_def rt_inv_def rt_coherent_def fold_remove_get hm_wf_fold_remove
        split: if_splits)
qed

section \<open>Properties\<close>

text \<open>
  (C6) The cached trie database implements the content of its RocksDB. From a coherent state, over a
  lawful database: \<^verbatim>\<open>get\<close> and \<^verbatim>\<open>contains\<close> answer the content, or the store error exactly when the key
  is not cached and the read fails; a successful \<^verbatim>\<open>insert\<close> or \<^verbatim>\<open>insert_batch\<close> updates the content with
  the given pairs, a later pair of the batch winning; \<^verbatim>\<open>remove\<close> and \<^verbatim>\<open>remove_batch\<close> delete the keys from
  the content when the database is light and change nothing otherwise; \<^verbatim>\<open>flush\<close> with a non-zero
  \<^verbatim>\<open>cache_size\<close> returns, leaves the content alone and cuts an over-full cache to exactly \<^verbatim>\<open>cache_size\<close>
  entries; all these end in a coherent state. The one exception is a failed write: the cache is
  updated before the database, so after a failed \<^verbatim>\<open>insert\<close> the content is as before while \<^verbatim>\<open>get\<close> answers
  the value that was not written, and after a failed write of a batch the cache has all its pairs. A
  failed \<^verbatim>\<open>remove\<close> or \<^verbatim>\<open>remove_batch\<close> only forgets cache entries and stays coherent.
\<close>

theorem trie_db_cache_transparent:
  assumes "rocks_lawful ops view" "rt_inv view r" "gen_range_lawful gen"
  shows "(\<forall>k res r'. rt_get ops k r = (res, r') \<longrightarrow> rt_db r' = rt_db r \<and> rt_inv view r' \<and>
       res = (if hm_get (rt_cache r) k = None \<and> \<not> is_ok (rdb_get ops (rt_db r) k) then Inl (Err Store)
              else Inr (view (rt_db r) k))) \<and>
    (\<forall>k res r'. rt_contains ops k r = (res, r') \<longrightarrow> rt_db r' = rt_db r \<and> rt_inv view r' \<and>
       res = (if hm_get (rt_cache r) k = None \<and> \<not> is_ok (rdb_get ops (rt_db r) k) then Inl (Err Store)
              else Inr (view (rt_db r) k \<noteq> None))) \<and>
    (\<forall>k v r'. rt_insert ops k v r = (Inr (), r') \<longrightarrow>
       view (rt_db r') = (view (rt_db r))(k \<mapsto> v) \<and> rt_inv view r') \<and>
    (\<forall>ks vs r'. rt_insert_batch ops ks vs r = (Inr (), r') \<longrightarrow>
       length ks = length vs \<and> view (rt_db r') = (view (rt_db r))(ks [\<mapsto>] vs) \<and> rt_inv view r') \<and>
    (\<forall>k res r'. rt_remove ops k r = (res, r') \<longrightarrow> rt_inv view r' \<and>
       view (rt_db r') = (if rt_light r \<and> res = Inr () then (view (rt_db r))(k := None) else view (rt_db r)) \<and>
       (\<not> rt_light r \<longrightarrow> res = Inr () \<and> r' = r)) \<and>
    (\<forall>ks res r'. rt_remove_batch ops ks r = (res, r') \<longrightarrow> rt_inv view r' \<and>
       view (rt_db r') = (if rt_light r \<and> res = Inr () then view (rt_db r) |` (- set ks) else view (rt_db r)) \<and>
       (\<not> rt_light r \<longrightarrow> res = Inr () \<and> r' = r)) \<and>
    (0 < rt_cache_size r \<longrightarrow>
       (\<exists>r'. rt_flush gen seed r = (Inr (), r') \<and> rt_db r' = rt_db r \<and> rt_inv view r' \<and>
          length (rt_cache r') = min (length (rt_cache r)) (rt_cache_size r))) \<and>
    (\<forall>k v e r'. rt_insert ops k v r = (Inl e, r') \<longrightarrow>
       rt_db r' = rt_db r \<and> fst (rt_get ops k r') = Inr (Some v)) \<and>
    (\<forall>ks vs e r'. rt_insert_batch ops ks vs r = (Inl e, r') \<longrightarrow> rt_db r' = rt_db r \<and>
       (if length ks = length vs then hm_get (rt_cache r') = (hm_get (rt_cache r))(ks [\<mapsto>] vs)
        else e = Err BatchLengthMismatch \<and> r' = r))"
  (is "?get \<and> ?contains \<and> ?ins \<and> ?insb \<and> ?rem \<and> ?remb \<and> ?flush \<and> ?insf \<and> ?insbf")
proof (intro conjI)
  note law = assms(1,2)
  show ?get using rt_get_spec [OF law] by metis
  show ?contains using rt_contains_spec [OF law] by metis
  show ?ins using rt_insert_ok [OF law] by blast
  show ?insb using rt_insert_batch_ok [OF law] by blast
  show ?rem using rt_remove_spec [OF law] by metis
  show ?remb using rt_remove_batch_spec [OF law] by metis
  show ?flush using rt_flush_spec [OF assms(3,2)] by blast
  show ?insf using rt_insert_failed by blast
  show ?insbf using rt_insert_batch_failed by metis
qed

definition map_rocks :: "(bytes \<Rightarrow> bytes option) rocks_ops" where
  "map_rocks = \<lparr>rdb_get = (\<lambda>d k. Inr (d k)), rdb_put = (\<lambda>k v d. Inr (d(k := Some v))),
     rdb_delete = (\<lambda>k d. Inr (d(k := None))), rdb_write = (\<lambda>b d. Inr (apply_batch b d))\<rparr>"

lemma map_rocks_lawful: "rocks_lawful map_rocks (\<lambda>d. d)"
  by (simp add: rocks_lawful_def map_rocks_def)

lemma zero_gen_lawful: "gen_range_lawful (\<lambda>g n. (0, g))"
  by (simp add: gen_range_lawful_def)

text \<open>A light database with a full cache: a removed key is gone, and a flush leaves one entry.\<close>

definition cached_example :: "(bytes \<Rightarrow> bytes option) rocks_trie_db" where
  "cached_example = \<lparr>rt_light = True, rt_db = Map.empty([1] \<mapsto> [5], [2] \<mapsto> [6]), rt_cache_size = 1,
     rt_cache = [([1], [5]), ([2], [6])]\<rparr>"

lemma cached_example_inv: "rt_inv (\<lambda>d. d) cached_example"
  by (auto simp: rt_inv_def rt_coherent_def cached_example_def)

theorem trie_db_cache_transparent_witness:
  "fst (rt_get map_rocks [1] cached_example) = Inr (Some [5]) \<and>
   rt_db (snd (rt_remove map_rocks [1] cached_example)) = Map.empty([2] \<mapsto> [6]) \<and>
   (\<exists>r'. rt_flush (\<lambda>g n. (0, g)) () cached_example = (Inr (), r') \<and> rt_inv (\<lambda>d. d) r' \<and>
      length (rt_cache r') = 1)"
proof -
  note all = trie_db_cache_transparent [OF map_rocks_lawful cached_example_inv zero_gen_lawful, of "()"]
  have "fst (rt_get map_rocks [1] cached_example) = Inr (Some [5])"
    using all [THEN conjunct1, rule_format, of "[1]"]
    by (cases "rt_get map_rocks [1] cached_example") (simp add: cached_example_def)
  moreover have "rt_db (snd (rt_remove map_rocks [1] cached_example)) = Map.empty([2] \<mapsto> [6])"
    using all [THEN conjunct2, THEN conjunct2, THEN conjunct2, THEN conjunct2, THEN conjunct1]
    by (cases "rt_remove map_rocks [1] cached_example")
      (auto simp: cached_example_def rt_remove_def map_rocks_def)
  moreover have "\<exists>r'. rt_flush (\<lambda>g n. (0, g)) () cached_example = (Inr (), r') \<and> rt_inv (\<lambda>d. d) r' \<and>
      length (rt_cache r') = 1"
    using all [THEN conjunct2, THEN conjunct2, THEN conjunct2, THEN conjunct2, THEN conjunct2, THEN conjunct2, THEN conjunct1]
    by (auto simp: cached_example_def)
  ultimately show ?thesis by blast
qed

text \<open>
  With \<^verbatim>\<open>cache_size\<close> zero the first flush of a non-empty cache panics: as many keys are drawn as
  the cache has, from an index list that is one shorter.
\<close>

theorem trie_db_flush_zero_panics:
  assumes "gen_range_lawful gen" "rt_cache_size r = 0" "rt_cache r \<noteq> []"
  shows "fst (rt_flush gen seed r) = Inl Panic"
proof -
  have "pick_indices gen seed [0..<length (rt_cache r) - 1] (length (rt_cache r) - 1)
      (length (rt_cache r)) = None"
    using assms by (intro pick_all_panics) auto
  then show ?thesis
    using assms by (simp add: rt_flush_def Let_def rand_remove_list_def hm_keys_def)
qed

theorem trie_db_flush_zero_panics_witness:
  "fst (rt_flush (\<lambda>g n. (0, g)) ()
     \<lparr>rt_light = False, rt_db = (), rt_cache_size = 0, rt_cache = [([1], [5])]\<rparr>) = Inl Panic"
  by (rule trie_db_flush_zero_panics) (simp_all add: gen_range_lawful_def)

end
