(* ===== verification/Multi_Signature.thy ===== *)
theory Multi_Signature
  imports Muta_Types
begin

text \<open>
  The multi-signature service, \<^verbatim>\<open>built-in-services/multi-signature\<close>, and the authorization service
  that calls it. The state maps an address to its permission (the account value under the key
  \<^verbatim>\<open>0u8\<close>). Signature verification, the hash function, the key parser and the list decoder of \<^verbatim>\<open>rlp\<close>
  are the fields of \<^verbatim>\<open>ms_env\<close>.

  The lemmas show that the early-exit verification loop decides whether the verified weights reach the
  threshold, that every operation keeps the permission invariant, and three behaviours the guards of
  the operations leave open.
\<close>

section \<open>Types\<close>

record account =
  ac_address :: address
  ac_weight :: u8
  ac_is_multiple :: bool

record address_with_weight =
  aw_address :: address
  aw_weight :: u8

record multi_sig_permission =
  ms_owner :: address
  ms_accounts :: "account list"
  ms_threshold :: u32
  ms_memo :: string

record generate_payload =
  gp_owner :: address
  gp_autonomy :: bool
  gp_addr_with_weight :: "address_with_weight list"
  gp_threshold :: u32
  gp_memo :: string

record update_payload =
  up_account_address :: address
  up_owner :: address
  up_addr_with_weight :: "address_with_weight list"
  up_threshold :: u32
  up_memo :: string

record verify_payload =
  vp_tx_hash :: hash
  vp_pubkeys :: "bytes list"
  vp_signatures :: "bytes list"
  vp_sender :: address

datatype ms_error =
    DecodeErr string
  | InvalidAccountLength
  | InvalidAccountWeights
  | AboveMaxRecursionDepth
  | CtxMissingTxHash
  | GenerateAddressFailed
  | AccountNotExsit
  | InvalidOwner
  | AccountSelfContained
  | AccountCountReachMaxValue
  | PubkeyAndSignatureMismatch
  | InvalidPublicKeyErr
  | VerifyMultiSignatureFailed

datatype set_weight_result = SetWeightSuccess multi_sig_permission | SetWeightNoAccount | InvalidNewWeight
datatype remove_account_result =
  RemoveSuccess account multi_sig_permission | RemoveNoAccount | BelowThreshold

type_synonym ms_state = "(address, multi_sig_permission) hash_map"

record ms_env =
  env_ms_digest :: "bytes \<Rightarrow> bytes"
  env_pk_len :: nat
  env_upk_len :: nat
  env_uncompress :: "bytes \<Rightarrow> bytes option"
  env_verify :: "bytes \<Rightarrow> bytes \<Rightarrow> bytes \<Rightarrow> bool"
  env_decode_list :: "bytes \<Rightarrow> bytes list option"

definition MAX_MULTI_SIGNATURE_RECURSION_DEPTH :: nat where
  "MAX_MULTI_SIGNATURE_RECURSION_DEPTH = 8"

definition MAX_PERMISSION_ACCOUNTS :: nat where
  "MAX_PERMISSION_ACCOUNTS = 16"

fun ms_code :: "ms_error \<Rightarrow> u64" where
  "ms_code (DecodeErr _) = 101"
| "ms_code InvalidAccountLength = 102"
| "ms_code InvalidAccountWeights = 103"
| "ms_code AboveMaxRecursionDepth = 104"
| "ms_code CtxMissingTxHash = 105"
| "ms_code GenerateAddressFailed = 106"
| "ms_code AccountNotExsit = 107"
| "ms_code InvalidOwner = 108"
| "ms_code AccountSelfContained = 109"
| "ms_code AccountCountReachMaxValue = 110"
| "ms_code PubkeyAndSignatureMismatch = 111"
| "ms_code InvalidPublicKeyErr = 112"
| "ms_code VerifyMultiSignatureFailed = 113"

fun ms_message :: "ms_error \<Rightarrow> string" where
  "ms_message (DecodeErr t) = ''Decode '' @ debug_string t @ '' error''"
| "ms_message InvalidAccountLength = ''accounts length must be [1,16]''"
| "ms_message InvalidAccountWeights = ''accounts weight or threshold not valid''"
| "ms_message AboveMaxRecursionDepth = ''above max recursion depth''"
| "ms_message CtxMissingTxHash = ''Can not get tx hash from service context''"
| "ms_message GenerateAddressFailed = ''generate address from tx_hash failed''"
| "ms_message AccountNotExsit = ''account is not existed''"
| "ms_message InvalidOwner = ''invalid owner''"
| "ms_message AccountSelfContained = ''account can not contain itself''"
| "ms_message AccountCountReachMaxValue = ''the account count reach max value''"
| "ms_message PubkeyAndSignatureMismatch = ''pubkkeys len is not equal to signatures len''"
| "ms_message InvalidPublicKeyErr = ''invalid public key''"
| "ms_message VerifyMultiSignatureFailed = ''multi signature verified failed''"

text \<open>\<^verbatim>\<open>ServiceError.into()\<close>: the response of an error.\<close>

definition ms_fail :: "'a \<Rightarrow> ms_error \<Rightarrow> 'a service_response" where
  "ms_fail dflt e = from_error dflt (ms_code e) (ms_message e)"

definition ms_response :: "ms_error + unit \<Rightarrow> unit service_response" where
  "ms_response r = (case r of Inl e \<Rightarrow> ms_fail () e | Inr u \<Rightarrow> from_succeed u)"

definition permission_default :: multi_sig_permission where
  "permission_default = \<lparr>ms_owner = address_default, ms_accounts = [], ms_threshold = 0, ms_memo = ''''\<rparr>"

definition account_default :: account where
  "account_default = \<lparr>ac_address = address_default, ac_weight = 0, ac_is_multiple = False\<rparr>"

section \<open>Permissions\<close>

text \<open>\<^verbatim>\<open>.map(|a| a.weight as u32).sum::<u32>()\<close>.\<close>

definition weight_sum :: "account list \<Rightarrow> u32" where
  "weight_sum as = sum_list (map (\<lambda>a. ucast (ac_weight a)) as)"

definition payload_weight_sum :: "address_with_weight list \<Rightarrow> u32" where
  "payload_weight_sum as = sum_list (map (\<lambda>a. ucast (aw_weight a)) as)"

fun perm_get_account :: "account list \<Rightarrow> address \<Rightarrow> account option" where
  "perm_get_account [] addr = None"
| "perm_get_account (a # as) addr = (if ac_address a = addr then Some a else perm_get_account as addr)"

definition perm_add_account :: "account \<Rightarrow> multi_sig_permission \<Rightarrow> multi_sig_permission" where
  "perm_add_account a p = p\<lparr>ms_accounts := ms_accounts p @ [a]\<rparr>"

fun account_index :: "address \<Rightarrow> account list \<Rightarrow> nat" where
  "account_index addr [] = 0"
| "account_index addr (a # as) = (if ac_address a = addr then 0 else Suc (account_index addr as))"

definition perm_remove_account :: "address \<Rightarrow> multi_sig_permission \<Rightarrow> remove_account_result" where
  "perm_remove_account addr p =
     (let as = ms_accounts p; idx = account_index addr as in
      if idx \<noteq> length as then
        (if weight_sum as - ucast (ac_weight (as ! idx)) < ms_threshold p then BelowThreshold
         else RemoveSuccess (as ! idx) (p\<lparr>ms_accounts := take idx as @ drop (Suc idx) as\<rparr>))
      else RemoveNoAccount)"

definition perm_set_account_weight :: "address \<Rightarrow> u8 \<Rightarrow> multi_sig_permission \<Rightarrow> set_weight_result" where
  "perm_set_account_weight addr w p =
     (let as = ms_accounts p; idx = account_index addr as in
      if idx \<noteq> length as then
        (if weight_sum as + ucast w - ucast (ac_weight (as ! idx)) < ms_threshold p then InvalidNewWeight
         else SetWeightSuccess (p\<lparr>ms_accounts := as[idx := (as ! idx)\<lparr>ac_weight := w\<rparr>]\<rparr>))
      else SetWeightNoAccount)"

section \<open>Recursion depth\<close>

text \<open>
  The depth is a \<^verbatim>\<open>u8\<close> that starts at 0 or 1, grows by one and stops the recursion at 8; it is a
  natural number here.
\<close>

function is_recursion_depth_overflow :: "ms_state \<Rightarrow> address \<Rightarrow> nat \<Rightarrow> bool" where
  "is_recursion_depth_overflow s addr depth =
     (let depth_clone = depth + 1 in
      if depth_clone \<ge> MAX_MULTI_SIGNATURE_RECURSION_DEPTH then True
      else
        (case hm_get s addr of
           Some p \<Rightarrow> (\<exists>a \<in> set (ms_accounts p). ac_is_multiple a \<and> is_recursion_depth_overflow s (ac_address a) depth_clone)
         | None \<Rightarrow> False))"
  by pat_completeness auto
termination
  by (relation "measure (\<lambda>(s, a, d). MAX_MULTI_SIGNATURE_RECURSION_DEPTH - d)")
    (auto simp: MAX_MULTI_SIGNATURE_RECURSION_DEPTH_def)

declare is_recursion_depth_overflow.simps [simp del]

section \<open>Verification\<close>

definition pubkey_address :: "ms_env \<Rightarrow> bytes \<Rightarrow> (types_error, address) result" where
  "pubkey_address env pk =
     address_from_pubkey_bytes (env_ms_digest env) (env_pk_len env) (env_upk_len env) (env_uncompress env) pk"

text \<open>\<^verbatim>\<open>Witness::into_addr_map\<close>: unparsable keys are skipped, a later key of an address replaces an earlier one.\<close>

definition into_addr_map :: "ms_env \<Rightarrow> bytes list \<Rightarrow> bytes list \<Rightarrow> (address, bytes \<times> bytes) hash_map" where
  "into_addr_map env pubkeys signatures =
     fold (\<lambda>(pk, sig) m. case pubkey_address env pk of Inr addr \<Rightarrow> hm_insert addr (pk, sig) m | Inl _ \<Rightarrow> m)
       (zip pubkeys signatures) []"

definition verify_single_signature :: "ms_env \<Rightarrow> hash \<Rightarrow> bytes \<Rightarrow> bytes \<Rightarrow> ms_error + unit" where
  "verify_single_signature env tx_hash sig pubkey =
     (if env_verify env (hash_bytes tx_hash) sig pubkey then Inr () else Inl VerifyMultiSignatureFailed)"

text \<open>\<^verbatim>\<open>_verify_multi_signature\<close> and the loop over the accounts of a permission.\<close>

function verify_multi_signature ::
      "ms_env \<Rightarrow> ms_state \<Rightarrow> hash \<Rightarrow> (address, bytes \<times> bytes) hash_map \<Rightarrow> address \<Rightarrow> nat \<Rightarrow> ms_error + unit"
  and verify_accounts ::
      "ms_env \<Rightarrow> ms_state \<Rightarrow> hash \<Rightarrow> (address, bytes \<times> bytes) hash_map \<Rightarrow> u32 \<Rightarrow> account list \<Rightarrow> u32 \<Rightarrow> nat
       \<Rightarrow> ms_error + unit" where
  "verify_multi_signature env s tx_hash wit_map sender depth =
     (let depth_clone = depth + 1 in
      if depth_clone \<ge> MAX_MULTI_SIGNATURE_RECURSION_DEPTH then Inl AboveMaxRecursionDepth
      else
        (case hm_get s sender of
           None \<Rightarrow> Inl AccountNotExsit
         | Some p \<Rightarrow> verify_accounts env s tx_hash wit_map (ms_threshold p) (ms_accounts p) 0 depth_clone))"
| "verify_accounts env s tx_hash wit_map threshold [] weight_acc depth_clone = Inl VerifyMultiSignatureFailed"
| "verify_accounts env s tx_hash wit_map threshold (a # as) weight_acc depth_clone =
     (let ok =
            (if \<not> ac_is_multiple a then
               (case hm_get wit_map (ac_address a) of
                  Some (pk, sig) \<Rightarrow> is_ok (verify_single_signature env tx_hash sig pk)
                | None \<Rightarrow> False)
             else is_ok (verify_multi_signature env s tx_hash wit_map (ac_address a) depth_clone));
          weight_acc = (if ok then weight_acc + ucast (ac_weight a) else weight_acc)
      in if weight_acc \<ge> threshold then Inr ()
         else verify_accounts env s tx_hash wit_map threshold as weight_acc depth_clone)"
  by pat_completeness auto
termination
  by (relation "measures
      [\<lambda>x. case x of Inl (e, s, h, w, a, d) \<Rightarrow> 9 - d | Inr (e, s, h, w, t, as, acc, d) \<Rightarrow> 9 - d,
       \<lambda>x. case x of Inl _ \<Rightarrow> 0 | Inr (e, s, h, w, t, as, acc, d) \<Rightarrow> Suc (length as)]")
    (auto simp: MAX_MULTI_SIGNATURE_RECURSION_DEPTH_def)

declare verify_multi_signature.simps [simp del]

definition inner_verify_signature :: "ms_env \<Rightarrow> ms_state \<Rightarrow> verify_payload \<Rightarrow> ms_error + unit" where
  "inner_verify_signature env s p =
     (let multi = verify_multi_signature env s (vp_tx_hash p)
            (into_addr_map env (vp_pubkeys p) (vp_signatures p)) (vp_sender p) 0 in
      if length (vp_pubkeys p) \<noteq> length (vp_signatures p) then Inl PubkeyAndSignatureMismatch
      else if length (vp_pubkeys p) = 1 then
        (case pubkey_address env (vp_pubkeys p ! 0) of
           Inr addr \<Rightarrow>
             (if addr = vp_sender p
              then verify_single_signature env (vp_tx_hash p) (vp_signatures p ! 0) (vp_pubkeys p ! 0)
              else multi)
         | Inl _ \<Rightarrow> Inl InvalidPublicKeyErr)
      else multi)"

definition verify_signature ::
    "ms_env \<Rightarrow> signed_transaction \<Rightarrow> service_context \<Rightarrow> ms_state
     \<Rightarrow> unit service_response \<times> service_context \<times> ms_state" where
  "verify_signature env stx = with_cycles 21000 () (\<lambda>ctx s.
     (case env_decode_list env (stx_pubkey stx) of
        None \<Rightarrow> (ms_fail () (DecodeErr ''public key''), ctx, s)
      | Some pubkeys \<Rightarrow>
          (case env_decode_list env (stx_signature stx) of
             None \<Rightarrow> (ms_fail () (DecodeErr ''signature''), ctx, s)
           | Some sigs \<Rightarrow>
               (ms_response (inner_verify_signature env s
                  \<lparr>vp_tx_hash = stx_tx_hash stx, vp_pubkeys = pubkeys, vp_signatures = sigs,
                   vp_sender = raw_sender (stx_raw stx)\<rparr>), ctx, s))))"

section \<open>Service methods\<close>

definition ms_init_genesis ::
    "address \<Rightarrow> address \<Rightarrow> address_with_weight list \<Rightarrow> u32 \<Rightarrow> string \<Rightarrow> ms_state \<Rightarrow> (unit, ms_state) result" where
  "ms_init_genesis addr owner items threshold memo s =
     (if items = [] \<or> length items > MAX_PERMISSION_ACCOUNTS then Inl Panic
      else if threshold = 0 \<or> payload_weight_sum items < threshold then Inl Panic
      else Inr (hm_insert addr
        \<lparr>ms_owner = owner,
         ms_accounts = map (\<lambda>i. \<lparr>ac_address = aw_address i, ac_weight = aw_weight i, ac_is_multiple = False\<rparr>) items,
         ms_threshold = threshold, ms_memo = memo\<rparr> s))"

definition get_account_from_address ::
    "address \<Rightarrow> service_context \<Rightarrow> ms_state
     \<Rightarrow> multi_sig_permission service_response \<times> service_context \<times> ms_state" where
  "get_account_from_address addr = with_cycles 10000 permission_default (\<lambda>ctx s.
     (case hm_get s addr of
        Some p \<Rightarrow> (from_succeed p, ctx, s)
      | None \<Rightarrow> (ms_fail permission_default AccountNotExsit, ctx, s)))"

text \<open>
  The member list of a new permission: each address is looked up through the metered read method, and
  any error of that call makes the member a single-key one.
\<close>

fun mark_accounts :: "address_with_weight list \<Rightarrow> service_context \<Rightarrow> ms_state \<Rightarrow> account list \<times> service_context" where
  "mark_accounts [] ctx s = ([], ctx)"
| "mark_accounts (i # items) ctx s =
     (let (r, ctx, _) = get_account_from_address (aw_address i) ctx s;
          (as, ctx) = mark_accounts items ctx s
      in (\<lparr>ac_address = aw_address i, ac_weight = aw_weight i, ac_is_multiple = \<not> is_error r\<rparr> # as, ctx))"

definition generate_account ::
    "ms_env \<Rightarrow> generate_payload \<Rightarrow> service_context \<Rightarrow> ms_state
     \<Rightarrow> address service_response \<times> service_context \<times> ms_state" where
  "generate_account env p = with_cycles 21000 address_default (\<lambda>ctx s.
     let items = gp_addr_with_weight p in
     if items = [] \<or> length items > MAX_PERMISSION_ACCOUNTS
     then (ms_fail address_default InvalidAccountLength, ctx, s)
     else if gp_threshold p = 0 \<or> payload_weight_sum items < gp_threshold p
     then (ms_fail address_default InvalidAccountWeights, ctx, s)
     else if \<exists>i \<in> set items. is_recursion_depth_overflow s (aw_address i) 0
     then (ms_fail address_default AboveMaxRecursionDepth, ctx, s)
     else
       (case ctx_tx_hash ctx of
          None \<Rightarrow> (ms_fail address_default CtxMissingTxHash, ctx, s)
        | Some tx_hash \<Rightarrow>
            (case address_from_hash (hash_digest (env_ms_digest env) (hash_bytes tx_hash)) of
               Inr addr \<Rightarrow>
                 (let (as, ctx) = mark_accounts items ctx s;
                      owner = (if gp_autonomy p then addr else gp_owner p)
                  in (from_succeed addr, ctx, hm_insert addr
                       \<lparr>ms_owner = owner, ms_accounts = as, ms_threshold = gp_threshold p, ms_memo = gp_memo p\<rparr> s))
             | Inl _ \<Rightarrow> (ms_fail address_default GenerateAddressFailed, ctx, s))))"

text \<open>The common frame of the owner's operations: the account exists and the caller owns it.\<close>

definition owned ::
    "address \<Rightarrow> 'a \<Rightarrow> (multi_sig_permission \<Rightarrow> service_context \<Rightarrow> ms_state \<Rightarrow> 'a service_response \<times> service_context \<times> ms_state)
     \<Rightarrow> service_context \<Rightarrow> ms_state \<Rightarrow> 'a service_response \<times> service_context \<times> ms_state" where
  "owned addr dflt body = with_cycles 21000 dflt (\<lambda>ctx s.
     (case hm_get s addr of
        None \<Rightarrow> (ms_fail dflt AccountNotExsit, ctx, s)
      | Some p \<Rightarrow>
          (if ctx_caller ctx \<noteq> ms_owner p then (ms_fail dflt InvalidOwner, ctx, s) else body p ctx s)))"

definition update_account ::
    "update_payload \<Rightarrow> service_context \<Rightarrow> ms_state \<Rightarrow> unit service_response \<times> service_context \<times> ms_state" where
  "update_account u = owned (up_account_address u) () (\<lambda>p ctx s.
     let items = up_addr_with_weight u in
     if \<exists>i \<in> set items. aw_address i = up_account_address u then (ms_fail () AccountSelfContained, ctx, s)
     else if items = [] \<or> length items > MAX_PERMISSION_ACCOUNTS then (ms_fail () InvalidAccountLength, ctx, s)
     else if up_threshold u = 0 \<or> payload_weight_sum items < up_threshold u
     then (ms_fail () InvalidAccountWeights, ctx, s)
     else if \<exists>i \<in> set items. is_recursion_depth_overflow s (aw_address i) 0
     then (ms_fail () AboveMaxRecursionDepth, ctx, s)
     else
       (let (as, ctx) = mark_accounts items ctx s in
        (from_succeed (), ctx, hm_insert (up_account_address u)
           \<lparr>ms_owner = up_owner u, ms_accounts = as, ms_threshold = up_threshold u, ms_memo = up_memo u\<rparr> s)))"

definition change_owner ::
    "address \<Rightarrow> address \<Rightarrow> service_context \<Rightarrow> ms_state \<Rightarrow> unit service_response \<times> service_context \<times> ms_state" where
  "change_owner addr new_owner = owned addr () (\<lambda>p ctx s.
     if is_recursion_depth_overflow s new_owner 0 then (ms_fail () AboveMaxRecursionDepth, ctx, s)
     else (from_succeed (), ctx, hm_insert addr (p\<lparr>ms_owner := new_owner\<rparr>) s))"

definition change_memo ::
    "address \<Rightarrow> string \<Rightarrow> service_context \<Rightarrow> ms_state \<Rightarrow> unit service_response \<times> service_context \<times> ms_state" where
  "change_memo addr new_memo = owned addr () (\<lambda>p ctx s.
     (from_succeed (), ctx, hm_insert addr (p\<lparr>ms_memo := new_memo\<rparr>) s))"

definition add_account ::
    "address \<Rightarrow> account \<Rightarrow> service_context \<Rightarrow> ms_state \<Rightarrow> unit service_response \<times> service_context \<times> ms_state" where
  "add_account addr new_account = owned addr () (\<lambda>p ctx s.
     if length (ms_accounts p) = MAX_PERMISSION_ACCOUNTS then (ms_fail () AccountCountReachMaxValue, ctx, s)
     else if is_recursion_depth_overflow s (ac_address new_account) 1
     then (ms_fail () AboveMaxRecursionDepth, ctx, s)
     else (from_succeed (), ctx, hm_insert addr (perm_add_account new_account p) s))"

definition remove_account ::
    "address \<Rightarrow> address \<Rightarrow> service_context \<Rightarrow> ms_state \<Rightarrow> account service_response \<times> service_context \<times> ms_state" where
  "remove_account addr member = owned addr account_default (\<lambda>p ctx s.
     (case perm_remove_account member p of
        RemoveSuccess a p \<Rightarrow> (from_succeed a, ctx, hm_insert addr p s)
      | BelowThreshold \<Rightarrow> (ms_fail account_default InvalidAccountWeights, ctx, s)
      | RemoveNoAccount \<Rightarrow> (ms_fail account_default AccountNotExsit, ctx, s)))"

definition set_account_weight ::
    "address \<Rightarrow> address \<Rightarrow> u8 \<Rightarrow> service_context \<Rightarrow> ms_state \<Rightarrow> unit service_response \<times> service_context \<times> ms_state" where
  "set_account_weight addr member new_weight = owned addr () (\<lambda>p ctx s.
     (case perm_set_account_weight member new_weight p of
        SetWeightSuccess p \<Rightarrow> (from_succeed (), ctx, hm_insert addr p s)
      | InvalidNewWeight \<Rightarrow> (ms_fail () InvalidAccountWeights, ctx, s)
      | SetWeightNoAccount \<Rightarrow> (ms_fail () AccountNotExsit, ctx, s)))"

definition set_threshold ::
    "address \<Rightarrow> u32 \<Rightarrow> service_context \<Rightarrow> ms_state \<Rightarrow> unit service_response \<times> service_context \<times> ms_state" where
  "set_threshold addr new_threshold = owned addr () (\<lambda>p ctx s.
     if weight_sum (ms_accounts p) < new_threshold then (ms_fail () InvalidAccountWeights, ctx, s)
     else (from_succeed (), ctx, hm_insert addr (p\<lparr>ms_threshold := new_threshold\<rparr>) s))"

section \<open>The authorization service\<close>

definition check_authorization ::
    "ms_env \<Rightarrow> signed_transaction \<Rightarrow> service_context \<Rightarrow> ms_state
     \<Rightarrow> unit service_response \<times> service_context \<times> ms_state" where
  "check_authorization env stx = with_cycles 21000 () (\<lambda>ctx s.
     (case verify_signature env stx ctx s of
        (resp, ctx, s) \<Rightarrow>
          (if is_error resp
           then (from_error () 102 (''verify transaction signature error '' @ debug_string (error_message resp)), ctx, s)
           else (from_succeed (), ctx, s))))"

text \<open>The pointer variant reads the transaction back from memory and calls the former.\<close>

definition check_authorization_by_ptr ::
    "ms_env \<Rightarrow> (nat \<Rightarrow> signed_transaction) \<Rightarrow> nat \<Rightarrow> service_context \<Rightarrow> ms_state
     \<Rightarrow> unit service_response \<times> service_context \<times> ms_state" where
  "check_authorization_by_ptr env memory ptr =
     with_cycles 21000 () (\<lambda>ctx s. check_authorization env (memory ptr) ctx s)"

section \<open>Sequences of calls\<close>

datatype ms_call =
    GenerateAccount generate_payload
  | UpdateAccount update_payload
  | ChangeOwner address address
  | ChangeMemo address string
  | AddAccount address account
  | RemoveAccount address address
  | SetAccountWeight address address u8
  | SetThreshold address u32

fun ms_exec :: "ms_env \<Rightarrow> ms_call \<Rightarrow> service_context \<Rightarrow> ms_state \<Rightarrow> ms_state" where
  "ms_exec env (GenerateAccount p) ctx s = snd (snd (generate_account env p ctx s))"
| "ms_exec env (UpdateAccount u) ctx s = snd (snd (update_account u ctx s))"
| "ms_exec env (ChangeOwner a n) ctx s = snd (snd (change_owner a n ctx s))"
| "ms_exec env (ChangeMemo a n) ctx s = snd (snd (change_memo a n ctx s))"
| "ms_exec env (AddAccount a n) ctx s = snd (snd (add_account a n ctx s))"
| "ms_exec env (RemoveAccount a n) ctx s = snd (snd (remove_account a n ctx s))"
| "ms_exec env (SetAccountWeight a n w) ctx s = snd (snd (set_account_weight a n w ctx s))"
| "ms_exec env (SetThreshold a t) ctx s = snd (snd (set_threshold a t ctx s))"

definition ms_run :: "ms_env \<Rightarrow> (ms_call \<times> service_context) list \<Rightarrow> ms_state \<Rightarrow> ms_state" where
  "ms_run env calls s = fold (\<lambda>(c, ctx). ms_exec env c ctx) calls s"

section \<open>Reference definitions\<close>

definition account_weight :: "account list \<Rightarrow> nat" where
  "account_weight as = (\<Sum>a\<leftarrow>as. unat (ac_weight a))"

definition permission_ok :: "multi_sig_permission \<Rightarrow> bool" where
  "permission_ok p \<longleftrightarrow> length (ms_accounts p) \<le> 16 \<and> unat (ms_threshold p) \<le> account_weight (ms_accounts p)"

definition permissions_ok :: "ms_state \<Rightarrow> bool" where
  "permissions_ok s \<longleftrightarrow> (\<forall>a p. hm_get s a = Some p \<longrightarrow> permission_ok p)"

definition thresholds_positive :: "ms_state \<Rightarrow> bool" where
  "thresholds_positive s \<longleftrightarrow> (\<forall>a p. hm_get s a = Some p \<longrightarrow> ms_threshold p \<noteq> 0)"

text \<open>An address is signed when the witness holds a key of that address with a valid signature.\<close>

definition signed :: "ms_env \<Rightarrow> hash \<Rightarrow> (address, bytes \<times> bytes) hash_map \<Rightarrow> address \<Rightarrow> bool" where
  "signed env h w addr \<longleftrightarrow> (\<exists>pk sig. hm_get w addr = Some (pk, sig) \<and> env_verify env (hash_bytes h) sig pk)"

text \<open>
  Approval of an account by members nested at most \<^verbatim>\<open>k\<close> levels deep: the weights of all approving
  members, without early exit and over the natural numbers, reach the threshold.
\<close>

primrec approved :: "ms_state \<Rightarrow> (address \<Rightarrow> bool) \<Rightarrow> nat \<Rightarrow> address \<Rightarrow> bool" where
  "approved s by_key 0 addr = False"
| "approved s by_key (Suc k) addr =
     (case hm_get s addr of
        None \<Rightarrow> False
      | Some p \<Rightarrow> ms_accounts p \<noteq> [] \<and>
          unat (ms_threshold p) \<le>
            (\<Sum>a\<leftarrow>ms_accounts p. if (if ac_is_multiple a then approved s by_key k (ac_address a) else by_key (ac_address a))
                                 then unat (ac_weight a) else 0))"

text \<open>A concrete environment and state for the witnesses.\<close>

definition example_ms_env :: ms_env where
  "example_ms_env = \<lparr>env_ms_digest = (\<lambda>b. replicate 32 0), env_pk_len = 20, env_upk_len = 20,
     env_uncompress = Some, env_verify = (\<lambda>h sig pk. sig = pk), env_decode_list = (\<lambda>b. Some (map (\<lambda>x. [x]) b))\<rparr>"

definition example_addr :: "u8 \<Rightarrow> address" where
  "example_addr n = Address (replicate 20 n)"

definition example_ms_state :: ms_state where
  "example_ms_state =
     [(example_addr 9, \<lparr>ms_owner = example_addr 1,
        ms_accounts = [\<lparr>ac_address = example_addr 1, ac_weight = 2, ac_is_multiple = False\<rparr>,
                       \<lparr>ac_address = example_addr 8, ac_weight = 3, ac_is_multiple = True\<rparr>],
        ms_threshold = 4, ms_memo = ''''\<rparr>),
      (example_addr 8, \<lparr>ms_owner = example_addr 2,
        ms_accounts = [\<lparr>ac_address = example_addr 2, ac_weight = 1, ac_is_multiple = False\<rparr>],
        ms_threshold = 1, ms_memo = ''''\<rparr>)]"

definition example_wit :: "(address, bytes \<times> bytes) hash_map" where
  "example_wit = [(example_addr 1, ([1], [1])), (example_addr 2, ([2], [2]))]"

definition example_payload :: verify_payload where
  "example_payload = \<lparr>vp_tx_hash = Hash [], vp_pubkeys = [replicate 20 1],
     vp_signatures = [replicate 20 1], vp_sender = example_addr 0\<rparr>"

definition example_update :: update_payload where
  "example_update = \<lparr>up_account_address = example_addr 9, up_owner = example_addr 1,
     up_addr_with_weight = [\<lparr>aw_address = example_addr 8, aw_weight = 4\<rparr>], up_threshold = 4, up_memo = ''''\<rparr>"

section \<open>Verification decides approval\<close>

lemma unat_u8_bound: "unat (w :: u8) \<le> 255"
  using unsigned_less [where ?'a = nat, of w] by simp

lemma unat_ucast_u8 [simp]: "unat (ucast (w :: u8) :: u32) = unat w"
  using unat_u8_bound [of w] by (simp add: unsigned_ucast_eq take_bit_nat_eq_self)

lemma unat_add_u8:
  fixes x :: u32 and w :: u8
  assumes "unat x + unat w < 2 ^ 32"
  shows "unat (x + ucast w) = unat x + unat w"
  using assms by (simp add: unat_add_exact)

lemma unat_sum_u8:
  fixes f :: "'a \<Rightarrow> u8"
  assumes "length xs \<le> 2 ^ 16"
  shows "unat (sum_list (map (\<lambda>x. ucast (f x)) xs) :: u32) = (\<Sum>x\<leftarrow>xs. unat (f x)) \<and>
    (\<Sum>x\<leftarrow>xs. unat (f x)) \<le> 255 * length xs"
  using assms
proof (induction xs)
  case (Cons x xs)
  have "unat (sum_list (map (\<lambda>x. ucast (f x)) xs) :: u32) + unat (f x) < 2 ^ 32"
    using Cons unat_u8_bound [of "f x"] by simp
  from unat_add_u8 [OF this] show ?case
    using Cons unat_u8_bound [of "f x"] by (simp add: ac_simps)
qed simp

lemma weight_sum_exact: "length as \<le> 16 \<Longrightarrow> unat (weight_sum as) = account_weight as"
  using unat_sum_u8 [of as ac_weight] by (simp add: weight_sum_def account_weight_def)

lemma account_weight_bound: "length as \<le> 16 \<Longrightarrow> account_weight as \<le> 4080"
  using unat_sum_u8 [of as ac_weight] by (simp add: account_weight_def)

lemma is_ok_verify_single [simp]:
  "is_ok (verify_single_signature env h sig pk) = env_verify env (hash_bytes h) sig pk"
  by (simp add: verify_single_signature_def)

text \<open>The early-exit loop, for any test of the multi-signature members.\<close>

lemma verify_accounts_iff:
  fixes acc :: u32
  defines "ok \<equiv> \<lambda>env s h w d a. if ac_is_multiple a
    then is_ok (verify_multi_signature env s h w (ac_address a) d) else signed env h w (ac_address a)"
  assumes "unat acc + account_weight as < 2 ^ 32"
  shows "is_ok (verify_accounts env s h w t as acc d) \<longleftrightarrow>
    as \<noteq> [] \<and> unat t \<le> unat acc + (\<Sum>a\<leftarrow>as. if ok env s h w d a then unat (ac_weight a) else 0)"
  using assms(2)
proof (induction as arbitrary: acc)
  case (Cons a as)
  define acc' where "acc' = (if ok env s h w d a then acc + ucast (ac_weight a) else acc)"
  have acc': "unat acc' = unat acc + (if ok env s h w d a then unat (ac_weight a) else 0)"
    using Cons.prems unat_add_u8 [of acc "ac_weight a"] by (simp add: acc'_def account_weight_def)
  have step: "verify_accounts env s h w t (a # as) acc d =
      (if t \<le> acc' then Inr () else verify_accounts env s h w t as acc' d)"
    by (auto simp: acc'_def ok_def signed_def Let_def split: option.splits)
  have bound: "unat acc' + account_weight as < 2 ^ 32"
    using Cons.prems acc' by (simp add: account_weight_def split: if_splits)
  show ?case
    unfolding step using Cons.IH [OF bound] acc'
    by (cases "as = []") (auto simp: word_le_unat not_le)
qed simp

lemma permissions_okD: "permissions_ok s \<Longrightarrow> hm_get s a = Some p \<Longrightarrow> permission_ok p"
  by (auto simp: permissions_ok_def)

lemma verify_approved_level:
  assumes "permissions_ok s" "k \<le> 7"
  shows "is_ok (verify_multi_signature env s h w addr (7 - k)) \<longleftrightarrow> approved s (signed env h w) k addr"
  using assms(2)
proof (induction k arbitrary: addr)
  case 0
  show ?case by (simp add: verify_multi_signature.simps MAX_MULTI_SIGNATURE_RECURSION_DEPTH_def)
next
  case (Suc k)
  have d: "Suc (6 - k) = 7 - k" and k: "k \<le> 7" and depth: "\<not> 7 \<le> 6 - k" "\<not> 8 \<le> 7 - k"
    using Suc.prems by auto
  show ?case
  proof (cases "hm_get s addr")
    case None
    then show ?thesis
      by (simp add: verify_multi_signature.simps d depth Let_def MAX_MULTI_SIGNATURE_RECURSION_DEPTH_def)
  next
    case (Some p)
    have "length (ms_accounts p) \<le> 16"
      using permissions_okD [OF assms(1) Some] by (simp add: permission_ok_def)
    then have "unat (0 :: u32) + account_weight (ms_accounts p) < 2 ^ 32"
      using account_weight_bound [of "ms_accounts p"] by simp
    note loop = verify_accounts_iff [OF this]
    show ?thesis
      using Some by (simp add: verify_multi_signature.simps [of _ _ _ _ addr] d depth loop Suc.IH [OF k]
          Let_def MAX_MULTI_SIGNATURE_RECURSION_DEPTH_def cong: if_cong)
  qed
qed

text \<open>The witness map holds only pairs of the payload, under the address of their key.\<close>

lemma into_addr_map_sound:
  assumes "hm_get (into_addr_map env pks sigs) a = Some (pk, sig)"
  shows "(pk, sig) \<in> set (zip pks sigs) \<and> pubkey_address env pk = Inr a"
proof -
  let ?f = "\<lambda>(pk, sig) m. case pubkey_address env pk of Inr addr \<Rightarrow> hm_insert addr (pk, sig) m | Inl _ \<Rightarrow> m"
  have "hm_get (fold ?f xs m) a = Some (pk, sig) \<Longrightarrow>
      hm_get m a = Some (pk, sig) \<or> ((pk, sig) \<in> set xs \<and> pubkey_address env pk = Inr a)" for xs m
    by (induction xs arbitrary: m) (fastforce simp: hm_get_insert split: sum.splits if_splits)+
  from this [of "zip pks sigs" "[]"] show ?thesis
    using assms by (simp add: into_addr_map_def)
qed

lemma approved_some_key:
  assumes "thresholds_positive s" "approved s by_key k addr"
  shows "\<exists>a. by_key a"
  using assms(2)
proof (induction k arbitrary: addr)
  case (Suc k)
  show ?case
  proof (rule ccontr)
    assume "\<nexists>a. by_key a"
    then have none: "by_key = (\<lambda>_. False)" by blast
    then have "\<not> approved s (\<lambda>_. False) k a" for a
      using Suc.IH none by blast
    moreover obtain p where p: "hm_get s addr = Some p"
      using Suc.prems by (auto split: option.splits)
    ultimately have "ms_threshold p = 0"
      using none Suc.prems by (simp add: unat_eq_0 cong: if_cong)
    with p assms(1) show False by (auto simp: thresholds_positive_def)
  qed
qed simp

text \<open>
  (C13) \<^bold>\<open>Verification decides approval.\<close> On a state whose permissions are within their limits, the
  recursive verification of an account, with its early exits, its 32-bit accumulator and its depth
  counter, succeeds exactly when the account is approved by members nested at most seven levels deep:
  the full sum of the weights of the approving members reaches the threshold.
\<close>

theorem verify_multi_signature_approved:
  assumes "permissions_ok s"
  shows "is_ok (verify_multi_signature env s h w addr 0) \<longleftrightarrow> approved s (signed env h w) 7 addr"
  using verify_approved_level [OF assms, of 7] by simp

lemmas approved_numeral = approved.simps(2) [of _ _ "pred_numeral n" for n, folded numeral_eq_Suc]

lemma example_addr_eq [simp]: "example_addr m = example_addr n \<longleftrightarrow> m = n"
  by (simp add: example_addr_def replicate_eq_replicate)

lemma example_ms_state_ok: "permissions_ok example_ms_state" "thresholds_positive example_ms_state"
  by (auto simp: permissions_ok_def thresholds_positive_def permission_ok_def account_weight_def
      example_ms_state_def split: if_splits)

theorem verify_multi_signature_approved_witness:
  "permissions_ok example_ms_state \<and>
   is_ok (verify_multi_signature example_ms_env example_ms_state (Hash []) example_wit (example_addr 9) 0) \<and>
   \<not> is_ok (verify_multi_signature example_ms_env example_ms_state (Hash []) (tl example_wit) (example_addr 9) 0)"
  unfolding verify_multi_signature_approved [OF example_ms_state_ok(1)]
proof (intro conjI)
  show "permissions_ok example_ms_state" by (rule example_ms_state_ok)
qed (simp_all add: approved_numeral example_ms_state_def example_wit_def signed_def example_ms_env_def)

section \<open>Every operation keeps the permissions valid\<close>

lemma permissions_ok_insert [intro!]:
  "permissions_ok s \<Longrightarrow> permission_ok p \<Longrightarrow> permissions_ok (hm_insert a p s)"
  by (simp add: permissions_ok_def)

lemma thresholds_positive_insert [intro!]:
  "thresholds_positive s \<Longrightarrow> ms_threshold p \<noteq> 0 \<Longrightarrow> thresholds_positive (hm_insert a p s)"
  by (simp add: thresholds_positive_def)

lemma thresholds_positiveD: "thresholds_positive s \<Longrightarrow> hm_get s a = Some p \<Longrightarrow> ms_threshold p \<noteq> 0"
  by (auto simp: thresholds_positive_def)

lemma owned_state:
  assumes "\<And>p ctx. hm_get s addr = Some p \<Longrightarrow> P (snd (snd (body p ctx s)))" "P s"
  shows "P (snd (snd (owned addr d body ctx s)))"
  unfolding owned_def by (rule with_cycles_state) (auto simp: assms split: option.split)

lemma mark_accounts_weights: "map ac_weight (fst (mark_accounts items ctx s)) = map aw_weight items"
  by (induction items arbitrary: ctx) (simp_all add: split_beta Let_def)

lemma new_permission_ok:
  assumes "map ac_weight as = map aw_weight items" "length items \<le> MAX_PERMISSION_ACCOUNTS"
    and "\<not> payload_weight_sum items < t"
  shows "permission_ok \<lparr>ms_owner = ow, ms_accounts = as, ms_threshold = t, ms_memo = m\<rparr>"
proof -
  have len: "length as = length items" using assms(1) by (metis length_map)
  have "account_weight as = sum_list (map unat (map ac_weight as))"
    by (simp add: account_weight_def comp_def)
  also have "\<dots> = unat (payload_weight_sum items)"
    using assms(2) unat_sum_u8 [of items aw_weight]
    by (simp add: assms(1) payload_weight_sum_def comp_def MAX_PERMISSION_ACCOUNTS_def)
  finally show ?thesis
    using assms(2,3) len by (simp add: permission_ok_def word_less_unat not_less MAX_PERMISSION_ACCOUNTS_def)
qed

lemma account_index_le: "account_index addr as \<le> length as"
  by (induction as) auto

lemma account_index_nth: "account_index addr as < length as \<Longrightarrow> ac_address (as ! account_index addr as) = addr"
  by (induction as) auto

lemma account_weight_split:
  "i < length as \<Longrightarrow> account_weight as = account_weight (take i as @ drop (Suc i) as) + unat (ac_weight (as ! i))"
  by (subst (1) id_take_nth_drop [of i as]) (simp_all add: account_weight_def)

lemma account_weight_update:
  assumes "i < length as"
  shows "account_weight (as[i := (as ! i)\<lparr>ac_weight := w\<rparr>]) + unat (ac_weight (as ! i)) = account_weight as + unat w"
  using account_weight_split [OF assms] account_weight_split [of i "as[i := (as ! i)\<lparr>ac_weight := w\<rparr>]"] assms
  by (simp add: take_update_cancel drop_update_cancel)

lemma perm_remove_ok:
  assumes "permission_ok p" "perm_remove_account addr p = RemoveSuccess a q"
  shows "permission_ok q \<and> ms_threshold q = ms_threshold p"
proof -
  let ?as = "ms_accounts p" and ?i = "account_index addr (ms_accounts p)"
  have i: "?i < length ?as" and q: "q = p\<lparr>ms_accounts := take ?i ?as @ drop (Suc ?i) ?as\<rparr>"
    and guard: "\<not> weight_sum ?as - ucast (ac_weight (?as ! ?i)) < ms_threshold p"
    using assms(2) account_index_le [of addr ?as]
    by (auto simp: perm_remove_account_def Let_def split: if_splits)
  have len: "length ?as \<le> 16" using assms(1) by (simp add: permission_ok_def)
  have "unat (weight_sum ?as - ucast (ac_weight (?as ! ?i))) = account_weight (take ?i ?as @ drop (Suc ?i) ?as)"
    using weight_sum_exact [OF len] account_weight_split [OF i]
    by (simp add: unat_sub_exact word_le_unat)
  then show ?thesis
    using guard len i by (auto simp: q permission_ok_def word_less_unat not_less)
qed

lemma perm_set_weight_ok:
  assumes "permission_ok p" "perm_set_account_weight addr w p = SetWeightSuccess q"
  shows "permission_ok q \<and> ms_threshold q = ms_threshold p"
proof -
  let ?as = "ms_accounts p" and ?i = "account_index addr (ms_accounts p)"
  let ?new = "?as[?i := (?as ! ?i)\<lparr>ac_weight := w\<rparr>]"
  have i: "?i < length ?as" and q: "q = p\<lparr>ms_accounts := ?new\<rparr>"
    and guard: "\<not> weight_sum ?as + ucast w - ucast (ac_weight (?as ! ?i)) < ms_threshold p"
    using assms(2) account_index_le [of addr ?as]
    by (auto simp: perm_set_account_weight_def Let_def split: if_splits)
  have len: "length ?as \<le> 16" using assms(1) by (simp add: permission_ok_def)
  have add: "unat (weight_sum ?as + ucast w) = account_weight ?as + unat w"
    using weight_sum_exact [OF len] account_weight_bound [OF len] unat_u8_bound [of w]
    by (simp add: unat_add_u8)
  have "unat (weight_sum ?as + ucast w - ucast (ac_weight (?as ! ?i))) = account_weight ?new"
    using add account_weight_update [OF i, of w] by (simp add: unat_sub_exact word_le_unat)
  then show ?thesis
    using guard len by (auto simp: q permission_ok_def word_less_unat not_less)
qed

lemma generate_account_state:
  assumes "\<And>as o' addr. map ac_weight as = map aw_weight (gp_addr_with_weight p) \<Longrightarrow>
      length (gp_addr_with_weight p) \<le> MAX_PERMISSION_ACCOUNTS \<Longrightarrow>
      \<not> payload_weight_sum (gp_addr_with_weight p) < gp_threshold p \<Longrightarrow> gp_threshold p \<noteq> 0 \<Longrightarrow>
      P (hm_insert addr \<lparr>ms_owner = o', ms_accounts = as, ms_threshold = gp_threshold p, ms_memo = gp_memo p\<rparr> s)"
    and "P s"
  shows "P (snd (snd (generate_account env p ctx s)))"
  unfolding generate_account_def
  by (rule with_cycles_state)
    (auto simp: Let_def split_beta mark_accounts_weights not_less intro!: assms split: option.split sum.split)

lemma update_account_state:
  assumes "\<And>as. map ac_weight as = map aw_weight (up_addr_with_weight u) \<Longrightarrow>
      length (up_addr_with_weight u) \<le> MAX_PERMISSION_ACCOUNTS \<Longrightarrow>
      \<not> payload_weight_sum (up_addr_with_weight u) < up_threshold u \<Longrightarrow> up_threshold u \<noteq> 0 \<Longrightarrow>
      P (hm_insert (up_account_address u)
           \<lparr>ms_owner = up_owner u, ms_accounts = as, ms_threshold = up_threshold u, ms_memo = up_memo u\<rparr> s)"
    and "P s"
  shows "P (snd (snd (update_account u ctx s)))"
  unfolding update_account_def
  by (rule owned_state) (auto simp: Let_def split_beta mark_accounts_weights not_less intro!: assms)

lemma permission_ok_fields [simp]:
  "permission_ok (p\<lparr>ms_owner := a\<rparr>) = permission_ok p" "permission_ok (p\<lparr>ms_memo := m\<rparr>) = permission_ok p"
  by (simp_all add: permission_ok_def)

lemma permission_ok_add:
  "permission_ok p \<Longrightarrow> length (ms_accounts p) \<noteq> MAX_PERMISSION_ACCOUNTS \<Longrightarrow> permission_ok (perm_add_account a p)"
  by (auto simp: permission_ok_def perm_add_account_def account_weight_def MAX_PERMISSION_ACCOUNTS_def)

lemma permission_ok_threshold:
  "permission_ok p \<Longrightarrow> \<not> weight_sum (ms_accounts p) < t \<Longrightarrow> permission_ok (p\<lparr>ms_threshold := t\<rparr>)"
  using weight_sum_exact [of "ms_accounts p"] by (auto simp: permission_ok_def word_less_unat not_less)

lemma ms_exec_permissions_ok:
  assumes "permissions_ok s"
  shows "permissions_ok (ms_exec env c ctx s)"
proof (cases c)
  case (GenerateAccount p)
  show ?thesis unfolding GenerateAccount ms_exec.simps
    by (rule generate_account_state) (auto intro: new_permission_ok simp: assms)
next
  case (UpdateAccount u)
  show ?thesis unfolding UpdateAccount ms_exec.simps
    by (rule update_account_state) (auto intro: new_permission_ok simp: assms)
next
  case (ChangeOwner a n)
  show ?thesis unfolding ChangeOwner ms_exec.simps change_owner_def
    by (rule owned_state) (auto simp: assms dest: permissions_okD [OF assms])
next
  case (ChangeMemo a n)
  show ?thesis unfolding ChangeMemo ms_exec.simps change_memo_def
    by (rule owned_state) (auto simp: assms dest: permissions_okD [OF assms])
next
  case (AddAccount a n)
  show ?thesis unfolding AddAccount ms_exec.simps add_account_def
    by (rule owned_state) (auto simp: assms permission_ok_add dest: permissions_okD [OF assms])
next
  case (RemoveAccount a n)
  show ?thesis unfolding RemoveAccount ms_exec.simps remove_account_def
    by (rule owned_state)
      (auto simp: assms dest: permissions_okD [OF assms] perm_remove_ok split: remove_account_result.split)
next
  case (SetAccountWeight a n w)
  show ?thesis unfolding SetAccountWeight ms_exec.simps set_account_weight_def
    by (rule owned_state)
      (auto simp: assms dest: permissions_okD [OF assms] perm_set_weight_ok split: set_weight_result.split)
next
  case (SetThreshold a t)
  show ?thesis unfolding SetThreshold ms_exec.simps set_threshold_def
    by (rule owned_state) (auto simp: assms permission_ok_threshold dest: permissions_okD [OF assms])
qed

lemma perm_result_threshold:
  "perm_remove_account addr p = RemoveSuccess a q \<Longrightarrow> ms_threshold q = ms_threshold p"
  "perm_set_account_weight addr w p = SetWeightSuccess q \<Longrightarrow> ms_threshold q = ms_threshold p"
  by (auto simp: perm_remove_account_def perm_set_account_weight_def Let_def split: if_splits)

lemma ms_exec_thresholds_positive:
  assumes "thresholds_positive s" "\<And>a. c \<noteq> SetThreshold a 0"
  shows "thresholds_positive (ms_exec env c ctx s)"
proof (cases c)
  case (GenerateAccount p)
  show ?thesis unfolding GenerateAccount ms_exec.simps
    by (rule generate_account_state) (auto simp: assms(1))
next
  case (UpdateAccount u)
  show ?thesis unfolding UpdateAccount ms_exec.simps
    by (rule update_account_state) (auto simp: assms(1))
next
  case (SetThreshold a t)
  then have "t \<noteq> 0" using assms(2) by blast
  then show ?thesis unfolding SetThreshold ms_exec.simps set_threshold_def
    by - (rule owned_state, auto simp: assms(1))
next
  case (ChangeOwner a n)
  show ?thesis unfolding ChangeOwner ms_exec.simps change_owner_def
    by (rule owned_state) (auto simp: assms(1) dest: thresholds_positiveD [OF assms(1)])
next
  case (ChangeMemo a n)
  show ?thesis unfolding ChangeMemo ms_exec.simps change_memo_def
    by (rule owned_state) (auto simp: assms(1) dest: thresholds_positiveD [OF assms(1)])
next
  case (AddAccount a n)
  show ?thesis unfolding AddAccount ms_exec.simps add_account_def
    by (rule owned_state) (auto simp: assms(1) perm_add_account_def dest: thresholds_positiveD [OF assms(1)])
next
  case (RemoveAccount a n)
  show ?thesis unfolding RemoveAccount ms_exec.simps remove_account_def
    by (rule owned_state) (auto simp: assms(1) perm_result_threshold dest: thresholds_positiveD [OF assms(1)]
        split: remove_account_result.split)
next
  case (SetAccountWeight a n w)
  show ?thesis unfolding SetAccountWeight ms_exec.simps set_account_weight_def
    by (rule owned_state) (auto simp: assms(1) perm_result_threshold dest: thresholds_positiveD [OF assms(1)]
        split: set_weight_result.split)
qed

lemma ms_run_permissions_ok: "permissions_ok s \<Longrightarrow> permissions_ok (ms_run env calls s)"
  unfolding ms_run_def by (induction calls arbitrary: s) (auto simp: ms_exec_permissions_ok)

lemma ms_run_thresholds_positive:
  assumes "thresholds_positive s" "\<And>a ctx. (SetThreshold a 0, ctx) \<notin> set calls"
  shows "thresholds_positive (ms_run env calls s)"
  using assms unfolding ms_run_def
proof (induction calls arbitrary: s)
  case (Cons x calls)
  obtain c ctx where x: "x = (c, ctx)" by fastforce
  have "thresholds_positive (ms_exec env c ctx s)"
    using Cons.prems by (intro ms_exec_thresholds_positive) (auto simp: x)
  with Cons x show ?case by auto
qed simp

lemma ms_init_genesis_ok:
  assumes "ms_init_genesis addr owner items t memo [] = Inr s"
  shows "permissions_ok s \<and> thresholds_positive s"
proof -
  have "s = hm_insert addr \<lparr>ms_owner = owner,
         ms_accounts = map (\<lambda>i. \<lparr>ac_address = aw_address i, ac_weight = aw_weight i, ac_is_multiple = False\<rparr>) items,
         ms_threshold = t, ms_memo = memo\<rparr> []"
    and "length items \<le> MAX_PERMISSION_ACCOUNTS" "\<not> payload_weight_sum items < t" "t \<noteq> 0"
    using assms by (auto simp: ms_init_genesis_def not_less split: if_splits)
  then show ?thesis
    by (auto simp: comp_def permissions_ok_def thresholds_positive_def intro!: new_permission_ok)
qed

text \<open>
  (C14) \<^bold>\<open>Permissions stay valid.\<close> After any sequence of calls from a genesis that succeeds, every
  permission has at most sixteen members and a threshold the sum of their weights can reach; and if no
  call of the sequence sets a threshold to zero, every threshold is positive.
\<close>

theorem ms_permissions_valid:
  assumes "ms_init_genesis addr owner items t memo [] = Inr s"
  shows "permissions_ok (ms_run env calls s) \<and>
    ((\<forall>a ctx. (SetThreshold a 0, ctx) \<notin> set calls) \<longrightarrow> thresholds_positive (ms_run env calls s))"
  using ms_init_genesis_ok [OF assms] ms_run_permissions_ok ms_run_thresholds_positive by blast

theorem ms_permissions_valid_witness:
  "permissions_ok (ms_run example_ms_env
     [(AddAccount (example_addr 9) \<lparr>ac_address = example_addr 2, ac_weight = 7, ac_is_multiple = False\<rparr>,
       example_context (example_addr 1) 50000),
      (RemoveAccount (example_addr 9) (example_addr 1), example_context (example_addr 1) 50000)]
     [(example_addr 9, \<lparr>ms_owner = example_addr 1,
        ms_accounts = [\<lparr>ac_address = example_addr 1, ac_weight = 5, ac_is_multiple = False\<rparr>],
        ms_threshold = 3, ms_memo = ''''\<rparr>)])"
proof -
  have "ms_init_genesis (example_addr 9) (example_addr 1)
      [\<lparr>aw_address = example_addr 1, aw_weight = 5\<rparr>] 3 '''' [] =
    Inr [(example_addr 9, \<lparr>ms_owner = example_addr 1,
        ms_accounts = [\<lparr>ac_address = example_addr 1, ac_weight = 5, ac_is_multiple = False\<rparr>],
        ms_threshold = 3, ms_memo = ''''\<rparr>)]"
    by (simp add: ms_init_genesis_def payload_weight_sum_def MAX_PERMISSION_ACCOUNTS_def)
  from ms_permissions_valid [OF this] show ?thesis by blast
qed

section \<open>Acceptance needs a valid signature\<close>

text \<open>
  (C15) \<^bold>\<open>No acceptance without a signature.\<close> When the permissions are valid and every threshold is
  positive, a transaction is accepted only if at least one of the submitted signatures verifies its
  hash under the public key at the same position.
\<close>

theorem verify_needs_signature:
  assumes "permissions_ok s" "thresholds_positive s" "inner_verify_signature env s p = Inr ()"
  shows "\<exists>i < length (vp_pubkeys p). i < length (vp_signatures p) \<and>
    env_verify env (hash_bytes (vp_tx_hash p)) (vp_signatures p ! i) (vp_pubkeys p ! i)"
proof (cases "is_ok (verify_multi_signature env s (vp_tx_hash p)
    (into_addr_map env (vp_pubkeys p) (vp_signatures p)) (vp_sender p) 0)")
  case True
  then have "approved s (signed env (vp_tx_hash p) (into_addr_map env (vp_pubkeys p) (vp_signatures p))) 7 (vp_sender p)"
    using verify_approved_level [OF assms(1), of 7] by simp
  from approved_some_key [OF assms(2) this] obtain a pk sig where
    "hm_get (into_addr_map env (vp_pubkeys p) (vp_signatures p)) a = Some (pk, sig)"
    "env_verify env (hash_bytes (vp_tx_hash p)) sig pk"
    by (auto simp: signed_def)
  then show ?thesis
    using into_addr_map_sound by (fastforce simp: in_set_zip)
next
  case False
  then show ?thesis
    using assms(3)
    by (auto simp: inner_verify_signature_def verify_single_signature_def Let_def
        split: if_splits sum.splits)
qed

theorem verify_needs_signature_witness:
  "inner_verify_signature example_ms_env example_ms_state example_payload = Inr () \<and>
   (\<exists>i < length (vp_pubkeys example_payload). i < length (vp_signatures example_payload) \<and>
      env_verify example_ms_env (hash_bytes (vp_tx_hash example_payload))
        (vp_signatures example_payload ! i) (vp_pubkeys example_payload ! i))"
proof -
  have "inner_verify_signature example_ms_env example_ms_state example_payload = Inr ()"
    by (simp add: inner_verify_signature_def example_payload_def example_ms_env_def pubkey_address_def
        address_from_pubkey_bytes_def verify_single_signature_def example_addr_def hash_digest_def
        address_from_hash_def ensure_len_def HASH_LEN_def address_from_bytes_def ADDRESS_LEN_def
        res_bind_def res_map_def ok_or_def)
  with verify_needs_signature [OF example_ms_state_ok this] show ?thesis by blast
qed

text \<open>
  \<^bold>\<open>A zero threshold opens the account.\<close> \<^verbatim>\<open>set_threshold\<close> rejects thresholds above the weight sum
  but not zero, which the other operations reject. After a successful call with zero, a transaction in
  the account's name is accepted with no public key and no signature at all.
\<close>

theorem threshold_zero_accepts_unsigned:
  assumes "hm_get s addr = Some q" "ms_accounts q \<noteq> []" "ctx_caller ctx = ms_owner q"
    and "ctx_cycles_used ctx + 21000 \<le> ctx_cycles_limit ctx"
  shows "fst (set_threshold addr 0 ctx s) = from_succeed () \<and>
    inner_verify_signature env (snd (snd (set_threshold addr 0 ctx s)))
      \<lparr>vp_tx_hash = h, vp_pubkeys = [], vp_signatures = [], vp_sender = addr\<rparr> = Inr ()"
proof -
  obtain a as where as: "ms_accounts q = a # as" using assms(2) by (cases "ms_accounts q") auto
  have "verify_accounts env s' h w 0 (a # as) acc d = Inr ()" for s' w acc d
    by (simp add: Let_def)
  then show ?thesis
    using assms as
    by (simp add: set_threshold_def owned_def with_cycles_eq inner_verify_signature_def
        verify_multi_signature.simps MAX_MULTI_SIGNATURE_RECURSION_DEPTH_def Let_def)
qed

theorem threshold_zero_accepts_unsigned_witness:
  "inner_verify_signature example_ms_env
     (snd (snd (set_threshold (example_addr 9) 0 (example_context (example_addr 1) 30000) example_ms_state)))
     \<lparr>vp_tx_hash = Hash [], vp_pubkeys = [], vp_signatures = [], vp_sender = example_addr 9\<rparr> = Inr ()"
proof -
  have "hm_get example_ms_state (example_addr 9) = Some (snd (example_ms_state ! 0))"
    by (simp add: example_ms_state_def)
  from threshold_zero_accepts_unsigned [OF this, of "example_context (example_addr 1) 30000"] show ?thesis
    by (simp add: example_ms_state_def)
qed

section \<open>Members recorded under exhausted cycles\<close>

text \<open>
  \<^bold>\<open>Out of cycles, a multi-signature member becomes a single-key one.\<close> The member test of
  \<^verbatim>\<open>generate_account\<close> and \<^verbatim>\<open>update_account\<close> goes through a metered read whose out-of-cycles error is
  read as "no such account". When the caller has cycles for the operation itself but fewer than 10000
  more, the update succeeds and records every member as single-key, existing multi-signature
  accounts included.
\<close>

theorem update_account_out_of_cycles:
  assumes "hm_get s (up_account_address u) = Some q" "ctx_caller ctx = ms_owner q"
    and "ctx_cycles_used ctx + 21000 \<le> ctx_cycles_limit ctx"
    and "\<not> ctx_cycles_used ctx + 21000 + 10000 \<le> ctx_cycles_limit ctx"
    and "fst (update_account u ctx s) = from_succeed ()"
  shows "\<exists>r. hm_get (snd (snd (update_account u ctx s))) (up_account_address u) = Some r \<and>
    map ac_address (ms_accounts r) = map aw_address (up_addr_with_weight u) \<and>
    (\<forall>a \<in> set (ms_accounts r). \<not> ac_is_multiple a)"
proof -
  let ?c = "ctx\<lparr>ctx_cycles_used := ctx_cycles_used ctx + 21000\<rparr>"
  have mark: "mark_accounts items ?c s =
      (map (\<lambda>i. \<lparr>ac_address = aw_address i, ac_weight = aw_weight i, ac_is_multiple = False\<rparr>) items, ?c)" for items
    using assms(4)
    by (induction items) (simp_all add: get_account_from_address_def with_cycles_eq from_error_def is_error_def)
  show ?thesis
    using assms(1-3,5)
    by (auto simp: update_account_def owned_def with_cycles_eq Let_def mark ms_fail_def from_error_def
        from_succeed_def comp_def split: if_splits)
qed

theorem update_account_out_of_cycles_witness:
  "\<exists>r. hm_get (snd (snd (update_account example_update (example_context (example_addr 1) 26000) example_ms_state)))
     (example_addr 9) = Some r \<and> map ac_address (ms_accounts r) = [example_addr 8] \<and>
    (\<forall>a \<in> set (ms_accounts r). \<not> ac_is_multiple a)"
proof -
  let ?ctx = "example_context (example_addr 1) 26000"
  have get: "hm_get example_ms_state (up_account_address example_update) = Some (snd (example_ms_state ! 0))"
    by (simp add: example_ms_state_def example_update_def)
  have "\<not> is_recursion_depth_overflow example_ms_state (example_addr 8) 0"
    by (simp add: is_recursion_depth_overflow.simps example_ms_state_def MAX_MULTI_SIGNATURE_RECURSION_DEPTH_def)
  then have "fst (update_account example_update ?ctx example_ms_state) = from_succeed ()"
    using get
    by (simp add: update_account_def owned_def with_cycles_eq Let_def split_beta payload_weight_sum_def
        MAX_PERMISSION_ACCOUNTS_def example_update_def) (simp add: example_ms_state_def)
  from update_account_out_of_cycles [OF get _ _ _ this] show ?thesis
    by (simp add: example_update_def) (simp add: example_ms_state_def)
qed

end
