(* ===== verification/Mempool_Map.thy ===== *)
theory Mempool_Map
  imports Muta_Types
begin

text \<open>
  The bucketed hash map of the mempool, \<^verbatim>\<open>core/mempool/src/map.rs\<close>. A map is a vector of sixteen
  buckets; the bucket of a hash is given by the high four bits of its first byte. Locks are not
  modelled: every operation takes one bucket lock for its whole effect, so it is one step on a bucket.

  The locale \<^verbatim>\<open>hash_store\<close> states what the transaction cache relies on; the map is interpreted in it
  through its lookup function, which makes the sixteen buckets a refinement of one finite map.
\<close>

section \<open>Buckets\<close>

type_synonym 'v bucket = "(hash, 'v) hash_map"

definition bucket_insert :: "hash \<Rightarrow> 'v \<Rightarrow> 'v bucket \<Rightarrow> 'v option \<times> 'v bucket" where
  "bucket_insert hash val b =
     (if hm_contains b hash then (Some val, b) else (hm_get b hash, hm_insert hash val b))"

definition bucket_contains_key :: "hash \<Rightarrow> 'v bucket \<Rightarrow> bool" where
  "bucket_contains_key hash b = hm_contains b hash"

definition bucket_get :: "hash \<Rightarrow> 'v bucket \<Rightarrow> 'v option" where
  "bucket_get hash b = hm_get b hash"

definition bucket_remove :: "hash \<Rightarrow> 'v bucket \<Rightarrow> 'v bucket" where
  "bucket_remove hash b = hm_remove hash b"

definition bucket_remove_batch :: "hash list \<Rightarrow> 'v bucket \<Rightarrow> 'v bucket" where
  "bucket_remove_batch hashes b = fold hm_remove hashes b"

definition bucket_len :: "'v bucket \<Rightarrow> nat" where
  "bucket_len b = length b"

definition bucket_clear :: "'v bucket \<Rightarrow> 'v bucket" where
  "bucket_clear b = []"

section \<open>The map\<close>

type_synonym 'v tx_map = "'v bucket list"

text \<open>A hash has 32 bytes, so the first byte exists.\<close>

definition get_index :: "hash \<Rightarrow> nat" where
  "get_index hash = unat (drop_bit 4 (hash_bytes hash ! 0))"

definition get_bucket :: "'v tx_map \<Rightarrow> hash \<Rightarrow> 'v bucket" where
  "get_bucket m hash = m ! get_index hash"

definition tx_map_new :: "'v tx_map" where
  "tx_map_new = replicate 16 []"

definition tx_map_insert :: "hash \<Rightarrow> 'v \<Rightarrow> 'v tx_map \<Rightarrow> 'v option \<times> 'v tx_map" where
  "tx_map_insert hash val m =
     (case bucket_insert hash val (get_bucket m hash) of (r, b) \<Rightarrow> (r, m[get_index hash := b]))"

definition tx_map_contains_key :: "hash \<Rightarrow> 'v tx_map \<Rightarrow> bool" where
  "tx_map_contains_key hash m = bucket_contains_key hash (get_bucket m hash)"

definition tx_map_get :: "hash \<Rightarrow> 'v tx_map \<Rightarrow> 'v option" where
  "tx_map_get hash m = bucket_get hash (get_bucket m hash)"

definition tx_map_remove :: "hash \<Rightarrow> 'v tx_map \<Rightarrow> 'v tx_map" where
  "tx_map_remove hash m = m[get_index hash := bucket_remove hash (get_bucket m hash)]"

text \<open>The hashes of a batch grouped by bucket, in the order of the batch.\<close>

definition group_by_index :: "hash list \<Rightarrow> (nat, hash list) hash_map" where
  "group_by_index hashes =
     fold (\<lambda>hash h. hm_insert (get_index hash)
        ((case hm_get h (get_index hash) of None \<Rightarrow> [] | Some v \<Rightarrow> v) @ [hash]) h) hashes []"

definition tx_map_remove_batch :: "hash list \<Rightarrow> 'v tx_map \<Rightarrow> 'v tx_map" where
  "tx_map_remove_batch hashes m =
     fold (\<lambda>(index, hashes) m. m[index := bucket_remove_batch hashes (m ! index)]) (group_by_index hashes) m"

definition tx_map_len :: "'v tx_map \<Rightarrow> nat" where
  "tx_map_len m = fold (\<lambda>b n. n + bucket_len b) m 0"

definition tx_map_clear :: "'v tx_map \<Rightarrow> 'v tx_map" where
  "tx_map_clear m = map bucket_clear m"

text \<open>Sixteen buckets with distinct keys, each key in the bucket of its index.\<close>

definition tx_map_wf :: "'v tx_map \<Rightarrow> bool" where
  "tx_map_wf m \<longleftrightarrow> length m = 16 \<and>
     (\<forall>i < 16. hm_wf (m ! i) \<and> (\<forall>k \<in> fst ` set (m ! i). get_index k = i))"

section \<open>Sequences of operations\<close>

datatype 'v map_op = MapInsert hash 'v | MapRemove hash | MapRemoveBatch "hash list" | MapClear

fun map_exec :: "'v map_op \<Rightarrow> 'v tx_map \<Rightarrow> 'v tx_map" where
  "map_exec (MapInsert h v) m = snd (tx_map_insert h v m)"
| "map_exec (MapRemove h) m = tx_map_remove h m"
| "map_exec (MapRemoveBatch hs) m = tx_map_remove_batch hs m"
| "map_exec MapClear m = tx_map_clear m"

text \<open>The same operations on one map: an insertion never replaces a value.\<close>

fun map_spec :: "'v map_op \<Rightarrow> (hash \<rightharpoonup> 'v) \<Rightarrow> (hash \<rightharpoonup> 'v)" where
  "map_spec (MapInsert h v) f = (if f h = None then f(h \<mapsto> v) else f)"
| "map_spec (MapRemove h) f = f(h := None)"
| "map_spec (MapRemoveBatch hs) f = f |` (- set hs)"
| "map_spec MapClear f = Map.empty"

section \<open>The contract of a hash store\<close>

locale hash_store =
  fixes lookup :: "'m \<Rightarrow> hash \<Rightarrow> 'v option"
    and ins :: "hash \<Rightarrow> 'v \<Rightarrow> 'm \<Rightarrow> 'v option \<times> 'm"
    and del :: "hash \<Rightarrow> 'm \<Rightarrow> 'm"
    and del_batch :: "hash list \<Rightarrow> 'm \<Rightarrow> 'm"
    and size_of :: "'m \<Rightarrow> nat"
    and wf :: "'m \<Rightarrow> bool"
  assumes lookup_ins: "wf m \<Longrightarrow> lookup (snd (ins k v m)) = (if lookup m k = None then (lookup m)(k \<mapsto> v) else lookup m)"
    and fst_ins: "wf m \<Longrightarrow> fst (ins k v m) = (if lookup m k = None then None else Some v)"
    and lookup_del: "wf m \<Longrightarrow> lookup (del k m) = (lookup m)(k := None)"
    and lookup_del_batch: "wf m \<Longrightarrow> lookup (del_batch ks m) = (lookup m) |` (- set ks)"
    and size_of: "wf m \<Longrightarrow> finite (dom (lookup m)) \<and> size_of m = card (dom (lookup m))"
    and wf_ins: "wf m \<Longrightarrow> wf (snd (ins k v m))"
    and wf_del: "wf m \<Longrightarrow> wf (del k m)"
    and wf_del_batch: "wf m \<Longrightarrow> wf (del_batch ks m)"
begin

lemma ins_del:
  assumes "wf m" "fst (ins k v m) = None"
  shows "lookup (del k (snd (ins k v m))) = lookup m"
proof -
  have "lookup m k = None" using assms by (simp add: fst_ins split: if_splits)
  then show ?thesis using assms(1) by (auto simp: lookup_del wf_ins lookup_ins)
qed

lemma size_ins:
  assumes "wf m"
  shows "size_of (snd (ins k v m)) = size_of m + (if lookup m k = None then 1 else 0)"
proof -
  have "dom (lookup (snd (ins k v m))) = insert k (dom (lookup m))"
    using assms by (auto simp: lookup_ins)
  then show ?thesis
    using size_of [OF assms] size_of [OF wf_ins [OF assms]] by (auto simp: card_insert_if)
qed

lemma del_batch_fold:
  assumes "wf m"
  shows "lookup (del_batch ks m) = lookup (fold del ks m) \<and> wf (fold del ks m)"
proof -
  have "wf m \<Longrightarrow> lookup (fold del ks m) = (lookup m) |` (- set ks) \<and> wf (fold del ks m)" for m
    by (induction ks arbitrary: m) (auto simp: wf_del lookup_del restrict_map_def fun_eq_iff)
  with assms show ?thesis by (simp add: lookup_del_batch)
qed

end

section \<open>The bucketed map is a hash store\<close>

lemma get_index_less [simp]: "get_index h < 16"
proof -
  have "drop_bit 4 (w :: u8) < 16" for w
  proof -
    have "unat (drop_bit 4 w) = unat w div 16" by (simp add: drop_bit_eq_div unat_div_distrib)
    also have "\<dots> < 16" using unsigned_less [where ?'a = nat, of w] by simp
    finally show ?thesis by (simp add: word_less_nat_alt)
  qed
  from this [of "hash_bytes h ! 0"] show ?thesis by (simp add: get_index_def word_less_nat_alt)
qed

lemma tx_map_wfD:
  assumes "tx_map_wf m"
  shows "length m = 16" "i < 16 \<Longrightarrow> hm_wf (m ! i)" "i < 16 \<Longrightarrow> k \<in> fst ` set (m ! i) \<Longrightarrow> get_index k = i"
  using assms by (auto simp: tx_map_wf_def)

lemma tx_map_get_update:
  assumes "length m = 16"
  shows "tx_map_get h (m[i := b]) = (if get_index h = i then hm_get b h else tx_map_get h m)"
  using assms by (auto simp: tx_map_get_def get_bucket_def bucket_get_def)

lemma tx_map_wf_update:
  assumes "tx_map_wf m" "hm_wf b" "\<And>k. k \<in> fst ` set b \<Longrightarrow> get_index k = i"
  shows "tx_map_wf (m[i := b])"
  using assms by (cases "i < 16") (auto simp: tx_map_wf_def nth_list_update list_update_beyond)

lemma hm_remove_fold:
  "hm_get (fold hm_remove hs b) h = (if h \<in> set hs then None else hm_get b h)"
  "hm_wf b \<Longrightarrow> hm_wf (fold hm_remove hs b)"
  "fst ` set (fold hm_remove hs b) = fst ` set b - set hs"
  by (induction hs arbitrary: b) (auto simp: hm_keys_remove)

lemma group_by_index_get:
  "hm_get (group_by_index hs) i = (if i \<in> get_index ` set hs then Some (filter (\<lambda>h. get_index h = i) hs) else None)
   \<and> hm_wf (group_by_index hs)"
proof (induction hs rule: rev_induct)
  case (snoc h hs)
  have "k \<notin> get_index ` set hs \<Longrightarrow> filter (\<lambda>h. get_index h = k) hs = []" for k
    by (auto simp: filter_empty_conv)
  with snoc show ?case by (auto simp: group_by_index_def)
qed (simp add: group_by_index_def)

lemma fold_bucket_updates:
  assumes "length m = 16" "distinct (map fst gs)" "\<And>i hs. (i, hs) \<in> set gs \<Longrightarrow> i < 16"
  shows "length (fold (\<lambda>(i, hs) m. m[i := f hs (m ! i)]) gs m) = 16 \<and>
    (\<forall>j < 16. fold (\<lambda>(i, hs) m. m[i := f hs (m ! i)]) gs m ! j =
       (case hm_get gs j of None \<Rightarrow> m ! j | Some hs \<Rightarrow> f hs (m ! j)))"
  using assms
proof (induction gs arbitrary: m)
  case (Cons g gs)
  obtain i hs where g: "g = (i, hs)" by fastforce
  then have i: "i < 16" "hm_get gs i = None"
    using Cons.prems by (auto simp: map_of_eq_None_iff)
  have "length (fold (\<lambda>(i, hs) m. m[i := f hs (m ! i)]) gs (m[i := f hs (m ! i)])) = 16 \<and>
    (\<forall>j < 16. fold (\<lambda>(i, hs) m. m[i := f hs (m ! i)]) gs (m[i := f hs (m ! i)]) ! j =
       (case hm_get gs j of None \<Rightarrow> m[i := f hs (m ! i)] ! j | Some ks \<Rightarrow> f ks (m[i := f hs (m ! i)] ! j)))"
    using Cons.prems by (intro Cons.IH) auto
  then show ?case
    using Cons.prems(1) i by (simp add: g nth_list_update split: option.splits)
qed simp

lemma remove_batch_bucket:
  assumes "tx_map_wf m"
  shows "i < 16 \<Longrightarrow> tx_map_remove_batch hs m ! i = bucket_remove_batch (filter (\<lambda>h. get_index h = i) hs) (m ! i)"
    and "length (tx_map_remove_batch hs m) = 16"
proof -
  have "(j, ks) \<in> set (group_by_index hs) \<Longrightarrow> j < 16" for j ks
    using group_by_index_get [of hs j] by (auto simp: map_of_eq_Some_iff split: if_splits)
  then have *: "length (tx_map_remove_batch hs m) = 16 \<and>
      (\<forall>j < 16. tx_map_remove_batch hs m ! j =
        (case hm_get (group_by_index hs) j of None \<Rightarrow> m ! j | Some ks \<Rightarrow> bucket_remove_batch ks (m ! j)))"
    unfolding tx_map_remove_batch_def
    using fold_bucket_updates [of m "group_by_index hs" bucket_remove_batch] assms group_by_index_get [of hs]
    by (simp add: tx_map_wf_def)
  show "length (tx_map_remove_batch hs m) = 16" using * by blast
  show "tx_map_remove_batch hs m ! i = bucket_remove_batch (filter (\<lambda>h. get_index h = i) hs) (m ! i)" if "i < 16"
  proof (cases "i \<in> get_index ` set hs")
    case False
    then have "filter (\<lambda>h. get_index h = i) hs = []" by (auto simp: filter_empty_conv)
    with False show ?thesis using * that group_by_index_get [of hs i] by (simp add: bucket_remove_batch_def)
  qed (use * that group_by_index_get [of hs i] in simp)
qed

lemma tx_map_wf_remove_batch: "tx_map_wf m \<Longrightarrow> tx_map_wf (tx_map_remove_batch hs m)"
  by (auto simp: tx_map_wf_def remove_batch_bucket bucket_remove_batch_def hm_remove_fold)

lemma tx_map_get_remove_batch:
  assumes "tx_map_wf m"
  shows "tx_map_get h (tx_map_remove_batch hs m) = (if h \<in> set hs then None else tx_map_get h m)"
  by (simp add: tx_map_get_def get_bucket_def bucket_get_def remove_batch_bucket [OF assms]
      bucket_remove_batch_def hm_remove_fold)

lemma tx_map_len_sum: "tx_map_len m = sum_list (map length m)"
proof -
  have "fold (\<lambda>b n. n + bucket_len b) m n = n + sum_list (map length m)" for n
    by (induction m arbitrary: n) (simp_all add: bucket_len_def)
  then show ?thesis by (simp add: tx_map_len_def)
qed

lemma dom_tx_map_get:
  assumes "tx_map_wf m"
  shows "dom (\<lambda>h. tx_map_get h m) = (\<Union>i < 16. fst ` set (m ! i))"
proof (intro set_eqI iffI)
  fix h assume "h \<in> dom (\<lambda>h. tx_map_get h m)"
  then show "h \<in> (\<Union>i < 16. fst ` set (m ! i))"
    by (auto simp: tx_map_get_def get_bucket_def bucket_get_def dest!: map_of_SomeD
        intro!: bexI [of _ "get_index h"] rev_image_eqI)
next
  fix h assume "h \<in> (\<Union>i < 16. fst ` set (m ! i))"
  then obtain i where i: "i < 16" "h \<in> fst ` set (m ! i)" by blast
  then have "get_index h = i" using tx_map_wfD(3) [OF assms] by blast
  with i show "h \<in> dom (\<lambda>h. tx_map_get h m)"
    by (simp add: tx_map_get_def get_bucket_def bucket_get_def domIff map_of_eq_None_iff)
qed

lemma tx_map_len_card:
  assumes "tx_map_wf m"
  shows "finite (dom (\<lambda>h. tx_map_get h m)) \<and> tx_map_len m = card (dom (\<lambda>h. tx_map_get h m))"
proof -
  have "card (\<Union>i \<in> {..<16}. fst ` set (m ! i)) = (\<Sum>i \<in> {..<16}. card (fst ` set (m ! i)))"
    by (rule card_UN_disjoint) (use tx_map_wfD(3) [OF assms] in blast)+
  also have "\<dots> = (\<Sum>i \<in> {..<16}. length (m ! i))"
    using tx_map_wfD(2) [OF assms] by (intro sum.cong refl) (metis distinct_card lessThan_iff length_map set_map)
  also have "\<dots> = tx_map_len m"
    using tx_map_wfD(1) [OF assms] by (simp add: tx_map_len_sum sum_list_sum_nth atLeast0LessThan)
  finally show ?thesis by (simp add: dom_tx_map_get [OF assms])
qed

lemma bucket_wf: "tx_map_wf m \<Longrightarrow> hm_wf (m ! get_index h) \<and> (\<forall>k \<in> fst ` set (m ! get_index h). get_index k = get_index h)"
  by (simp add: tx_map_wf_def)

interpretation tm: hash_store "\<lambda>m h. tx_map_get h m" tx_map_insert tx_map_remove tx_map_remove_batch tx_map_len tx_map_wf
proof
  fix m :: "'a tx_map" and k v ks assume wf: "tx_map_wf m"
  note len = tx_map_wfD(1) [OF wf]
  have get: "hm_get (m ! get_index k) k = tx_map_get k m"
    by (simp add: tx_map_get_def get_bucket_def bucket_get_def)
  show "(\<lambda>h. tx_map_get h (snd (tx_map_insert k v m))) =
      (if tx_map_get k m = None then (\<lambda>h. tx_map_get h m)(k \<mapsto> v) else (\<lambda>h. tx_map_get h m))"
    by (auto simp: tx_map_insert_def bucket_insert_def get_bucket_def hm_contains_def get
        tx_map_get_update [OF len] fun_eq_iff) (simp_all add: tx_map_get_def get_bucket_def bucket_get_def)
  show "fst (tx_map_insert k v m) = (if tx_map_get k m = None then None else Some v)"
    by (simp add: tx_map_insert_def bucket_insert_def get_bucket_def hm_contains_def get)
  show "(\<lambda>h. tx_map_get h (tx_map_remove k m)) = (\<lambda>h. tx_map_get h m)(k := None)"
    by (auto simp: tx_map_remove_def bucket_remove_def get_bucket_def tx_map_get_update [OF len] fun_eq_iff)
      (simp add: tx_map_get_def get_bucket_def bucket_get_def)
  show "(\<lambda>h. tx_map_get h (tx_map_remove_batch ks m)) = (\<lambda>h. tx_map_get h m) |` (- set ks)"
    by (simp add: tx_map_get_remove_batch [OF wf] restrict_map_def fun_eq_iff)
  show "finite (dom (\<lambda>h. tx_map_get h m)) \<and> tx_map_len m = card (dom (\<lambda>h. tx_map_get h m))"
    by (rule tx_map_len_card [OF wf])
  show "tx_map_wf (snd (tx_map_insert k v m))"
    using bucket_wf [OF wf, of k] wf
    by (simp add: tx_map_insert_def bucket_insert_def get_bucket_def)
      (intro impI tx_map_wf_update, auto simp only: hm_keys_insert hm_wf_insert)
  show "tx_map_wf (tx_map_remove k m)"
    using bucket_wf [OF wf, of k] wf
    by (simp add: tx_map_remove_def bucket_remove_def get_bucket_def)
      (intro tx_map_wf_update, auto simp only: hm_keys_remove hm_wf_remove)
  show "tx_map_wf (tx_map_remove_batch ks m)"
    by (rule tx_map_wf_remove_batch [OF wf])
qed

lemma tx_map_wf_new [simp]: "tx_map_wf tx_map_new" "tx_map_get h tx_map_new = None"
  by (simp_all add: tx_map_wf_def tx_map_new_def tx_map_get_def get_bucket_def bucket_get_def)

lemma tx_map_contains_key_get: "tx_map_contains_key h m \<longleftrightarrow> tx_map_get h m \<noteq> None"
  by (simp add: tx_map_contains_key_def tx_map_get_def bucket_contains_key_def bucket_get_def hm_contains_def)

lemma tx_map_clear_wf: "tx_map_wf m \<Longrightarrow> tx_map_wf (tx_map_clear m) \<and> tx_map_get h (tx_map_clear m) = None"
  by (simp add: tx_map_wf_def tx_map_clear_def bucket_clear_def tx_map_get_def get_bucket_def bucket_get_def)

lemmas tx_map_laws = tm.lookup_ins [THEN fun_cong] tm.fst_ins tm.lookup_del [THEN fun_cong]
  tm.lookup_del_batch [THEN fun_cong] tm.wf_ins tm.wf_del tm.wf_del_batch

lemma map_exec_refines:
  assumes "tx_map_wf m"
  shows "tx_map_wf (map_exec op m) \<and> (\<lambda>h. tx_map_get h (map_exec op m)) = map_spec op (\<lambda>h. tx_map_get h m)"
  using assms tx_map_clear_wf [OF assms]
  by (cases op) (simp_all add: tm.wf_ins tm.wf_del tm.wf_del_batch tm.lookup_ins tm.lookup_del tm.lookup_del_batch)

text \<open>
  (C21) \<^bold>\<open>Sixteen buckets are one map.\<close> After any sequence of insertions, removals, batch removals and
  clears from the empty map, the lookup function of the buckets is the map the same operations give on
  a single finite map, and the length is its number of keys.
\<close>

theorem tx_map_refines:
  fixes ops :: "'v map_op list"
  defines "m \<equiv> fold map_exec ops tx_map_new"
  shows "(\<lambda>h. tx_map_get h m) = fold map_spec ops Map.empty \<and> tx_map_len m = card (dom (fold map_spec ops Map.empty))"
proof -
  have "tx_map_wf m0 \<Longrightarrow> tx_map_wf (fold map_exec ops m0) \<and>
      (\<lambda>h. tx_map_get h (fold map_exec ops m0)) = fold map_spec ops (\<lambda>h. tx_map_get h m0)" for m0
    by (induction ops arbitrary: m0) (simp_all add: map_exec_refines)
  from this [of tx_map_new] show ?thesis
    using tm.size_of [of m] by (simp add: m_def)
qed

end
