(* ===== verification/Tx_Cache.thy ===== *)
theory Tx_Cache
  imports Mempool_Map
begin

text \<open>
  The transaction cache of the mempool, \<^verbatim>\<open>core/mempool/src/tx_cache.rs\<close>: two bounded queues that swap
  roles and the bucketed map. A wrapper is shared by reference between the map and the queues, so the
  wrappers live in a store and the containers hold their index. The queue is \<^verbatim>\<open>ArrayQueue\<close> of the package
  crossbeam, a parameter \<^verbatim>\<open>queue_ops\<close>; \<^verbatim>\<open>queue_lawful\<close> states its documented behaviour, a bounded
  first-in first-out queue.

  The loops pop until the queue is empty. They are partial functions, and the lemmas show that they
  return. The main results are a specification of \<^verbatim>\<open>package\<close> and a refinement: after any sequence of
  operations the cache behaves as one list of transactions without duplicates.
\<close>

section \<open>Wrappers and errors\<close>

datatype mempool_error =
    ExceedSizeLimit hash u64 u64
  | ExceedCyclesLimit hash u64 u64
  | InsertErr hash
  | ReachLimit nat
  | Dup hash
  | EnsureBreak nat nat
  | EnsureDup hash
  | MisMatch nat nat
  | InsertCandidate nat
  | CheckAuthorization hash string
  | CheckHash hash hash
  | CommittedTx hash
  | WrongChain hash
  | TimeoutErr hash u64
  | InvalidTimeout hash
  | VerifyBatchTransactions
  | EncodeJson
  | AdapterInternal
  | IntervalBroadcasterDrop
  | OuterError string

record tx_wrapper =
  tw_tx :: signed_transaction
  tw_removed :: bool
  tw_proposed :: bool

definition tw_new :: "signed_transaction \<Rightarrow> tx_wrapper" where
  "tw_new tx = \<lparr>tw_tx = tx, tw_removed = False, tw_proposed = False\<rparr>"

definition tw_propose :: "signed_transaction \<Rightarrow> tx_wrapper" where
  "tw_propose tx = \<lparr>tw_tx = tx, tw_removed = False, tw_proposed = True\<rparr>"

definition set_removed :: "tx_wrapper \<Rightarrow> tx_wrapper" where
  "set_removed w = w\<lparr>tw_removed := True\<rparr>"

definition is_timeout :: "tx_wrapper \<Rightarrow> u64 \<Rightarrow> u64 \<Rightarrow> bool" where
  "is_timeout w current_height timeout \<longleftrightarrow>
     raw_timeout (stx_raw (tw_tx w)) \<le> current_height \<or> raw_timeout (stx_raw (tw_tx w)) > timeout"

abbreviation tw_hash :: "tx_wrapper \<Rightarrow> hash" where
  "tw_hash w \<equiv> stx_tx_hash (tw_tx w)"

datatype stage = OrderTxs | ProposeTxs | Finished

fun stage_next :: "stage \<Rightarrow> (mempool_error, stage) result" where
  "stage_next OrderTxs = Inr ProposeTxs"
| "stage_next ProposeTxs = Inr Finished"
| "stage_next Finished = Inl Panic"

record mixed_tx_hashes =
  order_tx_hashes :: "hash list"
  propose_tx_hashes :: "hash list"

section \<open>The queue interface\<close>

record 'q queue_ops =
  qo_new :: "nat \<Rightarrow> 'q"
  qo_push :: "nat \<Rightarrow> 'q \<Rightarrow> 'q option"
  qo_pop :: "'q \<Rightarrow> (nat \<times> 'q) option"
  qo_len :: "'q \<Rightarrow> nat"

text \<open>A bounded first-in first-out queue: \<^verbatim>\<open>items\<close> lists its elements, \<^verbatim>\<open>cap\<close> is its capacity.\<close>

definition queue_lawful :: "'q queue_ops \<Rightarrow> ('q \<Rightarrow> nat list) \<Rightarrow> ('q \<Rightarrow> nat) \<Rightarrow> bool" where
  "queue_lawful ops items cap \<longleftrightarrow>
     (\<forall>n. items (qo_new ops n) = [] \<and> cap (qo_new ops n) = n) \<and>
     (\<forall>x q. (case qo_push ops x q of
               None \<Rightarrow> length (items q) \<ge> cap q
             | Some q' \<Rightarrow> length (items q) < cap q \<and> items q' = items q @ [x] \<and> cap q' = cap q)) \<and>
     (\<forall>q. (case qo_pop ops q of
             None \<Rightarrow> items q = []
           | Some (x, q') \<Rightarrow> items q = x # items q' \<and> cap q' = cap q)) \<and>
     (\<forall>q. qo_len ops q = length (items q))"

text \<open>\<^verbatim>\<open>loop { if let Ok(x) = queue.pop() { body } else { break } }\<close>.\<close>

partial_function (option) pop_loop ::
    "'q queue_ops \<Rightarrow> (nat \<Rightarrow> 's \<Rightarrow> (mempool_error, 's) result) \<Rightarrow> 'q \<Rightarrow> 's \<Rightarrow> (mempool_error, 'q \<times> 's) result option" where
  "pop_loop ops body q s =
     (case qo_pop ops q of
        None \<Rightarrow> Some (Inr (q, s))
      | Some (x, q') \<Rightarrow>
          (case body x s of
             Inl e \<Rightarrow> Some (Inl e)
           | Inr s' \<Rightarrow> pop_loop ops body q' s'))"

section \<open>The cache\<close>

record 'q tx_cache =
  tc_queue_0 :: 'q
  tc_queue_1 :: 'q
  tc_map :: "nat tx_map"
  tc_is_zero :: bool
  tc_concurrent_count :: nat
  tc_store :: "tx_wrapper list"

definition tx_cache_empty :: "'q queue_ops \<Rightarrow> nat \<Rightarrow> 'q tx_cache" where
  "tx_cache_empty ops pool_size =
     \<lparr>tc_queue_0 = qo_new ops (pool_size * 2), tc_queue_1 = qo_new ops (pool_size * 2),
      tc_map = tx_map_new, tc_is_zero = True, tc_concurrent_count = 0, tc_store = []\<rparr>"

text \<open>\<^verbatim>\<open>ArrayQueue::new\<close> panics when the capacity is zero.\<close>

definition tx_cache_new :: "'q queue_ops \<Rightarrow> nat \<Rightarrow> ('e, 'q tx_cache) result" where
  "tx_cache_new ops pool_size =
     (if pool_size * 2 = 0 then Inl Panic else Inr (tx_cache_empty ops pool_size))"

definition tc_incumbent :: "'q tx_cache \<Rightarrow> 'q" where
  "tc_incumbent c = (if tc_is_zero c then tc_queue_0 c else tc_queue_1 c)"

definition tc_candidate :: "'q tx_cache \<Rightarrow> 'q" where
  "tc_candidate c = (if tc_is_zero c then tc_queue_1 c else tc_queue_0 c)"

definition set_queues :: "'q \<Rightarrow> 'q \<Rightarrow> 'q tx_cache \<Rightarrow> 'q tx_cache" where
  "set_queues inc cand c =
     (if tc_is_zero c then c\<lparr>tc_queue_0 := inc, tc_queue_1 := cand\<rparr>
      else c\<lparr>tc_queue_1 := inc, tc_queue_0 := cand\<rparr>)"

definition switch_queue_role :: "'q tx_cache \<Rightarrow> 'q tx_cache" where
  "switch_queue_role c = c\<lparr>tc_is_zero := \<not> tc_is_zero c\<rparr>"

definition tx_cache_len :: "'q tx_cache \<Rightarrow> nat" where
  "tx_cache_len c = tx_map_len (tc_map c)"

definition queue_len :: "'q queue_ops \<Rightarrow> 'q tx_cache \<Rightarrow> nat" where
  "queue_len ops c = qo_len ops (tc_incumbent c)"

definition contain :: "'q tx_cache \<Rightarrow> hash \<Rightarrow> bool" where
  "contain c tx_hash = tx_map_contains_key tx_hash (tc_map c)"

definition check_exist :: "hash \<Rightarrow> 'q tx_cache \<Rightarrow> (mempool_error, unit) result" where
  "check_exist tx_hash c = (if contain c tx_hash then Inl (Err (Dup tx_hash)) else Inr ())"

definition check_reach_limit :: "nat \<Rightarrow> 'q tx_cache \<Rightarrow> (mempool_error, unit) result" where
  "check_reach_limit pool_size c =
     (if tx_cache_len c \<ge> pool_size then Inl (Err (ReachLimit pool_size)) else Inr ())"

definition tx_cache_get :: "'q tx_cache \<Rightarrow> hash \<Rightarrow> signed_transaction option" where
  "tx_cache_get c tx_hash = map_option (\<lambda>i. tw_tx (tc_store c ! i)) (tx_map_get tx_hash (tc_map c))"

definition show_unknown :: "'q tx_cache \<Rightarrow> hash list \<Rightarrow> hash list" where
  "show_unknown c tx_hashes = filter (\<lambda>h. \<not> contain c h) tx_hashes"

text \<open>
  \<^verbatim>\<open>TxCache::insert\<close> of a new wrapper, which gets the next index of the store. The counter of running
  insertions goes up before the push and down after it.
\<close>

definition tx_cache_insert :: "'q queue_ops \<Rightarrow> hash \<Rightarrow> tx_wrapper \<Rightarrow> 'q tx_cache \<Rightarrow> (mempool_error, unit) result \<times> 'q tx_cache" where
  "tx_cache_insert ops tx_hash w c =
     (let i = length (tc_store c);
          c = c\<lparr>tc_store := tc_store c @ [w]\<rparr>;
          (prev, m) = tx_map_insert tx_hash i (tc_map c);
          c = c\<lparr>tc_map := m\<rparr>
      in case prev of
           Some _ \<Rightarrow> (Inl (Err (Dup tx_hash)), c)
         | None \<Rightarrow>
             (let c = c\<lparr>tc_concurrent_count := tc_concurrent_count c + 1\<rparr>;
                  rst = qo_push ops i (tc_incumbent c);
                  c = (case rst of None \<Rightarrow> c | Some q \<Rightarrow> set_queues q (tc_candidate c) c);
                  c = c\<lparr>tc_concurrent_count := tc_concurrent_count c - 1\<rparr>
              in case rst of
                   None \<Rightarrow> (Inl (Err (InsertErr tx_hash)), c\<lparr>tc_map := tx_map_remove tx_hash (tc_map c)\<rparr>)
                 | Some _ \<Rightarrow> (Inr (), c)))"

definition insert_new_tx :: "'q queue_ops \<Rightarrow> signed_transaction \<Rightarrow> 'q tx_cache \<Rightarrow> (mempool_error, unit) result \<times> 'q tx_cache" where
  "insert_new_tx ops tx c = tx_cache_insert ops (stx_tx_hash tx) (tw_new tx) c"

definition insert_propose_tx :: "'q queue_ops \<Rightarrow> signed_transaction \<Rightarrow> 'q tx_cache \<Rightarrow> (mempool_error, unit) result \<times> 'q tx_cache" where
  "insert_propose_tx ops tx c = tx_cache_insert ops (stx_tx_hash tx) (tw_propose tx) c"

text \<open>The body of the inner loop of \<^verbatim>\<open>process_omission_txs\<close>, on the new incumbent queue and the map.\<close>

definition omission_step ::
    "'q queue_ops \<Rightarrow> tx_wrapper list \<Rightarrow> nat \<Rightarrow> 'q \<times> nat tx_map \<Rightarrow> (mempool_error, 'q \<times> nat tx_map) result" where
  "omission_step ops store i = (\<lambda>(inc, m).
     (case qo_push ops i inc of
        None \<Rightarrow> Inr (inc, tx_map_remove (tw_hash (store ! i)) m)
      | Some inc' \<Rightarrow> Inr (inc', m)))"

text \<open>
  \<^verbatim>\<open>process_omission_txs\<close> spins while an insertion is running. With no other thread in the model a
  non-zero counter makes it loop forever.
\<close>

partial_function (option) process_omission_txs :: "'q queue_ops \<Rightarrow> 'q tx_cache \<Rightarrow> (mempool_error, 'q tx_cache) result option" where
  "process_omission_txs ops c =
     (if tc_concurrent_count c = 0 then
        (case pop_loop ops (omission_step ops (tc_store c)) (tc_candidate c) (tc_incumbent c, tc_map c) of
           None \<Rightarrow> None
         | Some (Inl e) \<Rightarrow> Some (Inl e)
         | Some (Inr (cand, inc, m)) \<Rightarrow> Some (Inr ((set_queues inc cand c)\<lparr>tc_map := m\<rparr>)))
      else process_omission_txs ops c)"

section \<open>Packaging\<close>

record 'q pkg_state =
  pk_candidate :: 'q
  pk_map :: "nat tx_map"
  pk_order :: "hash list"
  pk_propose :: "hash list"
  pk_timeout :: "hash list"
  pk_count :: u64
  pk_stage :: stage

text \<open>One round of the loop of \<^verbatim>\<open>package\<close> on a popped wrapper.\<close>

definition package_step ::
    "'q queue_ops \<Rightarrow> tx_wrapper list \<Rightarrow> u64 \<Rightarrow> u64 \<Rightarrow> u64 \<Rightarrow> nat \<Rightarrow> 'q pkg_state \<Rightarrow> (mempool_error, 'q pkg_state) result" where
  "package_step ops store tx_num_limit current_height timeout i st =
     (let w = store ! i; tx_hash = tw_hash w in
      if tw_removed w then Inr st
      else if is_timeout w current_height timeout then Inr (st\<lparr>pk_timeout := pk_timeout st @ [tx_hash]\<rparr>)
      else
        (let st = (case qo_push ops i (pk_candidate st) of
                     None \<Rightarrow> st\<lparr>pk_map := tx_map_remove tx_hash (pk_map st)\<rparr>
                   | Some q \<Rightarrow> st\<lparr>pk_candidate := q\<rparr>)
         in if pk_stage st = Finished \<or> (pk_stage st = ProposeTxs \<and> tw_proposed w) then Inr st
            else
              (let st = st\<lparr>pk_count := pk_count st + 1\<rparr> in
               res_bind
                 (if pk_count st > tx_num_limit
                  then res_map (\<lambda>stg. st\<lparr>pk_stage := stg, pk_count := 1\<rparr>) (stage_next (pk_stage st))
                  else Inr st)
                 (\<lambda>st. Inr (case pk_stage st of
                     OrderTxs \<Rightarrow> st\<lparr>pk_order := pk_order st @ [tx_hash]\<rparr>
                   | ProposeTxs \<Rightarrow> st\<lparr>pk_propose := pk_propose st @ [tx_hash]\<rparr>
                   | Finished \<Rightarrow> st)))))"

definition tx_cache_package ::
    "'q queue_ops \<Rightarrow> u64 \<Rightarrow> u64 \<Rightarrow> u64 \<Rightarrow> 'q tx_cache \<Rightarrow> (mempool_error, mixed_tx_hashes \<times> 'q tx_cache) result option" where
  "tx_cache_package ops tx_num_limit current_height timeout c =
     (case pop_loop ops (package_step ops (tc_store c) tx_num_limit current_height timeout) (tc_incumbent c)
             \<lparr>pk_candidate = tc_candidate c, pk_map = tc_map c, pk_order = [], pk_propose = [], pk_timeout = [],
              pk_count = 0, pk_stage = OrderTxs\<rparr> of
        None \<Rightarrow> None
      | Some (Inl e) \<Rightarrow> Some (Inl e)
      | Some (Inr (inc, st)) \<Rightarrow>
          (case process_omission_txs ops
                  (switch_queue_role ((set_queues inc (pk_candidate st) c)\<lparr>tc_map := pk_map st\<rparr>)) of
             None \<Rightarrow> None
           | Some (Inl e) \<Rightarrow> Some (Inl e)
           | Some (Inr c) \<Rightarrow>
               Some (Inr (\<lparr>order_tx_hashes = pk_order st, propose_tx_hashes = pk_propose st\<rparr>,
                          c\<lparr>tc_map := tx_map_remove_batch (pk_timeout st) (tc_map c)\<rparr>))))"

section \<open>Flushing\<close>

definition flush_step ::
    "'q queue_ops \<Rightarrow> tx_wrapper list \<Rightarrow> u64 \<Rightarrow> u64 \<Rightarrow> nat \<Rightarrow> 'q \<times> nat tx_map \<times> hash list
     \<Rightarrow> (mempool_error, 'q \<times> nat tx_map \<times> hash list) result" where
  "flush_step ops store current_height timeout i = (\<lambda>(cand, m, timeouts).
     (let w = store ! i in
      if tw_removed w then Inr (cand, m, timeouts)
      else if is_timeout w current_height timeout then Inr (cand, m, timeouts @ [tw_hash w])
      else (case qo_push ops i cand of
              None \<Rightarrow> Inr (cand, tx_map_remove (tw_hash w) m, timeouts)
            | Some q \<Rightarrow> Inr (q, m, timeouts))))"

definition flush_incumbent_queue ::
    "'q queue_ops \<Rightarrow> u64 \<Rightarrow> u64 \<Rightarrow> 'q tx_cache \<Rightarrow> (mempool_error, 'q tx_cache) result option" where
  "flush_incumbent_queue ops current_height timeout c =
     (case pop_loop ops (flush_step ops (tc_store c) current_height timeout) (tc_incumbent c)
             (tc_candidate c, tc_map c, []) of
        None \<Rightarrow> None
      | Some (Inl e) \<Rightarrow> Some (Inl e)
      | Some (Inr (inc, cand, m, timeouts)) \<Rightarrow>
          (case process_omission_txs ops (switch_queue_role ((set_queues inc cand c)\<lparr>tc_map := m\<rparr>)) of
             None \<Rightarrow> None
           | Some (Inl e) \<Rightarrow> Some (Inl e)
           | Some (Inr c) \<Rightarrow> Some (Inr (c\<lparr>tc_map := tx_map_remove_batch timeouts (tc_map c)\<rparr>))))"

definition mark_removed :: "hash list \<Rightarrow> 'q tx_cache \<Rightarrow> 'q tx_cache" where
  "mark_removed tx_hashes c =
     fold (\<lambda>h c. case tx_map_get h (tc_map c) of
             Some i \<Rightarrow> c\<lparr>tc_store := (tc_store c)[i := set_removed (tc_store c ! i)]\<rparr>
           | None \<Rightarrow> c) tx_hashes c"

definition tx_cache_flush ::
    "'q queue_ops \<Rightarrow> hash list \<Rightarrow> u64 \<Rightarrow> u64 \<Rightarrow> 'q tx_cache \<Rightarrow> (mempool_error, 'q tx_cache) result option" where
  "tx_cache_flush ops tx_hashes current_height timeout c =
     (let c = mark_removed tx_hashes c;
          c = c\<lparr>tc_map := tx_map_remove_batch tx_hashes (tc_map c)\<rparr>
      in flush_incumbent_queue ops current_height timeout c)"

section \<open>Reference definitions\<close>

text \<open>The live transactions of the cache, oldest first.\<close>

definition pool :: "('q \<Rightarrow> nat list) \<Rightarrow> 'q tx_cache \<Rightarrow> tx_wrapper list" where
  "pool items c = map (\<lambda>i. tc_store c ! i) (items (tc_incumbent c))"

definition order_part :: "nat \<Rightarrow> tx_wrapper list \<Rightarrow> hash list" where
  "order_part limit ws = map tw_hash (take limit ws)"

text \<open>
  The first transaction after the order part is proposed whatever its mark; after it the marked ones
  are skipped.
\<close>

definition propose_part :: "nat \<Rightarrow> tx_wrapper list \<Rightarrow> hash list" where
  "propose_part limit ws =
     (case drop limit ws of
        [] \<Rightarrow> []
      | w # rest \<Rightarrow> tw_hash w # map tw_hash (take (limit - 1) (filter (\<lambda>w. \<not> tw_proposed w) rest)))"

definition alive :: "u64 \<Rightarrow> u64 \<Rightarrow> tx_wrapper \<Rightarrow> bool" where
  "alive height timeout w \<longleftrightarrow> \<not> tw_removed w \<and> \<not> is_timeout w height timeout"

datatype cache_op =
    OpInsertNew signed_transaction
  | OpInsertPropose signed_transaction
  | OpPackage u64 u64 u64
  | OpFlush "hash list" u64 u64

datatype cache_result = ResInsert "(mempool_error, unit) result" | ResPackage mixed_tx_hashes | ResFlush

text \<open>A sequence of operations on the cache; None when one of them does not return or panics.\<close>

fun cache_run :: "'q queue_ops \<Rightarrow> cache_op list \<Rightarrow> 'q tx_cache \<Rightarrow> (cache_result list \<times> 'q tx_cache) option" where
  "cache_run ops [] c = Some ([], c)"
| "cache_run ops (OpInsertNew tx # os) c =
     (case insert_new_tx ops tx c of (r, c) \<Rightarrow> map_option (\<lambda>(rs, c). (ResInsert r # rs, c)) (cache_run ops os c))"
| "cache_run ops (OpInsertPropose tx # os) c =
     (case insert_propose_tx ops tx c of (r, c) \<Rightarrow> map_option (\<lambda>(rs, c). (ResInsert r # rs, c)) (cache_run ops os c))"
| "cache_run ops (OpPackage limit height timeout # os) c =
     (case tx_cache_package ops limit height timeout c of
        Some (Inr (mixed, c)) \<Rightarrow> map_option (\<lambda>(rs, c). (ResPackage mixed # rs, c)) (cache_run ops os c)
      | _ \<Rightarrow> None)"
| "cache_run ops (OpFlush hs height timeout # os) c =
     (case tx_cache_flush ops hs height timeout c of
        Some (Inr c) \<Rightarrow> map_option (\<lambda>(rs, c). (ResFlush # rs, c)) (cache_run ops os c)
      | _ \<Rightarrow> None)"

text \<open>The abstract pool: a list of wrappers with distinct hashes and a capacity.\<close>

definition pool_insert :: "nat \<Rightarrow> tx_wrapper \<Rightarrow> tx_wrapper list \<Rightarrow> (mempool_error, unit) result \<times> tx_wrapper list" where
  "pool_insert n w p =
     (if tw_hash w \<in> tw_hash ` set p then (Inl (Err (Dup (tw_hash w))), p)
      else if n \<le> length p then (Inl (Err (InsertErr (tw_hash w))), p)
      else (Inr (), p @ [w]))"

definition pool_package :: "u64 \<Rightarrow> u64 \<Rightarrow> u64 \<Rightarrow> tx_wrapper list \<Rightarrow> mixed_tx_hashes \<times> tx_wrapper list" where
  "pool_package limit height timeout p =
     (let ws = filter (alive height timeout) p in
      (\<lparr>order_tx_hashes = order_part (unat limit) ws, propose_tx_hashes = propose_part (unat limit) ws\<rparr>, ws))"

definition pool_flush :: "hash list \<Rightarrow> u64 \<Rightarrow> u64 \<Rightarrow> tx_wrapper list \<Rightarrow> tx_wrapper list" where
  "pool_flush hs height timeout p = filter (\<lambda>w. tw_hash w \<notin> set hs \<and> alive height timeout w) p"

fun pool_run :: "nat \<Rightarrow> cache_op list \<Rightarrow> tx_wrapper list \<Rightarrow> cache_result list \<times> tx_wrapper list" where
  "pool_run n [] p = ([], p)"
| "pool_run n (OpInsertNew tx # os) p =
     (let (r, p) = pool_insert n (tw_new tx) p; (rs, p) = pool_run n os p in (ResInsert r # rs, p))"
| "pool_run n (OpInsertPropose tx # os) p =
     (let (r, p) = pool_insert n (tw_propose tx) p; (rs, p) = pool_run n os p in (ResInsert r # rs, p))"
| "pool_run n (OpPackage limit height timeout # os) p =
     (let (mixed, p) = pool_package limit height timeout p; (rs, p) = pool_run n os p in (ResPackage mixed # rs, p))"
| "pool_run n (OpFlush hs height timeout # os) p =
     (let (rs, p) = pool_run n os (pool_flush hs height timeout p) in (ResFlush # rs, p))"

text \<open>The stage machine of \<^verbatim>\<open>package\<close> on the accepted wrappers alone.\<close>

fun pick :: "u64 \<Rightarrow> stage \<Rightarrow> u64 \<Rightarrow> hash list \<times> hash list \<Rightarrow> tx_wrapper list \<Rightarrow> hash list \<times> hash list" where
  "pick limit stg n acc [] = acc"
| "pick limit Finished n acc (w # ws) = acc"
| "pick limit OrderTxs n (os, ps) (w # ws) =
     (if n + 1 > limit then pick limit ProposeTxs 1 (os, ps @ [tw_hash w]) ws
      else pick limit OrderTxs (n + 1) (os @ [tw_hash w], ps) ws)"
| "pick limit ProposeTxs n (os, ps) (w # ws) =
     (if tw_proposed w then pick limit ProposeTxs n (os, ps) ws
      else if n + 1 > limit then (os, ps)
      else pick limit ProposeTxs (n + 1) (os, ps @ [tw_hash w]) ws)"

text \<open>A concrete queue for the witnesses: a capacity and a list.\<close>

definition list_queue :: "(nat \<times> nat list) queue_ops" where
  "list_queue = \<lparr>qo_new = (\<lambda>n. (n, [])),
     qo_push = (\<lambda>x (n, xs). if length xs < n then Some (n, xs @ [x]) else None),
     qo_pop = (\<lambda>(n, xs). case xs of [] \<Rightarrow> None | x # xs \<Rightarrow> Some (x, (n, xs))),
     qo_len = (\<lambda>(n, xs). length xs)\<rparr>"

text \<open>
  The invariant between two operations: the candidate queue is empty, the incumbent holds live
  wrappers with distinct hashes, and the map is exactly the index of the incumbent by hash.
\<close>

definition ids_ok :: "tx_wrapper list \<Rightarrow> nat list \<Rightarrow> bool" where
  "ids_ok store is \<longleftrightarrow> (\<forall>i \<in> set is. i < length store \<and> \<not> tw_removed (store ! i)) \<and>
     distinct (map (\<lambda>i. tw_hash (store ! i)) is)"

definition index_of :: "tx_wrapper list \<Rightarrow> nat list \<Rightarrow> hash \<Rightarrow> nat option" where
  "index_of store is = map_of (map (\<lambda>i. (tw_hash (store ! i), i)) is)"

definition cache_inv :: "('q \<Rightarrow> nat list) \<Rightarrow> ('q \<Rightarrow> nat) \<Rightarrow> nat \<Rightarrow> 'q tx_cache \<Rightarrow> bool" where
  "cache_inv items cap n c \<longleftrightarrow>
     tx_map_wf (tc_map c) \<and> tc_concurrent_count c = 0 \<and> items (tc_candidate c) = [] \<and>
     cap (tc_incumbent c) = n \<and> cap (tc_candidate c) = n \<and> length (items (tc_incumbent c)) \<le> n \<and>
     ids_ok (tc_store c) (items (tc_incumbent c)) \<and>
     (\<forall>h. tx_map_get h (tc_map c) = index_of (tc_store c) (items (tc_incumbent c)) h)"

definition example_stx :: "u8 \<Rightarrow> signed_transaction" where
  "example_stx n =
     \<lparr>stx_raw = \<lparr>raw_chain_id = Hash [0], raw_cycles_price = 1, raw_cycles_limit = 1, raw_nonce = Hash [0],
        raw_request = \<lparr>req_method = ''m'', req_service_name = ''s'', req_payload = ''p''\<rparr>, raw_timeout = 5,
        raw_sender = Address [0]\<rparr>,
      stx_tx_hash = Hash (replicate 32 n), stx_pubkey = [], stx_signature = []\<rparr>"

definition example_cache :: "(nat \<times> nat list) tx_cache" where
  "example_cache =
     snd (insert_propose_tx list_queue (example_stx 2)
       (snd (insert_new_tx list_queue (example_stx 1) (tx_cache_empty list_queue 2))))"

section \<open>The loops return\<close>

lemma queue_lawfulD:
  assumes "queue_lawful ops items cap"
  shows "items (qo_new ops n) = []" "cap (qo_new ops n) = n"
    and "qo_push ops x q = None \<Longrightarrow> cap q \<le> length (items q)"
    and "qo_push ops x q = Some q' \<Longrightarrow> length (items q) < cap q \<and> items q' = items q @ [x] \<and> cap q' = cap q"
    and "qo_pop ops q = None \<Longrightarrow> items q = []"
    and "qo_pop ops q = Some (x, q') \<Longrightarrow> items q = x # items q' \<and> cap q' = cap q"
    and "qo_len ops q = length (items q)"
proof -
  have push: "case qo_push ops x q of None \<Rightarrow> length (items q) \<ge> cap q
      | Some q' \<Rightarrow> length (items q) < cap q \<and> items q' = items q @ [x] \<and> cap q' = cap q"
    and pop: "case qo_pop ops q of None \<Rightarrow> items q = [] | Some (x, q') \<Rightarrow> items q = x # items q' \<and> cap q' = cap q"
    using assms unfolding queue_lawful_def by blast+
  show "items (qo_new ops n) = []" "cap (qo_new ops n) = n" "qo_len ops q = length (items q)"
    using assms unfolding queue_lawful_def by blast+
  show "qo_push ops x q = None \<Longrightarrow> cap q \<le> length (items q)"
    "qo_push ops x q = Some q' \<Longrightarrow> length (items q) < cap q \<and> items q' = items q @ [x] \<and> cap q' = cap q"
    using push by simp_all
  show "qo_pop ops q = None \<Longrightarrow> items q = []"
    "qo_pop ops q = Some (x, q') \<Longrightarrow> items q = x # items q' \<and> cap q' = cap q"
    using pop by simp_all
qed

lemma queue_push_room:
  assumes "queue_lawful ops items cap" "length (items q) < cap q"
  obtains q' where "qo_push ops x q = Some q'" "items q' = items q @ [x]" "cap q' = cap q"
proof (cases "qo_push ops x q")
  case None
  with queue_lawfulD(3) [OF assms(1) this] assms(2) show ?thesis by simp
next
  case (Some q')
  with queue_lawfulD(4) [OF assms(1) this] that show ?thesis by blast
qed

lemma list_queue_lawful: "queue_lawful list_queue snd fst"
  by (auto simp: queue_lawful_def list_queue_def split: list.splits)

lemma pop_loop_fold:
  assumes "queue_lawful ops items cap"
  shows "\<exists>q'. items q' = [] \<and> cap q' = cap q \<and>
    pop_loop ops body q s = Some (res_map (\<lambda>s'. (q', s')) (res_fold body (items q) s))"
proof (induction "items q" arbitrary: q s)
  case Nil
  have "qo_pop ops q = None"
  proof (cases "qo_pop ops q")
    case (Some p)
    with queue_lawfulD(6) [OF assms, of q "fst p" "snd p"] Nil show ?thesis by simp
  qed
  then show ?case using Nil by (intro exI [of _ q]) (subst pop_loop.simps, simp)
next
  case (Cons x xs)
  then obtain y q1 where q1: "qo_pop ops q = Some (y, q1)"
    using queue_lawfulD(5) [OF assms, of q] by (cases "qo_pop ops q") auto
  have y: "y = x" "xs = items q1" "cap q1 = cap q"
    using queue_lawfulD(6) [OF assms q1] Cons(2) by auto
  show ?case
  proof (cases "body x s")
    case (Inl e)
    obtain q' where "items q' = []" "cap q' = cap q1" using Cons(1) [OF y(2), of s] by blast
    with Inl y show ?thesis
      by (intro exI [of _ q']) (subst pop_loop.simps, simp add: q1 Cons(2) [symmetric])
  next
    case (Inr s')
    obtain q' where "items q' = []" "cap q' = cap q1"
      "pop_loop ops body q1 s' = Some (res_map (\<lambda>s'. (q', s')) (res_fold body (items q1) s'))"
      using Cons(1) [OF y(2), of s'] by blast
    with Inr y show ?thesis
      by (intro exI [of _ q']) (subst pop_loop.simps, simp add: q1 Cons(2) [symmetric])
  qed
qed

lemma process_omission_idle:
  assumes "queue_lawful ops items cap" "tc_concurrent_count c = 0" "items (tc_candidate c) = []"
  shows "process_omission_txs ops c = Some (Inr c)"
proof -
  have "qo_pop ops (tc_candidate c) = None"
  proof (cases "qo_pop ops (tc_candidate c)")
    case (Some p)
    with queue_lawfulD(6) [OF assms(1), of "tc_candidate c" "fst p" "snd p"] assms(3) show ?thesis by simp
  qed
  then have "pop_loop ops body (tc_candidate c) s = Some (Inr (tc_candidate c, s))" for body and s :: "'a \<times> nat tx_map"
    by (subst pop_loop.simps) simp
  then show ?thesis
    using assms(2) by (subst process_omission_txs.simps) (simp add: set_queues_def tc_incumbent_def tc_candidate_def)
qed

section \<open>Packaging\<close>

lemma pick_Finished [simp]: "pick limit Finished n acc ws = acc"
  by (cases ws) simp_all

lemma package_step_alive:
  assumes "alive height timeout (store ! i)" "qo_push ops i (pk_candidate st) = Some q"
  shows "\<exists>st1. package_step ops store limit height timeout i st = Inr st1 \<and>
    pk_candidate st1 = q \<and> pk_map st1 = pk_map st \<and> pk_timeout st1 = pk_timeout st \<and>
    (\<forall>ws. pick limit (pk_stage st) (pk_count st) (pk_order st, pk_propose st) (store ! i # ws) =
          pick limit (pk_stage st1) (pk_count st1) (pk_order st1, pk_propose st1) ws)"
proof (cases "pk_stage st")
  case OrderTxs
  with assms show ?thesis
    by (cases "pk_count st + 1 > limit") (simp_all add: package_step_def alive_def Let_def)
next
  case ProposeTxs
  with assms show ?thesis
    by (cases "tw_proposed (store ! i)"; cases "pk_count st + 1 > limit")
      (simp_all add: package_step_def alive_def Let_def)
next
  case Finished
  with assms show ?thesis by (simp add: package_step_def alive_def Let_def)
qed

lemma package_fold:
  assumes "queue_lawful ops items cap"
    and "length (items (pk_candidate st)) + length is \<le> cap (pk_candidate st)"
  shows "\<exists>st'. res_fold (package_step ops store limit height timeout) is st = Inr st' \<and>
    items (pk_candidate st') = items (pk_candidate st) @ filter (\<lambda>i. alive height timeout (store ! i)) is \<and>
    cap (pk_candidate st') = cap (pk_candidate st) \<and> pk_map st' = pk_map st \<and>
    pk_timeout st' = pk_timeout st @
      map (\<lambda>i. tw_hash (store ! i)) (filter (\<lambda>i. \<not> tw_removed (store ! i) \<and> is_timeout (store ! i) height timeout) is) \<and>
    (pk_order st', pk_propose st') =
      pick limit (pk_stage st) (pk_count st) (pk_order st, pk_propose st)
        (filter (alive height timeout) (map (\<lambda>i. store ! i) is))"
  using assms(2)
proof (induction "is" arbitrary: st)
  case (Cons i "is")
  show ?case
  proof (cases "alive height timeout (store ! i)")
    case False
    define st1 where "st1 = (if tw_removed (store ! i) then st else st\<lparr>pk_timeout := pk_timeout st @ [tw_hash (store ! i)]\<rparr>)"
    have step: "package_step ops store limit height timeout i st = Inr st1"
      using False by (auto simp: package_step_def alive_def st1_def Let_def)
    have "length (items (pk_candidate st1)) + length is \<le> cap (pk_candidate st1)"
      using Cons.prems by (simp add: st1_def)
    from Cons.IH [OF this] False show ?thesis
      by (auto simp: step st1_def alive_def)
  next
    case True
    have room: "length (items (pk_candidate st)) < cap (pk_candidate st)" using Cons.prems by simp
    obtain q where q: "qo_push ops i (pk_candidate st) = Some q" "items q = items (pk_candidate st) @ [i]"
      "cap q = cap (pk_candidate st)"
      by (rule queue_push_room [OF assms(1) room])
    obtain st1 where step: "package_step ops store limit height timeout i st = Inr st1"
      and st1: "pk_candidate st1 = q" "pk_map st1 = pk_map st" "pk_timeout st1 = pk_timeout st"
        "pick limit (pk_stage st) (pk_count st) (pk_order st, pk_propose st) (store ! i # ws) =
         pick limit (pk_stage st1) (pk_count st1) (pk_order st1, pk_propose st1) ws" for ws
      using package_step_alive [where ops = ops, OF True q(1)] by blast
    have "length (items (pk_candidate st1)) + length is \<le> cap (pk_candidate st1)"
      using Cons.prems q st1 by simp
    from Cons.IH [OF this] True q st1 show ?thesis
      by (auto simp: step alive_def)
  qed
qed simp

lemma pick_propose:
  assumes "unat n + length ws < 2 ^ 64"
  shows "pick limit ProposeTxs n (os, ps) ws =
    (os, ps @ map tw_hash (take (unat limit - unat n) (filter (\<lambda>w. \<not> tw_proposed w) ws)))"
  using assms
proof (induction ws arbitrary: n ps)
  case (Cons w ws)
  have n1: "unat (n + 1) = unat n + 1"
    using Cons.prems unat_add_exact [of n 1] by simp
  show ?case
  proof (cases "tw_proposed w")
    case True
    then show ?thesis using Cons by simp
  next
    case False
    have IH: "pick limit ProposeTxs (n + 1) (os, ps @ [tw_hash w]) ws =
        (os, (ps @ [tw_hash w]) @ map tw_hash (take (unat limit - unat (n + 1)) (filter (\<lambda>w. \<not> tw_proposed w) ws)))"
      using Cons.prems n1 by (intro Cons.IH) simp
    show ?thesis
    proof (cases "n + 1 > limit")
      case True
      then have "unat limit - unat n = 0" using n1 by (simp add: word_less_unat)
      with True False show ?thesis by simp
    next
      case le: False
      then have "unat limit - unat n = Suc (unat limit - unat (n + 1))"
        using n1 by (simp add: word_less_unat)
      with le False IH show ?thesis by simp
    qed
  qed
qed simp

lemma pick_order:
  assumes "unat n + length ws < 2 ^ 64" "n \<le> limit"
  shows "pick limit OrderTxs n (os, ps) ws =
    (os @ order_part (unat limit - unat n) ws,
     ps @ (case drop (unat limit - unat n) ws of [] \<Rightarrow> []
           | w # rest \<Rightarrow> tw_hash w # map tw_hash (take (unat limit - 1) (filter (\<lambda>w. \<not> tw_proposed w) rest))))"
  using assms
proof (induction ws arbitrary: n os)
  case (Cons w ws)
  have n1: "unat (n + 1) = unat n + 1"
    using Cons.prems(1) unat_add_exact [of n 1] by simp
  show ?case
  proof (cases "n + 1 > limit")
    case True
    then have "unat limit - unat n = 0" using n1 by (simp add: word_less_unat)
    moreover have "unat (1 :: u64) + length ws < 2 ^ 64" using Cons.prems(1) by (simp add: n1)
    ultimately show ?thesis
      using True pick_propose [of 1 ws limit os "ps @ [tw_hash w]"] by (simp add: order_part_def)
  next
    case False
    then have "unat limit - unat n = Suc (unat limit - unat (n + 1))"
      using n1 by (simp add: word_less_unat)
    moreover have "pick limit OrderTxs (n + 1) (os @ [tw_hash w], ps) ws =
      ((os @ [tw_hash w]) @ order_part (unat limit - unat (n + 1)) ws,
       ps @ (case drop (unat limit - unat (n + 1)) ws of [] \<Rightarrow> []
           | w # rest \<Rightarrow> tw_hash w # map tw_hash (take (unat limit - 1) (filter (\<lambda>w. \<not> tw_proposed w) rest))))"
      using Cons.prems False n1 by (intro Cons.IH) (simp_all add: not_less)
    ultimately show ?thesis using False by (simp add: order_part_def)
  qed
qed (simp add: order_part_def)

lemma pick_parts:
  assumes "length ws < 2 ^ 64"
  shows "pick limit OrderTxs 0 ([], []) ws = (order_part (unat limit) ws, propose_part (unat limit) ws)"
  using pick_order [of 0 ws limit "[]" "[]"] assms by (simp add: propose_part_def)

section \<open>The operations on the abstract pool\<close>

lemma queue_role_simps [simp]:
  "tc_incumbent (set_queues i d c) = i" "tc_candidate (set_queues i d c) = d"
  "tc_incumbent (switch_queue_role c) = tc_candidate c" "tc_candidate (switch_queue_role c) = tc_incumbent c"
  "tc_incumbent (c\<lparr>tc_map := m\<rparr>) = tc_incumbent c" "tc_candidate (c\<lparr>tc_map := m\<rparr>) = tc_candidate c"
  "tc_incumbent (c\<lparr>tc_store := s\<rparr>) = tc_incumbent c" "tc_candidate (c\<lparr>tc_store := s\<rparr>) = tc_candidate c"
  "tc_incumbent (c\<lparr>tc_concurrent_count := k\<rparr>) = tc_incumbent c"
  "tc_candidate (c\<lparr>tc_concurrent_count := k\<rparr>) = tc_candidate c"
  by (simp_all add: tc_incumbent_def tc_candidate_def set_queues_def switch_queue_role_def)

lemma queue_field_simps [simp]:
  "tc_map (set_queues i d c) = tc_map c" "tc_store (set_queues i d c) = tc_store c"
  "tc_concurrent_count (set_queues i d c) = tc_concurrent_count c"
  "tc_map (switch_queue_role c) = tc_map c" "tc_store (switch_queue_role c) = tc_store c"
  "tc_concurrent_count (switch_queue_role c) = tc_concurrent_count c"
  by (simp_all add: set_queues_def switch_queue_role_def)

lemma index_of_None: "index_of store is h = None \<longleftrightarrow> h \<notin> (\<lambda>i. tw_hash (store ! i)) ` set is"
  by (induction "is") (auto simp: index_of_def)

lemma index_of_Some:
  "ids_ok store is \<Longrightarrow> index_of store is h = Some i \<longleftrightarrow> i \<in> set is \<and> tw_hash (store ! i) = h"
  unfolding index_of_def ids_ok_def
  by (subst map_of_eq_Some_iff) (auto simp: comp_def)

lemma index_of_store:
  assumes "\<And>i. i \<in> set is \<Longrightarrow> tw_hash (store' ! i) = tw_hash (store ! i)"
  shows "index_of store' is = index_of store is"
  unfolding index_of_def using assms by (auto intro!: arg_cong [where f = map_of])

lemma index_of_snoc:
  "tw_hash (store ! i) \<notin> (\<lambda>i. tw_hash (store ! i)) ` set is \<Longrightarrow>
   index_of store (is @ [i]) h = (if h = tw_hash (store ! i) then Some i else index_of store is h)"
  by (induction "is") (auto simp: index_of_def)

lemma index_of_remove:
  "(\<And>i. i \<in> set is \<Longrightarrow> P i \<longleftrightarrow> tw_hash (store ! i) \<notin> H) \<Longrightarrow>
   index_of store (filter P is) h = (if h \<in> H then None else index_of store is h)"
  by (induction "is") (auto simp: index_of_def)

lemma ids_ok_filter: "ids_ok store is \<Longrightarrow> ids_ok store (filter P is)"
  by (auto simp: ids_ok_def distinct_map_filter)

lemma ids_ok_grow: "ids_ok store is \<Longrightarrow> ids_ok (store @ [w]) is"
  unfolding ids_ok_def by (auto simp: nth_append cong: map_cong)

lemma nth_grow: "ids_ok store is \<Longrightarrow> i \<in> set is \<Longrightarrow> (store @ [w]) ! i = store ! i"
  by (auto simp: ids_ok_def nth_append)

text \<open>Reading the pool through the map.\<close>

lemma cache_invD:
  assumes "cache_inv items cap n c"
  shows "tx_map_wf (tc_map c)" "tc_concurrent_count c = 0" "items (tc_candidate c) = []"
    "cap (tc_incumbent c) = n" "cap (tc_candidate c) = n" "length (items (tc_incumbent c)) \<le> n"
    "ids_ok (tc_store c) (items (tc_incumbent c))"
    "tx_map_get h (tc_map c) = index_of (tc_store c) (items (tc_incumbent c)) h"
  using assms by (simp_all add: cache_inv_def)

lemma pool_hashes: "tw_hash ` set (pool items c) = (\<lambda>i. tw_hash (tc_store c ! i)) ` set (items (tc_incumbent c))"
  by (simp add: pool_def image_image)

lemma contain_pool:
  assumes "cache_inv items cap n c"
  shows "contain c h \<longleftrightarrow> h \<in> tw_hash ` set (pool items c)"
  using cache_invD(8) [OF assms, of h]
  by (simp add: contain_def tx_map_contains_key_get index_of_None pool_hashes)

lemma tx_cache_len_pool:
  assumes "cache_inv items cap n c"
  shows "tx_cache_len c = length (pool items c)"
proof -
  let ?is = "items (tc_incumbent c)" and ?h = "\<lambda>i. tw_hash (tc_store c ! i)"
  have "dom (\<lambda>h. tx_map_get h (tc_map c)) = ?h ` set ?is"
    using index_of_None [of "tc_store c" ?is] by (auto simp: cache_invD(8) [OF assms] dom_def)
  moreover have "card (?h ` set ?is) = length ?is"
    using cache_invD(7) [OF assms] unfolding ids_ok_def by (metis distinct_card length_map list.set_map)
  ultimately show ?thesis
    using tm.size_of [OF cache_invD(1) [OF assms]] by (simp add: tx_cache_len_def pool_def)
qed

lemma tx_cache_get_pool:
  assumes "cache_inv items cap n c"
  shows "tx_cache_get c h = map_option tw_tx (List.find (\<lambda>w. tw_hash w = h) (pool items c))"
proof -
  have "map_option (\<lambda>i. store ! i) (index_of store is h) = List.find (\<lambda>w. tw_hash w = h) (map (\<lambda>i. store ! i) is)"
    for store :: "tx_wrapper list" and "is"
    by (induction "is") (auto simp: index_of_def)
  from this [of "tc_store c" "items (tc_incumbent c)"] show ?thesis
    by (metis (no_types, lifting) cache_invD(8) [OF assms] tx_cache_get_def pool_def option.map_comp comp_apply
        option.map_cong)
qed

lemma insert_refines:
  assumes law: "queue_lawful ops items cap" and inv: "cache_inv items cap n c" and w: "\<not> tw_removed w"
    and eq: "tx_cache_insert ops (tw_hash w) w c = (r, c')"
  shows "(r, pool items c') = pool_insert n w (pool items c) \<and> cache_inv items cap n c'"
proof -
  let ?is = "items (tc_incumbent c)" and ?i = "length (tc_store c)" and ?st = "tc_store c @ [w]"
  note inv' = cache_invD [OF inv]
  have grow: "i \<in> set ?is \<Longrightarrow> ?st ! i = tc_store c ! i" for i
    using nth_grow [OF inv'(7)] by blast
  have pool: "map (\<lambda>i. ?st ! i) ?is = pool items c"
    using grow by (simp add: pool_def)
  have idx: "index_of ?st ?is = index_of (tc_store c) ?is"
    by (rule index_of_store) (simp add: grow)
  have ok: "ids_ok ?st ?is" by (rule ids_ok_grow [OF inv'(7)])
  have fst: "fst (tx_map_insert (tw_hash w) ?i (tc_map c)) =
      (if tw_hash w \<in> tw_hash ` set (pool items c) then Some ?i else None)"
    using tm.fst_ins [OF inv'(1), of "tw_hash w" ?i] inv'(8) index_of_None [of "tc_store c" ?is]
    by (simp add: pool_hashes)
  define m where "m = snd (tx_map_insert (tw_hash w) ?i (tc_map c))"
  have m: "tx_map_insert (tw_hash w) ?i (tc_map c) = (fst (tx_map_insert (tw_hash w) ?i (tc_map c)), m)"
    by (simp add: m_def)
  have wf: "tx_map_wf m" by (simp add: m_def tm.wf_ins inv')
  have get: "tx_map_get h m = (if tx_map_get (tw_hash w) (tc_map c) = None \<and> h = tw_hash w then Some ?i else tx_map_get h (tc_map c))" for h
    using tm.lookup_ins [OF inv'(1), THEN fun_cong] by (simp add: m_def)
  show ?thesis
  proof (cases "tw_hash w \<in> tw_hash ` set (pool items c)")
    case True
    then have "tx_map_get (tw_hash w) (tc_map c) \<noteq> None"
      by (simp only: inv'(8) index_of_None pool_hashes) simp
    then show ?thesis
      using eq m fst True inv' wf get pool idx ok
      by (auto simp: tx_cache_insert_def Let_def pool_insert_def cache_inv_def pool_def [of items c'])
  next
    case new: False
    then have none: "tx_map_get (tw_hash w) (tc_map c) = None"
      by (simp only: inv'(8) index_of_None pool_hashes) simp
    show ?thesis
    proof (cases "qo_push ops ?i (tc_incumbent c)")
      case None
      then have full: "n \<le> length (pool items c)"
        using queue_lawfulD(3) [OF law None] inv' by (simp add: pool_def)
      have del: "tx_map_get h (tx_map_remove (tw_hash w) m) = tx_map_get h (tc_map c)" for h
        using tm.lookup_del [OF wf, THEN fun_cong] get none by simp
      have c': "r = Inl (Err (InsertErr (tw_hash w)))" "tc_store c' = ?st" "tc_map c' = tx_map_remove (tw_hash w) m"
          "tc_concurrent_count c' = 0" "tc_incumbent c' = tc_incumbent c" "tc_candidate c' = tc_candidate c"
        using eq m fst new None inv'(2) by (auto simp: tx_cache_insert_def Let_def)
      show ?thesis
        using c' new inv' pool idx ok full del tm.wf_del [OF wf]
        by (auto simp: pool_insert_def cache_inv_def pool_def [of items c'])
    next
      case (Some q)
      have q: "length ?is < cap (tc_incumbent c)" "items q = ?is @ [?i]" "cap q = cap (tc_incumbent c)"
        using queue_lawfulD(4) [OF law Some] by auto
      have notin: "tw_hash (?st ! ?i) \<notin> (\<lambda>i. tw_hash (?st ! i)) ` set ?is"
        using new grow by (auto simp: pool_hashes)
      have ok': "ids_ok ?st (?is @ [?i])"
        using ok w notin by (auto simp: ids_ok_def)
      have get': "tx_map_get h m = index_of ?st (?is @ [?i]) h" for h
        using get [of h] none inv'(8) [of h] by (simp add: index_of_snoc [OF notin] idx)
      have c': "r = Inr ()" "tc_store c' = ?st" "tc_map c' = m" "tc_concurrent_count c' = 0"
          "tc_incumbent c' = q" "tc_candidate c' = tc_candidate c"
        using eq m fst new Some inv'(2) by (auto simp: tx_cache_insert_def Let_def)
      show ?thesis
        using c' q inv' wf ok' get' new pool
        by (auto simp: pool_insert_def cache_inv_def pool_def [of items c'] pool_def [of items c])
    qed
  qed
qed

lemma package_refines:
  assumes law: "queue_lawful ops items cap" and inv: "cache_inv items cap n c" and n: "n < 2 ^ 64"
  shows "\<exists>c'. tx_cache_package ops limit height timeout c =
      Some (Inr (fst (pool_package limit height timeout (pool items c)), c')) \<and>
    pool items c' = snd (pool_package limit height timeout (pool items c)) \<and> cache_inv items cap n c'"
proof -
  let ?is = "items (tc_incumbent c)" and ?st = "tc_store c"
  note inv' = cache_invD [OF inv]
  let ?s0 = "\<lparr>pk_candidate = tc_candidate c, pk_map = tc_map c, pk_order = [], pk_propose = [], pk_timeout = [],
              pk_count = 0, pk_stage = OrderTxs\<rparr>"
  obtain st where fold: "res_fold (package_step ops ?st limit height timeout) ?is ?s0 = Inr st"
    and st: "items (pk_candidate st) = filter (\<lambda>i. alive height timeout (?st ! i)) ?is"
      "cap (pk_candidate st) = n" "pk_map st = tc_map c"
      "pk_timeout st = map (\<lambda>i. tw_hash (?st ! i))
         (filter (\<lambda>i. \<not> tw_removed (?st ! i) \<and> is_timeout (?st ! i) height timeout) ?is)"
    and picks: "(pk_order st, pk_propose st) =
        pick limit OrderTxs 0 ([], []) (filter (alive height timeout) (pool items c))"
    using package_fold [OF law, of ?s0 ?is ?st limit height timeout] inv' by (auto simp: pool_def)
  obtain q where q: "items q = []" "cap q = n"
    "pop_loop ops (package_step ops ?st limit height timeout) (tc_incumbent c) ?s0 = Some (Inr (q, st))"
    using pop_loop_fold [OF law, of "tc_incumbent c" "package_step ops ?st limit height timeout" ?s0] inv'(4)
    by (auto simp: fold)
  let ?c1 = "switch_queue_role ((set_queues q (pk_candidate st) c)\<lparr>tc_map := pk_map st\<rparr>)"
  let ?c' = "?c1\<lparr>tc_map := tx_map_remove_batch (pk_timeout st) (tc_map ?c1)\<rparr>"
  have "process_omission_txs ops ?c1 = Some (Inr ?c1)"
    by (rule process_omission_idle [OF law]) (simp_all add: inv' q)
  moreover have "length (pool items c) \<le> n" using inv'(6) by (simp add: pool_def)
  then have "length (filter (alive height timeout) (pool items c)) < 2 ^ 64"
    using n length_filter_le [of "alive height timeout" "pool items c"] by linarith
  then have "(pk_order st, pk_propose st) = (order_part (unat limit) (filter (alive height timeout) (pool items c)),
      propose_part (unat limit) (filter (alive height timeout) (pool items c)))"
    using picks by (simp add: pick_parts)
  ultimately have run: "tx_cache_package ops limit height timeout c =
      Some (Inr (fst (pool_package limit height timeout (pool items c)), ?c'))"
    by (simp add: tx_cache_package_def q pool_package_def Let_def)
  have pool': "pool items ?c' = filter (alive height timeout) (pool items c)"
    by (simp add: pool_def st(1) filter_map comp_def)
  have dead: "alive height timeout (?st ! i) \<longleftrightarrow> tw_hash (?st ! i) \<notin> set (pk_timeout st)" if "i \<in> set ?is" for i
    using that inv'(7) by (fastforce simp: st(4) alive_def ids_ok_def distinct_map inj_on_def)
  have "cache_inv items cap n ?c'"
    using inv' q st(1-3) ids_ok_filter [OF inv'(7)]
    by (auto simp: cache_inv_def tm.wf_del_batch tx_map_get_remove_batch index_of_remove [OF dead]
        intro: le_trans [OF length_filter_le])
  with run pool' show ?thesis by (auto simp: pool_package_def Let_def)
qed

section \<open>Flushing\<close>

lemma flush_fold:
  assumes "queue_lawful ops items cap" "length (items cand) + length is \<le> cap cand"
  shows "\<exists>q. res_fold (flush_step ops store height timeout) is (cand, m, ts) =
      Inr (q, m, ts @ map (\<lambda>i. tw_hash (store ! i))
        (filter (\<lambda>i. \<not> tw_removed (store ! i) \<and> is_timeout (store ! i) height timeout) is)) \<and>
    items q = items cand @ filter (\<lambda>i. alive height timeout (store ! i)) is \<and> cap q = cap cand"
  using assms(2)
proof (induction "is" arbitrary: cand ts)
  case (Cons i "is")
  show ?case
  proof (cases "alive height timeout (store ! i)")
    case False
    define ts1 where "ts1 = (if tw_removed (store ! i) then ts else ts @ [tw_hash (store ! i)])"
    have step: "flush_step ops store height timeout i (cand, m, ts) = Inr (cand, m, ts1)"
      using False by (auto simp: flush_step_def alive_def ts1_def Let_def)
    have "length (items cand) + length is \<le> cap cand" using Cons.prems by simp
    from Cons.IH [OF this, of ts1] False show ?thesis by (auto simp: step ts1_def alive_def)
  next
    case True
    have room: "length (items cand) < cap cand" using Cons.prems by simp
    obtain q where q: "qo_push ops i cand = Some q" "items q = items cand @ [i]" "cap q = cap cand"
      by (rule queue_push_room [OF assms(1) room])
    have step: "flush_step ops store height timeout i (cand, m, ts) = Inr (q, m, ts)"
      using True q by (simp add: flush_step_def alive_def Let_def)
    have "length (items q) + length is \<le> cap q" using Cons.prems q by simp
    from Cons.IH [OF this, of ts] True q show ?thesis by (auto simp: step alive_def)
  qed
qed simp

lemma mark_removed_fields [simp]:
  "tc_map (mark_removed hs c) = tc_map c" "tc_concurrent_count (mark_removed hs c) = tc_concurrent_count c"
  "tc_incumbent (mark_removed hs c) = tc_incumbent c" "tc_candidate (mark_removed hs c) = tc_candidate c"
  "length (tc_store (mark_removed hs c)) = length (tc_store c)"
  unfolding mark_removed_def by (induction hs arbitrary: c) (auto split: option.split)

lemma set_removed_idem [simp]: "set_removed (set_removed w) = set_removed w"
  by (simp add: set_removed_def)

lemma mark_removed_store:
  assumes "i < length (tc_store c)"
  shows "tc_store (mark_removed hs c) ! i =
    (if \<exists>h \<in> set hs. tx_map_get h (tc_map c) = Some i then set_removed (tc_store c ! i) else tc_store c ! i)"
  using assms unfolding mark_removed_def
proof (induction hs arbitrary: c)
  case (Cons h hs)
  show ?case
  proof (cases "tx_map_get h (tc_map c)")
    case None
    then show ?thesis using Cons by simp
  next
    case (Some j)
    let ?c = "c\<lparr>tc_store := (tc_store c)[j := set_removed (tc_store c ! j)]\<rparr>"
    show ?thesis
      using Cons.IH [of ?c] Cons.prems Some
      by (cases "i = j"; cases "\<exists>h \<in> set hs. tx_map_get h (tc_map c) = Some i") auto
  qed
qed simp

lemma flush_refines:
  assumes law: "queue_lawful ops items cap" and inv: "cache_inv items cap n c"
  shows "\<exists>c'. tx_cache_flush ops hs height timeout c = Some (Inr c') \<and>
    pool items c' = pool_flush hs height timeout (pool items c) \<and> cache_inv items cap n c'"
proof -
  let ?is = "items (tc_incumbent c)" and ?c0 = "mark_removed hs c"
  let ?st = "tc_store ?c0" and ?m = "tx_map_remove_batch hs (tc_map c)"
  let ?ts = "map (\<lambda>i. tw_hash (?st ! i))
      (filter (\<lambda>i. \<not> tw_removed (?st ! i) \<and> is_timeout (?st ! i) height timeout) ?is)"
  note inv' = cache_invD [OF inv]
  have ids: "i < length (tc_store c)" "\<not> tw_removed (tc_store c ! i)" if "i \<in> set ?is" for i
    using that inv'(7) by (auto simp: ids_ok_def)
  have store: "?st ! i = (if tw_hash (tc_store c ! i) \<in> set hs then set_removed (tc_store c ! i) else tc_store c ! i)"
    if "i \<in> set ?is" for i
    using mark_removed_store [OF ids(1) [OF that], of hs] that
    by (auto simp: inv'(8) index_of_Some [OF inv'(7)])
  have hash: "tw_hash (?st ! i) = tw_hash (tc_store c ! i)" if "i \<in> set ?is" for i
    using store [OF that] by (simp add: set_removed_def)
  have live: "alive height timeout (?st ! i) \<longleftrightarrow>
      tw_hash (tc_store c ! i) \<notin> set hs \<and> alive height timeout (tc_store c ! i)" if "i \<in> set ?is" for i
    using store [OF that] ids(2) [OF that] by (auto simp: alive_def set_removed_def is_timeout_def)
  obtain q where fold: "res_fold (flush_step ops ?st height timeout) ?is (tc_candidate c, ?m, []) = Inr (q, ?m, ?ts)"
    and q: "items q = filter (\<lambda>i. alive height timeout (?st ! i)) ?is" "cap q = n"
    using flush_fold [OF law, of "tc_candidate c" ?is ?st height timeout ?m "[]"] inv' by auto
  obtain inc where inc: "items inc = []" "cap inc = n"
    "pop_loop ops (flush_step ops ?st height timeout) (tc_incumbent c) (tc_candidate c, ?m, []) = Some (Inr (inc, q, ?m, ?ts))"
    using pop_loop_fold [OF law, of "tc_incumbent c" "flush_step ops ?st height timeout" "(tc_candidate c, ?m, [])"] inv'(4)
    by (auto simp: fold)
  let ?c1 = "switch_queue_role ((set_queues inc q (?c0\<lparr>tc_map := ?m\<rparr>))\<lparr>tc_map := ?m\<rparr>)"
  let ?c' = "?c1\<lparr>tc_map := tx_map_remove_batch ?ts (tc_map ?c1)\<rparr>"
  have "process_omission_txs ops ?c1 = Some (Inr ?c1)"
    by (rule process_omission_idle [OF law]) (simp_all add: inv' inc)
  then have run: "tx_cache_flush ops hs height timeout c = Some (Inr ?c')"
    by (simp add: tx_cache_flush_def flush_incumbent_queue_def Let_def inc)
  have keep: "?st ! i = tc_store c ! i" if "i \<in> set ?is" "alive height timeout (?st ! i)" for i
    using store [OF that(1)] live [OF that(1)] that(2) by simp
  have pool': "pool items ?c' = pool_flush hs height timeout (pool items c)"
    using live keep by (auto simp: pool_def pool_flush_def q(1) filter_map comp_def intro!: map_cong filter_cong)
  have dead: "alive height timeout (?st ! i) \<longleftrightarrow> tw_hash (?st ! i) \<notin> set hs \<union> set ?ts" if "i \<in> set ?is" for i
    using that inv'(7) live [OF that] hash [OF that] store [OF that] ids(2) [OF that] hash
    by (auto simp: alive_def ids_ok_def distinct_map inj_on_def set_removed_def)
  have idx: "index_of ?st ?is = index_of (tc_store c) ?is"
    by (rule index_of_store) (simp add: hash)
  have ok: "ids_ok ?st (filter (\<lambda>i. alive height timeout (?st ! i)) ?is)"
    using inv'(7) hash by (auto simp: ids_ok_def alive_def distinct_map inj_on_def)
  have "cache_inv items cap n ?c'"
    using inv' inc q ok idx
    by (auto simp: cache_inv_def tm.wf_del_batch tx_map_get_remove_batch index_of_remove [OF dead]
        intro: le_trans [OF length_filter_le])
  with run pool' show ?thesis by blast
qed

section \<open>Properties\<close>

lemma cache_inv_new:
  assumes "queue_lawful ops items cap"
  shows "cache_inv items cap (k * 2) (tx_cache_empty ops k) \<and> pool items (tx_cache_empty ops k) = []"
  using queue_lawfulD(1,2) [OF assms]
  by (simp add: cache_inv_def tx_cache_empty_def tc_incumbent_def tc_candidate_def pool_def ids_ok_def index_of_def)

lemma cache_run_refines:
  assumes law: "queue_lawful ops items cap" and n: "n < 2 ^ 64" and inv: "cache_inv items cap n c"
  shows "\<exists>c'. cache_run ops os c = Some (fst (pool_run n os (pool items c)), c') \<and>
    pool items c' = snd (pool_run n os (pool items c)) \<and> cache_inv items cap n c'"
  using inv
proof (induction os arbitrary: c)
  case (Cons o' os)
  show ?case
  proof (cases o')
    case (OpInsertNew tx)
    obtain r c1 where c1: "insert_new_tx ops tx c = (r, c1)" by fastforce
    have "(r, pool items c1) = pool_insert n (tw_new tx) (pool items c) \<and> cache_inv items cap n c1"
      using insert_refines [OF law Cons.prems, of "tw_new tx" r c1] c1 by (simp add: insert_new_tx_def tw_new_def)
    with Cons.IH [of c1] c1 OpInsertNew show ?thesis by (auto simp: Let_def split_beta dest: sym)
  next
    case (OpInsertPropose tx)
    obtain r c1 where c1: "insert_propose_tx ops tx c = (r, c1)" by fastforce
    have "(r, pool items c1) = pool_insert n (tw_propose tx) (pool items c) \<and> cache_inv items cap n c1"
      using insert_refines [OF law Cons.prems, of "tw_propose tx" r c1] c1
      by (simp add: insert_propose_tx_def tw_propose_def)
    with Cons.IH [of c1] c1 OpInsertPropose show ?thesis by (auto simp: Let_def split_beta dest: sym)
  next
    case (OpPackage limit height timeout)
    obtain c1 where "tx_cache_package ops limit height timeout c =
        Some (Inr (fst (pool_package limit height timeout (pool items c)), c1))"
      "pool items c1 = snd (pool_package limit height timeout (pool items c))" "cache_inv items cap n c1"
      using package_refines [OF law Cons.prems n] by blast
    with Cons.IH [of c1] OpPackage show ?thesis by (auto simp: Let_def split_beta)
  next
    case (OpFlush hs height timeout)
    obtain c1 where "tx_cache_flush ops hs height timeout c = Some (Inr c1)"
      "pool items c1 = pool_flush hs height timeout (pool items c)" "cache_inv items cap n c1"
      using flush_refines [OF law Cons.prems] by blast
    with Cons.IH [of c1] OpFlush show ?thesis by (auto simp: Let_def split_beta)
  qed
qed simp

text \<open>
  (C16) \<^bold>\<open>The cache is one list of transactions.\<close> A cache for zero transactions cannot be created, its
  queues panic. For any other size and a queue with the documented behaviour, any sequence of
  insertions, packagings and flushes of a new cache returns without a panic, and its
  results and final content are those of an abstract pool: a single list without duplicate hashes,
  bounded by twice the pool size, in insertion order. The map, the two queues, the switching of their
  roles and the shared removed marks together implement this list.
\<close>

theorem tx_cache_refines_pool:
  assumes "queue_lawful ops items cap" "pool_size * 2 < 2 ^ 64"
  shows "(pool_size = 0 \<longrightarrow> tx_cache_new ops pool_size = Inl Panic) \<and>
    (pool_size \<noteq> 0 \<longrightarrow> (\<exists>c c'. tx_cache_new ops pool_size = Inr c \<and>
      cache_run ops os c = Some (fst (pool_run (pool_size * 2) os []), c') \<and>
      pool items c' = snd (pool_run (pool_size * 2) os []) \<and>
      (\<forall>h. contain c' h \<longleftrightarrow> h \<in> tw_hash ` set (pool items c')) \<and> tx_cache_len c' = length (pool items c')))"
proof -
  let ?c = "tx_cache_empty ops pool_size"
  have inv: "cache_inv items cap (pool_size * 2) ?c" and empty: "pool items ?c = []"
    using cache_inv_new [OF assms(1)] by auto
  obtain c' where "cache_run ops os ?c = Some (fst (pool_run (pool_size * 2) os []), c')"
    "pool items c' = snd (pool_run (pool_size * 2) os [])" "cache_inv items cap (pool_size * 2) c'"
    using cache_run_refines [OF assms inv] empty by auto
  moreover from this(3) have "\<forall>h. contain c' h \<longleftrightarrow> h \<in> tw_hash ` set (pool items c')" "tx_cache_len c' = length (pool items c')"
    using contain_pool tx_cache_len_pool by blast+
  ultimately show ?thesis by (auto simp: tx_cache_new_def)
qed

text \<open>
  (C17) \<^bold>\<open>What a package contains.\<close> In a cache that satisfies its invariant, packaging returns; the
  order hashes are the oldest transactions that are neither removed nor out of their time window, at
  most the limit; the proposed hashes are the one that follows, marked as already proposed or not,
  and then up to one less than the limit of the unmarked ones; together they are at most twice the limit,
  or one when the limit is zero; and the transactions out of their time window leave the cache.
\<close>

theorem package_spec:
  assumes "queue_lawful ops items cap" "cache_inv items cap n c" "n < 2 ^ 64"
    and ws: "ws = filter (alive height timeout) (pool items c)"
  shows "\<exists>mixed c'. tx_cache_package ops limit height timeout c = Some (Inr (mixed, c')) \<and>
    order_tx_hashes mixed = map tw_hash (take (unat limit) ws) \<and>
    propose_tx_hashes mixed = propose_part (unat limit) ws \<and>
    length (order_tx_hashes mixed) + length (propose_tx_hashes mixed) \<le> max 1 (2 * unat limit) \<and>
    distinct (order_tx_hashes mixed) \<and> pool items c' = ws"
proof -
  have "distinct (map tw_hash (pool items c))"
    using cache_invD(7) [OF assms(2)] by (simp add: ids_ok_def pool_def comp_def)
  then have "distinct (map tw_hash (take (unat limit) ws))"
    unfolding ws by (metis distinct_map_filter distinct_take take_map)
  moreover have "length (map tw_hash (take (unat limit) ws)) + length (propose_part (unat limit) ws) \<le> max 1 (2 * unat limit)"
    by (auto simp: propose_part_def split: list.split)
  ultimately show ?thesis
    using package_refines [OF assms(1-3), of limit height timeout]
    by (auto simp: pool_package_def Let_def order_part_def ws)
qed

lemma example_stx_simps [simp]:
  "stx_tx_hash (example_stx a) = stx_tx_hash (example_stx b) \<longleftrightarrow> a = b"
  "raw_timeout (stx_raw (example_stx a)) = 5"
  by (simp_all add: example_stx_def)

lemma example_cache_inv:
  "cache_inv snd fst 4 example_cache"
  "pool snd example_cache = [tw_new (example_stx 1), tw_propose (example_stx 2)]"
proof -
  obtain r1 c1 where c1: "insert_new_tx list_queue (example_stx 1) (tx_cache_empty list_queue 2) = (r1, c1)" by fastforce
  obtain r2 c2 where c2: "insert_propose_tx list_queue (example_stx 2) c1 = (r2, c2)" by fastforce
  have new: "cache_inv snd fst 4 (tx_cache_empty list_queue 2)" "pool snd (tx_cache_empty list_queue 2) = []"
    using cache_inv_new [OF list_queue_lawful, of 2] by simp_all
  have 1: "cache_inv snd fst 4 c1" "pool snd c1 = [tw_new (example_stx 1)]"
    using insert_refines [OF list_queue_lawful new(1), of "tw_new (example_stx 1)" r1 c1] c1 new(2)
    by (simp_all add: insert_new_tx_def tw_new_def pool_insert_def)
  have 2: "cache_inv snd fst 4 c2" "pool snd c2 = [tw_new (example_stx 1), tw_propose (example_stx 2)]"
    using insert_refines [OF list_queue_lawful 1(1), of "tw_propose (example_stx 2)" r2 c2] c2 1(2)
    by (simp_all add: insert_propose_tx_def tw_propose_def tw_new_def pool_insert_def)
  show "cache_inv snd fst 4 example_cache"
    "pool snd example_cache = [tw_new (example_stx 1), tw_propose (example_stx 2)]"
    using 2 by (simp_all add: example_cache_def c1 c2)
qed

theorem tx_cache_refines_pool_witness:
  "\<exists>c'. tx_cache_new list_queue 2 = (Inr (tx_cache_empty list_queue 2) :: (nat, _) result) \<and> cache_run list_queue
      [OpInsertNew (example_stx 1), OpInsertNew (example_stx 1), OpInsertNew (example_stx 2),
       OpFlush [Hash (replicate 32 1)] 2 10, OpPackage 3 2 10] (tx_cache_empty list_queue 2) =
    Some ([ResInsert (Inr ()), ResInsert (Inl (Err (Dup (Hash (replicate 32 1))))), ResInsert (Inr ()), ResFlush,
           ResPackage \<lparr>order_tx_hashes = [Hash (replicate 32 2)], propose_tx_hashes = []\<rparr>], c') \<and>
    contain c' (Hash (replicate 32 2)) \<and> \<not> contain c' (Hash (replicate 32 1))"
proof -
  have "(2 :: nat) * 2 < 2 ^ 64" by simp
  let ?os = "[OpInsertNew (example_stx 1), OpInsertNew (example_stx 1), OpInsertNew (example_stx 2),
      OpFlush [Hash (replicate 32 1)] 2 10, OpPackage 3 2 10]"
  have run: "pool_run (2 * 2) ?os [] =
    ([ResInsert (Inr ()), ResInsert (Inl (Err (Dup (Hash (replicate 32 1))))), ResInsert (Inr ()), ResFlush,
      ResPackage \<lparr>order_tx_hashes = [Hash (replicate 32 2)], propose_tx_hashes = []\<rparr>], [tw_new (example_stx 2)])"
    by (simp add: pool_insert_def pool_flush_def pool_package_def order_part_def propose_part_def alive_def
        is_timeout_def tw_new_def Let_def) (simp add: example_stx_def)
  obtain c' where c': "cache_run list_queue ?os (tx_cache_empty list_queue 2) = Some (fst (pool_run (2 * 2) ?os []), c')"
    "pool snd c' = snd (pool_run (2 * 2) ?os [])" "\<forall>h. contain c' h \<longleftrightarrow> h \<in> tw_hash ` set (pool snd c')"
    using tx_cache_refines_pool [OF list_queue_lawful \<open>2 * 2 < 2 ^ 64\<close>, of ?os] by (auto simp: tx_cache_new_def)
  have "pool snd c' = [tw_new (example_stx 2)]" using c'(2) by (simp only: run snd_conv)
  then have "contain c' (Hash (replicate 32 2)) \<and> \<not> contain c' (Hash (replicate 32 1))"
    using c'(3) by (simp add: tw_new_def) (simp add: example_stx_def)
  with c'(1) show ?thesis by (simp only: run fst_conv) (auto simp: tx_cache_new_def)
qed

theorem package_spec_witness:
  "\<exists>mixed c'. tx_cache_package list_queue 1 2 10 example_cache = Some (Inr (mixed, c')) \<and>
    order_tx_hashes mixed = [Hash (replicate 32 1)] \<and> propose_tx_hashes mixed = [Hash (replicate 32 2)] \<and>
    tw_proposed (tw_propose (example_stx 2))"
proof -
  have "(4 :: nat) < 2 ^ 64" by simp
  from package_spec [OF list_queue_lawful example_cache_inv(1) this refl, of 1 2 10] show ?thesis
    by (auto simp: example_cache_inv(2) propose_part_def alive_def is_timeout_def tw_new_def tw_propose_def example_stx_def)
qed

end
