(* ===== verification/Mempool.thy ===== *)
theory Mempool
  imports Tx_Cache
begin

text \<open>
  The mempool, \<^verbatim>\<open>core/mempool/src/lib.rs\<close>, its adapter \<^verbatim>\<open>core/mempool/src/adapter/mod.rs\<close> and the
  handlers of its messages. The storage, the executor, the network and the codec are arguments
  (\<^verbatim>\<open>adapter_env\<close>); the reports sent to the peer manager and the transactions handed to the
  broadcaster are logged in the adapter's state. Tasks spawned together run in list order: they share only
  the caches, whose operations are atomic, and the report log. The flag \<^verbatim>\<open>origin\<close> stands for the context
  value that marks transactions received from the network.

  The lemmas give the outcome of an insertion on every branch, the content of \<^verbatim>\<open>get_full_txs\<close>, and
  show that the batch verification of pulled transactions has no effect on the result.
\<close>

section \<open>The adapter\<close>

record adapter_env =
  ae_latest_header :: "(mempool_error, block_header) result"
  ae_get_tx :: "hash \<Rightarrow> (mempool_error, signed_transaction option) result"
  ae_get_txs :: "u64 \<Rightarrow> hash list \<Rightarrow> (mempool_error, signed_transaction option list) result"
  ae_encode_raw :: "raw_transaction \<Rightarrow> (mempool_error, bytes) result"
  ae_digest :: "bytes \<Rightarrow> bytes"
  ae_hex_encode :: "bytes \<Rightarrow> string"
  ae_address_hrp :: bytes
  ae_executor_read ::
    "executor_params \<Rightarrow> address \<Rightarrow> u64 \<Rightarrow> string \<Rightarrow> string \<Rightarrow> signed_transaction \<Rightarrow> (mempool_error, string service_response) result"
  ae_rpc_pull_txs :: "u64 option \<Rightarrow> hash list \<Rightarrow> (mempool_error, signed_transaction list) result"
  ae_broadcaster_alive :: bool
  ae_pending_error :: "mempool_error option"

record adapter_state =
  ad_timeout_gap :: u64
  ad_cycles_limit :: u64
  ad_max_tx_size :: u64
  ad_reports :: "trust_feedback list"
  ad_broadcast :: "signed_transaction list"

definition adapter_new :: adapter_state where
  "adapter_new = \<lparr>ad_timeout_gap = 0, ad_cycles_limit = 0, ad_max_tx_size = 0, ad_reports = [], ad_broadcast = []\<rparr>"

definition report_if :: "bool \<Rightarrow> trust_feedback \<Rightarrow> adapter_state \<Rightarrow> adapter_state" where
  "report_if origin fb ad = (if origin then ad\<lparr>ad_reports := ad_reports ad @ [fb]\<rparr> else ad)"

definition pull_txs :: "adapter_env \<Rightarrow> u64 option \<Rightarrow> hash list \<Rightarrow> (mempool_error, signed_transaction list) result" where
  "pull_txs env height tx_hashes = ae_rpc_pull_txs env height tx_hashes"

definition broadcast_tx ::
    "adapter_env \<Rightarrow> signed_transaction \<Rightarrow> adapter_state \<Rightarrow> (mempool_error, unit) result \<times> adapter_state" where
  "broadcast_tx env stx ad =
     (if \<not> ae_broadcaster_alive env then (Inl (Err IntervalBroadcasterDrop), ad)
      else ((case ae_pending_error env of Some e \<Rightarrow> Inl (Err e) | None \<Rightarrow> Inr ()),
            ad\<lparr>ad_broadcast := ad_broadcast ad @ [stx]\<rparr>))"

text \<open>The work after the read of the header runs in a spawned task: its panics come back as an internal error.\<close>

definition adapter_check_authorization ::
    "adapter_env \<Rightarrow> bool \<Rightarrow> signed_transaction \<Rightarrow> adapter_state \<Rightarrow> (mempool_error, unit) result \<times> adapter_state" where
  "adapter_check_authorization env origin tx ad =
     (case ae_latest_header env of
        Inl e \<Rightarrow> (Inl e, ad)
      | Inr header \<Rightarrow>
          (case ae_encode_raw env (stx_raw tx) of
             Inl Panic \<Rightarrow> (Inl (Err AdapterInternal), ad)
           | Inl (Err e) \<Rightarrow> (Inl (Err e), ad)
           | Inr fixed_bytes \<Rightarrow>
               (let tx_hash = hash_digest (ae_digest env) fixed_bytes in
                if tx_hash \<noteq> stx_tx_hash tx
                then (Inl (Err (CheckHash (stx_tx_hash tx) tx_hash)),
                      report_if origin (Worse (''Mempool wrong tx_hash of tx '' @ hash_as_hex (ae_hex_encode env) (stx_tx_hash tx))) ad)
                else
                  (case address_from_hash (hash_digest (ae_digest env) (ae_address_hrp env)) of
                     Inl _ \<Rightarrow> (Inl (Err (OuterError ''address'')), ad)
                   | Inr caller \<Rightarrow>
                       (case ae_executor_read env
                               \<lparr>ep_state_root = hdr_state_root header, ep_height = hdr_height header,
                                ep_timestamp = hdr_timestamp header, ep_cycles_limit = 99999,
                                ep_proposer = hdr_proposer header\<rparr>
                               caller 1 ''authorization'' ''check_authorization_by_ptr'' tx of
                          Inl Panic \<Rightarrow> (Inl (Err AdapterInternal), ad)
                        | Inl (Err e) \<Rightarrow> (Inl (Err e), ad)
                        | Inr check_resp \<Rightarrow>
                            (if is_error check_resp
                             then (Inl (Err (CheckAuthorization (stx_tx_hash tx) (error_message check_resp))),
                                   report_if origin
                                     (Worse (''Mempool check authorization failed tx hash '' @ hash_as_hex (ae_hex_encode env) (stx_tx_hash tx))) ad)
                             else (Inr (), ad)))))))"

definition check_transaction ::
    "adapter_env \<Rightarrow> bool \<Rightarrow> signed_transaction \<Rightarrow> adapter_state \<Rightarrow> (mempool_error, unit) result \<times> adapter_state" where
  "check_transaction env origin stx ad =
     (case ae_encode_raw env (stx_raw stx) of
        Inl e \<Rightarrow> (Inl e, ad)
      | Inr fixed_bytes \<Rightarrow>
          (let size = of_nat (length fixed_bytes); tx_hash = stx_tx_hash stx in
           if size > ad_max_tx_size ad
           then (Inl (Err (ExceedSizeLimit tx_hash (ad_max_tx_size ad) size)),
                 report_if origin (Bad (''Mempool exceed size limit of tx '' @ hash_as_hex (ae_hex_encode env) tx_hash)) ad)
           else if raw_cycles_limit (stx_raw stx) > ad_cycles_limit ad
           then (Inl (Err (ExceedCyclesLimit tx_hash (ad_cycles_limit ad) (raw_cycles_limit (stx_raw stx)))),
                 report_if origin (Bad (''Mempool exceed cycle limit of tx '' @ hash_as_hex (ae_hex_encode env) tx_hash)) ad)
           else
             (case ae_latest_header env of
                Inl e \<Rightarrow> (Inl e, ad)
              | Inr latest_header \<Rightarrow>
                  (if hdr_chain_id latest_header \<noteq> raw_chain_id (stx_raw stx)
                   then (Inl (Err (WrongChain tx_hash)),
                         report_if origin (Worse (''Mempool wrong chain of tx '' @ hash_as_hex (ae_hex_encode env) tx_hash)) ad)
                   else if raw_timeout (stx_raw stx) > hdr_height latest_header + ad_timeout_gap ad
                   then (Inl (Err (InvalidTimeout tx_hash)), ad)
                   else if raw_timeout (stx_raw stx) < hdr_height latest_header
                   then (Inl (Err (TimeoutErr tx_hash (raw_timeout (stx_raw stx)))), ad)
                   else (Inr (), ad)))))"

definition check_storage_exist :: "adapter_env \<Rightarrow> hash \<Rightarrow> (mempool_error, unit) result" where
  "check_storage_exist env tx_hash =
     (case ae_get_tx env tx_hash of
        Inr (Some _) \<Rightarrow> Inl (Err (CommittedTx tx_hash))
      | Inr None \<Rightarrow> Inr ()
      | Inl e \<Rightarrow> Inl e)"

definition get_latest_height :: "adapter_env \<Rightarrow> (mempool_error, u64) result" where
  "get_latest_height env = res_map hdr_height (ae_latest_header env)"

definition get_transactions_from_storage ::
    "adapter_env \<Rightarrow> u64 option \<Rightarrow> hash list \<Rightarrow> (mempool_error, signed_transaction option list) result" where
  "get_transactions_from_storage env block_height tx_hashes =
     (case block_height of
        Some height \<Rightarrow> ae_get_txs env height tx_hashes
      | None \<Rightarrow> res_collect (ae_get_tx env) tx_hashes)"

definition report_good :: "bool \<Rightarrow> adapter_state \<Rightarrow> adapter_state" where
  "report_good origin ad = report_if origin Good ad"

definition adapter_set_args :: "u64 \<Rightarrow> u64 \<Rightarrow> u64 \<Rightarrow> adapter_state \<Rightarrow> adapter_state" where
  "adapter_set_args timeout_gap cycles_limit max_tx_size ad =
     ad\<lparr>ad_timeout_gap := timeout_gap, ad_cycles_limit := cycles_limit, ad_max_tx_size := max_tx_size\<rparr>"

section \<open>The broadcaster\<close>

text \<open>The events of the select loop, and the batches handed to the gossip network.\<close>

datatype broadcast_event = StxReceived signed_transaction | IntervalReached

definition do_broadcast ::
    "signed_transaction list \<times> signed_transaction list list \<Rightarrow> signed_transaction list \<times> signed_transaction list list" where
  "do_broadcast = (\<lambda>(txs_cache, sent). if txs_cache = [] then (txs_cache, sent) else ([], sent @ [txs_cache]))"

fun broadcast_step ::
    "nat \<Rightarrow> broadcast_event \<Rightarrow> signed_transaction list \<times> signed_transaction list list
     \<Rightarrow> signed_transaction list \<times> signed_transaction list list" where
  "broadcast_step tx_size (StxReceived stx) (txs_cache, sent) =
     (let txs_cache = txs_cache @ [stx] in
      if length txs_cache = tx_size then do_broadcast (txs_cache, sent) else (txs_cache, sent))"
| "broadcast_step tx_size IntervalReached (txs_cache, sent) = do_broadcast (txs_cache, sent)"

section \<open>The mempool\<close>

datatype tx_type = NewTx | ProposeTx

record 'q mempool =
  mp_pool_size :: nat
  mp_timeout_gap :: u64
  mp_tx_cache :: "'q tx_cache"
  mp_callback_cache :: "signed_transaction tx_map"
  mp_adapter :: adapter_state

definition show_unknown_txs :: "hash list \<Rightarrow> 'q mempool \<Rightarrow> hash list" where
  "show_unknown_txs tx_hashes mp =
     filter (\<lambda>h. \<not> tx_map_contains_key h (mp_callback_cache mp)) (show_unknown (mp_tx_cache mp) tx_hashes)"

definition initial_insert ::
    "'q queue_ops \<Rightarrow> adapter_env \<Rightarrow> signed_transaction \<Rightarrow> 'q mempool \<Rightarrow> (mempool_error, unit) result \<times> 'q mempool" where
  "initial_insert ops env tx mp =
     (case check_exist (stx_tx_hash tx) (mp_tx_cache mp) of
        Inl e \<Rightarrow> (Inl e, mp)
      | Inr _ \<Rightarrow>
          (case check_storage_exist env (stx_tx_hash tx) of
             Inl e \<Rightarrow> (Inl e, mp)
           | Inr _ \<Rightarrow>
               (case insert_propose_tx ops tx (mp_tx_cache mp) of
                  (r, c) \<Rightarrow> (r, mp\<lparr>mp_tx_cache := c\<rparr>))))"

definition mempool_empty :: "'q tx_cache \<Rightarrow> nat \<Rightarrow> 'q mempool" where
  "mempool_empty cache pool_size =
     \<lparr>mp_pool_size = pool_size, mp_timeout_gap = 0, mp_tx_cache = cache,
      mp_callback_cache = tx_map_new, mp_adapter = adapter_new\<rparr>"

definition mempool_new ::
    "'q queue_ops \<Rightarrow> adapter_env \<Rightarrow> nat \<Rightarrow> signed_transaction list \<Rightarrow> (mempool_error, 'q mempool) result" where
  "mempool_new ops env pool_size initial_txs =
     res_bind (tx_cache_new ops (pool_size * 2)) (\<lambda>cache.
       res_fold (\<lambda>tx mp. case initial_insert ops env tx mp of (Inl Panic, _) \<Rightarrow> Inl Panic | (_, mp') \<Rightarrow> Inr mp')
         initial_txs (mempool_empty cache pool_size))"

text \<open>The three checks of the adapter in order, stopping at the first error.\<close>

definition adapter_checks ::
    "adapter_env \<Rightarrow> bool \<Rightarrow> signed_transaction \<Rightarrow> adapter_state \<Rightarrow> (mempool_error, unit) result \<times> adapter_state" where
  "adapter_checks env origin tx ad =
     (case adapter_check_authorization env origin tx ad of
        (Inl e, ad) \<Rightarrow> (Inl e, ad)
      | (Inr _, ad) \<Rightarrow>
          (case check_transaction env origin tx ad of
             (Inl e, ad) \<Rightarrow> (Inl e, ad)
           | (Inr _, ad) \<Rightarrow> (check_storage_exist env (stx_tx_hash tx), ad)))"

definition insert_tx ::
    "'q queue_ops \<Rightarrow> adapter_env \<Rightarrow> bool \<Rightarrow> signed_transaction \<Rightarrow> tx_type \<Rightarrow> 'q mempool
     \<Rightarrow> (mempool_error, unit) result \<times> 'q mempool" where
  "insert_tx ops env origin tx tx_type mp =
     (case check_reach_limit (mp_pool_size mp) (mp_tx_cache mp) of
        Inl e \<Rightarrow> (Inl e, mp)
      | Inr _ \<Rightarrow>
          (case check_exist (stx_tx_hash tx) (mp_tx_cache mp) of
             Inl e \<Rightarrow> (Inl e, mp)
           | Inr _ \<Rightarrow>
               (case adapter_checks env origin tx (mp_adapter mp) of
                  (Inl e, ad) \<Rightarrow> (Inl e, mp\<lparr>mp_adapter := ad\<rparr>)
                | (Inr _, ad) \<Rightarrow>
                    (let mp = mp\<lparr>mp_adapter := ad\<rparr> in
                     case (case tx_type of NewTx \<Rightarrow> insert_new_tx ops tx (mp_tx_cache mp)
                           | ProposeTx \<Rightarrow> insert_propose_tx ops tx (mp_tx_cache mp)) of
                       (Inl e, c) \<Rightarrow> (Inl e, mp\<lparr>mp_tx_cache := c\<rparr>)
                     | (Inr _, c) \<Rightarrow>
                         (let mp = mp\<lparr>mp_tx_cache := c\<rparr> in
                          if \<not> origin
                          then (case broadcast_tx env tx (mp_adapter mp) of (r, ad) \<Rightarrow> (r, mp\<lparr>mp_adapter := ad\<rparr>))
                          else (Inr (), mp\<lparr>mp_adapter := report_good origin (mp_adapter mp)\<rparr>))))))"

text \<open>
  \<^verbatim>\<open>verify_tx_in_parallel\<close>: a task's join handle fails only when the task panics; the result the task
  returns is inside the handle's value and is not looked at.
\<close>

definition verify_tx_in_parallel ::
    "adapter_env \<Rightarrow> bool \<Rightarrow> signed_transaction list \<Rightarrow> adapter_state \<Rightarrow> (mempool_error, unit) result \<times> adapter_state" where
  "verify_tx_in_parallel env origin txs ad =
     (let (rs, ad) = fold (\<lambda>tx (rs, ad). case adapter_checks env origin tx ad of (r, ad) \<Rightarrow> (rs @ [r], ad)) txs ([], ad)
      in if Inl Panic \<in> set rs then (Inl (Err VerifyBatchTransactions), ad) else (Inr (), ad))"

definition mempool_insert ::
    "'q queue_ops \<Rightarrow> adapter_env \<Rightarrow> bool \<Rightarrow> signed_transaction \<Rightarrow> 'q mempool \<Rightarrow> (mempool_error, unit) result \<times> 'q mempool" where
  "mempool_insert ops env origin tx mp = insert_tx ops env origin tx NewTx mp"

definition mempool_package ::
    "'q queue_ops \<Rightarrow> adapter_env \<Rightarrow> u64 \<Rightarrow> u64 \<Rightarrow> 'q mempool \<Rightarrow> (mempool_error, mixed_tx_hashes \<times> 'q mempool) result option" where
  "mempool_package ops env cycles_limit tx_num_limit mp =
     (case get_latest_height env of
        Inl e \<Rightarrow> Some (Inl e)
      | Inr current_height \<Rightarrow>
          map_option (res_map (\<lambda>(mixed, c). (mixed, mp\<lparr>mp_tx_cache := c\<rparr>)))
            (tx_cache_package ops tx_num_limit current_height (current_height + mp_timeout_gap mp) (mp_tx_cache mp)))"

definition mempool_flush ::
    "'q queue_ops \<Rightarrow> adapter_env \<Rightarrow> hash list \<Rightarrow> 'q mempool \<Rightarrow> (mempool_error, 'q mempool) result option" where
  "mempool_flush ops env tx_hashes mp =
     (case get_latest_height env of
        Inl e \<Rightarrow> Some (Inl e)
      | Inr current_height \<Rightarrow>
          map_option (res_map (\<lambda>c. mp\<lparr>mp_tx_cache := c, mp_callback_cache := tx_map_clear (mp_callback_cache mp)\<rparr>))
            (tx_cache_flush ops tx_hashes current_height (current_height + mp_timeout_gap mp) (mp_tx_cache mp)))"

text \<open>A hash looked up in the cache, then in the callback cache.\<close>

definition cached_tx :: "'q mempool \<Rightarrow> hash \<Rightarrow> signed_transaction option" where
  "cached_tx mp tx_hash =
     (case tx_cache_get (mp_tx_cache mp) tx_hash of
        Some tx \<Rightarrow> Some tx
      | None \<Rightarrow> tx_map_get tx_hash (mp_callback_cache mp))"

definition get_full_txs ::
    "adapter_env \<Rightarrow> u64 option \<Rightarrow> hash list \<Rightarrow> 'q mempool \<Rightarrow> (mempool_error, signed_transaction list) result" where
  "get_full_txs env height tx_hashes mp =
     (let (full_txs, missing_hashes) =
            fold (\<lambda>h (full, missing). case cached_tx mp h of
                    Some tx \<Rightarrow> (full @ [tx], missing) | None \<Rightarrow> (full, missing @ [h])) tx_hashes ([], [])
      in res_bind
           (if missing_hashes \<noteq> []
            then res_map (\<lambda>txs. full_txs @ List.map_filter (\<lambda>t. t) txs) (get_transactions_from_storage env height missing_hashes)
            else Inr full_txs)
           (\<lambda>full_txs.
              if length full_txs \<noteq> length tx_hashes
              then Inl (Err (MisMatch (length tx_hashes) (length full_txs)))
              else Inr full_txs))"

fun check_dup_order_hashes_from :: "hash list \<Rightarrow> hash list \<Rightarrow> (mempool_error, unit) result" where
  "check_dup_order_hashes_from dup_set [] = Inr ()"
| "check_dup_order_hashes_from dup_set (h # hs) =
     (if h \<in> set dup_set then Inl (Err (EnsureDup h)) else check_dup_order_hashes_from (h # dup_set) hs)"

definition check_dup_order_hashes :: "hash list \<Rightarrow> (mempool_error, unit) result" where
  "check_dup_order_hashes order_hashes = check_dup_order_hashes_from [] order_hashes"

definition ensure_order_txs ::
    "adapter_env \<Rightarrow> bool \<Rightarrow> u64 option \<Rightarrow> hash list \<Rightarrow> 'q mempool \<Rightarrow> (mempool_error, unit) result \<times> 'q mempool" where
  "ensure_order_txs env origin height order_hashes mp =
     (case check_dup_order_hashes order_hashes of
        Inl e \<Rightarrow> (Inl e, mp)
      | Inr _ \<Rightarrow>
          (let unknown_hashes = show_unknown_txs order_hashes mp in
           if unknown_hashes = [] then (Inr (), mp)
           else
             (case pull_txs env height unknown_hashes of
                Inl e \<Rightarrow> (Inl e, mp)
              | Inr txs \<Rightarrow>
                  (if length txs \<noteq> length unknown_hashes
                   then (Inl (Err (EnsureBreak (length unknown_hashes) (length txs))), mp)
                   else
                     (case verify_tx_in_parallel env origin txs (mp_adapter mp) of
                        (Inl e, ad) \<Rightarrow> (Inl e, mp\<lparr>mp_adapter := ad\<rparr>)
                      | (Inr _, ad) \<Rightarrow>
                          (Inr (), mp\<lparr>mp_callback_cache :=
                               fold (\<lambda>tx m. snd (tx_map_insert (stx_tx_hash tx) tx m)) txs (mp_callback_cache mp),
                             mp_adapter := report_good origin ad\<rparr>))))))"

definition sync_propose_txs ::
    "'q queue_ops \<Rightarrow> adapter_env \<Rightarrow> bool \<Rightarrow> hash list \<Rightarrow> 'q mempool \<Rightarrow> (mempool_error, unit) result \<times> 'q mempool" where
  "sync_propose_txs ops env origin propose_hashes mp =
     (let unknown_hashes = show_unknown_txs propose_hashes mp in
      if unknown_hashes = [] then (Inr (), mp)
      else
        (case pull_txs env None unknown_hashes of
           Inl e \<Rightarrow> (Inl e, mp)
         | Inr txs \<Rightarrow> (Inr (), fold (\<lambda>tx mp. snd (insert_tx ops env origin tx ProposeTx mp)) txs mp)))"

definition mempool_set_args :: "u64 \<Rightarrow> u64 \<Rightarrow> u64 \<Rightarrow> 'q mempool \<Rightarrow> 'q mempool" where
  "mempool_set_args timeout_gap cycles_limit max_tx_size mp =
     mp\<lparr>mp_adapter := adapter_set_args timeout_gap cycles_limit max_tx_size (mp_adapter mp), mp_timeout_gap := timeout_gap\<rparr>"

section \<open>Message handlers\<close>

text \<open>\<^verbatim>\<open>NewTxsHandler::process\<close>: the context is marked, every transaction is inserted, errors are only counted.\<close>

definition new_txs_handler ::
    "'q queue_ops \<Rightarrow> adapter_env \<Rightarrow> signed_transaction list \<Rightarrow> 'q mempool \<Rightarrow> trust_feedback \<times> 'q mempool" where
  "new_txs_handler ops env batch_stxs mp =
     (Neutral, fold (\<lambda>stx mp. snd (mempool_insert ops env True stx mp)) batch_stxs mp)"

text \<open>\<^verbatim>\<open>PullTxsHandler::process\<close>: the response sent back.\<close>

definition pull_txs_handler ::
    "adapter_env \<Rightarrow> u64 option \<Rightarrow> hash list \<Rightarrow> 'q mempool \<Rightarrow> trust_feedback \<times> (mempool_error, signed_transaction list) result" where
  "pull_txs_handler env height hashes mp = (Neutral, get_full_txs env height hashes mp)"

section \<open>Concrete instances\<close>

definition example_header :: block_header where
  "example_header =
     \<lparr>hdr_chain_id = Hash [0], hdr_height = 3, hdr_exec_height = 2, hdr_prev_hash = Hash [], hdr_timestamp = 0,
      hdr_order_root = Hash [], hdr_order_signed_transactions_hash = Hash [], hdr_confirm_root = [],
      hdr_state_root = Hash [], hdr_receipt_root = [], hdr_cycles_used = [], hdr_proposer = Address [],
      hdr_proof = \<lparr>pf_height = 2, pf_round = 0, pf_block_hash = Hash [], pf_signature = [], pf_bitmap = []\<rparr>,
      hdr_validator_version = 0, hdr_validators = []\<rparr>"

text \<open>A node with an empty store, a digest of the right length, and a given answer of the executor and of the peer.\<close>

definition example_env :: "string service_response \<Rightarrow> signed_transaction list \<Rightarrow> adapter_env" where
  "example_env resp txs =
     \<lparr>ae_latest_header = Inr example_header, ae_get_tx = (\<lambda>h. Inr None), ae_get_txs = (\<lambda>n hs. Inr (map (\<lambda>h. None) hs)),
      ae_encode_raw = (\<lambda>r. Inr [1]), ae_digest = (\<lambda>b. replicate 32 1), ae_hex_encode = (\<lambda>b. []),
      ae_address_hrp = [],
      ae_executor_read = (\<lambda>p a n s m tx. Inr resp), ae_rpc_pull_txs = (\<lambda>h hs. Inr txs),
      ae_broadcaster_alive = True, ae_pending_error = None\<rparr>"

definition example_mempool :: "(nat \<times> nat list) mempool" where
  "example_mempool =
     mempool_set_args 20 100 100 (mempool_empty (tx_cache_empty list_queue 4) 2)"

text \<open>What a transaction that passes all checks satisfies.\<close>

definition admissible :: "adapter_env \<Rightarrow> adapter_state \<Rightarrow> signed_transaction \<Rightarrow> bool" where
  "admissible env ad tx \<longleftrightarrow>
     (\<exists>b header. ae_encode_raw env (stx_raw tx) = Inr b \<and> ae_latest_header env = Inr header \<and>
        hash_digest (ae_digest env) b = stx_tx_hash tx \<and> of_nat (length b) \<le> ad_max_tx_size ad \<and>
        raw_cycles_limit (stx_raw tx) \<le> ad_cycles_limit ad \<and> raw_chain_id (stx_raw tx) = hdr_chain_id header \<and>
        hdr_height header \<le> raw_timeout (stx_raw tx) \<and>
        raw_timeout (stx_raw tx) \<le> hdr_height header + ad_timeout_gap ad \<and>
        ae_get_tx env (stx_tx_hash tx) = Inr None)"

definition wrap :: "tx_type \<Rightarrow> signed_transaction \<Rightarrow> tx_wrapper" where
  "wrap t tx = (case t of NewTx \<Rightarrow> tw_new tx | ProposeTx \<Rightarrow> tw_propose tx)"

definition example_stored_env :: adapter_env where
  "example_stored_env = (example_env (from_succeed '''') [])\<lparr>ae_get_tx := (\<lambda>h.
     Inr (if h = Hash (replicate 32 2) then Some (example_stx 2) else None))\<rparr>"

definition example_callback_mempool :: "(nat \<times> nat list) mempool" where
  "example_callback_mempool = example_mempool\<lparr>mp_callback_cache :=
     snd (tx_map_insert (Hash (replicate 32 1)) (example_stx 1) tx_map_new)\<rparr>"

fun received :: "broadcast_event list \<Rightarrow> signed_transaction list" where
  "received [] = []"
| "received (StxReceived tx # es) = tx # received es"
| "received (IntervalReached # es) = received es"

section \<open>The checks of the adapter\<close>

lemma is_ok_iff: "is_ok r \<longleftrightarrow> (\<exists>x. r = Inr x)"
  by (cases r) auto

lemma check_authorization_ok:
  assumes "fst (adapter_check_authorization env origin tx ad) = Inr ()"
  shows "\<exists>b. ae_encode_raw env (stx_raw tx) = Inr b \<and> hash_digest (ae_digest env) b = stx_tx_hash tx"
    and "snd (adapter_check_authorization env origin tx ad) = ad"
  using assms by (auto simp: adapter_check_authorization_def Let_def split: sum.splits if_splits failure.splits)

lemma adapter_checks_ok:
  assumes "fst (adapter_checks env origin tx ad) = Inr ()"
  shows "admissible env ad tx \<and> snd (adapter_checks env origin tx ad) = ad"
proof -
  obtain r1 ad1 where 1: "adapter_check_authorization env origin tx ad = (r1, ad1)" by fastforce
  with assms have r1: "r1 = Inr ()" by (cases r1) (auto simp: adapter_checks_def)
  have ad1: "ad1 = ad" and b: "\<exists>b. ae_encode_raw env (stx_raw tx) = Inr b \<and> hash_digest (ae_digest env) b = stx_tx_hash tx"
    using check_authorization_ok [of env origin tx ad] 1 r1 by auto
  obtain r2 ad2 where 2: "check_transaction env origin tx ad = (r2, ad2)" by fastforce
  with assms 1 r1 ad1 have r2: "r2 = Inr ()" by (cases r2) (auto simp: adapter_checks_def)
  have st: "check_storage_exist env (stx_tx_hash tx) = Inr ()"
    using assms by (simp add: adapter_checks_def 1 r1 ad1 2 r2)
  show ?thesis
    using 2 r2 b st
    by (auto simp: admissible_def adapter_checks_def 1 r1 ad1 check_transaction_def check_storage_exist_def Let_def not_less
        split: sum.splits if_splits option.splits)
qed

text \<open>
  The admission window includes the latest height, which the cache treats as out of time: such a
  transaction is admitted and dropped by the next packaging.
\<close>

lemma admitted_at_height_times_out:
  assumes "tw_tx w = tx" "raw_timeout (stx_raw tx) = hdr_height header"
  shows "is_timeout w (hdr_height header) (hdr_height header + gap)"
  using assms by (simp add: is_timeout_def)

section \<open>Insertion\<close>

lemma wrap_simps [simp]: "tw_hash (wrap t tx) = stx_tx_hash tx" "\<not> tw_removed (wrap t tx)" "tw_tx (wrap t tx) = tx"
  by (cases t; simp add: wrap_def tw_new_def tw_propose_def)+

lemma insert_wrap:
  "(case t of NewTx \<Rightarrow> insert_new_tx ops tx c | ProposeTx \<Rightarrow> insert_propose_tx ops tx c) =
   tx_cache_insert ops (tw_hash (wrap t tx)) (wrap t tx) c"
  by (cases t) (simp_all add: insert_new_tx_def insert_propose_tx_def wrap_def tw_new_def tw_propose_def)

text \<open>
  (C18) \<^bold>\<open>Admission to the pool.\<close> With a lawful queue and a cache in its invariant, a transaction is
  appended to the pool exactly when the pool is below its limit, does not hold the hash, and all checks
  of the adapter pass; then its hash is the digest of its encoding, its size, cycles limit, chain and
  timeout are within bounds and it is not committed. In every other case the pool is unchanged. A
  success means the transaction was appended, and the invariant is kept; only a failure to reach the
  broadcaster can report an error after the transaction was appended.
\<close>

theorem insert_tx_spec:
  assumes law: "queue_lawful ops items cap" and inv: "cache_inv items cap n (mp_tx_cache mp)"
    and size: "mp_pool_size mp \<le> n"
    and run: "insert_tx ops env origin tx t mp = (r, mp')"
    and adm: "admitted \<longleftrightarrow> length (pool items (mp_tx_cache mp)) < mp_pool_size mp \<and>
        stx_tx_hash tx \<notin> tw_hash ` set (pool items (mp_tx_cache mp)) \<and>
        fst (adapter_checks env origin tx (mp_adapter mp)) = Inr ()"
  shows "cache_inv items cap n (mp_tx_cache mp') \<and>
    pool items (mp_tx_cache mp') = pool items (mp_tx_cache mp) @ (if admitted then [wrap t tx] else []) \<and>
    (admitted \<longrightarrow> admissible env (mp_adapter mp) tx) \<and> (r = Inr () \<longrightarrow> admitted) \<and>
    (admitted \<and> (origin \<or> ae_broadcaster_alive env \<and> ae_pending_error env = None) \<longrightarrow> r = Inr ())"
proof (cases admitted)
  case False
  then show ?thesis
    using run inv contain_pool [OF inv, of "stx_tx_hash tx"] tx_cache_len_pool [OF inv]
    by (auto simp: adm insert_tx_def check_reach_limit_def check_exist_def split: if_splits prod.splits sum.splits)
next
  case True
  obtain c1 r1 where c1: "tx_cache_insert ops (tw_hash (wrap t tx)) (wrap t tx) (mp_tx_cache mp) = (r1, c1)" by fastforce
  have ref: "(r1, pool items c1) = pool_insert n (wrap t tx) (pool items (mp_tx_cache mp)) \<and> cache_inv items cap n c1"
    by (rule insert_refines [OF law inv _ c1]) simp
  have ok: "r1 = Inr ()" "pool items c1 = pool items (mp_tx_cache mp) @ [wrap t tx]" "cache_inv items cap n c1"
    using ref True size by (auto simp: adm pool_insert_def)
  have limit: "check_reach_limit (mp_pool_size mp) (mp_tx_cache mp) = Inr ()"
    and exist: "check_exist (stx_tx_hash tx) (mp_tx_cache mp) = Inr ()"
    using True contain_pool [OF inv, of "stx_tx_hash tx"] tx_cache_len_pool [OF inv]
    by (simp_all add: adm check_reach_limit_def check_exist_def)
  have checks: "adapter_checks env origin tx (mp_adapter mp) = (Inr (), mp_adapter mp)"
    using True adapter_checks_ok [of env origin tx "mp_adapter mp"] unfolding adm by (metis prod.collapse)
  have "mp_tx_cache mp' = c1" "origin \<or> ae_broadcaster_alive env \<and> ae_pending_error env = None \<Longrightarrow> r = Inr ()"
    using run c1 ok(1)
    by (auto simp: insert_tx_def limit exist checks insert_wrap broadcast_tx_def Let_def split: if_splits)
  moreover have "admissible env (mp_adapter mp) tx"
    using True adapter_checks_ok unfolding adm by blast
  ultimately show ?thesis using ok True by simp
qed

lemma example_mempool_new:
  "mempool_new list_queue env 2 [] = Inr (mempool_empty (tx_cache_empty list_queue 4) 2)" "mempool_new ops env 0 txs = Inl Panic"
  by (simp_all add: mempool_new_def tx_cache_new_def)

lemma example_mempool_inv:
  "cache_inv snd fst 8 (mp_tx_cache example_mempool)" "pool snd (mp_tx_cache example_mempool) = []"
  "mp_pool_size example_mempool = 2" "ad_max_tx_size (mp_adapter example_mempool) = 100"
  "ad_cycles_limit (mp_adapter example_mempool) = 100" "ad_timeout_gap (mp_adapter example_mempool) = 20"
  "mp_callback_cache example_mempool = tx_map_new"
  using cache_inv_new [OF list_queue_lawful, of 4]
  by (simp_all add: example_mempool_def mempool_set_args_def mempool_empty_def adapter_set_args_def)

lemma example_checks:
  "adapter_checks (example_env (from_succeed '''') txs) origin (example_stx 1) (mp_adapter example_mempool) =
   (Inr (), mp_adapter example_mempool)"
  by (simp add: adapter_checks_def adapter_check_authorization_def check_transaction_def check_storage_exist_def
      example_env_def example_stx_def example_header_def example_mempool_inv hash_digest_def address_from_hash_def
      ensure_len_def HASH_LEN_def address_from_bytes_def ADDRESS_LEN_def res_bind_def Let_def)

theorem insert_tx_spec_witness:
  "\<exists>mp'. insert_tx list_queue (example_env (from_succeed '''') []) False (example_stx 1) NewTx example_mempool = (Inr (), mp') \<and>
    pool snd (mp_tx_cache mp') = [tw_new (example_stx 1)]"
proof -
  obtain r mp' where run:
    "insert_tx list_queue (example_env (from_succeed '''') []) False (example_stx 1) NewTx example_mempool = (r, mp')"
    by fastforce
  have size: "mp_pool_size example_mempool \<le> 8" by (simp add: example_mempool_inv)
  from insert_tx_spec [OF list_queue_lawful example_mempool_inv(1) size run refl] run show ?thesis
    by (simp add: example_mempool_inv example_checks wrap_def) (simp add: example_env_def)
qed

section \<open>Pulled transactions\<close>

lemma check_dup_order_hashes_iff:
  "check_dup_order_hashes hs = Inr () \<longleftrightarrow> distinct hs"
proof -
  have "check_dup_order_hashes_from ds hs = Inr () \<longleftrightarrow> distinct hs \<and> set ds \<inter> set hs = {}" for ds
    by (induction hs arbitrary: ds) auto
  then show ?thesis by (simp add: check_dup_order_hashes_def)
qed

text \<open>The batch verification succeeds whatever the checks answer, as long as none of them panics.\<close>

lemma verify_tx_in_parallel_ignores:
  assumes "\<And>tx ad. tx \<in> set txs \<Longrightarrow> fst (adapter_checks env origin tx ad) \<noteq> Inl Panic"
  shows "fst (verify_tx_in_parallel env origin txs ad) = Inr ()"
proof -
  let ?f = "\<lambda>tx (rs, ad). case adapter_checks env origin tx ad of (r, ad) \<Rightarrow> (rs @ [r], ad)"
  have "Inl Panic \<notin> set rs \<Longrightarrow> (\<And>tx ad. tx \<in> set txs \<Longrightarrow> fst (adapter_checks env origin tx ad) \<noteq> Inl Panic) \<Longrightarrow>
      Inl Panic \<notin> set (fst (fold ?f txs (rs, ad)))" for rs ad
  proof (induction txs arbitrary: rs ad)
    case (Cons tx txs)
    obtain r ad1 where r: "adapter_checks env origin tx ad = (r, ad1)" by fastforce
    then have "Inl Panic \<notin> set (rs @ [r])" using Cons.prems(1) Cons.prems(2) [of tx ad] by auto
    with Cons.IH [of "rs @ [r]" ad1] Cons.prems(2) show ?case by (simp add: r)
  qed simp
  from this [of "[]" ad] assms show ?thesis
    by (auto simp: verify_tx_in_parallel_def Let_def split_beta)
qed

lemma tx_map_get_insert:
  "tx_map_wf m \<Longrightarrow> tx_map_get h (snd (tx_map_insert k v m)) =
    (if tx_map_get k m = None \<and> h = k then Some v else tx_map_get h m)"
  using tm.lookup_ins [of m k v, THEN fun_cong, of h] by simp

lemma callback_insert:
  fixes m :: "signed_transaction tx_map"
  assumes "tx_map_wf m" "distinct (map stx_tx_hash txs)" "tx \<in> set txs" "tx_map_get (stx_tx_hash tx) m = None"
  shows "tx_map_get (stx_tx_hash tx) (fold (\<lambda>tx m. snd (tx_map_insert (stx_tx_hash tx) tx m)) txs m) = Some tx"
proof -
  have step: "tx_map_wf m \<Longrightarrow> tx_map_get h m = Some v \<Longrightarrow> tx_map_get h (snd (tx_map_insert k x m)) = Some v"
    for h v k x and m :: "signed_transaction tx_map"
    by (auto simp: tx_map_get_insert)
  have keep: "tx_map_wf m \<Longrightarrow> tx_map_get h m = Some v \<Longrightarrow>
      tx_map_get h (fold (\<lambda>tx m. snd (tx_map_insert (stx_tx_hash tx) tx m)) txs m) = Some v" for h v txs and m :: "signed_transaction tx_map"
    by (induction txs arbitrary: m) (simp_all add: tm.wf_ins step)
  show ?thesis
    using assms
  proof (induction txs arbitrary: m)
    case (Cons t txs)
    let ?m = "snd (tx_map_insert (stx_tx_hash t) t m)"
    have wf: "tx_map_wf ?m" by (simp add: tm.wf_ins Cons.prems(1))
    show ?case
    proof (cases "t = tx")
      case True
      then have "tx_map_get (stx_tx_hash tx) ?m = Some tx"
        using Cons.prems by (simp add: tx_map_get_insert [OF Cons.prems(1)])
      from keep [OF wf this] True show ?thesis by simp
    next
      case False
      then have "stx_tx_hash t \<noteq> stx_tx_hash tx" "tx \<in> set txs" using Cons.prems(2,3) by auto
      then show ?thesis
        using Cons.IH [OF wf] Cons.prems by (simp add: tx_map_get_insert [OF Cons.prems(1)])
    qed
  qed simp
qed

text \<open>
  (C19) \<^bold>\<open>Pulled transactions are not verified.\<close> When the order hashes of a proposal are unknown,
  \<^verbatim>\<open>ensure_order_txs\<close> pulls the transactions from the proposer and verifies them in parallel, but only a
  panic of a verification task is noticed: with the right number of transactions the call succeeds
  and every pulled transaction is in the callback cache, whatever its authorization, size, timeout
  or storage check answered.
\<close>

theorem ensure_order_txs_ignores_verification:
  assumes "distinct order_hashes" "show_unknown_txs order_hashes mp \<noteq> []"
    and "pull_txs env height (show_unknown_txs order_hashes mp) = Inr txs"
    and "length txs = length (show_unknown_txs order_hashes mp)"
    and "\<And>tx ad. tx \<in> set txs \<Longrightarrow> fst (adapter_checks env origin tx ad) \<noteq> Inl Panic"
    and "tx_map_wf (mp_callback_cache mp)" "distinct (map stx_tx_hash txs)"
    and "\<And>tx. tx \<in> set txs \<Longrightarrow> tx_map_get (stx_tx_hash tx) (mp_callback_cache mp) = None"
  shows "fst (ensure_order_txs env origin height order_hashes mp) = Inr () \<and>
    (\<forall>tx \<in> set txs. tx_map_get (stx_tx_hash tx)
        (mp_callback_cache (snd (ensure_order_txs env origin height order_hashes mp))) = Some tx)"
proof -
  obtain ad where verify: "verify_tx_in_parallel env origin txs (mp_adapter mp) = (Inr (), ad)"
    using verify_tx_in_parallel_ignores [where txs = txs and ad = "mp_adapter mp", OF assms(5)]
    by (metis prod.collapse)
  have dup: "check_dup_order_hashes order_hashes = Inr ()"
    using assms(1) by (simp add: check_dup_order_hashes_iff)
  show ?thesis
    using assms(2-4) callback_insert [OF assms(6,7) _ assms(8)]
    by (simp add: ensure_order_txs_def dup verify Let_def)
qed

lemma example_rejected:
  "fst (adapter_checks (example_env (from_error '''' 102 ''bad'') txs) origin tx ad) \<noteq> Inl Panic"
  "fst (adapter_checks (example_env (from_error '''' 102 ''bad'') txs) origin (example_stx 1) ad) =
     Inl (Err (CheckAuthorization (Hash (replicate 32 1)) ''bad''))"
  by (simp_all add: adapter_checks_def adapter_check_authorization_def check_storage_exist_def
      example_env_def example_stx_def example_header_def hash_digest_def address_from_hash_def
      ensure_len_def HASH_LEN_def address_from_bytes_def ADDRESS_LEN_def res_bind_def Let_def from_error_def is_error_def)

theorem ensure_order_txs_ignores_verification_witness:
  "fst (adapter_checks (example_env (from_error '''' 102 ''bad'') [example_stx 1]) False (example_stx 1)
      (mp_adapter example_mempool)) = Inl (Err (CheckAuthorization (Hash (replicate 32 1)) ''bad'')) \<and>
   fst (ensure_order_txs (example_env (from_error '''' 102 ''bad'') [example_stx 1]) False None
      [Hash (replicate 32 1)] example_mempool) = Inr ()"
proof -
  let ?env = "example_env (from_error '''' 102 ''bad'') [example_stx 1]" and ?h = "Hash (replicate 32 1) :: hash"
  have "\<not> contain (mp_tx_cache example_mempool) ?h"
    using contain_pool [OF example_mempool_inv(1), of ?h] by (simp add: example_mempool_inv)
  then have unknown: "show_unknown_txs [?h] example_mempool = [?h]"
    by (simp add: show_unknown_txs_def show_unknown_def tx_map_contains_key_get example_mempool_inv)
  have "fst (ensure_order_txs ?env False None [?h] example_mempool) = Inr ()"
    using ensure_order_txs_ignores_verification [of "[?h]" example_mempool ?env None "[example_stx 1]" False]
    by (simp add: unknown pull_txs_def example_mempool_inv example_rejected(1)) (simp add: example_env_def)
  with example_rejected(2) show ?thesis by blast
qed

section \<open>Fetching full transactions\<close>

lemma get_full_txs_split:
  "fold (\<lambda>h (full, missing). case cached_tx mp h of Some tx \<Rightarrow> (full @ [tx], missing) | None \<Rightarrow> (full, missing @ [h])) hs (fs, ms) =
   (fs @ List.map_filter (cached_tx mp) hs, ms @ filter (\<lambda>h. cached_tx mp h = None) hs)"
  by (induction hs arbitrary: fs ms) (auto simp: map_filter_simps split: option.split)

lemma map_filter_hashes:
  assumes "\<And>h tx. cached_tx mp h = Some tx \<Longrightarrow> stx_tx_hash tx = h"
  shows "map stx_tx_hash (List.map_filter (cached_tx mp) hs) = filter (\<lambda>h. cached_tx mp h \<noteq> None) hs"
  by (induction hs) (auto simp: map_filter_simps assms split: option.split)

lemma stored_hashes:
  assumes "list_all2 (\<lambda>h t. \<forall>x. t = Some x \<longrightarrow> stx_tx_hash x = h) hs ts" "length (List.map_filter (\<lambda>t. t) ts) = length hs"
  shows "map stx_tx_hash (List.map_filter (\<lambda>t. t) ts) = hs"
  using assms
proof (induction rule: list_all2_induct)
  case (Cons h hs t ts)
  have "length (List.map_filter (\<lambda>t. t) ts) \<le> length hs"
    using list_all2_lengthD [OF Cons(2)] by (simp add: map_filter_def)
  with Cons show ?case by (cases t) (auto simp: map_filter_simps)
qed (simp add: map_filter_simps)

text \<open>
  (C20) \<^bold>\<open>The transactions of a proposal, in which order.\<close> When the caches index transactions by their
  hash and the storage answers with the transactions asked for, a successful \<^verbatim>\<open>get_full_txs\<close> returns
  exactly one transaction per requested hash: first the cached ones, in request order, then the ones
  read from the storage. The list is in request order only if no stored one is requested before a cached one.
\<close>

theorem get_full_txs_spec:
  assumes keyed: "\<And>h tx. cached_tx mp h = Some tx \<Longrightarrow> stx_tx_hash tx = h"
    and stored: "\<And>hs ts. get_transactions_from_storage env height hs = Inr ts \<Longrightarrow>
        list_all2 (\<lambda>h t. \<forall>x. t = Some x \<longrightarrow> stx_tx_hash x = h) hs ts"
    and ok: "get_full_txs env height hs mp = Inr txs"
  shows "map stx_tx_hash txs = filter (\<lambda>h. cached_tx mp h \<noteq> None) hs @ filter (\<lambda>h. cached_tx mp h = None) hs \<and>
    (\<forall>h. count_list (map stx_tx_hash txs) h = count_list hs h)"
proof -
  let ?c = "List.map_filter (cached_tx mp) hs" and ?m = "filter (\<lambda>h. cached_tx mp h = None) hs"
  have c: "map stx_tx_hash ?c = filter (\<lambda>h. cached_tx mp h \<noteq> None) hs"
    by (rule map_filter_hashes [OF keyed])
  have len: "length ?c + length ?m = length hs"
    using arg_cong [OF c, of length] sum_length_filter_compl [of "\<lambda>h. cached_tx mp h = None" hs] by simp
  have "map stx_tx_hash txs = filter (\<lambda>h. cached_tx mp h \<noteq> None) hs @ ?m"
  proof (cases "?m = []")
    case True
    then show ?thesis
      using ok c by (simp add: get_full_txs_def get_full_txs_split Let_def split: if_splits)
  next
    case False
    then obtain ts where ts: "get_transactions_from_storage env height ?m = Inr ts"
      "txs = ?c @ List.map_filter (\<lambda>t. t) ts" "length txs = length hs"
      using ok by (auto simp: get_full_txs_def get_full_txs_split Let_def res_bind_Inr_iff res_map_Inr_iff split: if_splits)
    then have "map stx_tx_hash (List.map_filter (\<lambda>t. t) ts) = ?m"
      using stored_hashes [OF stored [OF ts(1)]] len by simp
    with ts(2) c show ?thesis by simp
  qed
  moreover have "count_list (filter (\<lambda>h. \<not> P h) hs @ filter P hs) h = count_list hs h" for P h
    by (induction hs) auto
  from this [of "\<lambda>h. cached_tx mp h = None"] calculation show ?thesis by metis
qed

text \<open>A request whose first hash is only in the storage and whose second one is cached comes back swapped.\<close>

lemma example_cached:
  "cached_tx example_callback_mempool h = (if h = Hash (replicate 32 1) then Some (example_stx 1) else None)"
proof -
  have "tx_cache_get (mp_tx_cache example_mempool) h = None"
    using tx_cache_get_pool [OF example_mempool_inv(1)] by (simp add: example_mempool_inv)
  then show ?thesis
    using tx_map_get_insert [of tx_map_new h "Hash (replicate 32 1)" "example_stx 1"]
    by (simp add: cached_tx_def example_callback_mempool_def)
qed

theorem get_full_txs_spec_witness:
  "\<exists>txs. get_full_txs example_stored_env None [Hash (replicate 32 2), Hash (replicate 32 1)] example_callback_mempool = Inr txs \<and>
    map stx_tx_hash txs = [Hash (replicate 32 1), Hash (replicate 32 2)]"
proof -
  let ?hs = "[Hash (replicate 32 2), Hash (replicate 32 1)] :: hash list"
  have ok: "get_full_txs example_stored_env None ?hs example_callback_mempool = Inr [example_stx 1, example_stx 2]"
    by (simp add: get_full_txs_def example_cached get_transactions_from_storage_def map_filter_simps)
      (simp add: example_stored_env_def example_env_def map_filter_simps)
  have stored: "list_all2 (\<lambda>h t. \<forall>x. t = Some x \<longrightarrow> stx_tx_hash x = h) hs ts"
    if "get_transactions_from_storage example_stored_env None hs = Inr ts" for hs ts
    using that unfolding get_transactions_from_storage_def
    by (induction hs arbitrary: ts)
      (auto simp: example_stored_env_def example_env_def example_stx_def split: sum.splits if_splits)
  have "cached_tx example_callback_mempool h = Some tx \<Longrightarrow> stx_tx_hash tx = h" for h tx
    by (auto simp: example_cached example_stx_def split: if_splits)
  from get_full_txs_spec [OF this stored ok] ok show ?thesis
    by (simp add: example_cached)
qed

section \<open>Broadcasting\<close>

text \<open>
  (C22) \<^bold>\<open>No transaction is lost or reordered by the broadcaster.\<close> After any sequence of received
  transactions and interval signals, the batches sent so far followed by the pending transactions are
  exactly the received ones in order; every batch is non-empty and at most the configured size, and fewer
  than that are pending.
\<close>

theorem broadcast_batches:
  assumes "0 < tx_size" "fold (broadcast_step tx_size) es ([], []) = (pending, sent)"
  shows "concat sent @ pending = received es \<and> (\<forall>b \<in> set sent. b \<noteq> [] \<and> length b \<le> tx_size) \<and> length pending < tx_size"
proof -
  have received_snoc: "received (es @ [e]) = received es @ (case e of StxReceived tx \<Rightarrow> [tx] | IntervalReached \<Rightarrow> [])" for es e
    by (induction es rule: received.induct) (auto split: broadcast_event.split)
  show ?thesis
    using assms(2)
  proof (induction es arbitrary: pending sent rule: rev_induct)
    case Nil
    then show ?case using assms(1) by simp
  next
    case (snoc e es)
    obtain p s where ps: "fold (broadcast_step tx_size) es ([], []) = (p, s)" by fastforce
    from snoc.IH [OF ps] snoc.prems show ?case
      by (cases e) (auto simp: ps received_snoc do_broadcast_def Let_def split: if_splits)
  qed
qed

theorem broadcast_batches_witness:
  "fold (broadcast_step 2) [StxReceived (example_stx 1), StxReceived (example_stx 2), StxReceived (example_stx 3), IntervalReached]
     ([], []) = ([], [[example_stx 1, example_stx 2], [example_stx 3]]) \<and>
   concat [[example_stx 1, example_stx 2], [example_stx 3]] = [example_stx 1, example_stx 2, example_stx 3]"
proof -
  have "fold (broadcast_step 2) [StxReceived (example_stx 1), StxReceived (example_stx 2), StxReceived (example_stx 3), IntervalReached]
     ([], []) = ([], [[example_stx 1, example_stx 2], [example_stx 3]])"
    by (simp add: do_broadcast_def)
  with broadcast_batches [OF _ this] show ?thesis by simp
qed

end
