(* ===== verification/Consensus_Status.thy ===== *)
theory Consensus_Status
  imports Muta_Types
begin

text \<open>
  The status a node keeps between consensus and execution, \<^verbatim>\<open>core/consensus/src/status.rs\<close>, with the
  prefix test and the transaction digest of \<^verbatim>\<open>core/consensus/src/util.rs\<close> and the errors of
  \<^verbatim>\<open>core/consensus/src/lib.rs\<close>. Execution appends the roots of each executed block to four lists;
  a committed block confirms a prefix of them, which is split off. An assertion or a panic of the
  source is \<^verbatim>\<open>Inl Panic\<close>. The Merkle tree package, the codecs and the hash function are arguments.

  The main lemma is about whole histories: the roots confirmed by the committed headers followed by
  the pending ones are the roots of the executed blocks, in order.
\<close>

section \<open>Errors\<close>

datatype block_header_field = PreviousBlockHash | ProofHash | ProposerField | ValidatorField | WeightField

datatype block_proof_field =
    BitMap
  | ProofSignature
  | HeightMismatch u64 u64
  | HashMismatch
  | WeightNotFound
  | ProofValidator
  | ProofWeight

datatype consensus_type =
    SignedProposal
  | SignedVote
  | AggregateVote
  | RichHeight
  | RpcPullBlocks
  | RpcPullTxs
  | SignedChoke
  | WALSignedTxs

text \<open>The errors of the source; \<^verbatim>\<open>ProtocolErr\<close> stands for an error of another component that is passed on.\<close>

datatype consensus_error =
    InvalidPrevhash hash hash
  | InvalidOrderRoot hash hash
  | InvalidOrderSignedTransactionsHash hash hash
  | InvalidStatusVec
  | DecodeErr consensus_type
  | EncodeErr consensus_type
  | OverlordErr string
  | MissingProof u64
  | MissingPill hash
  | InvalidTimestamp
  | MissingBlockHeader u64
  | CryptoErr string
  | VerifyTransaction u64
  | VerifyBlockHeader u64 block_header_field
  | VerifyProof u64 block_proof_field
  | ExecuteErr string
  | WALErr string
  | StorageItemNotFound
  | LockInSync
  | WalTxsMismatch u64
  | OutdatedCommit u64 u64
  | OtherErr string
  | SystemTime
  | FileNameTimestamp
  | ConsensusWalDirNotExist
  | ConsensusWalNoWalFile
  | ProtocolErr string

section \<open>Status\<close>

record consensus_status =
  cs_cycles_price :: u64
  cs_cycles_limit :: u64
  cs_latest_committed_height :: u64
  cs_exec_height :: u64
  cs_current_hash :: hash
  cs_latest_committed_state_root :: hash
  cs_list_confirm_root :: "hash list"
  cs_list_state_root :: "hash list"
  cs_list_receipt_root :: "hash list"
  cs_list_cycles_used :: "u64 list"
  cs_current_proof :: block_proof
  cs_validators :: "validator list"
  cs_consensus_interval :: u64
  cs_propose_ratio :: u64
  cs_prevote_ratio :: u64
  cs_precommit_ratio :: u64
  cs_brake_ratio :: u64
  cs_tx_num_limit :: u64
  cs_max_tx_size :: u64

record executed_info =
  ei_exec_height :: u64
  ei_cycles_used :: u64
  ei_state_root :: hash
  ei_receipt_root :: hash
  ei_confirm_root :: hash

definition check_list_roots :: "'a list \<Rightarrow> 'a list \<Rightarrow> bool" where
  "check_list_roots cache_roots block_roots \<longleftrightarrow>
     length block_roots \<le> length cache_roots \<and> list_all (\<lambda>(c, e). c = e) (zip cache_roots block_roots)"

text \<open>\<^verbatim>\<open>digest_signed_transactions\<close>: the digest of the concatenated encodings.\<close>

definition digest_signed_transactions ::
    "(bytes \<Rightarrow> bytes) \<Rightarrow> (signed_transaction \<Rightarrow> (consensus_error, bytes) result) \<Rightarrow> signed_transaction list
     \<Rightarrow> (consensus_error, hash) result" where
  "digest_signed_transactions digest encode signed_txs =
     (if signed_txs = [] then Inr (hash_from_empty digest)
      else res_map (\<lambda>bs. hash_digest digest (concat bs)) (res_collect encode signed_txs))"

definition get_latest_state_root :: "consensus_status \<Rightarrow> hash" where
  "get_latest_state_root s =
     (if cs_list_state_root s = [] then cs_latest_committed_state_root s else last (cs_list_state_root s))"

text \<open>The Merkle root of \<^verbatim>\<open>common/merkle\<close>: the tree package gets the merge function of the source.\<close>

definition merkle_merge :: "(bytes \<Rightarrow> bytes) \<Rightarrow> hash \<Rightarrow> hash \<Rightarrow> hash" where
  "merkle_merge digest l r = hash_digest digest (hash_bytes l @ hash_bytes r)"

definition merkle_root ::
    "((hash \<Rightarrow> hash \<Rightarrow> hash) \<Rightarrow> hash list \<Rightarrow> hash option) \<Rightarrow> (bytes \<Rightarrow> bytes) \<Rightarrow> hash list \<Rightarrow> hash option" where
  "merkle_root tree_root digest hashes = tree_root (merkle_merge digest) hashes"

text \<open>\<^verbatim>\<open>ExecutedInfo::new\<close>; \<^verbatim>\<open>encode_fixed().unwrap()\<close> panics on an encoding error.\<close>

definition executed_info_new ::
    "((hash \<Rightarrow> hash \<Rightarrow> hash) \<Rightarrow> hash list \<Rightarrow> hash option) \<Rightarrow> (bytes \<Rightarrow> bytes) \<Rightarrow> (receipt \<Rightarrow> (consensus_error, bytes) result)
     \<Rightarrow> u64 \<Rightarrow> hash \<Rightarrow> executor_resp \<Rightarrow> (consensus_error, executed_info) result" where
  "executed_info_new tree_root digest encode_receipt height order_root resp =
     (case res_collect encode_receipt (er_receipts resp) of
        Inl _ \<Rightarrow> Inl Panic
      | Inr bs \<Rightarrow>
          Inr \<lparr>ei_exec_height = height, ei_cycles_used = er_all_cycles_used resp, ei_state_root = er_state_root resp,
               ei_receipt_root =
                 (case merkle_root tree_root digest (map (hash_digest digest) bs) of
                    Some h \<Rightarrow> h | None \<Rightarrow> hash_from_empty digest),
               ei_confirm_root = order_root\<rparr>)"

definition update_by_executed :: "executed_info \<Rightarrow> consensus_status \<Rightarrow> (consensus_error, consensus_status) result" where
  "update_by_executed info s =
     (if ei_exec_height info \<le> cs_exec_height s then Inr s
      else if ei_exec_height info \<noteq> cs_exec_height s + 1 then Inl Panic
      else Inr (s\<lparr>cs_exec_height := cs_exec_height s + 1,
                  cs_list_cycles_used := cs_list_cycles_used s @ [ei_cycles_used info],
                  cs_list_confirm_root := cs_list_confirm_root s @ [ei_confirm_root info],
                  cs_list_receipt_root := cs_list_receipt_root s @ [ei_receipt_root info],
                  cs_list_state_root := cs_list_state_root s @ [ei_state_root info]\<rparr>))"

text \<open>The validators of a metadata; \<^verbatim>\<open>Hex::decode\<close> is the argument.\<close>

definition validators_of :: "(hex \<Rightarrow> bytes) \<Rightarrow> metadata \<Rightarrow> validator list" where
  "validators_of decode md =
     map (\<lambda>v. \<lparr>va_pub_key = decode (ve_pub_key v), va_propose_weight = ve_propose_weight v,
               va_vote_weight = ve_vote_weight v\<rparr>) (md_verifier_list md)"

definition set_metadata :: "(hex \<Rightarrow> bytes) \<Rightarrow> metadata \<Rightarrow> consensus_status \<Rightarrow> consensus_status" where
  "set_metadata decode md s =
     s\<lparr>cs_cycles_limit := md_cycles_limit md, cs_cycles_price := md_cycles_price md,
       cs_consensus_interval := md_interval md, cs_validators := validators_of decode md,
       cs_propose_ratio := md_propose_ratio md, cs_prevote_ratio := md_prevote_ratio md,
       cs_precommit_ratio := md_precommit_ratio md, cs_brake_ratio := md_brake_ratio md,
       cs_max_tx_size := md_max_tx_size md, cs_tx_num_limit := md_tx_num_limit md\<rparr>"

text \<open>\<^verbatim>\<open>Vec::split_off\<close> panics past the end.\<close>

definition vec_split_off :: "nat \<Rightarrow> 'a list \<Rightarrow> (consensus_error, 'a list) result" where
  "vec_split_off n xs = (if n \<le> length xs then Inr (drop n xs) else Inl Panic)"

definition status_split_off :: "block \<Rightarrow> consensus_status \<Rightarrow> (consensus_error, consensus_status) result" where
  "status_split_off blk s =
     (let h = blk_header blk; len = length (hdr_confirm_root h) in
      if len \<noteq> length (hdr_cycles_used h) \<or> len \<noteq> length (hdr_receipt_root h) then Inl Panic
      else if \<not> check_list_roots (cs_list_cycles_used s) (hdr_cycles_used h) then Inl Panic
      else if \<not> check_list_roots (cs_list_confirm_root s) (hdr_confirm_root h) then Inl Panic
      else if \<not> check_list_roots (cs_list_receipt_root s) (hdr_receipt_root h) then Inl Panic
      else
        res_bind (vec_split_off len (cs_list_cycles_used s)) (\<lambda>cu.
        res_bind (vec_split_off len (cs_list_confirm_root s)) (\<lambda>cr.
        res_bind (vec_split_off len (cs_list_receipt_root s)) (\<lambda>rr.
        res_bind (vec_split_off len (cs_list_state_root s)) (\<lambda>sr.
          Inr (s\<lparr>cs_list_cycles_used := cu, cs_list_confirm_root := cr, cs_list_receipt_root := rr,
                 cs_list_state_root := sr\<rparr>))))))"

definition update_by_committed ::
    "(hex \<Rightarrow> bytes) \<Rightarrow> metadata \<Rightarrow> block \<Rightarrow> hash \<Rightarrow> block_proof \<Rightarrow> consensus_status \<Rightarrow> (consensus_error, consensus_status) result" where
  "update_by_committed decode md blk block_hash current_proof s =
     (let s = set_metadata decode md s in
      if hdr_height (blk_header blk) \<noteq> cs_latest_committed_height s + 1 then Inl Panic
      else
        status_split_off blk
          (s\<lparr>cs_latest_committed_height := hdr_height (blk_header blk), cs_current_hash := block_hash,
             cs_current_proof := current_proof,
             cs_latest_committed_state_root := hdr_state_root (blk_header blk)\<rparr>))"

definition status_replace :: "consensus_status \<Rightarrow> consensus_status \<Rightarrow> consensus_status" where
  "status_replace new s =
     s\<lparr>cs_cycles_price := cs_cycles_price new, cs_cycles_limit := cs_cycles_limit new,
       cs_latest_committed_height := cs_latest_committed_height new, cs_exec_height := cs_exec_height new,
       cs_current_hash := cs_current_hash new,
       cs_latest_committed_state_root := cs_latest_committed_state_root new,
       cs_list_confirm_root := cs_list_confirm_root new, cs_list_state_root := cs_list_state_root new,
       cs_list_receipt_root := cs_list_receipt_root new, cs_list_cycles_used := cs_list_cycles_used new,
       cs_current_proof := cs_current_proof new, cs_validators := cs_validators new,
       cs_consensus_interval := cs_consensus_interval new\<rparr>"

section \<open>Histories\<close>

datatype status_event = Executed executed_info | Committed metadata block hash block_proof

fun status_step :: "(hex \<Rightarrow> bytes) \<Rightarrow> status_event \<Rightarrow> consensus_status \<Rightarrow> (consensus_error, consensus_status) result" where
  "status_step decode (Executed info) s = update_by_executed info s"
| "status_step decode (Committed md blk h pf) s = update_by_committed decode md blk h pf s"

text \<open>The executions that take effect, with the status they meet: heights already executed are skipped.\<close>

fun accepted :: "u64 \<Rightarrow> status_event list \<Rightarrow> executed_info list" where
  "accepted n [] = []"
| "accepted n (Executed info # es) =
     (if ei_exec_height info \<le> n then accepted n es else info # accepted (n + 1) es)"
| "accepted n (Committed _ _ _ _ # es) = accepted n es"

fun committed :: "status_event list \<Rightarrow> block_header list" where
  "committed [] = []"
| "committed (Executed _ # es) = committed es"
| "committed (Committed _ blk _ _ # es) = blk_header blk # committed es"

definition status_wf :: "consensus_status \<Rightarrow> bool" where
  "status_wf s \<longleftrightarrow> length (cs_list_state_root s) = length (cs_list_confirm_root s) \<and>
     length (cs_list_receipt_root s) = length (cs_list_confirm_root s) \<and>
     length (cs_list_cycles_used s) = length (cs_list_confirm_root s)"

text \<open>A status at height five for the witnesses.\<close>

definition example_proof :: block_proof where
  "example_proof = \<lparr>pf_height = 0, pf_round = 0, pf_block_hash = Hash [], pf_signature = [], pf_bitmap = []\<rparr>"

definition example_status :: consensus_status where
  "example_status =
     \<lparr>cs_cycles_price = 1, cs_cycles_limit = 1, cs_latest_committed_height = 5, cs_exec_height = 5,
      cs_current_hash = Hash [1], cs_latest_committed_state_root = Hash [1], cs_list_confirm_root = [],
      cs_list_state_root = [], cs_list_receipt_root = [], cs_list_cycles_used = [], cs_current_proof = example_proof,
      cs_validators = [], cs_consensus_interval = 1, cs_propose_ratio = 1, cs_prevote_ratio = 1, cs_precommit_ratio = 1,
      cs_brake_ratio = 1, cs_tx_num_limit = 1, cs_max_tx_size = 1\<rparr>"

definition example_metadata :: "validator_extend list \<Rightarrow> metadata" where
  "example_metadata vs =
     \<lparr>md_chain_id = Hash [], md_bech32_address_hrp = ''muta'', md_common_ref = Hex ''0x'', md_timeout_gap = 1,
      md_cycles_limit = 1, md_cycles_price = 1, md_interval = 1, md_verifier_list = vs, md_propose_ratio = 2,
      md_prevote_ratio = 2, md_precommit_ratio = 2, md_brake_ratio = 2, md_tx_num_limit = 2, md_max_tx_size = 2\<rparr>"

definition example_block :: "u64 \<Rightarrow> hash list \<Rightarrow> hash list \<Rightarrow> u64 list \<Rightarrow> block" where
  "example_block n confirm receipt cycles =
     \<lparr>blk_header =
        \<lparr>hdr_chain_id = Hash [], hdr_height = n, hdr_exec_height = 1, hdr_prev_hash = Hash [1], hdr_timestamp = 0,
         hdr_order_root = Hash [], hdr_order_signed_transactions_hash = Hash [], hdr_confirm_root = confirm,
         hdr_state_root = Hash [1], hdr_receipt_root = receipt, hdr_cycles_used = cycles, hdr_proposer = Address [],
         hdr_proof = example_proof, hdr_validator_version = 0, hdr_validators = []\<rparr>,
      blk_ordered_tx_hashes = []\<rparr>"

definition example_info :: "u64 \<Rightarrow> executed_info" where
  "example_info n = \<lparr>ei_exec_height = n, ei_cycles_used = 7, ei_state_root = Hash [2], ei_receipt_root = Hash [3],
     ei_confirm_root = Hash [4]\<rparr>"

section \<open>Lemmas\<close>

text \<open>The zipped comparison is the prefix test.\<close>

lemma check_list_roots_prefix:
  "check_list_roots cache roots \<longleftrightarrow> take (length roots) cache = roots"
proof (induction roots arbitrary: cache)
  case (Cons r roots)
  then show ?case by (cases cache) (auto simp: check_list_roots_def)
qed (simp add: check_list_roots_def)

lemma check_list_roots_split: "check_list_roots cache roots \<longleftrightarrow> (\<exists>rest. cache = roots @ rest)"
  unfolding check_list_roots_prefix by (metis append_eq_conv_conj append_take_drop_id)

lemma status_split_off_ok:
  assumes "status_split_off blk s = Inr s'" "status_wf s"
  shows "status_wf s' \<and> cs_list_confirm_root s = hdr_confirm_root (blk_header blk) @ cs_list_confirm_root s' \<and>
    cs_list_receipt_root s = hdr_receipt_root (blk_header blk) @ cs_list_receipt_root s' \<and>
    cs_list_cycles_used s = hdr_cycles_used (blk_header blk) @ cs_list_cycles_used s' \<and>
    cs_list_state_root s' = drop (length (hdr_confirm_root (blk_header blk))) (cs_list_state_root s) \<and>
    length (hdr_confirm_root (blk_header blk)) \<le> length (cs_list_state_root s) \<and>
    cs_exec_height s' = cs_exec_height s \<and> cs_latest_committed_height s' = cs_latest_committed_height s"
  using assms
  by (auto simp: status_split_off_def vec_split_off_def status_wf_def check_list_roots_split Let_def
      split: if_splits)

lemma status_step_ok:
  assumes "status_step decode e s = Inr s'" "status_wf s"
  shows "status_wf s' \<and>
    cs_list_confirm_root s @ map ei_confirm_root (accepted (cs_exec_height s) [e]) =
      concat (map hdr_confirm_root (committed [e])) @ cs_list_confirm_root s' \<and>
    cs_list_receipt_root s @ map ei_receipt_root (accepted (cs_exec_height s) [e]) =
      concat (map hdr_receipt_root (committed [e])) @ cs_list_receipt_root s' \<and>
    cs_list_cycles_used s @ map ei_cycles_used (accepted (cs_exec_height s) [e]) =
      concat (map hdr_cycles_used (committed [e])) @ cs_list_cycles_used s' \<and>
    (\<exists>ss. length ss = length (concat (map hdr_confirm_root (committed [e]))) \<and>
      cs_list_state_root s @ map ei_state_root (accepted (cs_exec_height s) [e]) = ss @ cs_list_state_root s')"
proof (cases e)
  case (Executed info)
  then show ?thesis
    using assms by (auto simp: update_by_executed_def status_wf_def split: if_splits)
next
  case (Committed md blk h pf)
  let ?s = "(set_metadata decode md s)\<lparr>cs_latest_committed_height := hdr_height (blk_header blk), cs_current_hash := h,
      cs_current_proof := pf, cs_latest_committed_state_root := hdr_state_root (blk_header blk)\<rparr>"
  have split: "status_split_off blk ?s = Inr s'"
    using assms(1) Committed by (auto simp: update_by_committed_def Let_def split: if_splits)
  have wf: "status_wf ?s" using assms(2) by (simp add: status_wf_def set_metadata_def)
  from status_split_off_ok [OF split wf] Committed show ?thesis
    by (auto simp: set_metadata_def intro!: exI [of _ "take (length (hdr_confirm_root (blk_header blk))) (cs_list_state_root s)"])
qed

lemma accepted_step:
  assumes "status_step decode e s = Inr s'"
  shows "accepted (cs_exec_height s) (e # es) = accepted (cs_exec_height s) [e] @ accepted (cs_exec_height s') es"
proof (cases e)
  case (Executed info)
  then show ?thesis using assms by (auto simp: update_by_executed_def split: if_splits)
next
  case (Committed md blk h pf)
  then have "cs_exec_height s' = cs_exec_height s"
    using assms
    by (auto simp: update_by_committed_def status_split_off_def vec_split_off_def set_metadata_def Let_def split: if_splits)
  with Committed show ?thesis by simp
qed

lemma committed_append: "committed (e # es) = committed [e] @ committed es"
  by (cases e) auto

lemma append_chain: "xs @ a = c @ ys \<Longrightarrow> ys @ b = d @ zs \<Longrightarrow> xs @ a @ b = (c @ d) @ zs"
  by (metis append.assoc)

text \<open>
  (C23) \<^bold>\<open>Committed roots are the executed roots.\<close> Take any sequence of executions and commits that does not
  panic, from a status whose four lists have equal lengths. The lists keep equal lengths; the confirm
  roots, receipt roots and cycles of the committed headers, followed by the pending ones, are those of
  the status at the start and of the blocks executed since, in order and without gaps; and
  as many state roots have been dropped as roots were confirmed.
\<close>

theorem status_history:
  assumes "status_wf s" "res_fold (status_step decode) es s = Inr s'"
  shows "status_wf s' \<and>
    cs_list_confirm_root s @ map ei_confirm_root (accepted (cs_exec_height s) es) =
      concat (map hdr_confirm_root (committed es)) @ cs_list_confirm_root s' \<and>
    cs_list_receipt_root s @ map ei_receipt_root (accepted (cs_exec_height s) es) =
      concat (map hdr_receipt_root (committed es)) @ cs_list_receipt_root s' \<and>
    cs_list_cycles_used s @ map ei_cycles_used (accepted (cs_exec_height s) es) =
      concat (map hdr_cycles_used (committed es)) @ cs_list_cycles_used s' \<and>
    (\<exists>ss. length ss = length (concat (map hdr_confirm_root (committed es))) \<and>
      cs_list_state_root s @ map ei_state_root (accepted (cs_exec_height s) es) = ss @ cs_list_state_root s')"
  using assms
proof (induction es arbitrary: s)
  case Nil
  then show ?case by simp
next
  case (Cons e es)
  obtain t where t: "status_step decode e s = Inr t" "res_fold (status_step decode) es t = Inr s'"
    using Cons.prems(2) by (auto split: sum.splits)
  note step = status_step_ok [OF t(1) Cons.prems(1)]
  note IH = Cons.IH [OF conjunct1 [OF step] t(2)]
  obtain ss where ss: "length ss = length (concat (map hdr_confirm_root (committed [e])))"
    "cs_list_state_root s @ map ei_state_root (accepted (cs_exec_height s) [e]) = ss @ cs_list_state_root t"
    using step by blast
  obtain ss' where ss': "length ss' = length (concat (map hdr_confirm_root (committed es)))"
    "cs_list_state_root t @ map ei_state_root (accepted (cs_exec_height t) es) = ss' @ cs_list_state_root s'"
    using IH by blast
  have acc: "accepted (cs_exec_height s) (e # es) =
      accepted (cs_exec_height s) [e] @ accepted (cs_exec_height t) es"
    by (rule accepted_step [OF t(1)])
  have com: "concat (map f (committed (e # es))) = concat (map f (committed [e])) @ concat (map f (committed es))"
    for f :: "block_header \<Rightarrow> 'x list"
    by (subst committed_append) simp
  have chain: "xs @ map g (accepted (cs_exec_height s) (e # es)) = concat (map f (committed (e # es))) @ zs"
    if "xs @ map g (accepted (cs_exec_height s) [e]) = concat (map f (committed [e])) @ ys"
      "ys @ map g (accepted (cs_exec_height t) es) = concat (map f (committed es)) @ zs"
    for xs ys zs and f :: "block_header \<Rightarrow> 'x list" and g
    unfolding acc com map_append using append_chain [OF that] by simp
  have "cs_list_state_root s @ map ei_state_root (accepted (cs_exec_height s) (e # es)) = (ss @ ss') @ cs_list_state_root s'"
    unfolding acc map_append using append_chain [OF ss(2) ss'(2)] by simp
  moreover have "length (ss @ ss') = length (concat (map hdr_confirm_root (committed (e # es))))"
    using ss(1) ss'(1) by (subst com) simp
  moreover note chain [OF conjunct1 [OF conjunct2 [OF step]] conjunct1 [OF conjunct2 [OF IH]]]
    chain [OF conjunct1 [OF conjunct2 [OF conjunct2 [OF step]]] conjunct1 [OF conjunct2 [OF conjunct2 [OF IH]]]]
    chain [OF conjunct1 [OF conjunct2 [OF conjunct2 [OF conjunct2 [OF step]]]]
      conjunct1 [OF conjunct2 [OF conjunct2 [OF conjunct2 [OF IH]]]]]
  ultimately show ?case
    using conjunct1 [OF IH] by (intro conjI exI [of _ "ss @ ss'"]) assumption+
qed

theorem status_history_witness:
  "\<exists>s'. res_fold (status_step (\<lambda>_. []))
      [Executed (example_info 6), Executed (example_info 6), Committed (example_metadata []) (example_block 6 [Hash [4]] [Hash [3]] [7]) (Hash []) example_proof]
      example_status = Inr s' \<and> status_wf s' \<and> cs_list_confirm_root s' = []"
proof -
  let ?es = "[Executed (example_info 6), Executed (example_info 6),
    Committed (example_metadata []) (example_block 6 [Hash [4]] [Hash [3]] [7]) (Hash []) example_proof]"
  have wf: "status_wf example_status" by (simp add: status_wf_def example_status_def)
  obtain s' where run: "res_fold (status_step (\<lambda>_. [])) ?es example_status = Inr s'"
    by (simp add: update_by_executed_def update_by_committed_def status_split_off_def vec_split_off_def
        check_list_roots_def set_metadata_def example_info_def example_status_def example_block_def Let_def)
  from status_history [OF wf run] have "status_wf s' \<and> cs_list_confirm_root s' = []"
    by (simp add: example_info_def example_status_def example_block_def)
  with run show ?thesis by blast
qed

text \<open>
  \<^bold>\<open>Replacing the status keeps stale parameters.\<close> After a synchronised block the node replaces its
  status field by field. The heights, hashes, lists, proof and validators become those of the
  new status, but the four ratios, the transaction limit and the transaction size stay those of the old
  status.
\<close>

theorem status_replace_stale:
  "cs_propose_ratio (status_replace new s) = cs_propose_ratio s \<and>
   cs_prevote_ratio (status_replace new s) = cs_prevote_ratio s \<and>
   cs_precommit_ratio (status_replace new s) = cs_precommit_ratio s \<and>
   cs_brake_ratio (status_replace new s) = cs_brake_ratio s \<and>
   cs_tx_num_limit (status_replace new s) = cs_tx_num_limit s \<and>
   cs_max_tx_size (status_replace new s) = cs_max_tx_size s \<and>
   status_replace new s = new\<lparr>cs_propose_ratio := cs_propose_ratio s, cs_prevote_ratio := cs_prevote_ratio s,
     cs_precommit_ratio := cs_precommit_ratio s, cs_brake_ratio := cs_brake_ratio s,
     cs_tx_num_limit := cs_tx_num_limit s, cs_max_tx_size := cs_max_tx_size s\<rparr>"
  by (simp add: status_replace_def)

end
