(* ===== verification/Consensus_Verify.thy ===== *)
theory Consensus_Verify
  imports Consensus_Status
begin

text \<open>
  The verification of headers and proofs in \<^verbatim>\<open>core/consensus/src/adapter.rs\<close> and the signature
  operations of \<^verbatim>\<open>OverlordCrypto\<close> in \<^verbatim>\<open>core/consensus/src/util.rs\<close>. The storage, the executor and the
  packages for BLS signatures, rlp, serde and overlord are fields of \<^verbatim>\<open>consensus_env\<close>.

  The lemmas show what an accepted proof guarantees, that any two accepted proofs share signers of more
  than a third of the weight (through the locale \<^verbatim>\<open>quorum_system\<close>), and what the header check accepts,
  including a comparison of two different weights.
\<close>

section \<open>Environment\<close>

record overlord_node =
  nd_address :: bytes
  nd_propose_weight :: u32
  nd_vote_weight :: u32

datatype vote_type = Prevote | Precommit

record overlord_vote =
  vt_height :: u64
  vt_round :: u64
  vt_vote_type :: vote_type
  vt_block_hash :: bytes

record consensus_env =
  ce_digest :: "bytes \<Rightarrow> bytes"
  ce_encode_header :: "block_header \<Rightarrow> (consensus_error, bytes) result"
  ce_get_block_header :: "u64 \<Rightarrow> (consensus_error, block_header option) result"
  ce_from_root :: "hash \<Rightarrow> (consensus_error, unit) result"
  ce_executor_read ::
    "executor_params \<Rightarrow> address \<Rightarrow> u64 \<Rightarrow> transaction_request \<Rightarrow> (consensus_error, string service_response) result"
  ce_parse_metadata :: "string \<Rightarrow> metadata option"
  ce_address_hrp :: bytes
  ce_hex_decode :: "hex \<Rightarrow> bytes"
  ce_extract_voters :: "overlord_node list \<Rightarrow> bytes \<Rightarrow> (overlord_node list \<times> bytes list) option"
  ce_encode_vote :: "overlord_vote \<Rightarrow> bytes"
  ce_bls_parse_key :: "bytes \<Rightarrow> bytes option"
  ce_bls_parse_signature :: "bytes \<Rightarrow> bytes option"
  ce_bls_aggregate :: "bytes list \<Rightarrow> bytes"
  ce_bls_combine :: "(bytes \<times> bytes) list \<Rightarrow> bytes"
  ce_bls_verify :: "bytes \<Rightarrow> bytes \<Rightarrow> bytes \<Rightarrow> bool"
  ce_bls_sign :: "bytes \<Rightarrow> bytes"
  ce_hash_value_ok :: "bytes \<Rightarrow> bool"

section \<open>OverlordCrypto\<close>

type_synonym addr_pubkey = "(bytes, bytes) hash_map"

definition crypto_hash :: "consensus_env \<Rightarrow> bytes \<Rightarrow> bytes" where
  "crypto_hash env msg = hash_bytes (hash_digest (ce_digest env) msg)"

definition crypto_sign :: "consensus_env \<Rightarrow> bytes \<Rightarrow> (consensus_error, bytes) result" where
  "crypto_sign env h =
     (if ce_hash_value_ok env h then Inr (ce_bls_sign env h) else Inl (Err (OtherErr ''failed to convert hash value'')))"

definition crypto_verify_signature ::
    "consensus_env \<Rightarrow> addr_pubkey \<Rightarrow> bytes \<Rightarrow> bytes \<Rightarrow> bytes \<Rightarrow> (consensus_error, unit) result" where
  "crypto_verify_signature env m signature h voter =
     (if \<not> ce_hash_value_ok env h then Inl (Err (OtherErr ''failed to convert hash value''))
      else
        (case hm_get m voter of
           None \<Rightarrow> Inl (Err (OtherErr ''lose public key''))
         | Some pub_key \<Rightarrow>
             (case ce_bls_parse_signature env signature of
                None \<Rightarrow> Inl (Err (CryptoErr ''signature''))
              | Some sig \<Rightarrow>
                  (if ce_bls_verify env sig h pub_key then Inr () else Inl (Err (CryptoErr ''verify''))))))"

definition aggregate_signatures ::
    "consensus_env \<Rightarrow> addr_pubkey \<Rightarrow> bytes list \<Rightarrow> bytes list \<Rightarrow> (consensus_error, bytes) result" where
  "aggregate_signatures env m signatures voters =
     (if length signatures \<noteq> length voters
      then Inl (Err (OtherErr ''signatures length does not match voters length''))
      else
        res_map (ce_bls_combine env)
          (res_collect
             (\<lambda>(sig, addr).
                res_bind (ok_or (CryptoErr ''signature'') (ce_bls_parse_signature env sig)) (\<lambda>signature.
                res_map (\<lambda>pub_key. (signature, pub_key)) (ok_or (OtherErr ''lose public key'') (hm_get m addr))))
             (zip signatures voters)))"

definition inner_verify_aggregated_signature ::
    "consensus_env \<Rightarrow> bytes \<Rightarrow> bytes list \<Rightarrow> bytes \<Rightarrow> (consensus_error, unit) result" where
  "inner_verify_aggregated_signature env h pub_keys signature =
     (let aggregate_key = ce_bls_aggregate env pub_keys in
      case ce_bls_parse_signature env signature of
        None \<Rightarrow> Inl (Err (CryptoErr ''signature''))
      | Some sig \<Rightarrow>
          (if \<not> ce_hash_value_ok env h then Inl (Err (OtherErr ''failed to convert hash value''))
           else if ce_bls_verify env sig h aggregate_key then Inr ()
           else Inl (Err (CryptoErr ''verify''))))"

definition verify_aggregated_signature ::
    "consensus_env \<Rightarrow> addr_pubkey \<Rightarrow> bytes \<Rightarrow> bytes \<Rightarrow> bytes list \<Rightarrow> (consensus_error, unit) result" where
  "verify_aggregated_signature env m aggregated_signature h voters =
     res_bind (res_collect (\<lambda>addr. ok_or (OtherErr ''lose public key'') (hm_get m addr)) voters)
       (\<lambda>pub_keys. inner_verify_aggregated_signature env h pub_keys aggregated_signature)"

definition crypto_update :: "addr_pubkey \<Rightarrow> addr_pubkey \<Rightarrow> addr_pubkey" where
  "crypto_update new_addr_pubkey m = new_addr_pubkey"

text \<open>\<^verbatim>\<open>hex::decode\<close> of a stored key cannot fail, since \<^verbatim>\<open>Hex\<close> checks it on construction.\<close>

definition convert_hex_to_bls_pubkeys :: "consensus_env \<Rightarrow> hex \<Rightarrow> (consensus_error, bytes) result" where
  "convert_hex_to_bls_pubkeys env h = ok_or (CryptoErr ''public key'') (ce_bls_parse_key env (ce_hex_decode env h))"

text \<open>\<^verbatim>\<open>generate_new_crypto_map\<close>: the key map of a verifier list; a later entry of an address replaces an earlier one.\<close>

definition generate_new_crypto_map :: "consensus_env \<Rightarrow> metadata \<Rightarrow> (consensus_error, addr_pubkey) result" where
  "generate_new_crypto_map env md =
     res_fold
       (\<lambda>v m. res_map (\<lambda>pk. hm_insert (ce_hex_decode env (ve_pub_key v)) pk m)
          (ok_or (OtherErr ''try from bls pubkey error'') (ce_bls_parse_key env (ce_hex_decode env (ve_bls_pub_key v)))))
       (md_verifier_list md) []"

section \<open>Metadata and headers\<close>

definition get_block_header_by_height :: "consensus_env \<Rightarrow> u64 \<Rightarrow> (consensus_error, block_header) result" where
  "get_block_header_by_height env height =
     res_bind (ce_get_block_header env height) (\<lambda>h. ok_or StorageItemNotFound h)"

definition adapter_get_metadata ::
    "consensus_env \<Rightarrow> hash \<Rightarrow> u64 \<Rightarrow> u64 \<Rightarrow> address \<Rightarrow> (consensus_error, metadata) result" where
  "adapter_get_metadata env state_root height timestamp proposer =
     res_bind (ce_from_root env state_root) (\<lambda>_.
       (case address_from_hash (hash_digest (ce_digest env) (ce_address_hrp env)) of
          Inl _ \<Rightarrow> Inl (Err (ProtocolErr ''address''))
        | Inr caller \<Rightarrow>
            res_bind
              (ce_executor_read env
                 \<lparr>ep_state_root = state_root, ep_height = height, ep_timestamp = timestamp,
                  ep_cycles_limit = u64_max, ep_proposer = proposer\<rparr> caller 1
                 \<lparr>req_method = ''get_metadata'', req_service_name = ''metadata'', req_payload = ''''\<rparr>)
              (\<lambda>resp. case ce_parse_metadata env (succeed_data resp) of None \<Rightarrow> Inl Panic | Some md \<Rightarrow> Inr md)))"

definition node_of :: "consensus_env \<Rightarrow> validator_extend \<Rightarrow> overlord_node" where
  "node_of env v = \<lparr>nd_address = ce_hex_decode env (ve_pub_key v), nd_propose_weight = ve_propose_weight v,
     nd_vote_weight = ve_vote_weight v\<rparr>"

definition authority_map_of :: "consensus_env \<Rightarrow> metadata \<Rightarrow> (bytes, overlord_node) hash_map" where
  "authority_map_of env md =
     fold (\<lambda>v m. hm_insert (ce_hex_decode env (ve_pub_key v)) (node_of env v) m) (md_verifier_list md) []"

text \<open>The loop over the validators of a header; the second test compares with \<^verbatim>\<open>vote_weight\<close> twice, as the source does.\<close>

fun check_validators :: "u64 \<Rightarrow> (bytes, overlord_node) hash_map \<Rightarrow> validator list \<Rightarrow> (consensus_error, unit) result" where
  "check_validators height m [] = Inr ()"
| "check_validators height m (v # vs) =
     (case hm_get m (va_pub_key v) of
        None \<Rightarrow> Inl (Err (VerifyBlockHeader height ValidatorField))
      | Some node \<Rightarrow>
          (if nd_vote_weight node \<noteq> va_vote_weight v \<or> nd_propose_weight node \<noteq> va_vote_weight v
           then Inl (Err (VerifyBlockHeader height WeightField))
           else check_validators height m vs))"

definition verify_block_header :: "consensus_env \<Rightarrow> block \<Rightarrow> (consensus_error, unit) result" where
  "verify_block_header env blk =
     (let h = blk_header blk in
      res_bind (get_block_header_by_height env (hdr_height h - 1)) (\<lambda>previous.
      res_bind (ce_encode_header env previous) (\<lambda>b.
        (if hash_digest (ce_digest env) b \<noteq> hdr_prev_hash h
         then Inl (Err (VerifyBlockHeader (hdr_height h) PreviousBlockHash))
         else if hdr_height h > 1 \<and> hdr_prev_hash h \<noteq> pf_block_hash (hdr_proof h)
         then Inl (Err (VerifyBlockHeader (hdr_height h) ProofHash))
         else
           res_bind
             (adapter_get_metadata env (hdr_state_root previous) (hdr_height previous) (hdr_timestamp previous)
                (hdr_proposer previous))
             (\<lambda>previous_metadata.
               if hdr_height h \<noteq> 0 \<and> \<not> (\<exists>v \<in> set (md_verifier_list previous_metadata). ve_address v = hdr_proposer h)
               then Inl (Err (VerifyBlockHeader (hdr_height h) ProposerField))
               else check_validators (hdr_height h) (authority_map_of env previous_metadata) (hdr_validators h))))))"

section \<open>Proofs\<close>

text \<open>\<^verbatim>\<open>.map(|node| (node.address, node.vote_weight)).collect::<HashMap<_, _>>()\<close>.\<close>

definition weight_map_of :: "overlord_node list \<Rightarrow> (bytes, u32) hash_map" where
  "weight_map_of nodes = fold (\<lambda>n m. hm_insert (nd_address n) (nd_vote_weight n) m) nodes []"

fun accumulate_weight :: "u64 \<Rightarrow> (bytes, u32) hash_map \<Rightarrow> bytes list \<Rightarrow> u64 \<Rightarrow> (consensus_error, u64) result" where
  "accumulate_weight block_height weight_map [] accumulator = Inr accumulator"
| "accumulate_weight block_height weight_map (v # vs) accumulator =
     (case hm_get weight_map v of
        Some weight \<Rightarrow> accumulate_weight block_height weight_map vs (accumulator + ucast weight)
      | None \<Rightarrow> Inl (Err (VerifyProof block_height ProofValidator)))"

definition verify_proof_weight ::
    "u64 \<Rightarrow> (bytes, u32) hash_map \<Rightarrow> bytes list \<Rightarrow> (consensus_error, unit) result" where
  "verify_proof_weight block_height weight_map signed_voters =
     (let total_validator_weight = sum_list (map (\<lambda>(_, w). ucast w) weight_map) :: u64 in
      res_bind (accumulate_weight block_height weight_map signed_voters 0)
        (\<lambda>accumulator.
          if 3 * accumulator \<le> 2 * total_validator_weight
          then Inl (Err (VerifyProof block_height ProofWeight)) else Inr ()))"

definition verify_proof_signature ::
    "consensus_env \<Rightarrow> u64 \<Rightarrow> bytes \<Rightarrow> bytes \<Rightarrow> hex list \<Rightarrow> (consensus_error, unit) result" where
  "verify_proof_signature env block_height vote_hash signature vote_keys =
     res_bind (res_collect (convert_hex_to_bls_pubkeys env) vote_keys)
       (\<lambda>pub_keys.
         (case inner_verify_aggregated_signature env vote_hash pub_keys signature of
            Inr _ \<Rightarrow> Inr ()
          | Inl Panic \<Rightarrow> Inl Panic
          | Inl (Err _) \<Rightarrow> Inl (Err (VerifyProof block_height ProofSignature))))"

definition verify_proof :: "consensus_env \<Rightarrow> block_header \<Rightarrow> block_proof \<Rightarrow> (consensus_error, unit) result" where
  "verify_proof env h pf =
     (if hdr_height h = 0 then Inr ()
      else if hdr_height h \<noteq> pf_height pf
      then Inl (Err (VerifyProof (hdr_height h) (HeightMismatch (hdr_height h) (pf_height pf))))
      else
        res_bind (ce_encode_header env h) (\<lambda>b.
          if hash_digest (ce_digest env) b \<noteq> pf_block_hash pf
          then Inl (Err (VerifyProof (hdr_height h) HashMismatch))
          else
            res_bind (get_block_header_by_height env (hdr_height h - 1)) (\<lambda>previous.
            res_bind
              (adapter_get_metadata env (hdr_state_root previous) (hdr_height previous) (hdr_timestamp previous)
                 (hdr_proposer previous)) (\<lambda>md.
              (case ce_extract_voters env (map (node_of env) (md_verifier_list md)) (pf_bitmap pf) of
                 None \<Rightarrow> Inl (Err (VerifyProof (hdr_height h) BitMap))
               | Some (authority_list, signed_voters) \<Rightarrow>
                   res_bind (verify_proof_weight (hdr_height h) (weight_map_of authority_list) signed_voters)
                     (\<lambda>_.
                       verify_proof_signature env (hdr_height h)
                         (crypto_hash env (ce_encode_vote env
                            \<lparr>vt_height = pf_height pf, vt_round = pf_round pf, vt_vote_type = Precommit,
           vt_block_hash = hash_bytes (pf_block_hash pf)\<rparr>))
                         (pf_signature pf)
                         (map ve_bls_pub_key
                            (filter (\<lambda>v. ce_hex_decode env (ve_pub_key v) \<in> set signed_voters) (md_verifier_list md)))))))))"

section \<open>Quorums\<close>

text \<open>What agreement relies on: any two quorums share a member.\<close>

locale quorum_system =
  fixes quorum :: "'a set \<Rightarrow> bool"
  assumes quorum_intersect: "quorum A \<Longrightarrow> quorum B \<Longrightarrow> A \<inter> B \<noteq> {}"
begin

lemma quorum_not_empty: "quorum A \<Longrightarrow> A \<noteq> {}"
  using quorum_intersect [of A A] by simp

lemma quorum_agreement:
  assumes "quorum A" "quorum B" "\<And>v. v \<in> A \<Longrightarrow> vote v = x" "\<And>v. v \<in> B \<Longrightarrow> vote v = y"
  shows "x = y"
  using quorum_intersect [OF assms(1,2)] assms(3,4) by blast

end

definition weight_of :: "(bytes, u32) hash_map \<Rightarrow> bytes \<Rightarrow> nat" where
  "weight_of w v = (case hm_get w v of Some x \<Rightarrow> unat x | None \<Rightarrow> 0)"

definition total_weight :: "(bytes, u32) hash_map \<Rightarrow> nat" where
  "total_weight w = (\<Sum>(_, x)\<leftarrow>w. unat x)"

text \<open>
  What \<^verbatim>\<open>extract_voters\<close> of package \<^verbatim>\<open>overlord\<close> promises: it sorts the authorities, so it reorders them, and
  returns the addresses of those whose bit is set, a sublist of their addresses. An address that two
  authorities share can be returned twice. The second condition bounds the verifier lists so that the 64-bit
  sums of 32-bit weights are exact.
\<close>

definition voters_lawful :: "consensus_env \<Rightarrow> bool" where
  "voters_lawful env \<longleftrightarrow>
     (\<forall>nodes bm authorities voters. ce_extract_voters env nodes bm = Some (authorities, voters) \<longrightarrow>
        set authorities = set nodes \<and> length authorities = length nodes \<and>
        voters \<in> set (subseqs (map nd_address authorities)))"

definition verifiers_bounded :: "consensus_env \<Rightarrow> bool" where
  "verifiers_bounded env \<longleftrightarrow> (\<forall>s md. ce_parse_metadata env s = Some md \<longrightarrow> length (md_verifier_list md) < 2 ^ 30)"

text \<open>The bits of a bitmap, the most significant of each byte first, and the addresses they select.\<close>

definition bitmap_bits :: "bytes \<Rightarrow> bool list" where
  "bitmap_bits bm = concat (map (\<lambda>b. map (bit b) [7, 6, 5, 4, 3, 2, 1, 0]) bm)"

definition select_voters :: "overlord_node list \<Rightarrow> bytes \<Rightarrow> bytes list" where
  "select_voters nodes bm = map fst (filter snd (zip (map nd_address nodes) (bitmap_bits bm)))"

definition example_weights :: "(bytes, u32) hash_map" where
  "example_weights = [([1], 1), ([2], 1), ([3], 1), ([4], 1)]"

definition example_verifier :: "bytes \<Rightarrow> u32 \<Rightarrow> u32 \<Rightarrow> validator_extend" where
  "example_verifier key p v = \<lparr>ve_bls_pub_key = Hex (map (\<lambda>b. char_of (unat b)) key), ve_pub_key = Hex (map (\<lambda>b. char_of (unat b)) key),
     ve_address = Address key, ve_propose_weight = p, ve_vote_weight = v\<rparr>"

definition example_consensus_env :: consensus_env where
  "example_consensus_env =
     \<lparr>ce_digest = (\<lambda>b. replicate 32 0), ce_encode_header = (\<lambda>h. Inr []),
      ce_get_block_header = (\<lambda>n. Inr (Some (blk_header (example_block n [] [] [])))),
      ce_from_root = (\<lambda>_. Inr ()),
      ce_executor_read = (\<lambda>_ _ _ _. Inr \<lparr>code = 0, succeed_data = '''', error_message = ''''\<rparr>),
      ce_parse_metadata = (\<lambda>_. Some (example_metadata [example_verifier [1] 2 2, example_verifier [2] 3 3])),
      ce_address_hrp = [], ce_hex_decode = (\<lambda>h. map (\<lambda>c. of_nat (of_char c)) (hex_string h)),
      ce_extract_voters = (\<lambda>nodes bm. Some (nodes, select_voters nodes bm)),
      ce_encode_vote = vt_block_hash, ce_bls_parse_key = Some, ce_bls_parse_signature = Some,
      ce_bls_aggregate = concat, ce_bls_combine = (\<lambda>ps. concat (map fst ps)),
      ce_bls_verify = (\<lambda>sig h key. key = [1, 2]), ce_bls_sign = (\<lambda>h. h), ce_hash_value_ok = (\<lambda>h. length h = 32)\<rparr>"

definition proof_quorum :: "(bytes, u32) hash_map \<Rightarrow> bytes set \<Rightarrow> bool" where
  "proof_quorum w S \<longleftrightarrow> hm_wf w \<and> length w < 2 ^ 30 \<and>
     (\<exists>n vs. distinct vs \<and> set vs = S \<and> verify_proof_weight n w vs = Inr ())"

lemma unat_u32_less: "unat (x :: u32) < 2 ^ 32"
  using unsigned_less [where ?'a = nat, of x] by simp

lemma unat_ucast_u32 [simp]: "unat (ucast (x :: u32) :: u64) = unat x"
  using unat_u32_less [of x] by (simp add: unsigned_ucast_eq take_bit_nat_eq_self)

lemma total_weight_exact:
  assumes "length w < 2 ^ 30"
  shows "unat (sum_list (map (\<lambda>(_, x). ucast x) w) :: u64) = total_weight w \<and> total_weight w \<le> length w * 2 ^ 32"
  using assms
proof (induction w)
  case (Cons p w)
  obtain k x where p: "p = (k, x)" by fastforce
  have "unat (ucast x + sum_list (map (\<lambda>(_, x). ucast x) w) :: u64) = unat x + total_weight w"
    using Cons unat_u32_less [of x] by (subst unat_add_exact) simp_all
  with Cons unat_u32_less [of x] show ?case by (simp add: p total_weight_def)
qed (simp add: total_weight_def)

lemma total_weight_sum:
  assumes "hm_wf w"
  shows "total_weight w = (\<Sum>v \<in> fst ` set w. weight_of w v)"
proof -
  have "weight_of w (fst p) = unat (snd p)" if "p \<in> set w" for p
    using map_of_is_SomeI [OF assms, of "fst p" "snd p"] that by (simp add: weight_of_def)
  then have "total_weight w = (\<Sum>p\<leftarrow>w. weight_of w (fst p))"
    unfolding total_weight_def by (intro arg_cong [where f = sum_list] map_cong) (auto simp: split_beta)
  also have "\<dots> = sum_list (map (weight_of w) (map fst w))" by (simp add: comp_def)
  also have "\<dots> = (\<Sum>v \<in> set (map fst w). weight_of w v)" by (rule sum_list_distinct_conv_sum_set [OF assms])
  finally show ?thesis by simp
qed

lemma accumulate_weight_ok:
  assumes "accumulate_weight n w vs acc = Inr r" "unat acc + (\<Sum>v\<leftarrow>vs. weight_of w v) < 2 ^ 64"
  shows "unat r = unat acc + (\<Sum>v\<leftarrow>vs. weight_of w v) \<and> set vs \<subseteq> fst ` set w"
  using assms
proof (induction vs arbitrary: acc)
  case (Cons v vs)
  obtain x where x: "hm_get w v = Some x" "accumulate_weight n w vs (acc + ucast x) = Inr r"
    using Cons.prems(1) by (auto split: option.splits)
  have u: "unat (acc + ucast x) = unat acc + unat x"
    using Cons.prems(2) x(1) by (subst unat_add_exact) (simp_all add: weight_of_def)
  have "v \<in> fst ` set w" using map_of_SomeD [OF x(1)] by force
  with Cons.IH [OF x(2)] Cons.prems(2) x(1) u show ?case by (simp add: weight_of_def)
qed simp

text \<open>An accepted list of distinct voters holds more than two thirds of the weight.\<close>

lemma sum_voters_le:
  assumes "hm_wf w" "distinct vs" "set vs \<subseteq> fst ` set w"
  shows "(\<Sum>v\<leftarrow>vs. weight_of w v) \<le> total_weight w"
  unfolding sum_list_distinct_conv_sum_set [OF assms(2)] total_weight_sum [OF assms(1)]
  using assms(3) by (intro sum_mono2) auto

lemma accumulate_weight_total:
  assumes "accumulate_weight n w vs acc = Inr r"
  shows "set vs \<subseteq> fst ` set w"
  using assms
proof (induction vs arbitrary: acc)
  case (Cons v vs)
  obtain x where x: "hm_get w v = Some x" "accumulate_weight n w vs (acc + ucast x) = Inr r"
    using Cons.prems by (auto split: option.splits)
  have "v \<in> fst ` set w" using map_of_SomeD [OF x(1)] by force
  with Cons.IH [OF x(2)] show ?case by simp
qed simp

lemma verify_proof_weight_two_thirds:
  assumes "hm_wf w" "length w < 2 ^ 30" "distinct vs" "verify_proof_weight n w vs = Inr ()"
  shows "set vs \<subseteq> fst ` set w \<and> 2 * total_weight w < 3 * (\<Sum>v \<in> set vs. weight_of w v)"
proof -
  let ?t = "sum_list (map (\<lambda>(_, x). ucast x) w) :: u64"
  obtain r where r: "accumulate_weight n w vs 0 = Inr r" "\<not> 3 * r \<le> 2 * ?t"
    using assms(4) by (auto simp: verify_proof_weight_def Let_def res_bind_Inr_iff split: if_splits)
  have sub: "set vs \<subseteq> fst ` set w" by (rule accumulate_weight_total [OF r(1)])
  have t: "unat ?t = total_weight w" "total_weight w < 2 ^ 62"
    using total_weight_exact [OF assms(2)] assms(2) by simp_all
  have le: "(\<Sum>v\<leftarrow>vs. weight_of w v) \<le> total_weight w" by (rule sum_voters_le [OF assms(1,3) sub])
  have acc: "unat r = (\<Sum>v\<leftarrow>vs. weight_of w v)"
    using accumulate_weight_ok [OF r(1)] le t(2) by simp
  have "unat (3 * r) = 3 * unat r" "unat (2 * ?t) = 2 * unat ?t"
    using acc le t by (simp_all add: unat_mul_exact)
  then have "2 * total_weight w < 3 * (\<Sum>v\<leftarrow>vs. weight_of w v)"
    using r(2) acc t(1) by (simp add: word_le_unat)
  with sub show ?thesis by (simp add: sum_list_distinct_conv_sum_set [OF assms(3)])
qed

text \<open>A voter that is listed more than once counts more than once, against a total that counts every address once.\<close>

lemma verify_proof_weight_listed:
  assumes "length w < 2 ^ 30" "length vs < 2 ^ 30" "verify_proof_weight n w vs = Inr ()"
  shows "set vs \<subseteq> fst ` set w \<and> 2 * total_weight w < 3 * (\<Sum>v\<leftarrow>vs. weight_of w v)"
proof -
  let ?t = "sum_list (map (\<lambda>(_, x). ucast x) w) :: u64"
  obtain r where r: "accumulate_weight n w vs 0 = Inr r" "\<not> 3 * r \<le> 2 * ?t"
    using assms(3) by (auto simp: verify_proof_weight_def Let_def res_bind_Inr_iff split: if_splits)
  have t: "unat ?t = total_weight w" "total_weight w < 2 ^ 62"
    using total_weight_exact [OF assms(1)] assms(1) by simp_all
  have "weight_of w v \<le> 2 ^ 32" for v
    using unat_u32_less less_imp_le by (auto simp: weight_of_def split: option.split)
  then have "(\<Sum>v\<leftarrow>vs. weight_of w v) \<le> length vs * 2 ^ 32"
    by (induction vs) (simp_all add: add_mono)
  then have le: "(\<Sum>v\<leftarrow>vs. weight_of w v) < 2 ^ 62" using assms(2) by simp
  have acc: "unat r = (\<Sum>v\<leftarrow>vs. weight_of w v)" using accumulate_weight_ok [OF r(1)] le by simp
  have "unat (3 * r) = 3 * unat r" "unat (2 * ?t) = 2 * unat ?t"
    using acc le t by (simp_all add: unat_mul_exact)
  then show ?thesis
    using r(2) acc t(1) accumulate_weight_total [OF r(1)] by (simp add: word_le_unat)
qed

lemma duplicate_voters_accepted:
  "verify_proof_weight n [([1], 1), ([2], 1), ([3], 1)] [[1], [1], [1]] = Inr ()"
  by (simp add: verify_proof_weight_def)

lemma third_in_common:
  assumes "hm_wf w" "A \<subseteq> fst ` set w" "B \<subseteq> fst ` set w"
    and "2 * total_weight w < 3 * sum (weight_of w) A" "2 * total_weight w < 3 * sum (weight_of w) B"
  shows "total_weight w < 3 * sum (weight_of w) (A \<inter> B)"
proof -
  have fin: "finite A" "finite B" using assms(2,3) by (auto intro: finite_subset)
  have "sum (weight_of w) A + sum (weight_of w) B = sum (weight_of w) (A \<union> B) + sum (weight_of w) (A \<inter> B)"
    by (rule sum.union_inter [symmetric, OF fin])
  moreover have "sum (weight_of w) (A \<union> B) \<le> total_weight w"
    unfolding total_weight_sum [OF assms(1)] using assms(2,3) by (intro sum_mono2) auto
  ultimately show ?thesis using assms(4,5) by linarith
qed

interpretation pq: quorum_system "proof_quorum w" for w
proof
  fix A B assume "proof_quorum w A" "proof_quorum w B"
  then have "total_weight w < 3 * sum (weight_of w) (A \<inter> B)"
    unfolding proof_quorum_def by (blast dest: verify_proof_weight_two_thirds intro: third_in_common)
  then show "A \<inter> B \<noteq> {}" by auto
qed

text \<open>
  (C24) \<^bold>\<open>Two accepted proofs agree.\<close> Take two lists of distinct voters that both pass the weight check
  against the same weights, fewer than \<^verbatim>\<open>2^30\<close> of them, so that the 64-bit arithmetic is exact. The voters in
  common hold more than a third of the total weight. So if every voter votes for one block only, two proofs
  cannot certify different blocks.
\<close>

theorem accepted_proofs_agree:
  assumes "hm_wf w" "length w < 2 ^ 30" "distinct A" "distinct B"
    and "verify_proof_weight n w A = Inr ()" "verify_proof_weight m w B = Inr ()"
  shows "total_weight w < 3 * sum (weight_of w) (set A \<inter> set B) \<and>
    (\<forall>vote x y. (\<forall>v \<in> set A. vote v = x) \<and> (\<forall>v \<in> set B. vote v = y) \<longrightarrow> x = (y :: hash))"
proof
  show "total_weight w < 3 * sum (weight_of w) (set A \<inter> set B)"
    using verify_proof_weight_two_thirds [OF assms(1,2,3,5)] verify_proof_weight_two_thirds [OF assms(1,2,4,6)]
    by (intro third_in_common [OF assms(1)]) simp_all
  have "proof_quorum w (set A)" "proof_quorum w (set B)"
    using assms unfolding proof_quorum_def by blast+
  then show "\<forall>vote x y. (\<forall>v \<in> set A. vote v = x) \<and> (\<forall>v \<in> set B. vote v = y) \<longrightarrow> x = (y :: hash)"
    using pq.quorum_agreement [of w "set A" "set B"] by metis
qed

theorem accepted_proofs_agree_witness:
  "verify_proof_weight 3 example_weights [[1], [2], [3]] = Inr () \<and>
   verify_proof_weight 3 example_weights [[2], [3], [4]] = Inr () \<and>
   \<not> (\<exists>x. verify_proof_weight 3 example_weights [[1], [2]] = Inr x) \<and>
   total_weight example_weights < 3 * sum (weight_of example_weights) ({[1], [2], [3]} \<inter> {[2], [3], [4]})"
proof -
  have ok: "verify_proof_weight 3 example_weights [[1], [2], [3]] = Inr ()"
    "verify_proof_weight 3 example_weights [[2], [3], [4]] = Inr ()"
    "\<not> (\<exists>x. verify_proof_weight 3 example_weights [[1], [2]] = Inr x)"
    by (simp_all add: verify_proof_weight_def example_weights_def)
  have "hm_wf example_weights" "length example_weights < 2 ^ 30" by (simp_all add: example_weights_def)
  from conjunct1 [OF accepted_proofs_agree [OF this _ _ ok(1,2)]]
  have "total_weight example_weights < 3 * sum (weight_of example_weights) ({[1], [2], [3]} \<inter> {[2], [3], [4]})"
    by simp
  with ok show ?thesis by blast
qed


section \<open>What an accepted proof shows\<close>

lemma hm_wf_fold_insert: "hm_wf m \<Longrightarrow> hm_wf (fold (\<lambda>n m. hm_insert (f n) (g n) m) nodes m)"
  by (induction nodes arbitrary: m) auto

lemma length_fold_insert: "length (fold (\<lambda>n m. hm_insert (f n) (g n) m) nodes m) \<le> length m + length nodes"
proof (induction nodes arbitrary: m)
  case (Cons n nodes)
  have "length (hm_insert (f n) (g n) m) \<le> Suc (length m)" by (induction m) auto
  with Cons [of "hm_insert (f n) (g n) m"] show ?case by simp
qed simp

lemma weight_map_wf [simp]: "hm_wf (weight_map_of nodes)"
  unfolding weight_map_of_def by (rule hm_wf_fold_insert) simp

lemma set_fold_insert: "set (fold (\<lambda>n m. hm_insert (f n) (g n) m) nodes m) \<subseteq> set m \<union> (\<lambda>n. (f n, g n)) ` set nodes"
proof (induction nodes arbitrary: m)
  case (Cons n nodes)
  have "set (hm_insert (f n) (g n) m) \<subseteq> insert (f n, g n) (set m)" by (induction m) auto
  with Cons [of "hm_insert (f n) (g n) m"] show ?case by auto
qed simp

lemma weight_map_subset: "set (weight_map_of nodes) \<subseteq> (\<lambda>n. (nd_address n, nd_vote_weight n)) ` set nodes"
  using set_fold_insert [of nd_address nd_vote_weight nodes "[]"] by (simp add: weight_map_of_def)

lemma weight_map_length: "length (weight_map_of nodes) \<le> length nodes"
  using length_fold_insert [of nd_address nd_vote_weight nodes "[]"] by (simp add: weight_map_of_def)

lemma verify_proof_signature_ok:
  "verify_proof_signature env n h sig keys = Inr () \<longleftrightarrow>
     (\<exists>pks s. res_collect (convert_hex_to_bls_pubkeys env) keys = Inr pks \<and> ce_bls_parse_signature env sig = Some s \<and>
        ce_hash_value_ok env h \<and> ce_bls_verify env s h (ce_bls_aggregate env pks))"
  by (auto simp: verify_proof_signature_def inner_verify_aggregated_signature_def Let_def res_bind_Inr_iff
      split: option.splits if_splits sum.splits failure.splits)

lemma verify_proof_ok:
  assumes "verify_proof env h pf = Inr ()" "hdr_height h \<noteq> 0"
  shows "\<exists>b previous md authorities voters.
    hdr_height h = pf_height pf \<and> ce_encode_header env h = Inr b \<and> hash_digest (ce_digest env) b = pf_block_hash pf \<and>
    get_block_header_by_height env (hdr_height h - 1) = Inr previous \<and>
    adapter_get_metadata env (hdr_state_root previous) (hdr_height previous) (hdr_timestamp previous)
      (hdr_proposer previous) = Inr md \<and>
    ce_extract_voters env (map (node_of env) (md_verifier_list md)) (pf_bitmap pf) = Some (authorities, voters) \<and>
    verify_proof_weight (hdr_height h) (weight_map_of authorities) voters = Inr () \<and>
    verify_proof_signature env (hdr_height h)
      (crypto_hash env (ce_encode_vote env
         \<lparr>vt_height = pf_height pf, vt_round = pf_round pf, vt_vote_type = Precommit,
           vt_block_hash = hash_bytes (pf_block_hash pf)\<rparr>))
      (pf_signature pf)
      (map ve_bls_pub_key
         (filter (\<lambda>v. ce_hex_decode env (ve_pub_key v) \<in> set voters) (md_verifier_list md))) = Inr ()"
  using assms by (auto simp: verify_proof_def res_bind_Inr_iff split: if_splits option.splits prod.splits)

lemma adapter_get_metadata_parsed:
  "adapter_get_metadata env r n t p = Inr md \<Longrightarrow> \<exists>s. ce_parse_metadata env s = Some md"
  by (auto simp: adapter_get_metadata_def res_bind_Inr_iff split: sum.splits option.splits)

lemma fold_insert_keys: "fst ` set (fold (\<lambda>n m. hm_insert (f n) (g n) m) nodes m) = fst ` set m \<union> f ` set nodes"
  by (induction nodes arbitrary: m) (auto simp: hm_keys_insert)

lemma weight_map_keys: "fst ` set (weight_map_of nodes) = nd_address ` set nodes"
  unfolding weight_map_of_def fold_insert_keys by simp

lemma get_fold_insert:
  assumes "distinct (map f xs)" "x \<in> set xs"
  shows "hm_get (fold (\<lambda>x m. hm_insert (f x) (g x) m) xs m) (f x) = Some (g x)"
  using assms
proof (induction xs rule: rev_induct)
  case (snoc y xs)
  then show ?case by (cases "x = y") (auto simp: update_conv' image_iff)
qed simp

lemma subseqs_length: "ys \<in> set (subseqs xs) \<Longrightarrow> length ys \<le> length xs"
  by (induction xs arbitrary: ys) (auto simp: Let_def le_SucI)

lemma subseqs_subset: "ys \<in> set (subseqs xs) \<Longrightarrow> set ys \<subseteq> set xs"
  using subseqs_powset [of xs] by blast

lemma distinct_reordered:
  assumes "set ys = set xs" "length ys = length xs" "distinct (map f xs)"
  shows "distinct (map f ys)"
proof -
  have "distinct xs" "inj_on f (set xs)" using assms(3) by (auto simp: distinct_map)
  then have "card (set ys) = length ys" using assms(1,2) distinct_card by metis
  then show ?thesis using \<open>inj_on f (set xs)\<close> assms(1) by (simp add: distinct_map card_distinct)
qed

text \<open>With distinct addresses the weight map is the verifier list, and every listed voter counts once.\<close>

lemma distinct_weights:
  assumes "set authorities = set nodes" "length authorities = length nodes" "distinct (map nd_address nodes)"
    and "voters \<in> set (subseqs (map nd_address authorities))"
  shows "distinct voters" "total_weight (weight_map_of authorities) = (\<Sum>n\<leftarrow>nodes. unat (nd_vote_weight n))"
    "(\<Sum>v\<leftarrow>voters. weight_of (weight_map_of authorities) v) =
       (\<Sum>n\<leftarrow>filter (\<lambda>n. nd_address n \<in> set voters) nodes. unat (nd_vote_weight n))"
proof -
  let ?w = "weight_map_of authorities"
  have d: "distinct (map nd_address authorities)" by (rule distinct_reordered [OF assms(1-3)])
  show dv: "distinct voters" by (rule subseqs_distinctD [OF assms(4) d])
  have wt: "weight_of ?w (nd_address n) = unat (nd_vote_weight n)" if "n \<in> set nodes" for n
    using get_fold_insert [OF d, of n nd_vote_weight "[]"] that assms(1)
    by (simp add: weight_of_def weight_map_of_def)
  have dn: "distinct nodes" and inj: "inj_on nd_address (set nodes)" using assms(3) by (auto simp: distinct_map)
  have "total_weight ?w = (\<Sum>v \<in> nd_address ` set nodes. weight_of ?w v)"
    unfolding total_weight_sum [OF weight_map_wf] weight_map_keys assms(1) ..
  also have "\<dots> = (\<Sum>n \<in> set nodes. unat (nd_vote_weight n))" by (simp add: sum.reindex [OF inj] wt)
  finally show "total_weight ?w = (\<Sum>n\<leftarrow>nodes. unat (nd_vote_weight n))"
    by (simp add: sum_list_distinct_conv_sum_set [OF dn])
  have "set voters \<subseteq> nd_address ` set nodes" using subseqs_subset [OF assms(4)] assms(1) by simp
  then have img: "set voters = nd_address ` {n \<in> set nodes. nd_address n \<in> set voters}" by auto
  have "(\<Sum>v\<leftarrow>voters. weight_of ?w v) = (\<Sum>v \<in> nd_address ` {n \<in> set nodes. nd_address n \<in> set voters}. weight_of ?w v)"
    using sum_list_distinct_conv_sum_set [OF dv, of "weight_of ?w"] img by simp
  also have "\<dots> = (\<Sum>n \<in> {n \<in> set nodes. nd_address n \<in> set voters}. unat (nd_vote_weight n))"
    using inj by (subst sum.reindex) (auto simp: wt inj_on_def)
  finally show "(\<Sum>v\<leftarrow>voters. weight_of ?w v) =
      (\<Sum>n\<leftarrow>filter (\<lambda>n. nd_address n \<in> set voters) nodes. unat (nd_vote_weight n))"
    using dn by (simp add: sum_list_distinct_conv_sum_set)
qed

text \<open>What the weight check has shown of the voters that the bitmap selects.\<close>

lemma accepted_voters:
  assumes "voters_lawful env" "length (md_verifier_list md) < 2 ^ 30"
    and ex: "ce_extract_voters env (map (node_of env) (md_verifier_list md)) bm = Some (authorities, voters)"
    and wt: "verify_proof_weight n (weight_map_of authorities) voters = Inr ()"
  shows "set voters \<subseteq> (\<lambda>v. ce_hex_decode env (ve_pub_key v)) ` set (md_verifier_list md)"
    "fst ` set (weight_map_of authorities) = (\<lambda>v. ce_hex_decode env (ve_pub_key v)) ` set (md_verifier_list md)"
    "set (weight_map_of authorities) \<subseteq> (\<lambda>v. (ce_hex_decode env (ve_pub_key v), ve_vote_weight v)) ` set (md_verifier_list md)"
    "2 * total_weight (weight_map_of authorities) < 3 * (\<Sum>v\<leftarrow>voters. weight_of (weight_map_of authorities) v)"
    "distinct (map (\<lambda>v. ce_hex_decode env (ve_pub_key v)) (md_verifier_list md)) \<longrightarrow>
      distinct voters \<and> 2 * (\<Sum>v\<leftarrow>md_verifier_list md. unat (ve_vote_weight v)) <
        3 * (\<Sum>v\<leftarrow>filter (\<lambda>v. ce_hex_decode env (ve_pub_key v) \<in> set voters) (md_verifier_list md). unat (ve_vote_weight v))"
proof -
  let ?nodes = "map (node_of env) (md_verifier_list md)" and ?w = "weight_map_of authorities"
  have law: "set authorities = set ?nodes" "length authorities = length ?nodes"
    "voters \<in> set (subseqs (map nd_address authorities))"
    using assms(1) ex unfolding voters_lawful_def by blast+
  have addr: "nd_address (node_of env v) = ce_hex_decode env (ve_pub_key v)" "nd_vote_weight (node_of env v) = ve_vote_weight v" for v
    by (simp_all add: node_of_def)
  have "length ?w < 2 ^ 30" "length voters < 2 ^ 30"
    using weight_map_length [of authorities] subseqs_length [OF law(3)] law(2) assms(2) by simp_all
  note listed = verify_proof_weight_listed [OF this wt]
  then show "2 * total_weight ?w < 3 * (\<Sum>v\<leftarrow>voters. weight_of ?w v)" by simp
  show keys: "fst ` set ?w = (\<lambda>v. ce_hex_decode env (ve_pub_key v)) ` set (md_verifier_list md)"
    unfolding weight_map_keys law(1) by (simp add: image_image addr)
  show "set voters \<subseteq> (\<lambda>v. ce_hex_decode env (ve_pub_key v)) ` set (md_verifier_list md)" using listed keys by simp
  show "set ?w \<subseteq> (\<lambda>v. (ce_hex_decode env (ve_pub_key v), ve_vote_weight v)) ` set (md_verifier_list md)"
    using weight_map_subset [of authorities] law(1) by (auto simp: addr)
  show "distinct (map (\<lambda>v. ce_hex_decode env (ve_pub_key v)) (md_verifier_list md)) \<longrightarrow>
      distinct voters \<and> 2 * (\<Sum>v\<leftarrow>md_verifier_list md. unat (ve_vote_weight v)) <
        3 * (\<Sum>v\<leftarrow>filter (\<lambda>v. ce_hex_decode env (ve_pub_key v) \<in> set voters) (md_verifier_list md). unat (ve_vote_weight v))"
  proof
    assume "distinct (map (\<lambda>v. ce_hex_decode env (ve_pub_key v)) (md_verifier_list md))"
    then have "distinct (map nd_address ?nodes)" by (simp add: comp_def addr)
    note d = distinct_weights [OF law(1,2) this law(3)]
    show "distinct voters \<and> 2 * (\<Sum>v\<leftarrow>md_verifier_list md. unat (ve_vote_weight v)) <
        3 * (\<Sum>v\<leftarrow>filter (\<lambda>v. ce_hex_decode env (ve_pub_key v) \<in> set voters) (md_verifier_list md). unat (ve_vote_weight v))"
      using d(1) listed unfolding d(2,3) by (simp add: filter_map comp_def addr)
  qed
qed

text \<open>
  (C25) \<^bold>\<open>An accepted proof is a certificate of the previous validators.\<close> When \<^verbatim>\<open>verify_proof\<close> accepts a proof of a
  header above the genesis height, the proof names the height and the hash of that very header, and the signature
  of the proof verifies, for the precommit vote on that hash, against the aggregate of the BLS keys of the voters that
  the bitmap selects. All voters are validators in the metadata of the previous block. The weights are
  taken from a map that has every key of these validators once, with the vote weight of a validator with that key; the
  weights of the voters, each counted as often as it is selected, exceed two thirds of the sum of this map. If the
  validators' public keys are distinct, no voter is counted twice and the voters' vote weights exceed two thirds of the
  vote weights of all the validators of the previous block.
\<close>

theorem verify_proof_sound:
  assumes "verify_proof env h pf = Inr ()" "hdr_height h \<noteq> 0" "voters_lawful env" "verifiers_bounded env"
  shows "pf_height pf = hdr_height h \<and>
    (\<exists>b. ce_encode_header env h = Inr b \<and> pf_block_hash pf = Hash (ce_digest env b)) \<and>
    (\<exists>previous md authorities voters w pks s.
      get_block_header_by_height env (hdr_height h - 1) = Inr previous \<and>
      adapter_get_metadata env (hdr_state_root previous) (hdr_height previous) (hdr_timestamp previous)
        (hdr_proposer previous) = Inr md \<and>
      ce_extract_voters env (map (node_of env) (md_verifier_list md)) (pf_bitmap pf) = Some (authorities, voters) \<and>
      set voters \<subseteq> (\<lambda>v. ce_hex_decode env (ve_pub_key v)) ` set (md_verifier_list md) \<and>
      hm_wf w \<and> fst ` set w = (\<lambda>v. ce_hex_decode env (ve_pub_key v)) ` set (md_verifier_list md) \<and>
      set w \<subseteq> (\<lambda>v. (ce_hex_decode env (ve_pub_key v), ve_vote_weight v)) ` set (md_verifier_list md) \<and>
      2 * total_weight w < 3 * (\<Sum>v\<leftarrow>voters. weight_of w v) \<and>
      (distinct (map (\<lambda>v. ce_hex_decode env (ve_pub_key v)) (md_verifier_list md)) \<longrightarrow>
        distinct voters \<and>
        2 * (\<Sum>v\<leftarrow>md_verifier_list md. unat (ve_vote_weight v)) <
          3 * (\<Sum>v\<leftarrow>filter (\<lambda>v. ce_hex_decode env (ve_pub_key v) \<in> set voters) (md_verifier_list md). unat (ve_vote_weight v))) \<and>
      res_collect (convert_hex_to_bls_pubkeys env)
        (map ve_bls_pub_key (filter (\<lambda>v. ce_hex_decode env (ve_pub_key v) \<in> set voters) (md_verifier_list md))) = Inr pks \<and>
      ce_bls_parse_signature env (pf_signature pf) = Some s \<and>
      ce_bls_verify env s
        (ce_digest env (ce_encode_vote env
          \<lparr>vt_height = hdr_height h, vt_round = pf_round pf, vt_vote_type = Precommit, vt_block_hash = hash_bytes (pf_block_hash pf)\<rparr>))
        (ce_bls_aggregate env pks))"
proof -
  obtain b previous md authorities voters where ok: "hdr_height h = pf_height pf" "ce_encode_header env h = Inr b"
    "hash_digest (ce_digest env) b = pf_block_hash pf"
    and p: "get_block_header_by_height env (hdr_height h - 1) = Inr previous"
    and md: "adapter_get_metadata env (hdr_state_root previous) (hdr_height previous) (hdr_timestamp previous)
      (hdr_proposer previous) = Inr md"
    and ex: "ce_extract_voters env (map (node_of env) (md_verifier_list md)) (pf_bitmap pf) = Some (authorities, voters)"
    and wt: "verify_proof_weight (hdr_height h) (weight_map_of authorities) voters = Inr ()"
    and sg: "verify_proof_signature env (hdr_height h)
      (crypto_hash env (ce_encode_vote env
         \<lparr>vt_height = pf_height pf, vt_round = pf_round pf, vt_vote_type = Precommit, vt_block_hash = hash_bytes (pf_block_hash pf)\<rparr>))
      (pf_signature pf)
      (map ve_bls_pub_key
         (filter (\<lambda>v. ce_hex_decode env (ve_pub_key v) \<in> set voters) (md_verifier_list md))) = Inr ()"
    using verify_proof_ok [OF assms(1,2)] by metis
  have bound: "length (md_verifier_list md) < 2 ^ 30"
    using assms(4) adapter_get_metadata_parsed [OF md] unfolding verifiers_bounded_def by blast
  note accepted = accepted_voters [OF assms(3) bound ex wt]
  obtain pks s where sg': "res_collect (convert_hex_to_bls_pubkeys env)
        (map ve_bls_pub_key (filter (\<lambda>v. ce_hex_decode env (ve_pub_key v) \<in> set voters) (md_verifier_list md))) = Inr pks"
    "ce_bls_parse_signature env (pf_signature pf) = Some s"
    "ce_bls_verify env s
        (ce_digest env (ce_encode_vote env
          \<lparr>vt_height = hdr_height h, vt_round = pf_round pf, vt_vote_type = Precommit, vt_block_hash = hash_bytes (pf_block_hash pf)\<rparr>))
        (ce_bls_aggregate env pks)"
    using sg [unfolded verify_proof_signature_ok crypto_hash_def hash_digest_def hash.sel] ok(1) by auto
  have e: "\<exists>b. ce_encode_header env h = Inr b \<and> pf_block_hash pf = Hash (ce_digest env b)"
    using ok(2,3) by (auto simp: hash_digest_def)
  show ?thesis
    by (rule conjI [OF ok(1) [symmetric] conjI [OF e]], rule exI [of _ previous], rule exI [of _ md],
        rule exI [of _ authorities], rule exI [of _ voters],
        rule exI [of _ "weight_map_of authorities"], rule exI [of _ pks], rule exI [of _ s])
      (use accepted in \<open>simp only: p md ex weight_map_wf sg' simp_thms\<close>)
qed

lemma select_voters_subseq: "map fst (filter snd (zip xs bs)) \<in> set (subseqs xs)"
proof (induction xs arbitrary: bs)
  case (Cons x xs)
  show ?case using Cons [of "tl bs"] Cons [of "[]"] by (cases bs) (auto simp: Let_def)
qed simp

lemma example_voters_lawful: "voters_lawful example_consensus_env" "verifiers_bounded example_consensus_env"
  by (auto simp: voters_lawful_def verifiers_bounded_def example_consensus_env_def example_metadata_def
      select_voters_def select_voters_subseq)

lemma example_select:
  "select_voters [a, b] [0xC0] = [nd_address a, nd_address b]" "select_voters [a, b] [0x40] = [nd_address b]"
  by (simp_all add: select_voters_def bitmap_bits_def bit_numeral_rec)

text \<open>Two validators of weights 2 and 3: the bitmap of both is accepted, that of the second alone is not.\<close>

theorem verify_proof_sound_witness:
  "verify_proof example_consensus_env (blk_header (example_block 3 [] [] []))
     (example_proof\<lparr>pf_height := 3, pf_block_hash := Hash (replicate 32 0), pf_bitmap := [0xC0]\<rparr>) = Inr () \<and>
   verify_proof example_consensus_env (blk_header (example_block 3 [] [] []))
     (example_proof\<lparr>pf_height := 3, pf_block_hash := Hash (replicate 32 0), pf_bitmap := [0x40]\<rparr>) \<noteq> Inr () \<and>
   (\<exists>(md :: metadata) voters w. md_verifier_list md = [example_verifier [1] 2 2, example_verifier [2] 3 3] \<and>
     distinct voters \<and> fst ` set w = {[1], [2]} \<and> 2 * total_weight w < 3 * (\<Sum>v\<leftarrow>voters. weight_of w v) \<and>
     2 * (2 + 3) < 3 * (\<Sum>v\<leftarrow>filter (\<lambda>v. ce_hex_decode example_consensus_env (ve_pub_key v) \<in> set voters) (md_verifier_list md).
       unat (ve_vote_weight v)))"
proof -
  let ?env = example_consensus_env and ?h = "blk_header (example_block 3 [] [] [])"
  let ?pf = "\<lambda>bm. example_proof\<lparr>pf_height := 3, pf_block_hash := Hash (replicate 32 0), pf_bitmap := bm\<rparr>"
  let ?md = "example_metadata [example_verifier [1] 2 2, example_verifier [2] 3 3]"
  have meta: "adapter_get_metadata ?env r n t p = Inr ?md" for r n t p
    by (simp add: adapter_get_metadata_def example_consensus_env_def hash_digest_def address_from_hash_def
        address_from_bytes_def ensure_len_def HASH_LEN_def ADDRESS_LEN_def)
  have sel: "ce_encode_header ?env x = Inr []" "ce_digest ?env y = replicate 32 0" "ce_hex_decode ?env (Hex z) = map (\<lambda>c. of_nat (of_char c)) z"
    "ce_extract_voters ?env nodes bm = Some (nodes, select_voters nodes bm)" "ce_bls_parse_key ?env y = Some y"
    "ce_bls_parse_signature ?env y = Some y" "ce_hash_value_ok ?env y \<longleftrightarrow> length y = 32" "ce_bls_verify ?env k y y' \<longleftrightarrow> y' = [1, 2]"
    "ce_bls_aggregate ?env = concat" "get_block_header_by_height ?env n = Inr (blk_header (example_block n [] [] []))"
    for x y y' z k nodes bm n
    by (simp_all add: example_consensus_env_def get_block_header_by_height_def)
  have run: "verify_proof ?env ?h (?pf [0xC0]) = Inr ()" "verify_proof ?env ?h (?pf [0x40]) \<noteq> Inr ()"
    by (simp_all add: verify_proof_def sel meta example_select example_block_def example_proof_def hash_digest_def
        example_metadata_def node_of_def example_verifier_def verify_proof_weight_def weight_map_of_def
        verify_proof_signature_ok convert_hex_to_bls_pubkeys_def crypto_hash_def)
  have keys: "map (\<lambda>v. ce_hex_decode ?env (ve_pub_key v)) (md_verifier_list ?md) = [[1], [2]]"
    by (simp add: sel example_metadata_def example_verifier_def)
  have "hdr_height ?h \<noteq> 0" by (simp add: example_block_def)
  from verify_proof_sound [OF run(1) this example_voters_lawful]
  obtain previous :: block_header and md voters w where m: "adapter_get_metadata ?env (hdr_state_root previous) (hdr_height previous) (hdr_timestamp previous)
        (hdr_proposer previous) = Inr md"
    and w: "fst ` set w = (\<lambda>v. ce_hex_decode ?env (ve_pub_key v)) ` set (md_verifier_list md)"
    "2 * total_weight w < 3 * (\<Sum>v\<leftarrow>voters. weight_of w v)"
    "distinct (map (\<lambda>v. ce_hex_decode ?env (ve_pub_key v)) (md_verifier_list md)) \<longrightarrow>
      distinct voters \<and> 2 * (\<Sum>v\<leftarrow>md_verifier_list md. unat (ve_vote_weight v)) <
        3 * (\<Sum>v\<leftarrow>filter (\<lambda>v. ce_hex_decode ?env (ve_pub_key v) \<in> set voters) (md_verifier_list md). unat (ve_vote_weight v))"
    by (elim exE conjE) (rule that, assumption+)
  have "md = ?md" using m meta by simp
  note v = w [unfolded this]
  have "fst ` set w = set (map (\<lambda>v. ce_hex_decode ?env (ve_pub_key v)) (md_verifier_list ?md))" using v(1) by simp
  then have "fst ` set w = {[1], [2]}" unfolding keys by simp
  moreover have total: "(\<Sum>v\<leftarrow>md_verifier_list ?md. unat (ve_vote_weight v)) = 2 + 3"
    by (simp add: example_metadata_def example_verifier_def)
  have "distinct [[1 :: u8], [2]]" by simp
  from v(3) [unfolded keys total, THEN mp, OF this]
  have "distinct voters \<and> 2 * (2 + 3) <
      3 * (\<Sum>v\<leftarrow>filter (\<lambda>v. ce_hex_decode ?env (ve_pub_key v) \<in> set voters) (md_verifier_list ?md). unat (ve_vote_weight v))" .
  moreover have "md_verifier_list ?md = [example_verifier [1] 2 2, example_verifier [2] 3 3]" by (simp add: example_metadata_def)
  ultimately show ?thesis
    using run v(2) by (intro conjI exI [of _ ?md] exI [of _ voters] exI [of _ w]) (elim conjE; assumption)+
qed

section \<open>The header check\<close>

lemma check_validators_ok:
  "check_validators n m vs = Inr () \<longleftrightarrow>
     (\<forall>v \<in> set vs. \<exists>node. hm_get m (va_pub_key v) = Some node \<and> nd_vote_weight node = va_vote_weight v \<and>
        nd_propose_weight node = va_vote_weight v)"
  by (induction vs) (auto split: option.splits)

text \<open>
  \<^bold>\<open>The header check compares the wrong weight.\<close> A proposer lists in the header the validators of the
  metadata, with their own weights. The check accepts this list exactly when every validator has equal propose
  and vote weights: its second comparison takes \<^verbatim>\<open>validator.vote_weight\<close> where \<^verbatim>\<open>propose_weight\<close> is meant. And the
  propose weights in a header play no part in the check.
\<close>

theorem check_validators_weights:
  assumes "distinct (map (\<lambda>v. ce_hex_decode env (ve_pub_key v)) (md_verifier_list md))"
  shows "(check_validators n (authority_map_of env md) (validators_of (ce_hex_decode env) md) = Inr () \<longleftrightarrow>
      (\<forall>v \<in> set (md_verifier_list md). ve_propose_weight v = ve_vote_weight v)) \<and>
    check_validators n m (map (\<lambda>v. v\<lparr>va_propose_weight := p v\<rparr>) vs) = check_validators n m vs"
proof
  have "hm_get (authority_map_of env md) (ce_hex_decode env (ve_pub_key v)) = Some (node_of env v)"
    if "v \<in> set (md_verifier_list md)" for v
    unfolding authority_map_of_def by (rule get_fold_insert [OF assms that])
  then show "check_validators n (authority_map_of env md) (validators_of (ce_hex_decode env) md) = Inr () \<longleftrightarrow>
      (\<forall>v \<in> set (md_verifier_list md). ve_propose_weight v = ve_vote_weight v)"
    by (auto simp: check_validators_ok validators_of_def node_of_def)
  show "check_validators n m (map (\<lambda>v. v\<lparr>va_propose_weight := p v\<rparr>) vs) = check_validators n m vs"
    by (induction vs) (simp_all split: option.splits)
qed

theorem check_validators_weights_witness:
  "check_validators 3 (authority_map_of example_consensus_env (example_metadata [example_verifier [1] 2 3]))
     (validators_of (ce_hex_decode example_consensus_env) (example_metadata [example_verifier [1] 2 3])) \<noteq> Inr ()"
proof -
  have "distinct (map (\<lambda>v. ce_hex_decode example_consensus_env (ve_pub_key v))
      (md_verifier_list (example_metadata [example_verifier [1] 2 3])))" by (simp add: example_metadata_def)
  from conjunct1 [OF check_validators_weights [OF this]]
  show ?thesis by (simp add: example_metadata_def example_verifier_def)
qed

end
