(* ===== verification/Consensus_Wal.thy ===== *)
theory Consensus_Wal
  imports Consensus_Status Decimal Fixed_Codec
begin

text \<open>
  The two write-ahead logs of \<^verbatim>\<open>core/consensus/src/wal.rs\<close>. A directory is an association list from names to
  entries, in the order in which \<^verbatim>\<open>read_dir\<close> lists it. Opening a file that is missing fails with \<^verbatim>\<open>WALErr\<close>.
  The loop that reads the engine's log takes the outcome of every attempt to open and read a file as a
  parameter, since it retries; elsewhere failures of the file system are not modelled.
  An operation returns its result together with the directory it leaves, since an error can come after a part of the work.

  The lemmas show that a saved list of transactions is loaded again, what \<^verbatim>\<open>remove\<close> keeps, that an updated log
  is read back, and exactly when reading the log never returns.
\<close>

section \<open>Paths\<close>

text \<open>\<^verbatim>\<open>Path::file_stem\<close> and \<^verbatim>\<open>set_extension\<close> on a file name.\<close>

definition file_stem :: "string \<Rightarrow> string" where
  "file_stem name =
     (let stem = rev (tl (dropWhile (\<lambda>c. c \<noteq> CHR ''.'') (rev name))) in
      if CHR ''.'' \<in> set name \<and> stem \<noteq> [] then stem else name)"

definition set_extension :: "string \<Rightarrow> string \<Rightarrow> string" where
  "set_extension name ext = file_stem name @ ''.'' @ ext"

section \<open>The log of signed transactions\<close>

datatype wal_entry = WalFile bytes | WalDir "(string, bytes) hash_map"

type_synonym txs_wal = "(string, wal_entry) hash_map"

definition wal_file_name :: "(bytes \<Rightarrow> string) \<Rightarrow> hash \<Rightarrow> string" where
  "wal_file_name hex_encode h = set_extension (hash_as_hex hex_encode h) ''txt''"

text \<open>
  The file is opened without truncation and before the transactions are encoded: an encoding error leaves an
  empty file, and shorter data leave the tail of what was there.
\<close>

definition wal_save ::
    "(bytes \<Rightarrow> string) \<Rightarrow> signed_transaction list codec \<Rightarrow> u64 \<Rightarrow> hash \<Rightarrow> signed_transaction list \<Rightarrow> txs_wal \<Rightarrow>
     (consensus_error, unit) result \<times> txs_wal" where
  "wal_save hex_encode tc height ordered_hash txs wal =
     (let name = u64_to_string height;
          wal = (if hm_get wal name = None then hm_insert name (WalDir []) wal else wal) in
      case hm_get wal name of
        Some (WalDir files) \<Rightarrow>
          (let file = wal_file_name hex_encode ordered_hash;
               old = (case hm_get files file of Some b \<Rightarrow> b | None \<Rightarrow> []) in
           case encode_fixed tc txs of
             Inl Panic \<Rightarrow> (Inl Panic, hm_insert name (WalDir (hm_insert file old files)) wal)
           | Inl (Err _) \<Rightarrow> (Inl (Err (ProtocolErr ''codec'')), hm_insert name (WalDir (hm_insert file old files)) wal)
           | Inr data \<Rightarrow>
               (Inr (), hm_insert name (WalDir (hm_insert file (data @ drop (length data) old) files)) wal))
      | _ \<Rightarrow> (Inl (Err (WALErr ''open'')), wal))"

definition available_height :: "txs_wal \<Rightarrow> (consensus_error, u64 list) result" where
  "available_height wal =
     res_collect (\<lambda>p. case parse_u64 (fst p) of Some n \<Rightarrow> Inr n | None \<Rightarrow> Inl Panic)
       (filter (\<lambda>p. case snd p of WalDir _ \<Rightarrow> True | WalFile _ \<Rightarrow> False) wal)"

fun wal_remove_loop :: "u64 \<Rightarrow> (string \<times> wal_entry) list \<Rightarrow> txs_wal \<Rightarrow> (consensus_error, unit) result \<times> txs_wal" where
  "wal_remove_loop committed_height [] wal = (Inr (), wal)"
| "wal_remove_loop committed_height (e # entries) wal =
     (case parse_u64 (file_stem (fst e)) of
        None \<Rightarrow> (Inl (Err (OtherErr ''parse folder name'')), wal)
      | Some height \<Rightarrow>
          (if height \<le> committed_height
           then
             (case snd e of
                WalDir _ \<Rightarrow> wal_remove_loop committed_height entries (hm_remove (fst e) wal)
              | WalFile _ \<Rightarrow> (Inl (Err (WALErr ''remove_dir_all'')), wal))
           else wal_remove_loop committed_height entries wal))"

definition wal_remove :: "u64 \<Rightarrow> txs_wal \<Rightarrow> (consensus_error, unit) result \<times> txs_wal" where
  "wal_remove committed_height wal = wal_remove_loop committed_height wal wal"

fun wal_remove_each :: "u64 list \<Rightarrow> txs_wal \<Rightarrow> (consensus_error, unit) result \<times> txs_wal" where
  "wal_remove_each [] wal = (Inr (), wal)"
| "wal_remove_each (n # ns) wal =
     (case wal_remove n wal of
        (Inr _, wal') \<Rightarrow> wal_remove_each ns wal'
      | (Inl e, wal') \<Rightarrow> (Inl e, wal'))"

definition wal_remove_all :: "txs_wal \<Rightarrow> (consensus_error, unit) result \<times> txs_wal" where
  "wal_remove_all wal =
     (case available_height wal of Inl e \<Rightarrow> (Inl e, wal) | Inr heights \<Rightarrow> wal_remove_each heights wal)"

definition recover_stxs ::
    "signed_transaction list codec \<Rightarrow> bytes option \<Rightarrow> (consensus_error, signed_transaction list) result" where
  "recover_stxs tc file =
     (case file of
        None \<Rightarrow> Inl (Err (WALErr ''open''))
      | Some read_buf \<Rightarrow>
          (case decode_fixed tc read_buf of
             Inl Panic \<Rightarrow> Inl Panic
           | Inl (Err _) \<Rightarrow> Inl (Err (ProtocolErr ''codec''))
           | Inr txs \<Rightarrow> Inr txs))"

definition wal_load ::
    "(bytes \<Rightarrow> string) \<Rightarrow> signed_transaction list codec \<Rightarrow> u64 \<Rightarrow> hash \<Rightarrow> txs_wal \<Rightarrow>
     (consensus_error, signed_transaction list) result" where
  "wal_load hex_encode tc height ordered_hash wal =
     recover_stxs tc
       (case hm_get wal (u64_to_string height) of
          Some (WalDir files) \<Rightarrow> hm_get files (wal_file_name hex_encode ordered_hash)
        | _ \<Rightarrow> None)"

text \<open>Files that cannot be decoded are skipped; a decoder that panics is not.\<close>

fun load_files :: "signed_transaction list codec \<Rightarrow> (string \<times> bytes) list \<Rightarrow> ('e, signed_transaction list) result" where
  "load_files tc [] = Inr []"
| "load_files tc (f # fs) =
     (case recover_stxs tc (Some (snd f)) of
        Inl Panic \<Rightarrow> Inl Panic
      | Inl (Err _) \<Rightarrow> load_files tc fs
      | Inr stxs \<Rightarrow> res_map ((@) stxs) (load_files tc fs))"

definition load_by_height ::
    "signed_transaction list codec \<Rightarrow> u64 \<Rightarrow> txs_wal \<Rightarrow> ('e, signed_transaction list) result" where
  "load_by_height tc height wal =
     (case hm_get wal (u64_to_string height) of
        Some (WalDir files) \<Rightarrow> load_files tc files
      | _ \<Rightarrow> Inr [])"

section \<open>The log of the consensus engine\<close>

text \<open>The directory, if it exists, holds files only.\<close>

type_synonym consensus_wal = "(string, bytes) hash_map option"

definition parse_u128 :: "string \<Rightarrow> nat option" where
  "parse_u128 = parse_decimal (2 ^ 128)"

text \<open>The clock gives the milliseconds since the epoch at every reading, or fails.\<close>

partial_function (option) fresh_timestamp ::
    "(nat \<Rightarrow> nat option) \<Rightarrow> (string, bytes) hash_map \<Rightarrow> nat \<Rightarrow> (consensus_error, nat) result option" where
  "fresh_timestamp clock files i =
     (case clock i of
        None \<Rightarrow> Some (Inl (Err SystemTime))
      | Some timestamp \<Rightarrow>
          (if hm_get files (show_decimal timestamp) = None then Some (Inr timestamp)
           else fresh_timestamp clock files (Suc i)))"

fun clean_old :: "nat \<Rightarrow> (string \<times> bytes) list \<Rightarrow> (string, bytes) hash_map \<Rightarrow> (consensus_error, unit) result \<times> (string, bytes) hash_map" where
  "clean_old timestamp [] files = (Inr (), files)"
| "clean_old timestamp (item # items) files =
     (case parse_u128 (fst item) of
        None \<Rightarrow> (Inl (Err FileNameTimestamp), files)
      | Some t \<Rightarrow>
          clean_old timestamp items (if t < timestamp then hm_remove (fst item) files else files))"

definition update_overlord_wal ::
    "(bytes \<Rightarrow> bytes) \<Rightarrow> (nat \<Rightarrow> nat option) \<Rightarrow> bytes \<Rightarrow> consensus_wal \<Rightarrow>
     ((consensus_error, unit) result \<times> consensus_wal) option" where
  "update_overlord_wal digest clock info wal =
     (let files = (case wal of None \<Rightarrow> [] | Some fs \<Rightarrow> fs);
          content = hash_bytes (hash_digest digest info) @ info in
      case fresh_timestamp clock files 0 of
        None \<Rightarrow> None
      | Some (Inl e) \<Rightarrow> Some (Inl e, Some files)
      | Some (Inr timestamp) \<Rightarrow>
          (let files = hm_insert (show_decimal timestamp) content files;
               (r, files) = clean_old timestamp files files in
           Some (r, Some files)))"

text \<open>
  The loop over the files from the newest on. \<^verbatim>\<open>io index attempt\<close> is what the file system does at the given
  attempt on the file at the given position: refuse to open it, open it and fail in \<^verbatim>\<open>read_to_end\<close>, or read it. A
  failed read and a file shorter than a checksum both make the source \<^verbatim>\<open>continue\<close> without moving on to the next
  file; a refused open returns.
\<close>

datatype read_outcome = OpenFails | ReadFails | ReadOk

partial_function (option) load_loop ::
    "(nat \<Rightarrow> nat \<Rightarrow> read_outcome) \<Rightarrow> (bytes \<Rightarrow> bytes) \<Rightarrow> (string, bytes) hash_map \<Rightarrow> nat list \<Rightarrow> nat \<Rightarrow> nat \<Rightarrow>
     (consensus_error, bytes option) result option" where
  "load_loop io digest files timestamps index attempt =
     (if length timestamps \<le> index then Some (Inr None)
      else
        (case (hm_get files (show_decimal (timestamps ! index)), io index attempt) of
           (None, _) \<Rightarrow> Some (Inl (Err (WALErr ''open'')))
         | (Some read_buf, OpenFails) \<Rightarrow> Some (Inl (Err (WALErr ''open'')))
         | (Some read_buf, ReadFails) \<Rightarrow> load_loop io digest files timestamps index (Suc attempt)
         | (Some info, ReadOk) \<Rightarrow>
             (if length info < 32 then load_loop io digest files timestamps index (Suc attempt)
              else if take 32 info = digest (drop 32 info) then Some (Inr (Some (drop 32 info)))
              else load_loop io digest files timestamps (Suc index) 0)))"

definition wal_timestamps :: "(string, bytes) hash_map \<Rightarrow> nat list" where
  "wal_timestamps files = rev (sort (List.map_filter (\<lambda>f. parse_u128 (fst f)) files))"

definition load_overlord_wal ::
    "(nat \<Rightarrow> nat \<Rightarrow> read_outcome) \<Rightarrow> (bytes \<Rightarrow> bytes) \<Rightarrow> consensus_wal \<Rightarrow> (consensus_error, bytes) result option" where
  "load_overlord_wal io digest wal =
     (case wal of
        None \<Rightarrow> Some (Inl (Err ConsensusWalDirNotExist))
      | Some files \<Rightarrow>
          map_option (\<lambda>r. res_bind r (ok_or ConsensusWalNoWalFile)) 
            (load_loop io digest files (wal_timestamps files) 0 0))"

definition wal_clear :: "consensus_wal \<Rightarrow> consensus_wal" where
  "wal_clear wal = (case wal of None \<Rightarrow> None | Some _ \<Rightarrow> Some [])"

text \<open>The engine's \<^verbatim>\<open>Wal\<close> instance: errors of a save become \<^verbatim>\<open>Other\<close>, errors of a load become \<^verbatim>\<open>None\<close>.\<close>

definition engine_wal_save ::
    "(bytes \<Rightarrow> bytes) \<Rightarrow> (nat \<Rightarrow> nat option) \<Rightarrow> bytes \<Rightarrow> consensus_wal \<Rightarrow>
     ((consensus_error, unit) result \<times> consensus_wal) option" where
  "engine_wal_save digest clock info wal =
     map_option (\<lambda>(r, w). ((case r of Inl (Err _) \<Rightarrow> Inl (Err (OtherErr ''wal'')) | _ \<Rightarrow> r), w))
       (update_overlord_wal digest clock info wal)"

definition engine_wal_load ::
    "(nat \<Rightarrow> nat \<Rightarrow> read_outcome) \<Rightarrow> (bytes \<Rightarrow> bytes) \<Rightarrow> consensus_wal \<Rightarrow>
     (consensus_error, bytes option) result option" where
  "engine_wal_load io digest wal =
     map_option (\<lambda>r. case r of Inr b \<Rightarrow> Inr (Some b) | Inl (Err _) \<Rightarrow> Inr None | Inl Panic \<Rightarrow> Inl Panic)
       (load_overlord_wal io digest wal)"

section \<open>Saved transactions\<close>

lemma wal_save_load:
  assumes "encode_fixed tc txs = Inr data" "decode_fixed tc data = Inr txs"
    and "\<And>b. hm_get wal (u64_to_string n) \<noteq> Some (WalFile b)"
    and "\<And>files old. hm_get wal (u64_to_string n) = Some (WalDir files) \<Longrightarrow>
      hm_get files (wal_file_name hex_encode h) = Some old \<Longrightarrow> length old \<le> length data"
  shows "\<exists>wal'. wal_save hex_encode tc n h txs wal = (Inr (), wal') \<and> wal_load hex_encode tc n h wal' = Inr txs"
proof (cases "hm_get wal (u64_to_string n)")
  case None
  then show ?thesis using assms(1,2) by (simp add: wal_save_def wal_load_def recover_stxs_def Let_def)
next
  case (Some e)
  then obtain files where e: "e = WalDir files" using assms(3) by (cases e) auto
  have "drop (length data) (case hm_get files (wal_file_name hex_encode h) of Some b \<Rightarrow> b | None \<Rightarrow> []) = []"
    using assms(4) Some e by (auto split: option.split)
  then show ?thesis using assms(1,2) Some e by (simp add: wal_save_def wal_load_def recover_stxs_def Let_def)
qed

lemma file_stem_plain [simp]: "CHR ''.'' \<notin> set name \<Longrightarrow> file_stem name = name"
  by (simp add: file_stem_def)

lemma u64_string_plain: "CHR ''.'' \<notin> set (u64_to_string n)"
  using show_decimal_digits [of "CHR ''.''" "unat n"] digit_char_cases(3) unfolding u64_to_string_def by metis

definition wal_wf :: "txs_wal \<Rightarrow> bool" where
  "wal_wf wal \<longleftrightarrow> list_all (\<lambda>e. (\<exists>n. fst e = u64_to_string n) \<and> (\<exists>fs. snd e = WalDir fs)) wal"

lemma wal_remove_loop_ok:
  assumes "wal_wf entries"
  shows "wal_remove_loop c entries wal =
    (Inr (), fold (\<lambda>e w. if the (parse_u64 (fst e)) \<le> c then hm_remove (fst e) w else w) entries wal)"
  using assms
proof (induction entries arbitrary: wal)
  case (Cons e es)
  then obtain n fs where "fst e = u64_to_string n" "snd e = WalDir fs" by (auto simp: wal_wf_def)
  with Cons show ?case by (simp add: wal_wf_def u64_string_plain)
qed simp

lemma wal_remove_keeps:
  assumes "wal_wf wal"
  shows "\<exists>wal'. wal_remove c wal = (Inr (), wal') \<and>
    (\<forall>n. hm_get wal' (u64_to_string n) = (if n \<le> c then None else hm_get wal (u64_to_string n)))"
proof -
  have get: "hm_get (fold (\<lambda>e w. if the (parse_u64 (fst e)) \<le> c then hm_remove (fst e) w else w) es w) (u64_to_string n) =
      (if n \<le> c \<and> u64_to_string n \<in> fst ` set es then None else hm_get w (u64_to_string n))" if "wal_wf es" for es and w :: txs_wal and n
    using that
  proof (induction es arbitrary: w)
    case (Cons e es)
    then obtain k where "fst e = u64_to_string k" by (auto simp: wal_wf_def)
    with Cons show ?case by (auto simp: wal_wf_def)
  qed simp
  show ?thesis
    unfolding wal_remove_def wal_remove_loop_ok [OF assms]
    using get [OF assms] by (auto simp: map_of_eq_None_iff)
qed

section \<open>Reading the log of the engine\<close>

text \<open>
  A file that the loop never leaves: it can always be opened and is unreadable at every attempt, or shorter than a
  checksum. A file that the loop steps over: some read succeeds, after failed reads only, and gives a wrong checksum.
\<close>

definition entry_stuck :: "(nat \<Rightarrow> read_outcome) \<Rightarrow> bytes option \<Rightarrow> bool" where
  "entry_stuck attempts file \<longleftrightarrow>
     (\<exists>b. file = Some b \<and> (\<forall>a. attempts a \<noteq> OpenFails) \<and> ((\<forall>a. attempts a = ReadFails) \<or> length b < 32))"

definition entry_corrupt :: "(bytes \<Rightarrow> bytes) \<Rightarrow> (nat \<Rightarrow> read_outcome) \<Rightarrow> bytes option \<Rightarrow> bool" where
  "entry_corrupt digest attempts file \<longleftrightarrow>
     (\<exists>b a. file = Some b \<and> (\<forall>a' < a. attempts a' = ReadFails) \<and> attempts a = ReadOk \<and>
        32 \<le> length b \<and> take 32 b \<noteq> digest (drop 32 b))"

lemma load_loop_retry:
  assumes "index < length ts" "hm_get files (show_decimal (ts ! index)) = Some b"
    and "\<And>a'. a \<le> a' \<Longrightarrow> a' < a + n \<Longrightarrow> io index a' = ReadFails"
  shows "load_loop io digest files ts index a = load_loop io digest files ts index (a + n)"
  using assms(3)
proof (induction n arbitrary: a)
  case (Suc n)
  have "load_loop io digest files ts index a = load_loop io digest files ts index (Suc a)"
    using assms(1,2) Suc.prems [of a] by (subst load_loop.simps) simp
  also have "\<dots> = load_loop io digest files ts index (Suc a + n)"
    using Suc.prems by (intro Suc.IH) simp
  finally show ?case by simp
qed simp

lemma load_loop_corrupt:
  assumes "index < length ts" "entry_corrupt digest (io index) (hm_get files (show_decimal (ts ! index)))"
  shows "load_loop io digest files ts index 0 = load_loop io digest files ts (Suc index) 0"
proof -
  obtain b a where ba: "hm_get files (show_decimal (ts ! index)) = Some b" "\<forall>a' < a. io index a' = ReadFails"
    "io index a = ReadOk" "32 \<le> length b" "take 32 b \<noteq> digest (drop 32 b)"
    using assms(2) by (auto simp: entry_corrupt_def)
  have "load_loop io digest files ts index 0 = load_loop io digest files ts index a"
    using load_loop_retry [OF assms(1) ba(1), of 0 a io digest] ba(2) by simp
  also have "\<dots> = load_loop io digest files ts (Suc index) 0"
    using assms(1) ba by (subst load_loop.simps) simp
  finally show ?thesis .
qed

lemma load_loop_skip:
  assumes "n \<le> length ts" "\<And>j. j < n \<Longrightarrow> entry_corrupt digest (io j) (hm_get files (show_decimal (ts ! j)))"
  shows "load_loop io digest files ts 0 0 = load_loop io digest files ts n 0"
  using assms
proof (induction n)
  case (Suc n)
  then show ?case using load_loop_corrupt [of n ts digest io files] by simp
qed simp

lemma load_loop_not_stuck:
  assumes "load_loop io digest files ts index a = Some r" "index < length ts"
  shows "\<not> entry_stuck (io index) (hm_get files (show_decimal (ts ! index)))"
proof -
  have "index < length ts \<longrightarrow> \<not> entry_stuck (io index) (hm_get files (show_decimal (ts ! index)))"
  proof (rule load_loop.raw_induct [OF _ assms(1)])
    fix loop io digest files and ts :: "nat list" and index a r
    assume ih: "\<And>io digest files ts index a r. loop io digest files ts index a = Some r \<Longrightarrow>
        index < length ts \<longrightarrow> \<not> entry_stuck (io index) (hm_get files (show_decimal (ts ! index)))"
      and body: "(if length ts \<le> index then Some (Inr None)
        else case (hm_get files (show_decimal (ts ! index)), io index a) of
            (None, _) \<Rightarrow> Some (Inl (Err (WALErr ''open'')))
          | (Some read_buf, OpenFails) \<Rightarrow> Some (Inl (Err (WALErr ''open'')))
          | (Some read_buf, ReadFails) \<Rightarrow> loop io digest files ts index (Suc a)
          | (Some info, ReadOk) \<Rightarrow>
              if length info < 32 then loop io digest files ts index (Suc a)
              else if take 32 info = digest (drop 32 info) then Some (Inr (Some (drop 32 info)))
              else loop io digest files ts (Suc index) 0) = Some r"
    show "index < length ts \<longrightarrow> \<not> entry_stuck (io index) (hm_get files (show_decimal (ts ! index)))"
      using ih [of io digest files ts index "Suc a" r] body
      by (cases "hm_get files (show_decimal (ts ! index))"; cases "io index a")
        (auto simp: entry_stuck_def split: if_splits)
  qed
  with assms(2) show ?thesis by simp
qed

lemma load_loop_short:
  assumes "index < length ts" "hm_get files (show_decimal (ts ! index)) = Some b" "length b < 32"
    and "io index c = OpenFails"
  shows "load_loop io digest files ts index 0 \<noteq> None"
proof -
  have "load_loop io digest files ts index a \<noteq> None" if "a \<le> c" for a
    using that
  proof (induction "c - a" arbitrary: a)
    case 0
    then show ?case using assms by (subst load_loop.simps) simp
  next
    case (Suc k)
    then have "load_loop io digest files ts index (Suc a) \<noteq> None" by simp
    then show ?case
      using assms(1-3) by (subst load_loop.simps) (simp split: read_outcome.split)
  qed
  then show ?thesis by simp
qed

text \<open>A file that the loop is not stuck on is left, for the next one or with a result.\<close>

lemma load_loop_leaves:
  assumes "index < length ts" "\<not> entry_stuck (io index) (hm_get files (show_decimal (ts ! index)))"
    and "entry_corrupt digest (io index) (hm_get files (show_decimal (ts ! index))) \<Longrightarrow>
      load_loop io digest files ts (Suc index) 0 \<noteq> None"
  shows "load_loop io digest files ts index 0 \<noteq> None"
proof (cases "hm_get files (show_decimal (ts ! index))")
  case None
  then show ?thesis using assms(1) by (subst load_loop.simps) simp
next
  case (Some b)
  have leave: "load_loop io digest files ts index 0 = load_loop io digest files ts index a"
    if "\<forall>a' < a. io index a' = ReadFails" for a
    using load_loop_retry [OF assms(1) Some, of 0 a io digest] that by simp
  consider (refused) a where "\<forall>a' < a. io index a' = ReadFails" "io index a = OpenFails"
    | (read) a where "\<forall>a' < a. io index a' = ReadFails" "io index a = ReadOk"
    | (unreadable) "\<forall>a. io index a = ReadFails"
  proof (cases "\<exists>a. io index a \<noteq> ReadFails")
    case True
    define a where "a = (LEAST a. io index a \<noteq> ReadFails)"
    have "io index a \<noteq> ReadFails" unfolding a_def using True by (rule LeastI_ex)
    moreover have "\<forall>a' < a. io index a' = ReadFails" unfolding a_def using not_less_Least by blast
    ultimately show thesis using refused [of a] read [of a] by (cases "io index a") simp_all
  qed (use unreadable in blast)
  then show ?thesis
  proof cases
    case refused
    then have "load_loop io digest files ts index a \<noteq> None"
      using Some assms(1) by (subst load_loop.simps) simp
    then show ?thesis using leave [OF refused(1)] by simp
  next
    case unreadable
    then show ?thesis using assms(2) Some by (simp add: entry_stuck_def)
  next
    case read
    show ?thesis
    proof (cases "length b < 32")
      case True
      then obtain c where "io index c = OpenFails" using assms(2) Some by (auto simp: entry_stuck_def)
      then show ?thesis using load_loop_short [OF assms(1) Some True] by blast
    next
      case False
      then have "load_loop io digest files ts index a \<noteq> None"
        using read Some assms(1,3) by (subst load_loop.simps) (auto simp: entry_corrupt_def)
      then show ?thesis using leave [OF read(1)] by simp
    qed
  qed
qed

lemma load_loop_total:
  assumes "\<not> (\<exists>n < length ts. index \<le> n \<and>
      (\<forall>j. index \<le> j \<longrightarrow> j < n \<longrightarrow> entry_corrupt digest (io j) (hm_get files (show_decimal (ts ! j)))) \<and>
      entry_stuck (io n) (hm_get files (show_decimal (ts ! n))))"
  shows "load_loop io digest files ts index 0 \<noteq> None"
  using assms
proof (induction "length ts - index" arbitrary: index)
  case 0
  then show ?case by (subst load_loop.simps) simp
next
  case (Suc k)
  show ?case
  proof (rule load_loop_leaves)
    show "index < length ts" using Suc.hyps(2) by simp
    then show "\<not> entry_stuck (io index) (hm_get files (show_decimal (ts ! index)))"
      using Suc.prems by force
    assume here: "entry_corrupt digest (io index) (hm_get files (show_decimal (ts ! index)))"
    show "load_loop io digest files ts (Suc index) 0 \<noteq> None"
    proof (rule Suc.hyps(1))
      show "k = length ts - Suc index" using Suc.hyps(2) by simp
      show "\<not> (\<exists>n < length ts. Suc index \<le> n \<and>
          (\<forall>j. Suc index \<le> j \<longrightarrow> j < n \<longrightarrow> entry_corrupt digest (io j) (hm_get files (show_decimal (ts ! j)))) \<and>
          entry_stuck (io n) (hm_get files (show_decimal (ts ! n))))"
        using Suc.prems here by (metis Suc_leD Suc_leI le_neq_implies_less)
    qed
  qed
qed

text \<open>
  (C28) \<^bold>\<open>When reading the log returns.\<close> Reading the engine's log runs forever exactly when, going from the newest file
  on, the loop comes to a file that it can always open and that is unreadable at every attempt or shorter than a
  checksum, and every newer file was read, if only after some failed reads, and had a wrong checksum. A short file is
  what a crash between creating and writing the log leaves; the older files, kept for this case, are then never tried.
  In every other case, whatever the file system does at the single attempts, reading returns.
\<close>

theorem load_overlord_wal_diverges:
  "load_overlord_wal io digest wal = None \<longleftrightarrow>
     (\<exists>files n. wal = Some files \<and> n < length (wal_timestamps files) \<and>
        (\<forall>j < n. entry_corrupt digest (io j) (hm_get files (show_decimal (wal_timestamps files ! j)))) \<and>
        entry_stuck (io n) (hm_get files (show_decimal (wal_timestamps files ! n))))"
proof
  assume "load_overlord_wal io digest wal = None"
  then obtain files where files: "wal = Some files" "load_loop io digest files (wal_timestamps files) 0 0 = None"
    by (auto simp: load_overlord_wal_def split: option.splits)
  with load_loop_total [of "wal_timestamps files" 0 digest io files]
  show "\<exists>files n. wal = Some files \<and> n < length (wal_timestamps files) \<and>
      (\<forall>j < n. entry_corrupt digest (io j) (hm_get files (show_decimal (wal_timestamps files ! j)))) \<and>
      entry_stuck (io n) (hm_get files (show_decimal (wal_timestamps files ! n)))"
    by auto
next
  assume "\<exists>files n. wal = Some files \<and> n < length (wal_timestamps files) \<and>
      (\<forall>j < n. entry_corrupt digest (io j) (hm_get files (show_decimal (wal_timestamps files ! j)))) \<and>
      entry_stuck (io n) (hm_get files (show_decimal (wal_timestamps files ! n)))"
  then obtain files n where w: "wal = Some files" "n < length (wal_timestamps files)"
    "\<forall>j < n. entry_corrupt digest (io j) (hm_get files (show_decimal (wal_timestamps files ! j)))"
    "entry_stuck (io n) (hm_get files (show_decimal (wal_timestamps files ! n)))" by blast
  have "load_loop io digest files (wal_timestamps files) 0 0 = load_loop io digest files (wal_timestamps files) n 0"
    using w(2,3) by (intro load_loop_skip) simp_all
  also have "\<dots> = None"
    using load_loop_not_stuck [of io digest files "wal_timestamps files" n 0] w(2,4) by fastforce
  finally show "load_overlord_wal io digest wal = None" using w(1) by (simp add: load_overlord_wal_def)
qed

lemma wal_example_timestamps:
  "show_decimal 7 = ''7''" "show_decimal 6 = ''6''" "wal_timestamps [(''7'', x), (''6'', y)] = [7, 6]"
proof -
  have "(of_char CHR ''7'' :: nat) = 55" "(of_char CHR ''6'' :: nat) = 54" by simp_all
  then have "char_of (55 :: nat) = CHR ''7''" "char_of (54 :: nat) = CHR ''6''"
    using char_of_char [of "CHR ''7''"] char_of_char [of "CHR ''6''"] by metis+
  then show "show_decimal 7 = ''7''" "show_decimal 6 = ''6''"
    by (simp_all add: show_decimal.simps [of 7] show_decimal.simps [of 6] digit_char_def)
  show "wal_timestamps [(''7'', x), (''6'', y)] = [7, 6]"
    by (simp add: wal_timestamps_def map_filter_def parse_u128_def parse_decimal_def digit_value_def)
qed

text \<open>
  An empty newest file blocks a good older one; so does an unreadable one after a corrupt one; a read that fails once
  does not.
\<close>

theorem load_overlord_wal_diverges_witness:
  "load_overlord_wal (\<lambda>_ _. ReadOk) (\<lambda>_. replicate 32 0) (Some [(''7'', []), (''6'', replicate 32 0 @ [1])]) = None \<and>
   load_overlord_wal (\<lambda>index _. if index = 0 then ReadOk else ReadFails) (\<lambda>_. replicate 32 0)
     (Some [(''7'', replicate 32 1), (''6'', replicate 32 0 @ [1])]) = None \<and>
   load_overlord_wal (\<lambda>index attempt. if attempt = 0 then ReadFails else ReadOk) (\<lambda>_. replicate 32 0)
     (Some [(''7'', replicate 32 0 @ [1]), (''6'', [])]) \<noteq> None"
proof (intro conjI)
  show "load_overlord_wal (\<lambda>_ _. ReadOk) (\<lambda>_. replicate 32 0) (Some [(''7'', []), (''6'', replicate 32 0 @ [1])]) = None"
    unfolding load_overlord_wal_diverges
    by (intro exI [of _ "[(''7'', []), (''6'', replicate 32 0 @ [1])]"] exI [of _ 0])
      (simp add: wal_example_timestamps entry_stuck_def)
  show "load_overlord_wal (\<lambda>index _. if index = 0 then ReadOk else ReadFails) (\<lambda>_. replicate 32 0)
     (Some [(''7'', replicate 32 1), (''6'', replicate 32 0 @ [1])]) = None"
    unfolding load_overlord_wal_diverges
    by (intro exI [of _ "[(''7'', replicate 32 1), (''6'', replicate 32 0 @ [1])]"] exI [of _ 1])
      (simp add: wal_example_timestamps entry_stuck_def entry_corrupt_def exI [of _ 0])
  show "load_overlord_wal (\<lambda>index attempt. if attempt = 0 then ReadFails else ReadOk) (\<lambda>_. replicate 32 0)
     (Some [(''7'', replicate 32 0 @ [1]), (''6'', [])]) \<noteq> None"
    unfolding load_overlord_wal_diverges
    by (auto simp: wal_example_timestamps entry_stuck_def entry_corrupt_def less_Suc_eq)
qed

text \<open>An updated log is read back when the clock is ahead of all files.\<close>

lemma clean_old_ok:
  assumes "\<forall>f \<in> set items. \<exists>n. parse_u128 (fst f) = Some n"
  shows "clean_old t items files =
    (Inr (), fold (\<lambda>f m. if the (parse_u128 (fst f)) < t then hm_remove (fst f) m else m) items files)"
  using assms by (induction items arbitrary: files) auto


lemma clean_old_keys:
  "fst ` set (fold (\<lambda>f m. if the (parse_u128 (fst f)) < t then hm_remove (fst f) m else m) items files) =
     fst ` set files - {fst f | f. f \<in> set items \<and> the (parse_u128 (fst f)) < t}"
  by (induction items arbitrary: files) (auto simp: hm_keys_remove)

lemma clean_old_get:
  assumes "\<forall>f \<in> set items. fst f = k \<longrightarrow> \<not> the (parse_u128 (fst f)) < t"
  shows "hm_get (fold (\<lambda>f m. if the (parse_u128 (fst f)) < t then hm_remove (fst f) m else m) items files) k = hm_get files k"
  using assms by (induction items arbitrary: files) auto

lemma clean_old_wf:
  "hm_wf files \<Longrightarrow> hm_wf (fold (\<lambda>f m. if the (parse_u128 (fst f)) < t then hm_remove (fst f) m else m) items files)"
  by (induction items arbitrary: files) auto

lemma hm_singleton:
  assumes "fst ` set m = {k}" "hm_wf m" "hm_get m k = Some v"
  shows "m = [(k, v)]"
proof -
  have "length m = 1" using assms(1) distinct_card [OF assms(2)] by simp
  then obtain p where "m = [p]" by (metis One_nat_def length_0_conv length_Suc_conv)
  with assms(1,3) show ?thesis by (cases p) (auto split: if_splits)
qed

lemma update_load_overlord_wal:
  assumes "clock 0 = Some t" "t < 2 ^ 128" "\<And>b. length (digest b) = 32" "hm_wf files"
    and older: "\<forall>f \<in> set files. \<exists>n < t. fst f = show_decimal n"
  shows "\<exists>wal'. update_overlord_wal digest clock info (Some files) = Some (Inr (), wal') \<and>
    load_overlord_wal (\<lambda>_ _. ReadOk) digest wal' = Some (Inr info)"
proof -
  have parse: "n < 2 ^ 128 \<Longrightarrow> parse_u128 (show_decimal n) = Some n" for n by (simp add: parse_u128_def parse_show)
  have inj: "n < 2 ^ 128 \<Longrightarrow> m < 2 ^ 128 \<Longrightarrow> show_decimal n = show_decimal m \<longleftrightarrow> n = m" for n m
    by (metis option.inject parse)
  let ?content = "digest info @ info"
  let ?files = "hm_insert (show_decimal t) ?content files"
  let ?clean = "fold (\<lambda>f m. if the (parse_u128 (fst f)) < t then hm_remove (fst f) m else m) ?files ?files"
  have new: "show_decimal t \<notin> fst ` set files"
  proof
    assume "show_decimal t \<in> fst ` set files"
    then obtain n where "n < t" "show_decimal t = show_decimal n" using older by auto
    then show False using inj [of t n] assms(2) by simp
  qed
  have keys: "f \<in> set ?files \<Longrightarrow> \<exists>n \<le> t. fst f = show_decimal n" for f
  proof -
    assume "f \<in> set ?files"
    then have "fst f \<in> insert (show_decimal t) (fst ` set files)" using hm_keys_insert by (metis imageI)
    then consider "fst f = show_decimal t" | g where "g \<in> set files" "fst f = fst g" by auto
    then show ?thesis using older by cases (auto dest: less_imp_le)
  qed
  have clean: "clean_old t ?files ?files = (Inr (), ?clean)"
  proof (rule clean_old_ok, rule ballI)
    fix f assume "f \<in> set ?files"
    then obtain n where "n \<le> t" "fst f = show_decimal n" using keys by blast
    then show "\<exists>n. parse_u128 (fst f) = Some n" using parse [of n] assms(2) by simp
  qed
  have "fst ` set ?clean = {show_decimal t}"
  proof -
    have iff: "the (parse_u128 (fst f)) < t \<longleftrightarrow> fst f \<noteq> show_decimal t" if in_files: "f \<in> set ?files" for f
    proof -
      obtain n where "n \<le> t" "fst f = show_decimal n" using keys [OF in_files] by blast
      then show ?thesis using parse [of n] inj [of n t] assms(2) by auto
    qed
    have "{fst f | f. f \<in> set ?files \<and> the (parse_u128 (fst f)) < t} = {fst f | f. f \<in> set ?files \<and> fst f \<noteq> show_decimal t}"
      by (simp only: iff cong: conj_cong)
    moreover have "show_decimal t \<in> fst ` set ?files" by (simp add: hm_keys_insert)
    ultimately show ?thesis unfolding clean_old_keys by auto
  qed
  moreover have "hm_wf ?clean" using assms(4) by (intro clean_old_wf) simp
  moreover have "hm_get ?clean (show_decimal t) = Some ?content"
    by (subst clean_old_get) (simp_all add: parse [OF assms(2)])
  ultimately have single: "?clean = [(show_decimal t, ?content)]" by (rule hm_singleton)
  have fresh: "fresh_timestamp clock files 0 = Some (Inr t)"
    using assms(1) new by (subst fresh_timestamp.simps) (simp add: map_of_eq_None_iff)
  have update: "update_overlord_wal digest clock info (Some files) = Some (Inr (), Some ?clean)"
    by (simp only: update_overlord_wal_def fresh Let_def hash_digest_def hash.sel option.case sum.case clean prod.case)
  have "wal_timestamps [(show_decimal t, ?content)] = [t]"
    by (simp add: wal_timestamps_def map_filter_def parse [OF assms(2)])
  moreover have "load_loop (\<lambda>_ _. ReadOk) digest [(show_decimal t, ?content)] [t] 0 0 = Some (Inr (Some info))"
    by (subst load_loop.simps) (simp add: assms(3))
  ultimately have "load_overlord_wal (\<lambda>_ _. ReadOk) digest (Some ?clean) = Some (Inr info)"
    unfolding single load_overlord_wal_def by simp
  with update show ?thesis by blast
qed

end
