(* ===== verification/Consensus_Node.thy ===== *)
theory Consensus_Node
  imports Mempool Consensus_Verify Consensus_Wal Storage
begin

text \<open>
  The state a consensus node works on and the adapter of \<^verbatim>\<open>core/consensus/src/adapter.rs\<close> over it: the mempool,
  the storage, the status, the logs, the key map, the lock shared by the engine and the synchronization, the
  queue of the execution thread, and what was sent to the network. The environment holds the other packages and
  the answers of the network and the executor; \<^verbatim>\<open>ne_sort_nodes\<close> is \<^verbatim>\<open>sort\<close> with the order overlord gives its nodes.

  An action takes the state and returns a result with the new state, or \<^verbatim>\<open>None\<close> when it never returns. The
  lemmas give the algebra of actions and what the storage and the mempool see of each other.
\<close>

section \<open>Actions\<close>

type_synonym ('s, 'a) action = "'s \<Rightarrow> ((consensus_error, 'a) result \<times> 's) option"

definition act_return :: "'a \<Rightarrow> ('s, 'a) action" where
  "act_return x s = Some (Inr x, s)"

definition act_fail :: "consensus_error failure \<Rightarrow> ('s, 'a) action" where
  "act_fail e s = Some (Inl e, s)"

definition act_bind :: "('s, 'a) action \<Rightarrow> ('a \<Rightarrow> ('s, 'b) action) \<Rightarrow> ('s, 'b) action" where
  "act_bind m f s =
     (case m s of
        None \<Rightarrow> None
      | Some (Inl e, s') \<Rightarrow> Some (Inl e, s')
      | Some (Inr x, s') \<Rightarrow> f x s')"

definition act_get :: "('s \<Rightarrow> 'a) \<Rightarrow> ('s, 'a) action" where
  "act_get f s = Some (Inr (f s), s)"

definition act_read :: "('s \<Rightarrow> (consensus_error, 'a) result) \<Rightarrow> ('s, 'a) action" where
  "act_read f s = Some (f s, s)"

definition act_modify :: "('s \<Rightarrow> 's) \<Rightarrow> ('s, unit) action" where
  "act_modify f s = Some (Inr (), f s)"

text \<open>A fallible update: the state changes on success only.\<close>

definition act_update :: "('s \<Rightarrow> (consensus_error, 's) result) \<Rightarrow> ('s, unit) action" where
  "act_update f s = (case f s of Inl e \<Rightarrow> Some (Inl e, s) | Inr s' \<Rightarrow> Some (Inr (), s'))"

definition act_when :: "bool \<Rightarrow> ('s, unit) action \<Rightarrow> ('s, unit) action" where
  "act_when b m = (if b then m else act_return ())"

text \<open>Errors of another component, passed on by \<^verbatim>\<open>?\<close>.\<close>

definition outer :: "string \<Rightarrow> ('e, 'a) result \<Rightarrow> (consensus_error, 'a) result" where
  "outer what r = (case r of Inl (Err _) \<Rightarrow> Inl (Err (ProtocolErr what)) | Inl Panic \<Rightarrow> Inl Panic | Inr x \<Rightarrow> Inr x)"

section \<open>The node\<close>

record execute_info =
  xi_height :: u64
  xi_chain_id :: hash
  xi_block_hash :: hash
  xi_signed_txs :: "signed_transaction list"
  xi_order_root :: hash
  xi_cycles_price :: u64
  xi_proposer :: address
  xi_timestamp :: u64
  xi_cycles_limit :: u64

datatype net_message =
    GossipAll string bytes
  | GossipTo string "bytes list" bytes
  | GossipHeight u64

text \<open>The messages for overlord; the signed ones with their rlp encoding.\<close>

record overlord_status =
  os_height :: u64
  os_interval :: u64
  os_propose_ratio :: u64
  os_prevote_ratio :: u64
  os_precommit_ratio :: u64
  os_brake_ratio :: u64
  os_authority_list :: "overlord_node list"

datatype overlord_msg =
    MsgSignedProposal bytes
  | MsgSignedVote bytes
  | MsgAggregatedVote bytes
  | MsgSignedChoke bytes
  | MsgRichStatus overlord_status
  | MsgOther

datatype overlord_handler = HandlerUnset | HandlerClosed | HandlerOpen

record ('db, 'q) node =
  cn_status :: consensus_status
  cn_exemption_hash :: "bytes list"
  cn_mempool :: "'q mempool"
  cn_storage :: "'db storage"
  cn_txs_wal :: txs_wal
  cn_crypto :: addr_pubkey
  cn_locked :: bool
  cn_syncing :: bool
  cn_fail_reason :: string
  cn_exec_queue :: "execute_info list"
  cn_sent :: "net_message list"
  cn_overlord :: "overlord_msg list"
  cn_consensus_peers :: "bytes list"
  cn_reports :: "trust_feedback list"
  cn_rpc_calls :: nat

datatype queue_room = Room | Full | Closed

record ('db, 'q) node_env =
  ne_adapter :: "'db storage_adapter"
  ne_codecs :: storage_codecs
  ne_queue :: "'q queue_ops"
  ne_mempool :: adapter_env
  ne_consensus :: consensus_env
  ne_chain_id :: hash
  ne_self_address :: address
  ne_tree_root :: "(hash \<Rightarrow> hash \<Rightarrow> hash) \<Rightarrow> hash list \<Rightarrow> hash option"
  ne_encode_stx :: "signed_transaction \<Rightarrow> (consensus_error, bytes) result"
  ne_encode_receipt :: "receipt \<Rightarrow> (consensus_error, bytes) result"
  ne_hex_encode :: "bytes \<Rightarrow> string"
  ne_txs_codec :: "signed_transaction list codec"
  ne_now :: u64
  ne_room :: "nat \<Rightarrow> queue_room"
  ne_executed :: "nat \<Rightarrow> executed_info list"
  ne_peer_id :: "bytes \<Rightarrow> (consensus_error, bytes) result"
  ne_send :: "net_message \<Rightarrow> (consensus_error, unit) result"
  ne_handler :: overlord_handler
  ne_rlp_valid :: "consensus_type \<Rightarrow> bytes \<Rightarrow> bool"
  ne_sort_nodes :: "overlord_node list \<Rightarrow> overlord_node list"
  ne_error_string :: "consensus_error \<Rightarrow> string"
  ne_exec :: "executor_params \<Rightarrow> signed_transaction list \<Rightarrow> (consensus_error, executor_resp) result"
  ne_remote_block :: "nat \<Rightarrow> u64 \<Rightarrow> (consensus_error, block) result"
  ne_remote_txs :: "nat \<Rightarrow> u64 \<Rightarrow> hash list \<Rightarrow> (consensus_error, signed_transaction list) result"
  ne_remote_proof :: "nat \<Rightarrow> u64 \<Rightarrow> (consensus_error, block_proof) result"

text \<open>What the verification and the mempool read from the storage.\<close>

definition verify_env :: "('db, 'q) node_env \<Rightarrow> ('db, 'q) node \<Rightarrow> consensus_env" where
  "verify_env env s = (ne_consensus env)\<lparr>ce_get_block_header :=
     (\<lambda>height. outer ''storage'' (get_block_header (ne_adapter env) (ne_codecs env) height (cn_storage s)))\<rparr>"

definition mempool_err :: "(storage_error, 'a) result \<Rightarrow> (mempool_error, 'a) result" where
  "mempool_err r = (case r of Inl (Err _) \<Rightarrow> Inl (Err (OuterError ''storage'')) | Inl Panic \<Rightarrow> Inl Panic | Inr x \<Rightarrow> Inr x)"

definition pool_env :: "('db, 'q) node_env \<Rightarrow> ('db, 'q) node \<Rightarrow> adapter_env" where
  "pool_env env s = (ne_mempool env)\<lparr>
     ae_latest_header := mempool_err (get_latest_block_header (ne_adapter env) (ne_codecs env) (cn_storage s)),
     ae_get_tx := (\<lambda>h. mempool_err (get_transaction_by_hash (ne_adapter env) (ne_codecs env) h (cn_storage s))),
     ae_get_txs := (\<lambda>n hs. mempool_err (get_transactions (ne_adapter env) (ne_codecs env) n hs (cn_storage s)))\<rparr>"

section \<open>The adapter\<close>

definition on_storage ::
    "('db storage \<Rightarrow> (storage_error, 'db storage) result) \<Rightarrow> (('db, 'q) node, unit) action" where
  "on_storage f = act_update (\<lambda>s. outer ''storage'' (res_map (\<lambda>st. s\<lparr>cn_storage := st\<rparr>) (f (cn_storage s))))"

definition get_txs_from_mempool :: "('db, 'q) node_env \<Rightarrow> u64 \<Rightarrow> u64 \<Rightarrow> (('db, 'q) node, mixed_tx_hashes) action" where
  "get_txs_from_mempool env cycle_limit tx_num_limit s =
     (case mempool_package (ne_queue env) (pool_env env s) cycle_limit tx_num_limit (cn_mempool s) of
        None \<Rightarrow> None
      | Some (Inr (mixed, mp)) \<Rightarrow> Some (Inr mixed, s\<lparr>cn_mempool := mp\<rparr>)
      | Some (Inl (Err _)) \<Rightarrow> Some (Inl (Err (ProtocolErr ''mempool'')), s)
      | Some (Inl Panic) \<Rightarrow> Some (Inl Panic, s))"

definition adapter_sync_txs :: "('db, 'q) node_env \<Rightarrow> hash list \<Rightarrow> (('db, 'q) node, unit) action" where
  "adapter_sync_txs env txs s =
     (case sync_propose_txs (ne_queue env) (pool_env env s) False txs (cn_mempool s) of
        (r, mp) \<Rightarrow> Some (outer ''mempool'' r, s\<lparr>cn_mempool := mp\<rparr>))"

definition adapter_get_full_txs :: "('db, 'q) node_env \<Rightarrow> hash list \<Rightarrow> (('db, 'q) node, signed_transaction list) action" where
  "adapter_get_full_txs env txs = act_read (\<lambda>s. outer ''mempool'' (get_full_txs (pool_env env s) None txs (cn_mempool s)))"

definition adapter_send :: "('db, 'q) node_env \<Rightarrow> net_message \<Rightarrow> (('db, 'q) node, unit) action" where
  "adapter_send env msg =
     act_update (\<lambda>s. res_map (\<lambda>_. s\<lparr>cn_sent := cn_sent s @ [msg]\<rparr>) (ne_send env msg))"

datatype message_target = TargetBroadcast | TargetSpecified bytes

definition adapter_transmit ::
    "('db, 'q) node_env \<Rightarrow> bytes \<Rightarrow> string \<Rightarrow> message_target \<Rightarrow> (('db, 'q) node, unit) action" where
  "adapter_transmit env msg end_point target =
     (case target of
        TargetBroadcast \<Rightarrow> adapter_send env (GossipAll end_point msg)
      | TargetSpecified pub_key \<Rightarrow>
          act_bind (act_read (\<lambda>_. ne_peer_id env pub_key)) (\<lambda>peer_id. adapter_send env (GossipTo end_point [peer_id] msg)))"

text \<open>\<^verbatim>\<open>try_send\<close> on the queue of the execution thread: refused when full, a panic when closed.\<close>

definition adapter_execute :: "queue_room \<Rightarrow> execute_info \<Rightarrow> (('db, 'q) node, unit) action" where
  "adapter_execute room info =
     (case room of
        Room \<Rightarrow> act_modify (\<lambda>s. s\<lparr>cn_exec_queue := cn_exec_queue s @ [info]\<rparr>)
      | Full \<Rightarrow> act_fail (Err (ExecuteErr ''full''))
      | Closed \<Rightarrow> act_fail Panic)"

definition get_last_validators :: "('db, 'q) node_env \<Rightarrow> u64 \<Rightarrow> (('db, 'q) node, validator list) action" where
  "get_last_validators env height =
     act_read (\<lambda>s. res_map hdr_validators (get_block_header_by_height (verify_env env s) height))"

text \<open>A call to a remote peer; every call may have another answer.\<close>

definition remote_call :: "(nat \<Rightarrow> (consensus_error, 'a) result) \<Rightarrow> (('db, 'q) node, 'a) action" where
  "remote_call answer s = Some (answer (cn_rpc_calls s), s\<lparr>cn_rpc_calls := Suc (cn_rpc_calls s)\<rparr>)"

definition get_block_from_remote :: "('db, 'q) node_env \<Rightarrow> u64 \<Rightarrow> (('db, 'q) node, block) action" where
  "get_block_from_remote env height = remote_call (\<lambda>i. ne_remote_block env i height)"

definition get_txs_from_remote :: "('db, 'q) node_env \<Rightarrow> u64 \<Rightarrow> hash list \<Rightarrow> (('db, 'q) node, signed_transaction list) action" where
  "get_txs_from_remote env height hashes = remote_call (\<lambda>i. ne_remote_txs env i height hashes)"

definition get_proof_from_remote :: "('db, 'q) node_env \<Rightarrow> u64 \<Rightarrow> (('db, 'q) node, block_proof) action" where
  "get_proof_from_remote env height = remote_call (\<lambda>i. ne_remote_proof env i height)"

definition adapter_pull_block :: "('db, 'q) node_env \<Rightarrow> u64 \<Rightarrow> (('db, 'q) node, block) action" where
  "adapter_pull_block env height = remote_call (\<lambda>i. ne_remote_block env i height)"

text \<open>Messages to overlord. What happens when its end of the channel is gone depends on the caller.\<close>

definition overlord_send :: "('db, 'q) node_env \<Rightarrow> overlord_msg \<Rightarrow> consensus_error failure \<Rightarrow> (('db, 'q) node, unit) action" where
  "overlord_send env msg e =
     (if ne_handler env = HandlerOpen then act_modify (\<lambda>s. s\<lparr>cn_overlord := cn_overlord s @ [msg]\<rparr>) else act_fail e)"

definition gen_overlord_status ::
    "('db, 'q) node_env \<Rightarrow> u64 \<Rightarrow> u64 \<Rightarrow> u64 \<Rightarrow> u64 \<Rightarrow> u64 \<Rightarrow> u64 \<Rightarrow> validator list \<Rightarrow> overlord_status" where
  "gen_overlord_status env height interval propose_ratio prevote_ratio precommit_ratio brake_ratio validators =
     \<lparr>os_height = height, os_interval = interval, os_propose_ratio = propose_ratio, os_prevote_ratio = prevote_ratio,
      os_precommit_ratio = precommit_ratio, os_brake_ratio = brake_ratio,
      os_authority_list = ne_sort_nodes env (map (\<lambda>v. \<lparr>nd_address = va_pub_key v,
        nd_propose_weight = va_propose_weight v, nd_vote_weight = va_vote_weight v\<rparr>) validators)\<rparr>"

definition adapter_update_status ::
    "('db, 'q) node_env \<Rightarrow> u64 \<Rightarrow> u64 \<Rightarrow> u64 \<Rightarrow> u64 \<Rightarrow> u64 \<Rightarrow> u64 \<Rightarrow> validator list \<Rightarrow> (('db, 'q) node, unit) action" where
  "adapter_update_status env height interval propose_ratio prevote_ratio precommit_ratio brake_ratio validators =
     (if ne_handler env = HandlerUnset then act_fail Panic
      else overlord_send env
        (MsgRichStatus (gen_overlord_status env (height + 1) interval propose_ratio prevote_ratio precommit_ratio
           brake_ratio validators)) (Err (OverlordErr ''send'')))"

definition sync_exec ::
    "('db, 'q) node_env \<Rightarrow> executor_params \<Rightarrow> signed_transaction list \<Rightarrow> (('db, 'q) node, executor_resp) action" where
  "sync_exec env params txs =
     act_bind (act_read (\<lambda>_. ce_from_root (ne_consensus env) (ep_state_root params))) (\<lambda>_. act_read (\<lambda>_. ne_exec env params txs))"

definition verify_txs :: "('db, 'q) node_env \<Rightarrow> u64 \<Rightarrow> hash list \<Rightarrow> (('db, 'q) node, unit) action" where
  "verify_txs env height txs s =
     (case ensure_order_txs (pool_env env s) False (Some height) txs (cn_mempool s) of
        (Inl Panic, mp) \<Rightarrow> Some (Inl Panic, s\<lparr>cn_mempool := mp\<rparr>)
      | (Inl (Err _), mp) \<Rightarrow> Some (Inl (Err (VerifyTransaction height)), s\<lparr>cn_mempool := mp\<rparr>)
      | (Inr _, mp) \<Rightarrow> Some (Inr (), s\<lparr>cn_mempool := mp\<rparr>))"

definition save_block :: "('db, 'q) node_env \<Rightarrow> block \<Rightarrow> (('db, 'q) node, unit) action" where
  "save_block env blk = on_storage (insert_block (ne_adapter env) (ne_codecs env) blk)"

definition save_proof :: "('db, 'q) node_env \<Rightarrow> block_proof \<Rightarrow> (('db, 'q) node, unit) action" where
  "save_proof env pf = on_storage (update_latest_proof (ne_adapter env) (ne_codecs env) pf)"

definition save_signed_txs :: "('db, 'q) node_env \<Rightarrow> u64 \<Rightarrow> signed_transaction list \<Rightarrow> (('db, 'q) node, unit) action" where
  "save_signed_txs env height txs = on_storage (insert_transactions (ne_adapter env) (ne_codecs env) height txs)"

definition save_receipts :: "('db, 'q) node_env \<Rightarrow> u64 \<Rightarrow> receipt list \<Rightarrow> (('db, 'q) node, unit) action" where
  "save_receipts env height receipts = on_storage (insert_receipts (ne_adapter env) (ne_codecs env) height receipts)"

definition flush_mempool :: "('db, 'q) node_env \<Rightarrow> hash list \<Rightarrow> (('db, 'q) node, unit) action" where
  "flush_mempool env ordered_tx_hashes s =
     (case mempool_flush (ne_queue env) (pool_env env s) ordered_tx_hashes (cn_mempool s) of
        None \<Rightarrow> None
      | Some (Inr mp) \<Rightarrow> Some (Inr (), s\<lparr>cn_mempool := mp\<rparr>)
      | Some (Inl (Err _)) \<Rightarrow> Some (Inl (Err (ProtocolErr ''mempool'')), s)
      | Some (Inl Panic) \<Rightarrow> Some (Inl Panic, s))"

definition get_block_by_height :: "('db, 'q) node_env \<Rightarrow> u64 \<Rightarrow> (('db, 'q) node, block) action" where
  "get_block_by_height env height =
     act_read (\<lambda>s. res_bind (outer ''storage'' (storage_get_block (ne_adapter env) (ne_codecs env) height (cn_storage s)))
       (ok_or StorageItemNotFound))"

definition get_current_height :: "('db, 'q) node_env \<Rightarrow> (('db, 'q) node, u64) action" where
  "get_current_height env =
     act_read (\<lambda>s. res_map hdr_height (outer ''storage'' (get_latest_block_header (ne_adapter env) (ne_codecs env) (cn_storage s))))"

definition get_txs_from_storage :: "('db, 'q) node_env \<Rightarrow> hash list \<Rightarrow> (('db, 'q) node, signed_transaction list) action" where
  "get_txs_from_storage env tx_hashes =
     act_read (\<lambda>s. res_map (List.map_filter (\<lambda>x. x))
       (res_collect (\<lambda>h. outer ''storage'' (get_transaction_by_hash (ne_adapter env) (ne_codecs env) h (cn_storage s))) tx_hashes))"

definition broadcast_height :: "('db, 'q) node_env \<Rightarrow> u64 \<Rightarrow> (('db, 'q) node, unit) action" where
  "broadcast_height env height = adapter_send env (GossipHeight height)"

definition node_get_metadata :: "('db, 'q) node_env \<Rightarrow> hash \<Rightarrow> u64 \<Rightarrow> u64 \<Rightarrow> address \<Rightarrow> (('db, 'q) node, metadata) action" where
  "node_get_metadata env state_root height timestamp proposer =
     act_read (\<lambda>s. adapter_get_metadata (verify_env env s) state_root height timestamp proposer)"

definition tag_consensus :: "('db, 'q) node_env \<Rightarrow> bytes list \<Rightarrow> (('db, 'q) node, unit) action" where
  "tag_consensus env pub_keys =
     act_update (\<lambda>s. res_map (\<lambda>peer_ids. s\<lparr>cn_consensus_peers := peer_ids\<rparr>) (res_collect (ne_peer_id env) pub_keys))"

definition report_bad :: "trust_feedback \<Rightarrow> (('db, 'q) node, unit) action" where
  "report_bad feedback = act_modify (\<lambda>s. s\<lparr>cn_reports := cn_reports s @ [feedback]\<rparr>)"

definition node_set_args :: "u64 \<Rightarrow> u64 \<Rightarrow> u64 \<Rightarrow> (('db, 'q) node, unit) action" where
  "node_set_args timeout_gap cycles_limit max_tx_size =
     act_modify (\<lambda>s. s\<lparr>cn_mempool := mempool_set_args timeout_gap cycles_limit max_tx_size (cn_mempool s)\<rparr>)"

definition status_update ::
    "(consensus_status \<Rightarrow> (consensus_error, consensus_status) result) \<Rightarrow> (('db, 'q) node, unit) action" where
  "status_update f = act_update (\<lambda>s. res_map (\<lambda>st. s\<lparr>cn_status := st\<rparr>) (f (cn_status s)))"

text \<open>\<^verbatim>\<open>ExecDemons::process\<close>: one turn of the execution thread.\<close>

definition exec_demon_exec :: "('db, 'q) node_env \<Rightarrow> execute_info \<Rightarrow> (('db, 'q) node, unit) action" where
  "exec_demon_exec env info =
     act_bind (act_get (\<lambda>s. get_latest_state_root (cn_status s))) (\<lambda>state_root.
     act_bind (act_read (\<lambda>_. ce_from_root (ne_consensus env) state_root)) (\<lambda>_.
     act_bind (act_read (\<lambda>_. ne_exec env
         \<lparr>ep_state_root = state_root, ep_height = xi_height info, ep_timestamp = xi_timestamp info,
          ep_cycles_limit = xi_cycles_limit info, ep_proposer = xi_proposer info\<rparr> (xi_signed_txs info))) (\<lambda>resp.
     act_bind (save_receipts env (xi_height info) (er_receipts resp)) (\<lambda>_.
     act_bind (act_read (\<lambda>_. executed_info_new (ne_tree_root env) (ce_digest (ne_consensus env)) (ne_encode_receipt env)
         (xi_height info) (xi_order_root info) resp)) (\<lambda>ei.
     status_update (update_by_executed ei))))))"

definition exec_demon_process :: "('db, 'q) node_env \<Rightarrow> (('db, 'q) node, unit) action" where
  "exec_demon_process env s =
     (case cn_exec_queue s of
        [] \<Rightarrow> act_fail (Err (OtherErr ''Queue disconnect'')) s
      | info # queue \<Rightarrow> exec_demon_exec env info (s\<lparr>cn_exec_queue := queue\<rparr>))"

section \<open>Algebra of actions\<close>

lemma act_simps [simp]:
  "act_bind (act_return x) f1 = f1 x"
  "act_bind (act_fail e) f2 = act_fail e"
  "act_bind (act_get g) f3 s = f3 (g s) s"
  "act_bind (act_modify h) f4 s = f4 () (h s)"
  by (simp_all add: fun_eq_iff act_bind_def act_return_def act_fail_def act_get_def act_modify_def)

lemma act_bind_read: "act_bind (act_read g) f s = (case g s of Inl e \<Rightarrow> Some (Inl e, s) | Inr x \<Rightarrow> f x s)"
  by (simp add: act_bind_def act_read_def split: sum.split)

lemma act_bind_Inr:
  "act_bind m f s = Some (Inr y, s') \<longleftrightarrow> (\<exists>x t. m s = Some (Inr x, t) \<and> f x t = Some (Inr y, s'))"
  by (auto simp: act_bind_def split: option.splits prod.splits sum.splits)

lemma act_bind_step: "m s = Some (Inr x, t) \<Longrightarrow> act_bind m f s = f x t"
  by (simp add: act_bind_def)

lemma act_bind_None:
  "act_bind m f s = None \<longleftrightarrow> m s = None \<or> (\<exists>x t. m s = Some (Inr x, t) \<and> f x t = None)"
  by (auto simp: act_bind_def split: option.splits prod.splits sum.splits)

lemma act_update_Inr: "act_update f s = Some (Inr x, s') \<longleftrightarrow> f s = Inr s'"
  by (auto simp: act_update_def split: sum.splits)

lemma act_basic_Inr:
  "act_return x s = Some (Inr y, s') \<longleftrightarrow> y = x \<and> s' = s"
  "act_fail e s = Some (Inr y, s') \<longleftrightarrow> False"
  "act_get g s = Some (Inr z, s') \<longleftrightarrow> z = g s \<and> s' = s"
  "act_read k s = Some (Inr w, s') \<longleftrightarrow> k s = Inr w \<and> s' = s"
  "act_modify h s = Some (Inr u, s') \<longleftrightarrow> s' = h s"
  by (auto simp: act_return_def act_fail_def act_get_def act_read_def act_modify_def)

lemmas act_Inr = act_basic_Inr act_bind_Inr act_update_Inr

lemma act_total [simp]: "act_update f s \<noteq> None" "act_read g s \<noteq> None" "act_modify h s \<noteq> None" "act_get k s \<noteq> None"
    "act_return x s \<noteq> None" "act_fail e s \<noteq> None"
  by (simp_all add: act_update_def act_read_def act_modify_def act_get_def act_return_def act_fail_def split: sum.split)

lemma outer_simps [simp]: "outer w (Inr x) = Inr x" "outer w (Inl Panic) = Inl Panic" "outer w (Inl (Err e)) = Inl (Err (ProtocolErr w))"
  by (simp_all add: outer_def)

lemma outer_Inr [simp]: "outer w r = Inr x \<longleftrightarrow> r = Inr x"
  by (auto simp: outer_def split: sum.splits failure.splits)

section \<open>Actions that return\<close>

text \<open>An action that returns from every state of an invariant and keeps it, whatever its result.\<close>

definition returns :: "('s \<Rightarrow> bool) \<Rightarrow> ('s, 'a) action \<Rightarrow> bool" where
  "returns I m \<longleftrightarrow> (\<forall>s. I s \<longrightarrow> (\<exists>r s'. m s = Some (r, s') \<and> I s'))"

named_theorems returns_rules

lemma returnsI: "(\<And>s. I s \<Longrightarrow> \<exists>r s'. m s = Some (r, s') \<and> I s') \<Longrightarrow> returns I m"
  by (simp add: returns_def)

lemma returnsE:
  assumes "returns I m" "I s"
  obtains r s' where "m s = Some (r, s')" "I s'"
  using assms by (auto simp: returns_def)

lemma returns_bind [returns_rules]:
  assumes "returns I m" "\<And>x. returns I (f x)"
  shows "returns I (act_bind m f)"
proof (rule returnsI)
  fix s assume "I s"
  with assms(1) obtain r t where t: "m s = Some (r, t)" "I t" by (rule returnsE)
  show "\<exists>r s'. act_bind m f s = Some (r, s') \<and> I s'"
  proof (cases r)
    case (Inr x)
    from assms(2) t(2) obtain r' s' where "f x t = Some (r', s')" "I s'" by (rule returnsE)
    with t Inr show ?thesis by (simp add: act_bind_def)
  qed (use t in \<open>simp add: act_bind_def\<close>)
qed

lemma returns_basic [returns_rules]:
  "returns I (act_return x)" "returns I (act_fail e)" "returns I (act_get g)" "returns I (act_read k)"
  by (simp_all add: returns_def act_return_def act_fail_def act_get_def act_read_def)

lemma returns_if [returns_rules]: "returns I a \<Longrightarrow> returns I b \<Longrightarrow> returns I (if c then a else b)"
  by simp

lemma returns_let [returns_rules]: "(\<And>x. returns I (f x)) \<Longrightarrow> returns I (let x = v in f x)"
  by simp

lemma returns_modify: "(\<And>s. I s \<Longrightarrow> I (h s)) \<Longrightarrow> returns I (act_modify h)"
  by (simp add: returns_def act_modify_def)

lemma returns_update: "(\<And>s s'. I s \<Longrightarrow> f s = Inr s' \<Longrightarrow> I s') \<Longrightarrow> returns I (act_update f)"
  by (auto simp: returns_def act_update_def split: sum.split)

lemma adapter_Inr:
  "adapter_send env msg s = Some (Inr x, s') \<longleftrightarrow> ne_send env msg = Inr () \<and> s' = s\<lparr>cn_sent := cn_sent s @ [msg]\<rparr>"
  "tag_consensus env keys s = Some (Inr x, s') \<longleftrightarrow>
     (\<exists>ids. res_collect (ne_peer_id env) keys = Inr ids \<and> s' = s\<lparr>cn_consensus_peers := ids\<rparr>)"
  "status_update f s = Some (Inr x, s') \<longleftrightarrow> (\<exists>st. f (cn_status s) = Inr st \<and> s' = s\<lparr>cn_status := st\<rparr>)"
  "flush_mempool env hashes s = Some (Inr x, s') \<longleftrightarrow>
     (\<exists>mp. mempool_flush (ne_queue env) (pool_env env s) hashes (cn_mempool s) = Some (Inr mp) \<and> s' = s\<lparr>cn_mempool := mp\<rparr>)"
  by (auto simp: adapter_send_def tag_consensus_def status_update_def flush_mempool_def act_update_Inr res_map_def
      split: sum.splits option.splits failure.splits)

lemma on_storage_Inr: "on_storage f s = Some (Inr x, s') \<longleftrightarrow> (\<exists>st. f (cn_storage s) = Inr st \<and> s' = s\<lparr>cn_storage := st\<rparr>)"
  by (auto simp: on_storage_def act_update_Inr res_map_def split: sum.splits)

text \<open>The invariant of the mempool's cache, which everything but the mempool leaves alone.\<close>

definition pool_inv :: "('q \<Rightarrow> nat list) \<Rightarrow> ('q \<Rightarrow> nat) \<Rightarrow> nat \<Rightarrow> ('db, 'q) node \<Rightarrow> bool" where
  "pool_inv items cap n s \<longleftrightarrow> cache_inv items cap n (mp_tx_cache (cn_mempool s))"

lemma pool_inv_simps [simp]:
  "pool_inv items cap n (s\<lparr>cn_status := a\<rparr>) = pool_inv items cap n s"
  "pool_inv items cap n (s\<lparr>cn_exemption_hash := b\<rparr>) = pool_inv items cap n s"
  "pool_inv items cap n (s\<lparr>cn_storage := d\<rparr>) = pool_inv items cap n s"
  "pool_inv items cap n (s\<lparr>cn_txs_wal := e\<rparr>) = pool_inv items cap n s"
  "pool_inv items cap n (s\<lparr>cn_crypto := f\<rparr>) = pool_inv items cap n s"
  "pool_inv items cap n (s\<lparr>cn_fail_reason := g\<rparr>) = pool_inv items cap n s"
  "pool_inv items cap n (s\<lparr>cn_exec_queue := h\<rparr>) = pool_inv items cap n s"
  "pool_inv items cap n (s\<lparr>cn_sent := i\<rparr>) = pool_inv items cap n s"
  "pool_inv items cap n (s\<lparr>cn_overlord := l\<rparr>) = pool_inv items cap n s"
  "pool_inv items cap n (s\<lparr>cn_consensus_peers := j\<rparr>) = pool_inv items cap n s"
  "pool_inv items cap n (s\<lparr>cn_reports := k\<rparr>) = pool_inv items cap n s"
  "pool_inv items cap n (s\<lparr>cn_rpc_calls := x\<rparr>) = pool_inv items cap n s"
  "pool_inv items cap n (s\<lparr>cn_locked := y\<rparr>) = pool_inv items cap n s"
  "pool_inv items cap n (s\<lparr>cn_syncing := z\<rparr>) = pool_inv items cap n s"
  "pool_inv items cap n (s\<lparr>cn_mempool := mp\<rparr>) = cache_inv items cap n (mp_tx_cache mp)"
  by (simp_all add: pool_inv_def)

lemma returns_adapter [returns_rules]:
  "returns (pool_inv items cap n) (on_storage f)"
  "returns (pool_inv items cap n) (save_block env blk)"
  "returns (pool_inv items cap n) (save_proof env pf)"
  "returns (pool_inv items cap n) (save_signed_txs env height txs)"
  "returns (pool_inv items cap n) (save_receipts env height receipts)"
  "returns (pool_inv items cap n) (adapter_send env msg)"
  "returns (pool_inv items cap n) (broadcast_height env height)"
  "returns (pool_inv items cap n) (tag_consensus env pub_keys)"
  "returns (pool_inv items cap n) (status_update g)"
  "returns (pool_inv items cap n) (node_set_args gap cycles tx_size)"
  "returns (pool_inv items cap n) (node_get_metadata env root height time proposer)"
  "returns (pool_inv items cap n) (adapter_get_full_txs env hashes)"
  "returns (pool_inv items cap n) (adapter_execute room info)"
  by (auto simp: on_storage_def save_block_def save_proof_def save_signed_txs_def save_receipts_def adapter_send_def
      broadcast_height_def tag_consensus_def status_update_def node_set_args_def node_get_metadata_def mempool_set_args_def
      adapter_get_full_txs_def adapter_execute_def res_map_def outer_def pool_inv_def
      intro!: returns_update returns_modify returns_basic split: sum.splits failure.splits queue_room.split)

lemma insert_tx_inv:
  assumes "queue_lawful ops items cap" "cache_inv items cap n (mp_tx_cache mp)"
  shows "cache_inv items cap n (mp_tx_cache (snd (insert_tx ops env origin tx t mp)))"
proof -
  obtain r c where c: "tx_cache_insert ops (tw_hash (wrap t tx)) (wrap t tx) (mp_tx_cache mp) = (r, c)" by fastforce
  then have "cache_inv items cap n c" using insert_refines [OF assms _ c] by simp
  with assms(2) c show ?thesis
    by (auto simp: insert_tx_def insert_wrap Let_def split: sum.split prod.split)
qed

lemma mempool_flush_inv:
  assumes "queue_lawful ops items cap" "cache_inv items cap n (mp_tx_cache mp)"
  obtains r where "mempool_flush ops env hashes mp = Some r" "\<And>mp'. r = Inr mp' \<Longrightarrow> cache_inv items cap n (mp_tx_cache mp')"
proof (cases "get_latest_height env")
  case (Inr h)
  obtain c where "tx_cache_flush ops hashes h (h + mp_timeout_gap mp) (mp_tx_cache mp) = Some (Inr c)" "cache_inv items cap n c"
    using flush_refines [OF assms] by blast
  with Inr that show ?thesis by (simp add: mempool_flush_def)
qed (use that in \<open>simp add: mempool_flush_def\<close>)

lemma mempool_package_inv:
  assumes "queue_lawful ops items cap" "cache_inv items cap n (mp_tx_cache mp)" "n < 2 ^ 64"
  obtains r where "mempool_package ops env cycles num mp = Some r"
    "\<And>x mp'. r = Inr (x, mp') \<Longrightarrow> cache_inv items cap n (mp_tx_cache mp')"
proof (cases "get_latest_height env")
  case (Inr h)
  obtain x c where "tx_cache_package ops num h (h + mp_timeout_gap mp) (mp_tx_cache mp) = Some (Inr (x, c))"
    "cache_inv items cap n c"
    using package_refines [OF assms] by blast
  with Inr that show ?thesis by (simp add: mempool_package_def)
qed (use that in \<open>simp add: mempool_package_def\<close>)

lemma ensure_order_txs_cache: "mp_tx_cache (snd (ensure_order_txs env origin height hashes mp)) = mp_tx_cache mp"
  by (simp add: ensure_order_txs_def Let_def split: sum.split prod.split)

lemma sync_propose_txs_inv:
  assumes "queue_lawful ops items cap" "cache_inv items cap n (mp_tx_cache mp)"
  shows "cache_inv items cap n (mp_tx_cache (snd (sync_propose_txs ops env origin hashes mp)))"
proof -
  have "cache_inv items cap n (mp_tx_cache (fold (\<lambda>tx mp. snd (insert_tx ops env origin tx ProposeTx mp)) txs mp))" for txs
    using assms(2) by (induction txs arbitrary: mp) (simp_all add: insert_tx_inv [OF assms(1)])
  with assms(2) show ?thesis by (simp add: sync_propose_txs_def Let_def split: sum.split)
qed

lemma returns_pool [returns_rules]:
  fixes env :: "('db, 'q) node_env"
  assumes "queue_lawful (ne_queue env) items cap"
  shows "returns (pool_inv items cap n) (flush_mempool env hashes)"
    and "n < 2 ^ 64 \<Longrightarrow> returns (pool_inv items cap n) (get_txs_from_mempool env cycles num)"
    and "returns (pool_inv items cap n) (adapter_sync_txs env hashes)"
    and "returns (pool_inv items cap n) (verify_txs env height hashes)"
proof -
  show "returns (pool_inv items cap n) (flush_mempool env hashes)"
  proof (rule returnsI)
    fix s :: "('db, 'q) node" assume inv: "pool_inv items cap n s"
    from mempool_flush_inv [OF assms inv [unfolded pool_inv_def]]
    obtain r where "mempool_flush (ne_queue env) (pool_env env s) hashes (cn_mempool s) = Some r"
      "\<And>mp'. r = Inr mp' \<Longrightarrow> cache_inv items cap n (mp_tx_cache mp')" by blast
    with inv show "\<exists>r s'. flush_mempool env hashes s = Some (r, s') \<and> pool_inv items cap n s'"
      by (simp add: flush_mempool_def split: sum.split failure.split)
  qed
  show "returns (pool_inv items cap n) (get_txs_from_mempool env cycles num)" if n: "n < 2 ^ 64"
  proof (rule returnsI)
    fix s :: "('db, 'q) node" assume inv: "pool_inv items cap n s"
    from mempool_package_inv [OF assms inv [unfolded pool_inv_def] n]
    obtain r where "mempool_package (ne_queue env) (pool_env env s) cycles num (cn_mempool s) = Some r"
      "\<And>x mp'. r = Inr (x, mp') \<Longrightarrow> cache_inv items cap n (mp_tx_cache mp')" by blast
    with inv show "\<exists>r s'. get_txs_from_mempool env cycles num s = Some (r, s') \<and> pool_inv items cap n s'"
      by (simp add: get_txs_from_mempool_def split: sum.split failure.split prod.split)
  qed
  show "returns (pool_inv items cap n) (adapter_sync_txs env hashes)"
    by (rule returnsI) (use sync_propose_txs_inv [OF assms] in \<open>simp add: adapter_sync_txs_def pool_inv_def split_beta\<close>)
  show "returns (pool_inv items cap n) (verify_txs env height hashes)"
  proof (rule returnsI)
    fix s :: "('db, 'q) node" assume inv: "pool_inv items cap n s"
    obtain r mp where "ensure_order_txs (pool_env env s) False (Some height) hashes (cn_mempool s) = (r, mp)" by fastforce
    moreover from this have "mp_tx_cache mp = mp_tx_cache (cn_mempool s)"
      using ensure_order_txs_cache [of "pool_env env s" False "Some height" hashes "cn_mempool s"] by simp
    ultimately show "\<exists>r s'. verify_txs env height hashes s = Some (r, s') \<and> pool_inv items cap n s'"
      using inv by (simp add: verify_txs_def pool_inv_def split: sum.split failure.split)
  qed
qed

end
