(* ===== verification/Consensus_Engine.thy ===== *)
theory Consensus_Engine
  imports Consensus_Node
begin

text \<open>
  The engine that overlord drives, \<^verbatim>\<open>core/consensus/src/engine.rs\<close>: building, checking and committing blocks,
  sending its messages and reporting its errors. Every operation is an action on the node. The wait between two
  attempts is where the execution thread publishes results (\<^verbatim>\<open>ne_executed\<close>) and frees its queue (\<^verbatim>\<open>ne_room\<close>).

  The lemmas show what a committed block leaves in the status, the storage, the mempool and the log, when a
  commit returns at all, and that blocks with root lists of different lengths pass the check and make
  the commit panic.
\<close>

section \<open>Constants and messages\<close>

definition RETRY_CHECK_ROOT_LIMIT :: nat where
  "RETRY_CHECK_ROOT_LIMIT = 15"

record overlord_commit =
  oc_content :: pill
  oc_proof_height :: u64
  oc_proof_round :: u64
  oc_proof_block_hash :: bytes
  oc_proof_signature :: bytes
  oc_proof_bitmap :: bytes

datatype overlord_error = OverlordCryptoErr string | OverlordAggregatedSignatureErr string | OverlordOtherErr string

definition covert_to_overlord_authority :: "('db, 'q) node_env \<Rightarrow> validator list \<Rightarrow> overlord_node list" where
  "covert_to_overlord_authority env validators =
     ne_sort_nodes env (map (\<lambda>v. \<lparr>nd_address = va_pub_key v, nd_propose_weight = va_propose_weight v,
       nd_vote_weight = va_vote_weight v\<rparr>) validators)"

definition validate_timestamp :: "u64 \<Rightarrow> u64 \<Rightarrow> u64 \<Rightarrow> bool" where
  "validate_timestamp current_timestamp proposal_timestamp previous_timestamp \<longleftrightarrow>
     \<not> proposal_timestamp < previous_timestamp \<and> \<not> proposal_timestamp > current_timestamp"

definition status_for :: "('db, 'q) node_env \<Rightarrow> u64 \<Rightarrow> consensus_status \<Rightarrow> overlord_status" where
  "status_for env current_height st =
     \<lparr>os_height = current_height + 1, os_interval = cs_consensus_interval st, os_propose_ratio = cs_propose_ratio st,
      os_prevote_ratio = cs_prevote_ratio st, os_precommit_ratio = cs_precommit_ratio st,
      os_brake_ratio = cs_brake_ratio st, os_authority_list = covert_to_overlord_authority env (cs_validators st)\<rparr>"

abbreviation node_digest :: "('db, 'q) node_env \<Rightarrow> bytes \<Rightarrow> hash" where
  "node_digest env b \<equiv> hash_digest (ce_digest (ne_consensus env)) b"

definition order_root_of :: "('db, 'q) node_env \<Rightarrow> hash list \<Rightarrow> hash" where
  "order_root_of env hashes =
     (case merkle_root (ne_tree_root env) (ce_digest (ne_consensus env)) hashes of
        Some h \<Rightarrow> h | None \<Rightarrow> hash_from_empty (ce_digest (ne_consensus env)))"

definition digest_txs :: "('db, 'q) node_env \<Rightarrow> signed_transaction list \<Rightarrow> (consensus_error, hash) result" where
  "digest_txs env txs = digest_signed_transactions (ce_digest (ne_consensus env)) (ne_encode_stx env) txs"

section \<open>Proposing\<close>

definition engine_get_block :: "('db, 'q) node_env \<Rightarrow> u64 \<Rightarrow> (('db, 'q) node, pill \<times> bytes) action" where
  "engine_get_block env next_height =
     act_bind (act_get cn_status) (\<lambda>st.
     act_bind (get_txs_from_mempool env (cs_cycles_limit st) (cs_tx_num_limit st)) (\<lambda>mixed.
     act_bind (adapter_get_full_txs env (order_tx_hashes mixed)) (\<lambda>signed_txs.
     act_bind (act_read (\<lambda>_. digest_txs env signed_txs)) (\<lambda>order_signed_transactions_hash.
       if cs_latest_committed_height st \<noteq> next_height - 1
       then act_fail (Err (MissingBlockHeader (cs_latest_committed_height st)))
       else
         (let header =
            \<lparr>hdr_chain_id = ne_chain_id env, hdr_height = next_height, hdr_exec_height = cs_exec_height st,
             hdr_prev_hash = cs_current_hash st, hdr_timestamp = ne_now env,
             hdr_order_root = order_root_of env (order_tx_hashes mixed),
             hdr_order_signed_transactions_hash = order_signed_transactions_hash,
             hdr_confirm_root = cs_list_confirm_root st, hdr_state_root = get_latest_state_root st,
             hdr_receipt_root = cs_list_receipt_root st, hdr_cycles_used = cs_list_cycles_used st,
             hdr_proposer = ne_self_address env, hdr_proof = cs_current_proof st, hdr_validator_version = 0,
             hdr_validators = cs_validators st\<rparr>;
            blk = \<lparr>blk_header = header, blk_ordered_tx_hashes = order_tx_hashes mixed\<rparr> in
          act_bind (act_read (\<lambda>_. ce_encode_header (ne_consensus env) header)) (\<lambda>b.
            (let h = hash_bytes (node_digest env b) in
             act_bind (act_modify (\<lambda>s. s\<lparr>cn_exemption_hash := List.insert h (cn_exemption_hash s)\<rparr>)) (\<lambda>_.
             act_return (\<lparr>pill_block = blk, pill_propose_hashes = propose_tx_hashes mixed\<rparr>, h)))))))))"

section \<open>Checking\<close>

definition check_block_roots :: "consensus_status \<Rightarrow> block_header \<Rightarrow> (consensus_error, unit) result" where
  "check_block_roots st h =
     (if cs_current_hash st \<noteq> hdr_prev_hash h then Inl (Err (InvalidPrevhash (cs_current_hash st) (hdr_prev_hash h)))
      else if cs_latest_committed_state_root st \<noteq> hdr_state_root h \<and> hdr_state_root h \<notin> set (cs_list_state_root st)
      then Inl (Err InvalidStatusVec)
      else if \<not> check_list_roots (cs_list_confirm_root st) (hdr_confirm_root h) then Inl (Err InvalidStatusVec)
      else if \<not> check_list_roots (cs_list_receipt_root st) (hdr_receipt_root h) then Inl (Err InvalidStatusVec)
      else if \<not> check_list_roots (cs_list_cycles_used st) (hdr_cycles_used h) then Inl (Err InvalidStatusVec)
      else Inr ())"

definition check_order_transactions ::
    "('db, 'q) node_env \<Rightarrow> block \<Rightarrow> signed_transaction list \<Rightarrow> (consensus_error, unit) result" where
  "check_order_transactions env blk signed_txs =
     (let order_root = order_root_of env (blk_ordered_tx_hashes blk); h = blk_header blk in
      if order_root \<noteq> hdr_order_root h then Inl (Err (InvalidOrderRoot order_root (hdr_order_root h)))
      else
        res_bind (digest_txs env signed_txs) (\<lambda>hash.
          if hash \<noteq> hdr_order_signed_transactions_hash h
          then Inl (Err (InvalidOrderSignedTransactionsHash hash (hdr_order_signed_transactions_hash h)))
          else Inr ()))"

text \<open>The results the execution thread publishes while the engine waits; a panic there leaves the status as it is.\<close>

definition status_wait :: "('db, 'q) node_env \<Rightarrow> nat \<Rightarrow> ('db, 'q) node \<Rightarrow> ('db, 'q) node" where
  "status_wait env i s =
     s\<lparr>cn_status := fold (\<lambda>info st. case update_by_executed info st of Inr st' \<Rightarrow> st' | Inl _ \<Rightarrow> st)
       (ne_executed env i) (cn_status s)\<rparr>"

function check_roots_loop :: "('db, 'q) node_env \<Rightarrow> block_header \<Rightarrow> nat \<Rightarrow> (('db, 'q) node, unit) action" where
  "check_roots_loop env h check_retry s =
     (case check_block_roots (cn_status s) h of
        Inr _ \<Rightarrow> Some (Inr (), s)
      | Inl e \<Rightarrow>
          (if check_retry \<ge> RETRY_CHECK_ROOT_LIMIT then Some (Inl e, s)
           else check_roots_loop env h (Suc check_retry) (status_wait env check_retry s)))"
  by pat_completeness auto
termination by (relation "measure (\<lambda>(env, h, r, s). RETRY_CHECK_ROOT_LIMIT - r)") auto

declare check_roots_loop.simps [simp del]

definition inner_check_block :: "('db, 'q) node_env \<Rightarrow> block \<Rightarrow> (('db, 'q) node, unit) action" where
  "inner_check_block env blk =
     (let h = blk_header blk in
      act_bind (act_read (\<lambda>s. verify_block_header (verify_env env s) blk)) (\<lambda>_.
      act_bind (act_read (\<lambda>s. get_block_header_by_height (verify_env env s) (hdr_height h - 1))) (\<lambda>previous.
        if \<not> validate_timestamp (ne_now env) (hdr_timestamp h) (hdr_timestamp previous)
        then act_fail (Err InvalidTimestamp)
        else
          act_bind (act_read (\<lambda>s. verify_proof (verify_env env s) previous (hdr_proof h))) (\<lambda>_.
          act_bind (verify_txs env (hdr_height h) (blk_ordered_tx_hashes blk)) (\<lambda>_.
          act_bind (check_roots_loop env h 0) (\<lambda>_.
          act_bind (adapter_get_full_txs env (blk_ordered_tx_hashes blk)) (\<lambda>signed_txs.
          act_read (\<lambda>_. check_order_transactions env blk signed_txs))))))))"

text \<open>
  A block that this node proposed is not checked again. The task that pulls the proposed transactions is run at
  the point where it is spawned; its errors are logged only.
\<close>

definition wal_save_action ::
    "('db, 'q) node_env \<Rightarrow> u64 \<Rightarrow> hash \<Rightarrow> signed_transaction list \<Rightarrow> (('db, 'q) node, unit) action" where
  "wal_save_action env height h txs s =
     (case wal_save (ne_hex_encode env) (ne_txs_codec env) height h txs (cn_txs_wal s) of
        (r, w) \<Rightarrow> Some (r, s\<lparr>cn_txs_wal := w\<rparr>))"

definition engine_check_block :: "('db, 'q) node_env \<Rightarrow> u64 \<Rightarrow> bytes \<Rightarrow> pill \<Rightarrow> (('db, 'q) node, unit) action" where
  "engine_check_block env next_height h p =
     (let blk = pill_block p in
      act_bind (act_get (\<lambda>s. h \<in> set (cn_exemption_hash s))) (\<lambda>exemption.
      act_bind
        (if exemption then act_return ()
         else
           (\<lambda>s. case inner_check_block env blk s of
                  None \<Rightarrow> None
                | Some (Inl (Err e), s') \<Rightarrow> Some (Inl (Err e), s'\<lparr>cn_fail_reason := ne_error_string env e\<rparr>)
                | Some (Inl Panic, s') \<Rightarrow> Some (Inl Panic, s')
                | Some (Inr _, s') \<Rightarrow>
                    (case adapter_sync_txs env (pill_propose_hashes p) s' of
                       None \<Rightarrow> None
                     | Some (_, s'') \<Rightarrow> Some (Inr (), s'')))) (\<lambda>_.
      act_bind (adapter_get_full_txs env (blk_ordered_tx_hashes blk)) (\<lambda>txs.
      wal_save_action env next_height (hdr_order_signed_transactions_hash (blk_header blk)) txs))))"

section \<open>Committing\<close>

text \<open>\<^verbatim>\<open>ConsensusEngine::exec\<close>.\<close>

definition engine_exec ::
    "('db, 'q) node_env \<Rightarrow> queue_room \<Rightarrow> hash \<Rightarrow> u64 \<Rightarrow> address \<Rightarrow> u64 \<Rightarrow> hash \<Rightarrow> signed_transaction list \<Rightarrow>
     (('db, 'q) node, unit) action" where
  "engine_exec env room order_root height proposer timestamp block_hash txs =
     act_bind (act_get cn_status) (\<lambda>st.
       adapter_execute room
         \<lparr>xi_height = height, xi_chain_id = ne_chain_id env, xi_block_hash = block_hash, xi_signed_txs = txs,
          xi_order_root = order_root, xi_cycles_price = cs_cycles_price st, xi_proposer = proposer,
          xi_timestamp = timestamp, xi_cycles_limit = cs_cycles_limit st\<rparr>)"

text \<open>The loop that waits until the queue of the execution thread takes the block.\<close>

partial_function (option) exec_loop ::
    "('db, 'q) node_env \<Rightarrow> (queue_room \<Rightarrow> (('db, 'q) node, unit) action) \<Rightarrow> nat \<Rightarrow> ('db, 'q) node \<Rightarrow>
     ((consensus_error, unit) result \<times> ('db, 'q) node) option" where
  "exec_loop env attempt i s =
     (case attempt (ne_room env i) s of
        None \<Rightarrow> None
      | Some (Inr _, s') \<Rightarrow> Some (Inr (), s')
      | Some (Inl Panic, s') \<Rightarrow> Some (Inl Panic, s')
      | Some (Inl (Err _), s') \<Rightarrow> exec_loop env attempt (Suc i) (status_wait env i s'))"

definition update_overlord_crypto :: "('db, 'q) node_env \<Rightarrow> metadata \<Rightarrow> (('db, 'q) node, unit) action" where
  "update_overlord_crypto env md =
     act_update (\<lambda>s. res_map (\<lambda>m. s\<lparr>cn_crypto := crypto_update m (cn_crypto s)\<rparr>) (generate_new_crypto_map (ne_consensus env) md))"

definition engine_update_status ::
    "('db, 'q) node_env \<Rightarrow> metadata \<Rightarrow> block \<Rightarrow> block_proof \<Rightarrow> signed_transaction list \<Rightarrow> (('db, 'q) node, unit) action" where
  "engine_update_status env md blk pf txs =
     act_bind (save_signed_txs env (hdr_height (blk_header blk)) txs) (\<lambda>_.
     act_bind (save_block env blk) (\<lambda>_.
     act_bind (node_set_args (md_timeout_gap md) (md_cycles_limit md) (md_max_tx_size md)) (\<lambda>_.
     act_bind (tag_consensus env (map (\<lambda>v. ce_hex_decode (ne_consensus env) (ve_pub_key v)) (md_verifier_list md))) (\<lambda>_.
     act_bind (act_read (\<lambda>_. ce_encode_header (ne_consensus env) (blk_header blk))) (\<lambda>b.
     act_bind (status_update (update_by_committed (ce_hex_decode (ne_consensus env)) md blk (node_digest env b) pf)) (\<lambda>_.
     update_overlord_crypto env md))))))"

definition wal_remove_action :: "u64 \<Rightarrow> (('db, 'q) node, unit) action" where
  "wal_remove_action height s = (case wal_remove height (cn_txs_wal s) of (r, w) \<Rightarrow> Some (r, s\<lparr>cn_txs_wal := w\<rparr>))"

text \<open>The transactions of a committed block: from the mempool, or from the log when that fails.\<close>

definition committed_txs :: "('db, 'q) node_env \<Rightarrow> u64 \<Rightarrow> block \<Rightarrow> (('db, 'q) node, signed_transaction list) action" where
  "committed_txs env current_height blk s =
     (case adapter_get_full_txs env (blk_ordered_tx_hashes blk) s of
        None \<Rightarrow> None
      | Some (Inl (Err _), s') \<Rightarrow>
          Some (wal_load (ne_hex_encode env) (ne_txs_codec env) current_height
            (hdr_order_signed_transactions_hash (blk_header blk)) (cn_txs_wal s'), s')
      | Some (r, s') \<Rightarrow> Some (r, s'))"

definition proof_of_commit :: "overlord_commit \<Rightarrow> hash \<Rightarrow> block_proof" where
  "proof_of_commit c block_hash =
     \<lparr>pf_height = oc_proof_height c, pf_round = oc_proof_round c, pf_block_hash = block_hash,
      pf_signature = oc_proof_signature c, pf_bitmap = oc_proof_bitmap c\<rparr>"

definition engine_commit :: "('db, 'q) node_env \<Rightarrow> u64 \<Rightarrow> overlord_commit \<Rightarrow> (('db, 'q) node, overlord_status) action" where
  "engine_commit env current_height c =
     act_bind (act_get cn_locked) (\<lambda>locked.
       if locked then act_fail (Err LockInSync)
       else
         act_bind (act_get cn_status) (\<lambda>st.
           if cs_exec_height st = current_height then act_return (status_for env current_height st)
           else if current_height \<noteq> cs_latest_committed_height st + 1
           then act_fail (Err (OutdatedCommit current_height (cs_latest_committed_height st)))
           else
             (let blk = pill_block (oc_content c); h = blk_header blk in
              act_bind (act_read (\<lambda>_. outer ''types'' (hash_from_bytes (oc_proof_block_hash c)))) (\<lambda>block_hash.
              (let pf = proof_of_commit c block_hash in
              act_bind (save_proof env pf) (\<lambda>_.
              act_bind (committed_txs env current_height blk) (\<lambda>signed_txs.
              act_bind (act_read (\<lambda>_. ce_encode_header (ne_consensus env) h)) (\<lambda>b.
              act_bind (exec_loop env (\<lambda>room. engine_exec env room (hdr_order_root h) current_height (hdr_proposer h)
                  (hdr_timestamp h) (node_digest env b) signed_txs) 0) (\<lambda>_.
              act_bind (node_get_metadata env (hdr_state_root h) (hdr_height h) (hdr_timestamp h) (hdr_proposer h)) (\<lambda>md.
              act_bind (engine_update_status env md blk pf signed_txs) (\<lambda>_.
              act_bind (flush_mempool env (blk_ordered_tx_hashes blk)) (\<lambda>_.
              act_bind (broadcast_height env current_height) (\<lambda>_.
              act_bind (wal_remove_action (hdr_exec_height h)) (\<lambda>_.
              act_bind (act_modify (\<lambda>s. s\<lparr>cn_exemption_hash := []\<rparr>)) (\<lambda>_.
              act_bind (act_get cn_status) (\<lambda>st.
              act_return (status_for env current_height st)))))))))))))))))"

section \<open>Messages and reports\<close>

definition broadcast_to_other :: "('db, 'q) node_env \<Rightarrow> overlord_msg \<Rightarrow> (('db, 'q) node, unit) action" where
  "broadcast_to_other env msg =
     (case msg of
        MsgSignedProposal b \<Rightarrow> adapter_transmit env b ''/gossip/consensus/signed_proposal'' TargetBroadcast
      | MsgAggregatedVote b \<Rightarrow> adapter_transmit env b ''/gossip/consensus/qc'' TargetBroadcast
      | MsgSignedChoke b \<Rightarrow> adapter_transmit env b ''/gossip/consensus/signed_choke'' TargetBroadcast
      | _ \<Rightarrow> act_fail Panic)"

definition transmit_to_relayer :: "('db, 'q) node_env \<Rightarrow> bytes \<Rightarrow> overlord_msg \<Rightarrow> (('db, 'q) node, unit) action" where
  "transmit_to_relayer env pub_key msg =
     (case msg of
        MsgSignedVote b \<Rightarrow> adapter_transmit env b ''/gossip/consensus/signed_vote'' (TargetSpecified pub_key)
      | MsgAggregatedVote b \<Rightarrow> adapter_transmit env b ''/gossip/consensus/qc'' (TargetSpecified pub_key)
      | _ \<Rightarrow> act_fail Panic)"

text \<open>The source passes the timestamp as the height and the height as the timestamp.\<close>

definition get_authority_list :: "('db, 'q) node_env \<Rightarrow> u64 \<Rightarrow> (('db, 'q) node, overlord_node list) action" where
  "get_authority_list env next_height =
     (if next_height = 0 then act_return []
      else
        act_bind (act_read (\<lambda>s. get_block_header_by_height (verify_env env s) (next_height - 1))) (\<lambda>h.
        act_bind (node_get_metadata env (hdr_state_root h) (hdr_timestamp h) (hdr_height h) (hdr_proposer h)) (\<lambda>md.
        act_return (ne_sort_nodes env (map (node_of (ne_consensus env)) (md_verifier_list md))))))"

definition report_error :: "overlord_error \<Rightarrow> (('db, 'q) node, unit) action" where
  "report_error err =
     (case err of
        OverlordCryptoErr m \<Rightarrow> report_bad (Worse m)
      | OverlordAggregatedSignatureErr m \<Rightarrow> report_bad (Worse m)
      | OverlordOtherErr _ \<Rightarrow> act_return ())"

section \<open>When the engine returns\<close>

definition exec_info ::
    "('db, 'q) node_env \<Rightarrow> hash \<Rightarrow> u64 \<Rightarrow> address \<Rightarrow> u64 \<Rightarrow> hash \<Rightarrow> signed_transaction list \<Rightarrow> consensus_status \<Rightarrow> execute_info" where
  "exec_info env order_root height proposer timestamp block_hash txs st =
     \<lparr>xi_height = height, xi_chain_id = ne_chain_id env, xi_block_hash = block_hash, xi_signed_txs = txs,
      xi_order_root = order_root, xi_cycles_price = cs_cycles_price st, xi_proposer = proposer,
      xi_timestamp = timestamp, xi_cycles_limit = cs_cycles_limit st\<rparr>"

lemma engine_exec_room:
  "engine_exec env room order_root height proposer timestamp block_hash txs s =
     (case room of
        Room \<Rightarrow> Some (Inr (), s\<lparr>cn_exec_queue := cn_exec_queue s @
          [exec_info env order_root height proposer timestamp block_hash txs (cn_status s)]\<rparr>)
      | Full \<Rightarrow> Some (Inl (Err (ExecuteErr ''full'')), s)
      | Closed \<Rightarrow> Some (Inl Panic, s))"
  by (cases room) (simp_all add: engine_exec_def adapter_execute_def exec_info_def act_modify_def act_fail_def)

lemma exec_loop_returns:
  assumes "I s" "i \<le> j" "ne_room env j \<noteq> Full"
    and attempt: "\<And>room s. I s \<Longrightarrow> \<exists>r s'. attempt room s = Some (r, s') \<and> I s' \<and> (room \<noteq> Full \<longrightarrow> (\<forall>e. r \<noteq> Inl (Err e)))"
    and wait: "\<And>i s. I s \<Longrightarrow> I (status_wait env i s)"
  shows "\<exists>r s'. exec_loop env attempt i s = Some (r, s') \<and> I s'"
  using assms(1,2)
proof (induction "j - i" arbitrary: i s)
  case 0
  then have "i = j" by simp
  with attempt [OF 0(2), of "ne_room env i"] assms(3) show ?case
    by (subst exec_loop.simps) (auto split: sum.split failure.split)
next
  case (Suc d)
  obtain r s' where r: "attempt (ne_room env i) s = Some (r, s')" "I s'" using attempt [OF Suc.prems(1)] by blast
  have "\<exists>r s''. exec_loop env attempt (Suc i) (status_wait env i s') = Some (r, s'') \<and> I s''"
    using Suc.hyps(2) Suc.prems by (intro Suc.hyps(1) wait r(2)) auto
  with r show ?case by (subst exec_loop.simps) (auto split: sum.split failure.split)
qed

lemma exec_loop_full:
  assumes "\<And>i. ne_room env i = Full" "\<And>s. attempt Full s = Some (Inl (Err e), s)"
  shows "exec_loop env attempt i s = None"
proof (rule ccontr)
  assume "exec_loop env attempt i s \<noteq> None"
  then obtain y where y: "exec_loop env attempt i s = Some y" by blast
  have "\<not> ((\<forall>i. ne_room env i = Full) \<and> (\<forall>s. attempt Full s = Some (Inl (Err e), s)))"
  proof (rule exec_loop.raw_induct [OF _ y])
    fix loop and env :: "('a, 'b) node_env" and attempt i s y
    assume ih: "\<And>env attempt i s y. loop env attempt i s = Some y \<Longrightarrow>
        \<not> ((\<forall>i. ne_room env i = Full) \<and> (\<forall>s. attempt Full s = Some (Inl (Err e), s)))"
      and body: "(case attempt (ne_room env i) s of
          None \<Rightarrow> None
        | Some (Inl (Err _), s') \<Rightarrow> loop env attempt (Suc i) (status_wait env i s')
        | Some (Inl Panic, s') \<Rightarrow> Some (Inl Panic, s')
        | Some (Inr _, s') \<Rightarrow> Some (Inr (), s')) = Some y"
    show "\<not> ((\<forall>i. ne_room env i = Full) \<and> (\<forall>s. attempt Full s = Some (Inl (Err e), s)))"
    proof (rule notI, elim conjE)
      assume full: "\<forall>i. ne_room env i = Full" and attempt: "\<forall>s. attempt Full s = Some (Inl (Err e), s)"
      then have "loop env attempt (Suc i) (status_wait env i s) = Some y" using body by simp
      from ih [OF this] full attempt show False by blast
    qed
  qed
  with assms show False by blast
qed

lemma pool_inv_wait [simp]: "pool_inv items cap n (status_wait env i s) = pool_inv items cap n s"
  by (simp add: status_wait_def)

lemma returns_exec_loop:
  assumes "ne_room env j \<noteq> Full"
  shows "returns (pool_inv items cap n)
    (exec_loop env (\<lambda>room. engine_exec env room order_root height proposer timestamp block_hash txs) 0)"
  by (rule returnsI, rule exec_loop_returns [where j = j])
    (use assms in \<open>auto simp: engine_exec_room split: queue_room.split\<close>)

lemma returns_engine_parts [returns_rules]:
  "returns (pool_inv items cap n) (wal_save_action env height h txs)"
  "returns (pool_inv items cap n) (wal_remove_action height)"
  "returns (pool_inv items cap n) (update_overlord_crypto env md)"
  "returns (pool_inv items cap n) (act_modify (\<lambda>s. s\<lparr>cn_exemption_hash := g s\<rparr>))"
  "returns (pool_inv items cap n) (committed_txs env height blk)"
proof -
  show "returns (pool_inv items cap n) (wal_save_action env height h txs)"
    by (simp add: returns_def wal_save_action_def split_beta)
  show "returns (pool_inv items cap n) (wal_remove_action height)"
    by (simp add: returns_def wal_remove_action_def split_beta)
  show "returns (pool_inv items cap n) (update_overlord_crypto env md)"
    unfolding update_overlord_crypto_def by (rule returns_update) (auto simp: res_map_def split: sum.splits)
  show "returns (pool_inv items cap n) (act_modify (\<lambda>s. s\<lparr>cn_exemption_hash := g s\<rparr>))"
    by (rule returns_modify) simp
  show "returns (pool_inv items cap n) (committed_txs env height blk)"
    by (rule returnsI) (simp add: committed_txs_def adapter_get_full_txs_def act_read_def split: sum.split failure.split)
qed

lemma returns_check_roots [returns_rules]: "returns (pool_inv items cap n) (check_roots_loop env h i)"
proof (rule returnsI)
  fix s :: "('a, 'b) node" assume "pool_inv items cap n s"
  then show "\<exists>r s'. check_roots_loop env h i s = Some (r, s') \<and> pool_inv items cap n s'"
  proof (induction env h i s rule: check_roots_loop.induct)
    case (1 env h i s)
    then show ?case by (subst check_roots_loop.simps) (auto split: sum.split)
  qed
qed

lemma returns_update_status [returns_rules]: "returns (pool_inv items cap n) (engine_update_status env md blk pf txs)"
  unfolding engine_update_status_def by (intro returns_rules)


lemma returns_inner_check [returns_rules]:
  assumes "queue_lawful (ne_queue env) items cap"
  shows "returns (pool_inv items cap n) (inner_check_block env blk)"
  unfolding inner_check_block_def by (intro returns_rules assms)

lemma returns_get_block:
  assumes "queue_lawful (ne_queue env) items cap" "n < 2 ^ 64"
  shows "returns (pool_inv items cap n) (engine_get_block env next_height)"
  unfolding engine_get_block_def by (intro returns_rules assms)

lemma returns_checked [returns_rules]:
  assumes "returns (pool_inv items cap n) m" "returns (pool_inv items cap n) m'"
  shows "returns (pool_inv items cap n)
    (\<lambda>s. case m s of
           None \<Rightarrow> None
         | Some (Inl (Err e), s') \<Rightarrow> Some (Inl (Err e), s'\<lparr>cn_fail_reason := g e\<rparr>)
         | Some (Inl Panic, s') \<Rightarrow> Some (Inl Panic, s')
         | Some (Inr _, s') \<Rightarrow> (case m' s' of None \<Rightarrow> None | Some (_, s'') \<Rightarrow> Some (Inr (), s'')))"
proof (rule returnsI)
  fix s :: "('a, 'b) node" assume "pool_inv items cap n s"
  with assms(1) obtain r s1 where s1: "m s = Some (r, s1)" "pool_inv items cap n s1" by (rule returnsE)
  from assms(2) s1(2) obtain r' s2 where "m' s1 = Some (r', s2)" "pool_inv items cap n s2" by (rule returnsE)
  with s1 show "\<exists>r s'. (case m s of
           None \<Rightarrow> None
         | Some (Inl (Err e), s') \<Rightarrow> Some (Inl (Err e), s'\<lparr>cn_fail_reason := g e\<rparr>)
         | Some (Inl Panic, s') \<Rightarrow> Some (Inl Panic, s')
         | Some (Inr _, s') \<Rightarrow> (case m' s' of None \<Rightarrow> None | Some (_, s'') \<Rightarrow> Some (Inr (), s''))) = Some (r, s') \<and>
       pool_inv items cap n s'"
    by (simp split: sum.split failure.split)
qed

lemma returns_check_block:
  assumes "queue_lawful (ne_queue env) items cap"
  shows "returns (pool_inv items cap n) (engine_check_block env next_height h p)"
  unfolding engine_check_block_def by (intro returns_rules assms)

lemma returns_commit:
  assumes "queue_lawful (ne_queue env) items cap" "ne_room env j \<noteq> Full"
  shows "returns (pool_inv items cap n) (engine_commit env current_height c)"
  unfolding engine_commit_def by (intro returns_rules returns_exec_loop [OF assms(2)] assms(1))

lemma commit_queue_full:
  assumes "\<And>j. ne_room env j = Full" "engine_commit env current_height c s = Some (Inr st, s')"
  shows "s' = s"
proof -
  have "exec_loop env (\<lambda>room. engine_exec env room order_root height proposer timestamp block_hash txs) 0 t = None"
    for order_root height proposer timestamp block_hash txs t
    by (rule exec_loop_full) (simp_all add: assms(1) engine_exec_room)
  with assms(2) show ?thesis
    by (simp add: engine_commit_def act_bind_Inr Let_def act_fail_def act_return_def split: if_splits)
qed

text \<open>
  (C30) \<^bold>\<open>The engine returns.\<close> Over a lawful queue, from a node whose mempool cache satisfies its invariant, proposing
  and checking a block always return and keep the invariant, and committing does so if the execution thread ever frees
  its queue; the retries of the check are bounded. While the queue stays full no commit succeeds, except the one that
  finds its height executed already and changes nothing.
\<close>

theorem engine_returns:
  assumes "queue_lawful (ne_queue env) items cap" "pool_inv items cap n s" "n < 2 ^ 64"
  shows "(\<exists>r s'. engine_get_block env height s = Some (r, s') \<and> pool_inv items cap n s') \<and>
    (\<exists>r s'. engine_check_block env height h p s = Some (r, s') \<and> pool_inv items cap n s') \<and>
    ((\<exists>j. ne_room env j \<noteq> Full) \<longrightarrow> (\<exists>r s'. engine_commit env height c s = Some (r, s') \<and> pool_inv items cap n s')) \<and>
    ((\<forall>j. ne_room env j = Full) \<longrightarrow> (\<forall>st s'. engine_commit env height c s = Some (Inr st, s') \<longrightarrow> s' = s))"
proof (intro conjI impI allI)
  show "\<exists>r s'. engine_get_block env height s = Some (r, s') \<and> pool_inv items cap n s'"
    using returns_get_block [OF assms(1,3)] assms(2) unfolding returns_def by blast
  show "\<exists>r s'. engine_check_block env height h p s = Some (r, s') \<and> pool_inv items cap n s'"
    using returns_check_block [OF assms(1)] assms(2) unfolding returns_def by blast
  show "\<exists>r s'. engine_commit env height c s = Some (r, s') \<and> pool_inv items cap n s'" if "\<exists>j. ne_room env j \<noteq> Full"
    using that returns_commit [OF assms(1)] assms(2) unfolding returns_def by blast
  show "s' = s" if "\<forall>j. ne_room env j = Full" "engine_commit env height c s = Some (Inr st, s')" for st s'
    using that commit_queue_full by blast
qed


section \<open>What a commit leaves\<close>

text \<open>What the execution thread never changes of the status: the committed height and the terms of execution.\<close>

definition same_terms :: "consensus_status \<Rightarrow> consensus_status \<Rightarrow> bool" where
  "same_terms st st' \<longleftrightarrow> cs_latest_committed_height st = cs_latest_committed_height st' \<and>
     cs_cycles_price st = cs_cycles_price st' \<and> cs_cycles_limit st = cs_cycles_limit st'"

lemma same_terms_exec_info:
  "same_terms st st' \<Longrightarrow> exec_info env order_root height proposer timestamp block_hash txs st =
     exec_info env order_root height proposer timestamp block_hash txs st'"
  by (simp add: same_terms_def exec_info_def)

lemma status_wait_simps [simp]:
  "same_terms st (cn_status (status_wait env i s)) = same_terms st (cn_status s)"
  "cn_exec_queue (status_wait env i s) = cn_exec_queue s"
  "(status_wait env i s)\<lparr>cn_status := st, cn_exec_queue := q\<rparr> = s\<lparr>cn_status := st, cn_exec_queue := q\<rparr>"
proof -
  have "same_terms st (fold (\<lambda>info st. case update_by_executed info st of Inr st' \<Rightarrow> st' | Inl _ \<Rightarrow> st) infos st') =
      same_terms st st'" for infos st'
    by (induction infos arbitrary: st') (simp_all add: update_by_executed_def same_terms_def)
  then show "same_terms st (cn_status (status_wait env i s)) = same_terms st (cn_status s)"
    by (simp add: status_wait_def)
qed (simp_all add: status_wait_def)

lemma exec_loop_queued:
  assumes "exec_loop env attempt i s = Some y"
    and "\<forall>room s. attempt room s = (case room of
        Room \<Rightarrow> Some (Inr (), s\<lparr>cn_exec_queue := cn_exec_queue s @ [info (cn_status s)]\<rparr>)
      | Full \<Rightarrow> Some (Inl (Err (ExecuteErr ''full'')), s)
      | Closed \<Rightarrow> Some (Inl Panic, s))"
  shows "fst y = Inr () \<longrightarrow> (\<exists>st. same_terms st (cn_status s) \<and>
    snd y = s\<lparr>cn_status := st, cn_exec_queue := cn_exec_queue s @ [info st]\<rparr>)"
proof -
  let ?A = "\<lambda>attempt. \<forall>room s. attempt room s = (case room of
        Room \<Rightarrow> Some (Inr (), s\<lparr>cn_exec_queue := cn_exec_queue s @ [info (cn_status s)]\<rparr>)
      | Full \<Rightarrow> Some (Inl (Err (ExecuteErr ''full'')), s)
      | Closed \<Rightarrow> Some (Inl Panic, s))"
  let ?Q = "\<lambda>s y. fst y = Inr () \<longrightarrow> (\<exists>st. same_terms st (cn_status s) \<and>
      snd y = s\<lparr>cn_status := st, cn_exec_queue := cn_exec_queue s @ [info st]\<rparr>)"
  have "?A attempt \<longrightarrow> ?Q s y"
  proof (rule exec_loop.raw_induct [where P = "\<lambda>env attempt i s y. ?A attempt \<longrightarrow> ?Q s y", OF _ assms(1)], rule impI)
    fix loop and env :: "('a, 'b) node_env" and attempt i s y
    assume ih: "\<And>env attempt i s y. loop env attempt i s = Some y \<Longrightarrow> ?A attempt \<longrightarrow> ?Q s y"
      and body: "(case attempt (ne_room env i) s of
          None \<Rightarrow> None
        | Some (Inl (Err _), s') \<Rightarrow> loop env attempt (Suc i) (status_wait env i s')
        | Some (Inl Panic, s') \<Rightarrow> Some (Inl Panic, s')
        | Some (Inr _, s') \<Rightarrow> Some (Inr (), s')) = Some y"
      and attempt: "?A attempt"
    show "?Q s y"
    proof (cases "ne_room env i")
      case Room
      with body attempt have "y = (Inr (), s\<lparr>cn_exec_queue := cn_exec_queue s @ [info (cn_status s)]\<rparr>)" by simp
      then show ?thesis by (intro impI exI [of _ "cn_status s"]) (simp add: same_terms_def)
    next
      case Full
      with body attempt have "loop env attempt (Suc i) (status_wait env i s) = Some y" by simp
      from ih [OF this, THEN mp, OF attempt] show ?thesis by simp
    next
      case Closed
      with body attempt show ?thesis by auto
    qed
  qed
  with assms(2) show ?thesis by blast
qed

lemma exec_loop_success:
  assumes "exec_loop env (\<lambda>room. engine_exec env room order_root height proposer timestamp block_hash txs) i s = Some (Inr x, s')"
  obtains st where "same_terms st (cn_status s)"
    "s' = s\<lparr>cn_status := st, cn_exec_queue := cn_exec_queue s @ [exec_info env order_root height proposer timestamp block_hash txs st]\<rparr>"
  using exec_loop_queued [OF assms, of "exec_info env order_root height proposer timestamp block_hash txs"] that
  by (auto simp: engine_exec_room)


lemma update_overlord_crypto_Inr:
  "update_overlord_crypto env md s = Some (Inr x, s') \<longleftrightarrow>
     (\<exists>m. generate_new_crypto_map (ne_consensus env) md = Inr m \<and> s' = s\<lparr>cn_crypto := crypto_update m (cn_crypto s)\<rparr>)"
  by (auto simp: update_overlord_crypto_def act_update_Inr res_map_def split: sum.splits)

lemma update_status_Inr:
  assumes "engine_update_status env md blk pf txs s = Some (Inr x, s')" "ce_encode_header (ne_consensus env) (blk_header blk) = Inr b"
  obtains sto1 sto2 ids st crypto where
    "insert_transactions (ne_adapter env) (ne_codecs env) (hdr_height (blk_header blk)) txs (cn_storage s) = Inr sto1"
    "insert_block (ne_adapter env) (ne_codecs env) blk sto1 = Inr sto2"
    "update_by_committed (ce_hex_decode (ne_consensus env)) md blk (node_digest env b) pf (cn_status s) = Inr st"
    "s' = s\<lparr>cn_storage := sto2, cn_mempool := mempool_set_args (md_timeout_gap md) (md_cycles_limit md) (md_max_tx_size md) (cn_mempool s),
       cn_consensus_peers := ids, cn_status := st, cn_crypto := crypto\<rparr>"
  using assms
  by (clarsimp simp: engine_update_status_def act_Inr adapter_Inr save_signed_txs_def save_block_def on_storage_Inr
      node_set_args_def update_overlord_crypto_Inr)

lemma committed_txs_state: "committed_txs env height blk s = Some (r, s') \<Longrightarrow> s' = s"
  by (auto simp: committed_txs_def adapter_get_full_txs_def act_read_def split: sum.splits failure.splits)

text \<open>
  The transactions of a block, against the content of the storage: for every hash the cached transaction or, for want
  of one, the stored one, the cached ones first; there are none when a hash has neither.
\<close>

definition stored_tx :: "chain_maps \<Rightarrow> hash \<Rightarrow> signed_transaction option" where
  "stored_tx m h = (case cm_heights m h of None \<Rightarrow> None | Some n \<Rightarrow> cm_txs m (n, h))"

definition block_txs :: "chain_maps \<Rightarrow> 'q mempool \<Rightarrow> hash list \<Rightarrow> signed_transaction list option" where
  "block_txs m mp hs =
     (if list_all (\<lambda>h. cached_tx mp h \<noteq> None \<or> stored_tx m h \<noteq> None) hs
      then Some (List.map_filter (cached_tx mp) hs @
             List.map_filter (stored_tx m) (filter (\<lambda>h. cached_tx mp h = None) hs))
      else None)"

lemma block_txs_proof [simp]: "block_txs (m\<lparr>cm_proof := p\<rparr>) mp hs = block_txs m mp hs"
proof -
  have "stored_tx (m\<lparr>cm_proof := p\<rparr>) = stored_tx m" by (simp add: stored_tx_def fun_eq_iff split: option.split)
  then show ?thesis by (simp only: block_txs_def)
qed

lemma map_filter_length_iff:
  "length (List.map_filter f xs) \<le> length xs" "length (List.map_filter f xs) = length xs \<longleftrightarrow> list_all (\<lambda>x. f x \<noteq> None) xs"
proof -
  show le: "length (List.map_filter f xs) \<le> length xs" for xs by (simp add: map_filter_def)
  show "length (List.map_filter f xs) = length xs \<longleftrightarrow> list_all (\<lambda>x. f x \<noteq> None) xs"
  proof (induction xs)
    case (Cons x xs)
    then show ?case using le [of xs] by (cases "f x") (auto simp: map_filter_simps)
  qed (simp add: map_filter_simps)
qed

lemma get_full_txs_block:
  assumes "reads_agree (ne_adapter env) (ne_codecs env) m (cn_storage s)" "list_all (\<lambda>h. length (hash_bytes h) = 32) hs"
  shows "get_full_txs (pool_env env s) None hs mp =
    (case block_txs m mp hs of
       Some txs \<Rightarrow> Inr txs
     | None \<Rightarrow> Inl (Err (MisMatch (length hs) (length (List.map_filter (cached_tx mp) hs @
         List.map_filter (stored_tx m) (filter (\<lambda>h. cached_tx mp h = None) hs))))))"
proof -
  let ?c = "List.map_filter (cached_tx mp) hs" and ?ms = "filter (\<lambda>h. cached_tx mp h = None) hs"
  have collect: "res_collect (ae_get_tx (pool_env env s)) ks = Inr (map (stored_tx m) ks)"
    if "list_all (\<lambda>h. length (hash_bytes h) = 32) ks" for ks
    using that assms(1)
    by (induction ks) (simp_all add: pool_env_def reads_agree_def mempool_err_def stored_tx_def)
  have "list_all (\<lambda>h. length (hash_bytes h) = 32) ?ms" using assms(2) by (simp add: list_all_iff)
  note read = collect [OF this]
  have found: "List.map_filter (\<lambda>t. t) (map (stored_tx m) ks) = List.map_filter (stored_tx m) ks" for ks
    by (simp add: map_filter_def comp_def filter_map)
  have len: "length ?c + length ?ms = length hs"
    by (induction hs) (auto simp: map_filter_simps split: option.split)
  have "length (?c @ List.map_filter (stored_tx m) ?ms) = length hs \<longleftrightarrow>
      length (List.map_filter (stored_tx m) ?ms) = length ?ms" using len by auto
  also have "\<dots> \<longleftrightarrow> list_all (\<lambda>h. cached_tx mp h \<noteq> None \<or> stored_tx m h \<noteq> None) hs"
    unfolding map_filter_length_iff(2) by (auto simp: list_all_iff)
  finally have all: "length (?c @ List.map_filter (stored_tx m) ?ms) = length hs \<longleftrightarrow>
      list_all (\<lambda>h. cached_tx mp h \<noteq> None \<or> stored_tx m h \<noteq> None) hs" .
  have "get_full_txs (pool_env env s) None hs mp =
      (if length (?c @ List.map_filter (stored_tx m) ?ms) \<noteq> length hs
       then Inl (Err (MisMatch (length hs) (length (?c @ List.map_filter (stored_tx m) ?ms))))
       else Inr (?c @ List.map_filter (stored_tx m) ?ms))"
    by (cases "?ms = []")
      (simp_all add: get_full_txs_def get_full_txs_split get_transactions_from_storage_def read found map_filter_simps)
  then show ?thesis unfolding all block_txs_def by simp
qed

text \<open>The transactions a commit uses: those of the block, or what the log holds for it when one of them is missing.\<close>

definition commit_txs_ok ::
    "('db, 'q) node_env \<Rightarrow> chain_maps \<Rightarrow> u64 \<Rightarrow> block \<Rightarrow> ('db, 'q) node \<Rightarrow> signed_transaction list \<Rightarrow> bool" where
  "commit_txs_ok env m height blk s txs \<longleftrightarrow>
     (case block_txs m (cn_mempool s) (blk_ordered_tx_hashes blk) of
        Some ts \<Rightarrow> txs = ts
      | None \<Rightarrow> wal_load (ne_hex_encode env) (ne_txs_codec env) height
          (hdr_order_signed_transactions_hash (blk_header blk)) (cn_txs_wal s) = Inr txs)"

lemma committed_txs_block:
  assumes "reads_agree (ne_adapter env) (ne_codecs env) m (cn_storage s)"
    and "list_all (\<lambda>h. length (hash_bytes h) = 32) (blk_ordered_tx_hashes blk)"
    and "committed_txs env height blk s = Some (Inr txs, s')"
  shows "commit_txs_ok env m height blk s txs"
  using assms(3)
  by (auto simp: committed_txs_def adapter_get_full_txs_def act_read_def get_full_txs_block [OF assms(1,2)] outer_def
      commit_txs_ok_def split: option.splits)

lemma wal_remove_action_Inr:
  "wal_remove_action height s = Some (Inr x, s') \<longleftrightarrow> (\<exists>w. wal_remove height (cn_txs_wal s) = (Inr x, w) \<and> s' = s\<lparr>cn_txs_wal := w\<rparr>)"
  by (auto simp: wal_remove_action_def split: prod.splits)

lemma metadata_of_node: "adapter_get_metadata (verify_env env s) = adapter_get_metadata (ne_consensus env)"
  by (simp add: adapter_get_metadata_def verify_env_def fun_eq_iff split: sum.split)

lemma commit_Inr:
  assumes "engine_commit env height c s = Some (Inr os, s')" "cs_exec_height (cn_status s) \<noteq> height"
    and "blk = pill_block (oc_content c)" "h = blk_header blk"
  obtains bh sto txs b st md s2 mp w where
    "height = cs_latest_committed_height (cn_status s) + 1" "hash_from_bytes (oc_proof_block_hash c) = Inr bh"
    "update_latest_proof (ne_adapter env) (ne_codecs env) (proof_of_commit c bh) (cn_storage s) = Inr sto"
    "ce_encode_header (ne_consensus env) h = Inr b"
    "same_terms st (cn_status s)" "committed_txs env height blk (s\<lparr>cn_storage := sto\<rparr>) = Some (Inr txs, s\<lparr>cn_storage := sto\<rparr>)"
    "adapter_get_metadata (ne_consensus env) (hdr_state_root h) (hdr_height h) (hdr_timestamp h) (hdr_proposer h) = Inr md"
    "engine_update_status env md blk (proof_of_commit c bh) txs
       (s\<lparr>cn_storage := sto, cn_status := st, cn_exec_queue := cn_exec_queue s @
          [exec_info env (hdr_order_root h) height (hdr_proposer h) (hdr_timestamp h) (node_digest env b) txs st]\<rparr>) = Some (Inr (), s2)"
    "mempool_flush (ne_queue env) (pool_env env s2) (blk_ordered_tx_hashes blk) (cn_mempool s2) = Some (Inr mp)"
    "wal_remove (hdr_exec_height h) (cn_txs_wal s2) = (Inr (), w)"
    "s' = s2\<lparr>cn_mempool := mp, cn_sent := cn_sent s2 @ [GossipHeight height], cn_txs_wal := w, cn_exemption_hash := []\<rparr>"
    "os = status_for env height (cn_status s2)"
proof -
  from assms(1,2) obtain bh s1 txs b s2 md s3 where
    1: "height = cs_latest_committed_height (cn_status s) + 1" "hash_from_bytes (oc_proof_block_hash c) = Inr bh"
      "save_proof env (proof_of_commit c bh) s = Some (Inr (), s1)"
      "committed_txs env height blk s1 = Some (Inr txs, s1)" "ce_encode_header (ne_consensus env) h = Inr b"
    and 2: "exec_loop env (\<lambda>room. engine_exec env room (hdr_order_root h) height (hdr_proposer h)
        (hdr_timestamp h) (node_digest env b) txs) 0 s1 = Some (Inr (), s2)"
    and md: "adapter_get_metadata (ne_consensus env) (hdr_state_root h) (hdr_height h) (hdr_timestamp h) (hdr_proposer h) = Inr md"
    and 3: "engine_update_status env md blk (proof_of_commit c bh) txs s2 = Some (Inr (), s3)"
      "\<exists>mp w. mempool_flush (ne_queue env) (pool_env env s3) (blk_ordered_tx_hashes blk) (cn_mempool s3) = Some (Inr mp) \<and>
       wal_remove (hdr_exec_height h) (cn_txs_wal s3) = (Inr (), w) \<and>
       s' = s3\<lparr>cn_mempool := mp, cn_sent := cn_sent s3 @ [GossipHeight height], cn_txs_wal := w, cn_exemption_hash := []\<rparr> \<and>
       os = status_for env height (cn_status s3)"
    unfolding assms(3,4)
    by (clarsimp simp: engine_commit_def act_Inr adapter_Inr broadcast_height_def wal_remove_action_Inr node_get_metadata_def
        metadata_of_node Let_def split: if_splits) (metis committed_txs_state)
  from 1(3) obtain sto where sto: "update_latest_proof (ne_adapter env) (ne_codecs env) (proof_of_commit c bh) (cn_storage s) = Inr sto"
    "s1 = s\<lparr>cn_storage := sto\<rparr>"
    by (auto simp: save_proof_def on_storage_Inr)
  from 2 obtain st where "same_terms st (cn_status s1)"
    "s2 = s1\<lparr>cn_status := st, cn_exec_queue := cn_exec_queue s1 @
       [exec_info env (hdr_order_root h) height (hdr_proposer h) (hdr_timestamp h) (node_digest env b) txs st]\<rparr>"
    by (rule exec_loop_success)
  with that 1 md 3 sto show ?thesis by auto
qed


text \<open>What holds of a node between two operations: the storage represents finite maps, the cache and the log are well-formed.\<close>

definition node_inv ::
    "('db \<Rightarrow> storage_category \<Rightarrow> bytes \<rightharpoonup> bytes) \<Rightarrow> ('db \<Rightarrow> bool) \<Rightarrow> ('q \<Rightarrow> nat list) \<Rightarrow> ('q \<Rightarrow> nat) \<Rightarrow> nat \<Rightarrow>
     ('db, 'q) node_env \<Rightarrow> chain_maps \<Rightarrow> ('db, 'q) node \<Rightarrow> bool" where
  "node_inv content valid items cap n env m s \<longleftrightarrow>
     valid (st_db (cn_storage s)) \<and>
     represents (ne_codecs env) (content (st_db (cn_storage s))) (st_latest_block (cn_storage s)) m \<and>
     pool_inv items cap n s \<and> wal_wf (cn_txs_wal s)"

lemma commit_storage:
  assumes "byte_store ad content valid" "keys_lawful cs" "valid (st_db sto)" "represents cs (content (st_db sto)) (st_latest_block sto) m"
    and "list_all (op_ok cs) ops" "res_fold (storage_step ad cs) ops sto = Inr sto'"
  shows "valid (st_db sto') \<and> represents cs (content (st_db sto')) (st_latest_block sto') (fold map_step ops m) \<and>
    reads_agree ad cs (fold map_step ops m) sto'"
  using byte_store.storage_history [OF assms(1,3,4,2,5)] byte_store.represents_reads [OF assms(1) _ _ assms(2)] assms(6) by auto

lemma flush_latest:
  assumes "queue_lawful (ne_queue env) items cap" "pool_inv items cap n s"
    and "get_latest_block_header (ne_adapter env) (ne_codecs env) (cn_storage s) = Inr header"
  shows "\<exists>mp. mempool_flush (ne_queue env) (pool_env env s) hashes (cn_mempool s) = Some (Inr mp) \<and>
    cache_inv items cap n (mp_tx_cache mp) \<and>
    pool items (mp_tx_cache mp) = pool_flush hashes (hdr_height header) (hdr_height header + mp_timeout_gap (cn_mempool s))
      (pool items (mp_tx_cache (cn_mempool s)))"
proof -
  obtain c where "tx_cache_flush (ne_queue env) hashes (hdr_height header) (hdr_height header + mp_timeout_gap (cn_mempool s))
      (mp_tx_cache (cn_mempool s)) = Some (Inr c)" "cache_inv items cap n c"
    "pool items c = pool_flush hashes (hdr_height header) (hdr_height header + mp_timeout_gap (cn_mempool s))
      (pool items (mp_tx_cache (cn_mempool s)))"
    using flush_refines [OF assms(1) assms(2) [unfolded pool_inv_def]] by blast
  moreover have "get_latest_height (pool_env env s) = Inr (hdr_height header)"
    using assms(3) by (simp add: get_latest_height_def pool_env_def mempool_err_def)
  ultimately show ?thesis by (simp add: mempool_flush_def)
qed

lemma flush_after_commit:
  assumes "queue_lawful (ne_queue env) items cap" "pool_inv items cap n s"
    and "get_latest_block_header (ne_adapter env) (ne_codecs env) (cn_storage s) = Inr header"
    and "mempool_flush (ne_queue env) (pool_env env s) hashes (cn_mempool s) = Some (Inr mp)"
  shows "cache_inv items cap n (mp_tx_cache mp) \<and>
    pool items (mp_tx_cache mp) = pool_flush hashes (hdr_height header) (hdr_height header + mp_timeout_gap (cn_mempool s))
      (pool items (mp_tx_cache (cn_mempool s)))"
  using flush_latest [OF assms(1-3), of hashes] assms(4) by auto

lemma update_by_committed_Inr:
  assumes "update_by_committed decode md blk bh pf s = Inr s'"
  shows "hdr_height (blk_header blk) = cs_latest_committed_height s + 1 \<and>
    cs_latest_committed_height s' = hdr_height (blk_header blk) \<and> cs_current_hash s' = bh \<and> cs_current_proof s' = pf \<and>
    cs_latest_committed_state_root s' = hdr_state_root (blk_header blk) \<and> cs_validators s' = validators_of decode md"
  using assms
  by (auto simp: update_by_committed_def status_split_off_def set_metadata_def vec_split_off_def Let_def split: if_splits)

lemma wal_wf_remove: "wal_wf w \<Longrightarrow> wal_wf es \<Longrightarrow> wal_remove_loop n es w = (r, w') \<Longrightarrow> wal_wf w'"
proof (induction es arbitrary: w)
  case (Cons e es)
  have "wal_wf (hm_remove k w)" for k
    using Cons.prems(1) by (auto simp: wal_wf_def list_all_iff AList.delete_eq)
  with Cons show ?case by (auto simp: wal_wf_def split: option.splits if_splits wal_entry.splits)
qed simp

lemma commit_txs_of_block:
  assumes "byte_store (ne_adapter env) content valid" "keys_lawful (ne_codecs env)" "valid (st_db (cn_storage s))"
    and "represents (ne_codecs env) (content (st_db (cn_storage s))) (st_latest_block (cn_storage s)) m"
    and "update_latest_proof (ne_adapter env) (ne_codecs env) pf (cn_storage s) = Inr sto" "op_ok (ne_codecs env) (UpdateLatestProof pf)"
    and "list_all (\<lambda>h. length (hash_bytes h) = 32) (blk_ordered_tx_hashes blk)"
    and "committed_txs env height blk (s\<lparr>cn_storage := sto\<rparr>) = Some (Inr txs, s'')"
  shows "commit_txs_ok env m height blk s txs"
proof -
  have "reads_agree (ne_adapter env) (ne_codecs env) (fold map_step [UpdateLatestProof pf] m) sto"
    using commit_storage [OF assms(1-4), of "[UpdateLatestProof pf]" sto] assms(5,6) by simp
  then have "commit_txs_ok env (map_step (UpdateLatestProof pf) m) height blk (s\<lparr>cn_storage := sto\<rparr>) txs"
    using committed_txs_block [OF _ assms(7,8)] by simp
  then show ?thesis by (simp add: commit_txs_ok_def split: option.splits)
qed

lemma commit_stored:
  assumes "byte_store (ne_adapter env) content valid" "keys_lawful (ne_codecs env)"
    and law: "queue_lawful (ne_queue env) items cap" and inv: "node_inv content valid items cap n env m s"
    and ops: "list_all (op_ok (ne_codecs env)) ops" "ops = [UpdateLatestProof pf, InsertTransactions height txs, InsertBlock blk]"
    and fold: "res_fold (storage_step (ne_adapter env) (ne_codecs env)) ops (cn_storage s) = Inr (cn_storage s2)"
    and s2: "cn_mempool s2 = mempool_set_args gap cycles_limit max_tx_size (cn_mempool s)"
    and mp: "mempool_flush (ne_queue env) (pool_env env s2) hashes (cn_mempool s2) = Some (Inr mp)"
    and wal: "wal_remove e (cn_txs_wal s) = (Inr (), w)" and height: "hdr_height (blk_header blk) = height"
    and s': "cn_storage s' = cn_storage s2" "cn_mempool s' = mp" "cn_txs_wal s' = w"
  shows "reads_agree (ne_adapter env) (ne_codecs env) (fold map_step ops m) (cn_storage s') \<and>
    node_inv content valid items cap n env (fold map_step ops m) s' \<and>
    pool items (mp_tx_cache (cn_mempool s')) = pool_flush hashes height (height + gap) (pool items (mp_tx_cache (cn_mempool s)))"
proof -
  note inv' = inv [unfolded node_inv_def]
  from inv' have "valid (st_db (cn_storage s))"
    "represents (ne_codecs env) (content (st_db (cn_storage s))) (st_latest_block (cn_storage s)) m" by simp_all
  note stored = commit_storage [OF assms(1,2) this ops(1) fold]
  have "get_latest_block_header (ne_adapter env) (ne_codecs env) (cn_storage s2) = Inr (blk_header blk)"
    using stored by (simp add: reads_agree_def ops(2) Let_def)
  moreover have "pool_inv items cap n s2" using inv' by (simp add: pool_inv_def s2 mempool_set_args_def)
  ultimately have "cache_inv items cap n (mp_tx_cache mp) \<and> pool items (mp_tx_cache mp) =
      pool_flush hashes height (height + gap) (pool items (mp_tx_cache (cn_mempool s)))"
    using flush_after_commit [OF law _ _ mp] by (simp add: height s2) (simp add: mempool_set_args_def)
  moreover have "wal_wf w" using wal_wf_remove inv' wal unfolding wal_remove_def by blast
  ultimately show ?thesis using stored by (simp add: s' node_inv_def pool_inv_def)
qed

text \<open>
  (C29) \<^bold>\<open>What a commit leaves.\<close> A commit that succeeds, for a height that was not executed before, is for the next
  height and for a block of that height. Its transactions are, for every hash of the block, the transaction that the
  mempool caches under it or else the stored one, the cached ones first; if a hash has neither, they are the list that
  the log holds for the block. Afterwards the status names the block's hash, its proof, its height and the validators
  of the metadata read at the block's state; the block with these transactions, its header's fields and the cycle
  terms of the status before the commit is the last entry of the execution queue; the height was sent to the peers; the
  directories of the log up to the block's executed height are gone. Every read of the storage shows the
  previous content with the proof, these transactions and the block added, and the mempool has exactly its previous
  transactions without those of the block and those that are out of time at the new height, by the timeout gap of the
  metadata, since it reads that height from the storage the commit has just written. The invariant of the node is kept.
  The stored values are assumed to decode to themselves and the hashes to have their 32 bytes.
\<close>

theorem engine_commit_spec:
  assumes store: "byte_store (ne_adapter env) content valid" and keys: "keys_lawful (ne_codecs env)"
    and law: "queue_lawful (ne_queue env) items cap" and inv: "node_inv content valid items cap n env m s"
    and run: "engine_commit env height c s = Some (Inr os, s')" "cs_exec_height (cn_status s) \<noteq> height"
    and blk: "blk = pill_block (oc_content c)" "h = blk_header blk" "pf = proof_of_commit c (Hash (oc_proof_block_hash c))"
    and ok: "op_ok (ne_codecs env) (InsertBlock blk)" "op_ok (ne_codecs env) (UpdateLatestProof pf)"
    and hashes: "list_all (\<lambda>h. length (hash_bytes h) = 32) (blk_ordered_tx_hashes blk)"
  shows "hdr_height h = height \<and> height = cs_latest_committed_height (cn_status s) + 1 \<and>
    (\<exists>b md txs. ce_encode_header (ne_consensus env) h = Inr b \<and>
    adapter_get_metadata (ne_consensus env) (hdr_state_root h) height (hdr_timestamp h) (hdr_proposer h) = Inr md \<and>
    commit_txs_ok env m height blk s txs \<and>
    cs_current_hash (cn_status s') = node_digest env b \<and> cs_validators (cn_status s') = validators_of (ce_hex_decode (ne_consensus env)) md \<and>
    cs_latest_committed_height (cn_status s') = height \<and> cs_current_proof (cn_status s') = pf \<and> os_height os = height + 1 \<and>
    cn_sent s' = cn_sent s @ [GossipHeight height] \<and> cn_exemption_hash s' = [] \<and>
    (\<forall>k. hm_get (cn_txs_wal s') (u64_to_string k) =
       (if k \<le> hdr_exec_height h then None else hm_get (cn_txs_wal s) (u64_to_string k))) \<and>
    cn_exec_queue s' = cn_exec_queue s @
      [exec_info env (hdr_order_root h) height (hdr_proposer h) (hdr_timestamp h) (node_digest env b) txs (cn_status s)] \<and>
    (op_ok (ne_codecs env) (InsertTransactions height txs) \<longrightarrow>
      (let m' = fold map_step [UpdateLatestProof pf, InsertTransactions height txs, InsertBlock blk] m in
       reads_agree (ne_adapter env) (ne_codecs env) m' (cn_storage s') \<and> node_inv content valid items cap n env m' s' \<and>
       pool items (mp_tx_cache (cn_mempool s')) =
         pool_flush (blk_ordered_tx_hashes blk) height (height + md_timeout_gap md) (pool items (mp_tx_cache (cn_mempool s))))))"
proof -
  obtain bh sto txs b st md s2 mp w where
    next_height: "height = cs_latest_committed_height (cn_status s) + 1" and bh: "hash_from_bytes (oc_proof_block_hash c) = Inr bh"
    and sto: "update_latest_proof (ne_adapter env) (ne_codecs env) (proof_of_commit c bh) (cn_storage s) = Inr sto"
    and b: "ce_encode_header (ne_consensus env) h = Inr b" and st: "same_terms st (cn_status s)"
    and txs: "committed_txs env height blk (s\<lparr>cn_storage := sto\<rparr>) = Some (Inr txs, s\<lparr>cn_storage := sto\<rparr>)"
    and md: "adapter_get_metadata (ne_consensus env) (hdr_state_root h) (hdr_height h) (hdr_timestamp h) (hdr_proposer h) = Inr md"
    and upd: "engine_update_status env md blk (proof_of_commit c bh) txs
       (s\<lparr>cn_storage := sto, cn_status := st, cn_exec_queue := cn_exec_queue s @
          [exec_info env (hdr_order_root h) height (hdr_proposer h) (hdr_timestamp h) (node_digest env b) txs st]\<rparr>) = Some (Inr (), s2)"
    and mp: "mempool_flush (ne_queue env) (pool_env env s2) (blk_ordered_tx_hashes blk) (cn_mempool s2) = Some (Inr mp)"
    and w: "wal_remove (hdr_exec_height h) (cn_txs_wal s2) = (Inr (), w)"
    and s': "s' = s2\<lparr>cn_mempool := mp, cn_sent := cn_sent s2 @ [GossipHeight height], cn_txs_wal := w, cn_exemption_hash := []\<rparr>"
    and os: "os = status_for env height (cn_status s2)" by (rule commit_Inr [OF run blk(1,2)])
  have pf: "proof_of_commit c bh = pf" using bh blk(3) by (auto simp: hash_from_bytes_def ensure_len_def split: if_splits)
  let ?s1 = "s\<lparr>cn_storage := sto, cn_status := st, cn_exec_queue := cn_exec_queue s @
      [exec_info env (hdr_order_root h) height (hdr_proposer h) (hdr_timestamp h) (node_digest env b) txs st]\<rparr>"
  obtain sto1 sto2 ids st2 crypto where
    sto1: "insert_transactions (ne_adapter env) (ne_codecs env) (hdr_height (blk_header blk)) txs (cn_storage ?s1) = Inr sto1"
    "insert_block (ne_adapter env) (ne_codecs env) blk sto1 = Inr sto2"
    and st2: "update_by_committed (ce_hex_decode (ne_consensus env)) md blk (node_digest env b) pf (cn_status ?s1) = Inr st2"
    and s2: "s2 = ?s1\<lparr>cn_storage := sto2,
        cn_mempool := mempool_set_args (md_timeout_gap md) (md_cycles_limit md) (md_max_tx_size md) (cn_mempool ?s1),
        cn_consensus_peers := ids, cn_status := st2, cn_crypto := crypto\<rparr>"
    by (rule update_status_Inr [OF upd [unfolded pf] b [unfolded blk(2)]])
  note committed = update_by_committed_Inr [OF st2]
  have height: "hdr_height h = height" using committed st next_height blk(2) by (simp add: same_terms_def)
  have rep: "valid (st_db (cn_storage s))"
    "represents (ne_codecs env) (content (st_db (cn_storage s))) (st_latest_block (cn_storage s)) m"
    using inv by (simp_all add: node_inv_def)
  have txs_ok: "commit_txs_ok env m height blk s txs"
    by (rule commit_txs_of_block [OF store keys rep sto [unfolded pf] ok(2) hashes txs])
  let ?ops = "[UpdateLatestProof pf, InsertTransactions height txs, InsertBlock blk]"
  have fold: "res_fold (storage_step (ne_adapter env) (ne_codecs env)) ?ops (cn_storage s) = Inr (cn_storage s2)"
    using sto sto1 by (simp add: pf height [unfolded blk(2)] s2)
  have wal: "wal_remove (hdr_exec_height h) (cn_txs_wal s) = (Inr (), w)" using w by (simp add: s2)
  have stored: "let m' = fold map_step ?ops m in
         reads_agree (ne_adapter env) (ne_codecs env) m' (cn_storage s') \<and> node_inv content valid items cap n env m' s' \<and>
         pool items (mp_tx_cache (cn_mempool s')) =
           pool_flush (blk_ordered_tx_hashes blk) height (height + md_timeout_gap md) (pool items (mp_tx_cache (cn_mempool s)))"
    if "op_ok (ne_codecs env) (InsertTransactions height txs)"
    unfolding Let_def
    by (rule commit_stored [OF store keys law inv _ refl fold _ mp wal height [unfolded blk(2)]])
      (use ok that in \<open>simp_all add: s' s2\<close>)
  have "\<forall>k. hm_get w (u64_to_string k) = (if k \<le> hdr_exec_height h then None else hm_get (cn_txs_wal s) (u64_to_string k))"
    using wal_remove_keeps [of "cn_txs_wal s" "hdr_exec_height h"] inv wal by (auto simp: node_inv_def)
  moreover note stored txs_ok md [unfolded height] same_terms_exec_info [OF st]
  ultimately show ?thesis
    using height next_height b committed blk(2) by (intro conjI exI [of _ b] exI [of _ md] exI [of _ txs]) (simp_all add: s' os status_for_def s2)
qed

section \<open>Root lists of different lengths\<close>

text \<open>
  (C31) \<^bold>\<open>A checked header can make the commit panic.\<close> For a status whose lists have one length, a header of the next
  height that passes the check of its roots makes the status update panic exactly when its confirm, receipt and
  cycles lists do not all have the same length; the check compares each list alone, and as soon as one executed result
  is unclaimed there is a header that passes and panics.
\<close>

theorem check_roots_then_panic:
  assumes "length (cs_list_state_root st) = length (cs_list_confirm_root st)"
  shows "(\<forall>blk. check_block_roots st (blk_header blk) = Inr () \<and> hdr_height (blk_header blk) = cs_latest_committed_height st + 1 \<longrightarrow>
      (update_by_committed decode md blk bh pf st = Inl Panic \<longleftrightarrow>
         \<not> (length (hdr_confirm_root (blk_header blk)) = length (hdr_cycles_used (blk_header blk)) \<and>
            length (hdr_confirm_root (blk_header blk)) = length (hdr_receipt_root (blk_header blk))))) \<and>
    (cs_list_confirm_root st \<noteq> [] \<longrightarrow>
      (\<exists>blk. check_block_roots st (blk_header blk) = Inr () \<and> hdr_height (blk_header blk) = cs_latest_committed_height st + 1 \<and>
         update_by_committed decode md blk bh pf st = Inl Panic))"
proof (intro conjI allI impI)
  fix blk :: block
  assume "check_block_roots st (blk_header blk) = Inr () \<and> hdr_height (blk_header blk) = cs_latest_committed_height st + 1"
  with assms show "update_by_committed decode md blk bh pf st = Inl Panic \<longleftrightarrow>
         \<not> (length (hdr_confirm_root (blk_header blk)) = length (hdr_cycles_used (blk_header blk)) \<and>
            length (hdr_confirm_root (blk_header blk)) = length (hdr_receipt_root (blk_header blk)))"
    by (auto simp: check_block_roots_def update_by_committed_def status_split_off_def set_metadata_def vec_split_off_def
        check_list_roots_def Let_def split: if_splits)
next
  assume "cs_list_confirm_root st \<noteq> []"
  then obtain r rs where r: "cs_list_confirm_root st = r # rs" by (cases "cs_list_confirm_root st") auto
  let ?h = "(blk_header (example_block (cs_latest_committed_height st + 1) [r] [] []))
      \<lparr>hdr_prev_hash := cs_current_hash st, hdr_state_root := cs_latest_committed_state_root st\<rparr>"
  show "\<exists>blk. check_block_roots st (blk_header blk) = Inr () \<and> hdr_height (blk_header blk) = cs_latest_committed_height st + 1 \<and>
         update_by_committed decode md blk bh pf st = Inl Panic"
    by (rule exI [of _ "\<lparr>blk_header = ?h, blk_ordered_tx_hashes = []\<rparr>"])
      (simp add: check_block_roots_def example_block_def check_list_roots_def r update_by_committed_def status_split_off_def
        set_metadata_def)
qed

section \<open>A concrete node\<close>

definition engine_example_proof :: block_proof where
  "engine_example_proof = \<lparr>pf_height = 5, pf_round = 0, pf_block_hash = Hash (replicate 32 1), pf_signature = [], pf_bitmap = []\<rparr>"

definition engine_example_block :: block where
  "engine_example_block = storage_example_block\<lparr>blk_ordered_tx_hashes := [Hash (replicate 32 1)]\<rparr>"

definition engine_example_commit :: overlord_commit where
  "engine_example_commit =
     \<lparr>oc_content = \<lparr>pill_block = engine_example_block, pill_propose_hashes = []\<rparr>, oc_proof_height = 5, oc_proof_round = 0,
      oc_proof_block_hash = replicate 32 1, oc_proof_signature = [], oc_proof_bitmap = []\<rparr>"

definition engine_example_env :: "(nat \<Rightarrow> queue_room) \<Rightarrow> (memory_db, nat \<times> nat list) node_env" where
  "engine_example_env room =
     \<lparr>ne_adapter = memory_adapter, ne_codecs = example_codecs\<lparr>sc_stx := const_codec (example_stx 1),
        sc_block := const_codec engine_example_block, sc_proof := const_codec engine_example_proof\<rparr>,
      ne_queue = list_queue, ne_mempool = example_env (from_succeed '''') [], ne_consensus = example_consensus_env,
      ne_chain_id = Hash [], ne_self_address = Address [], ne_tree_root = (\<lambda>_ _. None), ne_encode_stx = (\<lambda>_. Inr []),
      ne_encode_receipt = (\<lambda>_. Inr []), ne_hex_encode = (\<lambda>_. []), ne_txs_codec = const_codec [], ne_now = 0,
      ne_room = room, ne_executed = (\<lambda>_. []), ne_peer_id = Inr, ne_send = (\<lambda>_. Inr ()), ne_handler = HandlerOpen, ne_rlp_valid = (\<lambda>_ _. True), ne_sort_nodes = (\<lambda>ns. ns),
      ne_error_string = (\<lambda>_. []), ne_exec = (\<lambda>_ _. Inl (Err StorageItemNotFound)), ne_remote_block = (\<lambda>_ _. Inl (Err StorageItemNotFound)),
      ne_remote_txs = (\<lambda>_ _ _. Inl (Err StorageItemNotFound)), ne_remote_proof = (\<lambda>_ _. Inl (Err StorageItemNotFound))\<rparr>"

definition engine_example_node :: "(memory_db, nat \<times> nat list) node" where
  "engine_example_node =
     \<lparr>cn_status = example_status\<lparr>cs_latest_committed_height := 4, cs_exec_height := 4\<rparr>, cn_exemption_hash = [],
      cn_mempool = example_callback_mempool, cn_storage = storage_new [], cn_txs_wal = [], cn_crypto = [], cn_locked = False, cn_syncing = False,
      cn_fail_reason = [], cn_exec_queue = [], cn_sent = [], cn_overlord = [], cn_consensus_peers = [], cn_reports = [], cn_rpc_calls = 0\<rparr>"

lemma engine_example_laws:
  "queue_lawful (ne_queue (engine_example_env room)) snd fst" "byte_store (ne_adapter (engine_example_env room)) memory_content (\<lambda>_. True)"
  "keys_lawful (ne_codecs (engine_example_env room))"
  "node_inv memory_content (\<lambda>_. True) snd fst 8 (engine_example_env room) empty_maps engine_example_node"
  "op_ok (ne_codecs (engine_example_env room)) (InsertBlock engine_example_block)"
  "op_ok (ne_codecs (engine_example_env room)) (UpdateLatestProof engine_example_proof)"
  "op_ok (ne_codecs (engine_example_env room)) (InsertTransactions 5 [example_stx 1])"
proof -
  have empty: "memory_content [] = (\<lambda>_ _. None)" by (simp add: memory_content_def memory_category_def fun_eq_iff)
  show "node_inv memory_content (\<lambda>_. True) snd fst 8 (engine_example_env room) empty_maps engine_example_node"
    using represents_empty example_mempool_inv(1)
    by (simp add: node_inv_def engine_example_node_def storage_new_def pool_inv_def wal_wf_def empty example_callback_mempool_def)
  show "keys_lawful (ne_codecs (engine_example_env room))"
    using example_codecs_lawful by (simp add: keys_lawful_def engine_example_env_def LATEST_BLOCK_KEY_def LATEST_PROOF_KEY_def)
qed (simp_all add: engine_example_env_def list_queue_lawful mem.byte_store_axioms example_codecs_def round_trips_def const_codec_def
    engine_example_block_def example_stx_def)

theorem check_roots_then_panic_witness:
  "\<exists>blk. check_block_roots (example_status\<lparr>cs_list_confirm_root := [Hash [4]], cs_list_state_root := [Hash [2]]\<rparr>) (blk_header blk) = Inr () \<and>
     update_by_committed (\<lambda>_. []) (example_metadata []) blk (Hash []) example_proof
       (example_status\<lparr>cs_list_confirm_root := [Hash [4]], cs_list_state_root := [Hash [2]]\<rparr>) = Inl Panic"
proof -
  let ?st = "example_status\<lparr>cs_list_confirm_root := [Hash [4]], cs_list_state_root := [Hash [2]]\<rparr>"
  have "length (cs_list_state_root ?st) = length (cs_list_confirm_root ?st)" by simp
  from conjunct2 [OF check_roots_then_panic [OF this, of "\<lambda>_. []" "example_metadata []" "Hash []" example_proof]] show ?thesis by auto
qed

lemma engine_example_sel:
  "ne_adapter (engine_example_env room) = memory_adapter" "ne_queue (engine_example_env room) = list_queue"
  "ne_consensus (engine_example_env room) = example_consensus_env" "ne_peer_id (engine_example_env room) = Inr"
  "ne_send (engine_example_env room) msg = Inr ()"
  by (simp_all add: engine_example_env_def)

lemma engine_example_commits:
  "\<exists>os s'. engine_commit (engine_example_env (\<lambda>i. if i = 0 then Full else Room)) 5 engine_example_commit engine_example_node =
     Some (Inr os, s')"
proof -
  let ?env = "engine_example_env (\<lambda>i. if i = 0 then Full else Room)" and ?s = engine_example_node
  let ?ops = "[UpdateLatestProof engine_example_proof, InsertTransactions 5 [example_stx 1], InsertBlock engine_example_block]"
  have inv: "represents (ne_codecs ?env) (memory_content (st_db (cn_storage ?s))) (st_latest_block (cn_storage ?s)) empty_maps"
    and pool: "pool_inv snd fst 8 ?s"
    using engine_example_laws(4) by (simp_all add: node_inv_def)
  obtain sto3 where sto: "res_fold (storage_step memory_adapter (ne_codecs ?env)) ?ops (cn_storage ?s) = Inr sto3"
    "reads_agree memory_adapter (ne_codecs ?env) (fold map_step ?ops empty_maps) sto3"
    using mem.storage_history [OF TrueI inv engine_example_laws(3), of ?ops] mem.represents_reads [OF TrueI _ engine_example_laws(3)]
      engine_example_laws(5-7) [of "\<lambda>i. if i = 0 then Full else Room"] by (simp del: res_fold.simps fold_simps op_ok.simps) blast
  from sto(1) obtain sto1 sto2 where 1: "update_latest_proof memory_adapter (ne_codecs ?env) engine_example_proof (cn_storage ?s) = Inr sto1"
    and 2: "insert_transactions memory_adapter (ne_codecs ?env) 5 [example_stx 1] sto1 = Inr sto2"
    and 3: "insert_block memory_adapter (ne_codecs ?env) engine_example_block sto2 = Inr sto3"
    by (auto split: sum.splits)
  have update: "\<exists>s2. engine_update_status ?env (example_metadata [example_verifier [1] 2 2, example_verifier [2] 3 3])
        engine_example_block engine_example_proof [example_stx 1] t = Some (Inr (), s2) \<and> cn_storage s2 = sto3 \<and> pool_inv snd fst 8 s2 \<and> cn_txs_wal s2 = []"
    if "cn_storage t = sto1" "cn_status t = cn_status ?s" "pool_inv snd fst 8 t" "cn_txs_wal t = []" for t
  proof -
    have [simp]: "hdr_height (blk_header engine_example_block) = 5" by (simp add: engine_example_block_def storage_example_block_def)
    have "\<exists>st. update_by_committed (ce_hex_decode example_consensus_env) (example_metadata [example_verifier [1] 2 2, example_verifier [2] 3 3])
        engine_example_block (node_digest ?env []) engine_example_proof (cn_status t) = Inr st"
      using that(2) by (simp add: update_by_committed_def status_split_off_def vec_split_off_def set_metadata_def engine_example_block_def storage_example_block_def
          engine_example_node_def example_status_def check_list_roots_def)
    moreover have "\<exists>m. generate_new_crypto_map example_consensus_env (example_metadata [example_verifier [1] 2 2, example_verifier [2] 3 3]) = Inr m"
      by (simp add: generate_new_crypto_map_def example_metadata_def example_consensus_env_def)
    moreover have "ce_encode_header example_consensus_env h = Inr []" for h by (simp add: example_consensus_env_def)
    ultimately show ?thesis using that 2 3
      by (auto simp: engine_update_status_def act_Inr adapter_Inr save_signed_txs_def save_block_def on_storage_Inr
        node_set_args_def update_overlord_crypto_Inr engine_example_sel mempool_set_args_def pool_inv_def example_metadata_def)
  qed
  have latest: "get_latest_block_header memory_adapter (ne_codecs ?env) sto3 = Inr (blk_header engine_example_block)"
    using sto(2) by (simp add: reads_agree_def Let_def)
  have flush: "\<exists>mp. mempool_flush (ne_queue ?env) (pool_env ?env t) [Hash (replicate 32 1)] (cn_mempool t) = Some (Inr mp)"
    if "cn_storage t = sto3" "pool_inv snd fst 8 t" for t
    using flush_latest [OF engine_example_laws(1) that(2), where hashes = "[Hash (replicate 32 1)]"] latest that(1)
    by (auto simp: engine_example_sel)
  have loop: "exec_loop ?env (\<lambda>room. engine_exec ?env room order_root height proposer timestamp block_hash txs) 0 t =
      Some (Inr (), t\<lparr>cn_exec_queue := cn_exec_queue t @ [exec_info ?env order_root height proposer timestamp block_hash txs (cn_status t)]\<rparr>)"
    for order_root height proposer timestamp block_hash txs t
    by (subst exec_loop.simps, simp add: engine_exec_room engine_example_env_def, subst exec_loop.simps)
      (simp add: engine_exec_room status_wait_def exec_info_def)
  let ?md = "example_metadata [example_verifier [1] 2 2, example_verifier [2] 3 3]"
  let ?t = "?s\<lparr>cn_storage := sto1, cn_exec_queue := cn_exec_queue ?s @
           [exec_info ?env (Hash []) 5 (Address []) 0 (Hash (replicate 32 0)) [example_stx 1] (cn_status ?s)]\<rparr>"
  have "cn_storage ?t = sto1" "cn_status ?t = cn_status ?s" "pool_inv snd fst 8 ?t" "cn_txs_wal ?t = []"
    using pool by (simp_all add: pool_inv_def) (simp add: engine_example_node_def)
  from update [OF this] obtain s2 where
    s2: "engine_update_status ?env ?md engine_example_block engine_example_proof [example_stx 1] ?t = Some (Inr (), s2)"
    "cn_storage s2 = sto3" "pool_inv snd fst 8 s2" "cn_txs_wal s2 = []" by blast
  from flush [OF s2(2,3)] obtain mp where "mempool_flush (ne_queue ?env) (pool_env ?env s2) [Hash (replicate 32 1)] (cn_mempool s2) = Some (Inr mp)" ..
  then have flushed: "flush_mempool ?env [Hash (replicate 32 1)] s2 = Some (Inr (), s2\<lparr>cn_mempool := mp\<rparr>)" by (simp add: adapter_Inr)
  have saved: "save_proof ?env engine_example_proof ?s = Some (Inr (), ?s\<lparr>cn_storage := sto1\<rparr>)"
    using 1 by (simp add: save_proof_def on_storage_Inr engine_example_sel)
  have txs: "committed_txs ?env 5 engine_example_block t = Some (Inr [example_stx 1], t)" if "cn_mempool t = example_callback_mempool" for t
    using that by (simp add: committed_txs_def adapter_get_full_txs_def act_read_def get_full_txs_def example_cached outer_def
        engine_example_block_def)
  have meta: "node_get_metadata ?env a b c d t = Some (Inr ?md, t)" for a b c d t
    by (simp add: node_get_metadata_def act_read_def adapter_get_metadata_def verify_env_def engine_example_sel
        example_consensus_env_def address_from_hash_def hash_digest_def address_from_bytes_def ensure_len_def HASH_LEN_def ADDRESS_LEN_def)
  have pf: "proof_of_commit engine_example_commit (Hash (replicate 32 1)) = engine_example_proof"
    by (simp add: proof_of_commit_def engine_example_commit_def engine_example_proof_def)
  have bh: "hash_from_bytes (oc_proof_block_hash engine_example_commit) = Inr (Hash (replicate 32 1))"
    by (simp add: engine_example_commit_def hash_from_bytes_def ensure_len_def HASH_LEN_def)
  have sent: "broadcast_height ?env 5 t = Some (Inr (), t\<lparr>cn_sent := cn_sent t @ [GossipHeight 5]\<rparr>)" for t
    by (simp add: broadcast_height_def adapter_Inr engine_example_sel)
  have wal: "wal_remove_action 4 (s2\<lparr>cn_mempool := mp, cn_sent := q\<rparr>) = Some (Inr (), s2\<lparr>cn_mempool := mp, cn_sent := q\<rparr>)" for q
    using s2(4) by (simp add: wal_remove_action_Inr wal_remove_def)
  have fields: "cn_locked ?s = False" "cn_mempool (?s\<lparr>cn_storage := sto1\<rparr>) = example_callback_mempool" "cs_exec_height (cn_status ?s) = 4" "cs_latest_committed_height (cn_status ?s) = 4"
    "pill_block (oc_content engine_example_commit) = engine_example_block" "blk_ordered_tx_hashes engine_example_block = [Hash (replicate 32 1)]"
    "hdr_order_root (blk_header engine_example_block) = Hash []" "hdr_proposer (blk_header engine_example_block) = Address []"
    "hdr_timestamp (blk_header engine_example_block) = 0" "hdr_exec_height (blk_header engine_example_block) = 4"
    "ce_encode_header (ne_consensus ?env) h = Inr []" "node_digest ?env [] = Hash (replicate 32 0)" for h
    by (simp_all add: engine_example_node_def engine_example_commit_def engine_example_block_def storage_example_block_def engine_example_sel
        example_consensus_env_def hash_digest_def)
  show ?thesis
    by (simp add: engine_commit_def fields bh pf act_bind_def act_get_def act_read_def act_modify_def act_return_def
        saved txs [OF fields(2)] loop meta s2(1) flushed sent wal Let_def)
qed

theorem engine_returns_witness:
  "(\<exists>r s'. engine_commit (engine_example_env (\<lambda>i. if i = 0 then Full else Room)) 5 engine_example_commit engine_example_node = Some (r, s')) \<and>
   \<not> (\<exists>st s'. engine_commit (engine_example_env (\<lambda>_. Full)) 5 engine_example_commit engine_example_node = Some (Inr st, s') \<and>
     s' \<noteq> engine_example_node)"
proof -
  have n: "(8 :: nat) < 2 ^ 64" by simp
  have inv: "pool_inv snd fst 8 engine_example_node" using engine_example_laws(4) by (simp add: node_inv_def)
  have "ne_room (engine_example_env (\<lambda>i. if i = 0 then Full else Room)) 1 \<noteq> Full" by (simp add: engine_example_env_def)
  moreover have "\<forall>j. ne_room (engine_example_env (\<lambda>_. Full)) j = Full" by (simp add: engine_example_env_def)
  ultimately show ?thesis
    using engine_returns [OF engine_example_laws(1) inv n, where height = 5 and c = engine_example_commit] by blast
qed

text \<open>The block's one transaction is taken from the mempool, queued for execution and stored.\<close>

theorem engine_commit_spec_witness:
  "\<exists>os s'. engine_commit (engine_example_env (\<lambda>i. if i = 0 then Full else Room)) 5 engine_example_commit engine_example_node = Some (Inr os, s') \<and>
     cs_latest_committed_height (cn_status s') = 5 \<and> cs_current_proof (cn_status s') = engine_example_proof \<and>
     cn_sent s' = [GossipHeight 5] \<and> map xi_signed_txs (cn_exec_queue s') = [[example_stx 1]] \<and>
     get_transaction_by_hash memory_adapter (ne_codecs (engine_example_env (\<lambda>i. if i = 0 then Full else Room))) (Hash (replicate 32 1)) (cn_storage s') =
       Inr (Some (example_stx 1))"
proof -
  let ?env = "engine_example_env (\<lambda>i. if i = 0 then Full else Room)" and ?s = engine_example_node
  from engine_example_commits obtain os s' where run: "engine_commit ?env 5 engine_example_commit ?s = Some (Inr os, s')" by blast
  have 4: "cs_exec_height (cn_status ?s) \<noteq> 5" "cn_sent ?s = []" "cn_exec_queue ?s = []" "cn_mempool ?s = example_callback_mempool"
    by (simp_all add: engine_example_node_def)
  have blk: "engine_example_block = pill_block (oc_content engine_example_commit)"
    "engine_example_proof = proof_of_commit engine_example_commit (Hash (oc_proof_block_hash engine_example_commit))"
    by (simp_all add: engine_example_commit_def proof_of_commit_def engine_example_proof_def)
  have hashes: "list_all (\<lambda>h. length (hash_bytes h) = 32) (blk_ordered_tx_hashes engine_example_block)"
    by (simp add: engine_example_block_def)
  have txs: "txs = [example_stx 1]" if "commit_txs_ok ?env empty_maps 5 engine_example_block ?s txs" for txs
    using that by (simp add: commit_txs_ok_def block_txs_def 4 example_cached engine_example_block_def map_filter_simps)
  have stx: "stx_tx_hash (example_stx 1) = Hash (replicate 32 1)" by (simp add: example_stx_def)
  from engine_commit_spec [OF engine_example_laws(2,3,1,4) run 4(1) blk(1) refl blk(2) engine_example_laws(5,6) hashes]
  obtain txs b where c: "commit_txs_ok ?env empty_maps 5 engine_example_block ?s txs"
    "cs_latest_committed_height (cn_status s') = 5" "cs_current_proof (cn_status s') = engine_example_proof" "cn_sent s' = cn_sent ?s @ [GossipHeight 5]"
    "cn_exec_queue s' = cn_exec_queue ?s @ [exec_info ?env (hdr_order_root (blk_header engine_example_block)) 5 (hdr_proposer (blk_header engine_example_block))
       (hdr_timestamp (blk_header engine_example_block)) b txs (cn_status ?s)]"
    "op_ok (ne_codecs ?env) (InsertTransactions 5 txs) \<longrightarrow> reads_agree memory_adapter (ne_codecs ?env)
       (fold map_step [UpdateLatestProof engine_example_proof, InsertTransactions 5 txs, InsertBlock engine_example_block] empty_maps) (cn_storage s')"
    unfolding Let_def engine_example_sel by blast
  note txs = txs [OF c(1)]
  have "get_transaction_by_hash memory_adapter (ne_codecs ?env) (Hash (replicate 32 1)) (cn_storage s') = Inr (Some (example_stx 1))"
    using c(6) [unfolded txs, THEN mp, OF engine_example_laws(7)] unfolding reads_agree_def by (simp add: Let_def stx)
  with run c(2-5) show ?thesis by (auto simp: txs 4 exec_info_def)
qed

end
