(* ===== verification/Synchronization.thy ===== *)
theory Synchronization
  imports Consensus_Engine "HOL-Library.Sublist"
begin

text \<open>
  Catching up with the chain of remote peers, \<^verbatim>\<open>core/consensus/src/synchronization.rs\<close>, the message handlers of
  \<^verbatim>\<open>core/consensus/src/message.rs\<close> and the entry points of \<^verbatim>\<open>core/consensus/src/consensus.rs\<close>. The
  status that a synchronization builds beside the shared one is a value that the actions take and return.

  The lemmas show what a successful synchronization leaves and that the proof it stores is the one of the
  block before the last, so that the node cannot serve the proof of its latest block.
\<close>

section \<open>Entry points of overlord\<close>

definition consensus_new :: "('db, 'q) node_env \<Rightarrow> (('db, 'q) node, unit) action" where
  "consensus_new env =
     act_bind (act_get cn_status) (\<lambda>st.
       act_when (cs_latest_committed_height st = 0)
         (overlord_send env
           (MsgRichStatus (gen_overlord_status env (cs_latest_committed_height st + 1) (cs_consensus_interval st)
              (cs_propose_ratio st) (cs_prevote_ratio st) (cs_precommit_ratio st) (cs_brake_ratio st) (cs_validators st)))
           Panic))"

definition set_proposal :: "('db, 'q) node_env \<Rightarrow> bytes \<Rightarrow> (('db, 'q) node, unit) action" where
  "set_proposal env proposal =
     (if ne_rlp_valid env SignedProposal proposal then overlord_send env (MsgSignedProposal proposal) Panic
      else act_fail (Err (DecodeErr SignedProposal)))"

definition set_vote :: "('db, 'q) node_env \<Rightarrow> bytes \<Rightarrow> (('db, 'q) node, unit) action" where
  "set_vote env vote =
     (if ne_rlp_valid env SignedVote vote then overlord_send env (MsgSignedVote vote) Panic
      else act_fail (Err (DecodeErr SignedVote)))"

definition set_qc :: "('db, 'q) node_env \<Rightarrow> bytes \<Rightarrow> (('db, 'q) node, unit) action" where
  "set_qc env qc =
     (if ne_rlp_valid env AggregateVote qc then overlord_send env (MsgAggregatedVote qc) Panic
      else act_fail (Err (DecodeErr AggregateVote)))"

definition set_choke :: "('db, 'q) node_env \<Rightarrow> bytes \<Rightarrow> (('db, 'q) node, unit) action" where
  "set_choke env choke =
     (if ne_rlp_valid env SignedChoke choke then overlord_send env (MsgSignedChoke choke) Panic
      else act_fail (Err (DecodeErr SignedChoke)))"

section \<open>Synchronization\<close>

definition ONCE_SYNC_BLOCK_LIMIT :: u64 where
  "ONCE_SYNC_BLOCK_LIMIT = 50"

record rich_block =
  rb_block :: block
  rb_txs :: "signed_transaction list"

text \<open>\<^verbatim>\<open>slice::chunks\<close>, for a size above zero.\<close>

function chunk_list :: "nat \<Rightarrow> 'a list \<Rightarrow> 'a list list" where
  "chunk_list n xs = (if xs = [] \<or> n = 0 then [] else take n xs # chunk_list n (drop n xs))"
  by pat_completeness auto
termination by (relation "measure (\<lambda>(n, xs). length xs)") auto

declare chunk_list.simps [simp del]

fun pull_chunks :: "('db, 'q) node_env \<Rightarrow> u64 \<Rightarrow> hash list list \<Rightarrow> (('db, 'q) node, signed_transaction list) action" where
  "pull_chunks env height [] = act_return []"
| "pull_chunks env height (hashes # chunks) =
     act_bind (get_txs_from_remote env height hashes) (\<lambda>remote_txs.
     act_bind (pull_chunks env height chunks) (\<lambda>txs. act_return (remote_txs @ txs)))"

definition get_rich_block_from_remote ::
    "('db, 'q) node_env \<Rightarrow> nat \<Rightarrow> u64 \<Rightarrow> (('db, 'q) node, rich_block) action" where
  "get_rich_block_from_remote env sync_txs_chunk_size height =
     act_bind (get_block_from_remote env height) (\<lambda>blk.
       if sync_txs_chunk_size = 0 then act_fail Panic
       else
         act_bind (pull_chunks env height (chunk_list sync_txs_chunk_size (blk_ordered_tx_hashes blk))) (\<lambda>txs.
         act_return \<lparr>rb_block = blk, rb_txs = txs\<rparr>))"

definition save_chain_data ::
    "('db, 'q) node_env \<Rightarrow> signed_transaction list \<Rightarrow> receipt list \<Rightarrow> block \<Rightarrow> (('db, 'q) node, unit) action" where
  "save_chain_data env txs receipts blk =
     act_bind (save_signed_txs env (hdr_height (blk_header blk)) txs) (\<lambda>_.
     act_bind (save_receipts env (hdr_height (blk_header blk)) receipts) (\<lambda>_.
     act_bind (save_proof env (hdr_proof (blk_header blk))) (\<lambda>_.
     save_block env blk)))"

definition exec_block ::
    "('db, 'q) node_env \<Rightarrow> rich_block \<Rightarrow> consensus_status \<Rightarrow> (('db, 'q) node, executor_resp \<times> consensus_status) action" where
  "exec_block env rb st =
     (let h = blk_header (rb_block rb) in
      act_bind (sync_exec env
         \<lparr>ep_state_root = get_latest_state_root st, ep_height = hdr_height h, ep_timestamp = hdr_timestamp h,
          ep_cycles_limit = cs_cycles_limit st, ep_proposer = hdr_proposer h\<rparr> (rb_txs rb)) (\<lambda>resp.
      act_bind (act_read (\<lambda>_. res_bind
         (executed_info_new (ne_tree_root env) (ce_digest (ne_consensus env)) (ne_encode_receipt env) (hdr_height h)
            (hdr_order_root h) resp) (\<lambda>info. update_by_executed info st))) (\<lambda>st.
      act_return (resp, st))))"

definition sync_commit_block ::
    "('db, 'q) node_env \<Rightarrow> rich_block \<Rightarrow> block_proof \<Rightarrow> consensus_status \<Rightarrow> (('db, 'q) node, consensus_status) action" where
  "sync_commit_block env rb pf st =
     (let blk = rb_block rb; h = blk_header blk in
      act_bind (exec_block env rb st) (\<lambda>(resp, st).
      act_bind (act_read (\<lambda>_. ce_encode_header (ne_consensus env) h)) (\<lambda>b.
      act_bind (node_get_metadata env (hdr_state_root h) (hdr_height h) (hdr_timestamp h) (hdr_proposer h)) (\<lambda>md.
      act_bind (update_overlord_crypto env md) (\<lambda>_.
      act_bind (node_set_args (md_timeout_gap md) (md_cycles_limit md) (md_max_tx_size md)) (\<lambda>_.
      act_bind (tag_consensus env (map (\<lambda>v. ce_hex_decode (ne_consensus env) (ve_pub_key v)) (md_verifier_list md))) (\<lambda>_.
      act_bind (act_read (\<lambda>_. update_by_committed (ce_hex_decode (ne_consensus env)) md blk (node_digest env b) pf st)) (\<lambda>st.
      act_bind (save_chain_data env (rb_txs rb) (er_receipts resp) blk) (\<lambda>_.
      act_bind (flush_mempool env (blk_ordered_tx_hashes blk)) (\<lambda>_.
      act_return st))))))))))"

definition sync_update_status :: "('db, 'q) node_env \<Rightarrow> consensus_status \<Rightarrow> (('db, 'q) node, unit) action" where
  "sync_update_status env sync_status =
     act_bind (act_modify (\<lambda>s. s\<lparr>cn_status := status_replace sync_status (cn_status s)\<rparr>)) (\<lambda>_.
     adapter_update_status env (cs_latest_committed_height sync_status) (cs_consensus_interval sync_status)
       (cs_propose_ratio sync_status) (cs_prevote_ratio sync_status) (cs_precommit_ratio sync_status)
       (cs_brake_ratio sync_status) (cs_validators sync_status))"

text \<open>One turn of the loop of \<^verbatim>\<open>start_sync\<close>.\<close>

definition sync_block ::
    "('db, 'q) node_env \<Rightarrow> nat \<Rightarrow> u64 \<Rightarrow> consensus_status \<Rightarrow> (('db, 'q) node, consensus_status) action" where
  "sync_block env sync_txs_chunk_size consenting_height st =
     act_bind (get_rich_block_from_remote env sync_txs_chunk_size consenting_height) (\<lambda>rb.
     act_bind (get_proof_from_remote env consenting_height) (\<lambda>pf.
     (let h = blk_header (rb_block rb) in
     act_bind (act_read (\<lambda>s. verify_block_header (verify_env env s) (rb_block rb))) (\<lambda>_.
     act_bind (act_read (\<lambda>s. verify_proof (verify_env env s) h pf)) (\<lambda>_.
     act_bind (act_read (\<lambda>s. get_block_header_by_height (verify_env env s) (hdr_height h - 1))) (\<lambda>previous.
     act_bind (act_read (\<lambda>s. verify_proof (verify_env env s) previous (hdr_proof h))) (\<lambda>_.
     act_bind (act_read (\<lambda>_. digest_txs env (rb_txs rb))) (\<lambda>txs_hash.
       if txs_hash \<noteq> hdr_order_signed_transactions_hash h
       then act_fail (Err (InvalidOrderSignedTransactionsHash txs_hash (hdr_order_signed_transactions_hash h)))
       else
         act_bind (sync_commit_block env rb pf st) (\<lambda>st.
         act_bind (sync_update_status env st) (\<lambda>_.
         act_return st))))))))))"

lemma unat_next_height: "a < b \<Longrightarrow> unat (a + 1 :: u64) = Suc (unat a)"
  using unat_add_exact [of a 1] unsigned_less [where ?'a = nat, of b] by (simp add: word_less_unat)

function sync_loop ::
    "('db, 'q) node_env \<Rightarrow> nat \<Rightarrow> u64 \<Rightarrow> u64 \<Rightarrow> consensus_status \<Rightarrow> ('db, 'q) node \<Rightarrow>
     ((consensus_error, consensus_status) result \<times> ('db, 'q) node) option" where
  "sync_loop env sync_txs_chunk_size remote_height current_consented_height st s =
     (if current_consented_height < remote_height
      then
        (case sync_block env sync_txs_chunk_size (current_consented_height + 1) st s of
           None \<Rightarrow> None
         | Some (Inl e, s') \<Rightarrow> Some (Inl e, s')
         | Some (Inr st', s') \<Rightarrow>
             sync_loop env sync_txs_chunk_size remote_height (current_consented_height + 1) st' s')
      else Some (Inr st, s))"
  by pat_completeness auto
termination
  by (relation "measure (\<lambda>(env, size, remote, current, st, s). unat remote - unat current)")
    (auto simp: unat_next_height word_less_unat)

declare sync_loop.simps [simp del]

definition start_sync ::
    "('db, 'q) node_env \<Rightarrow> nat \<Rightarrow> u64 \<Rightarrow> u64 \<Rightarrow> consensus_status \<Rightarrow> (('db, 'q) node, consensus_status) action" where
  "start_sync env sync_txs_chunk_size current_height remote_height st =
     sync_loop env sync_txs_chunk_size
       (if current_height + ONCE_SYNC_BLOCK_LIMIT > remote_height then remote_height
        else current_height + ONCE_SYNC_BLOCK_LIMIT) current_height st"

text \<open>The loop waits for the execution thread, which publishes results in between.\<close>

partial_function (option) init_status_agent ::
    "('db, 'q) node_env \<Rightarrow> nat \<Rightarrow> ('db, 'q) node \<Rightarrow> ((consensus_error, consensus_status) result \<times> ('db, 'q) node) option" where
  "init_status_agent env i s =
     (if cs_exec_height (cn_status s) \<noteq> cs_latest_committed_height (cn_status s)
      then init_status_agent env (Suc i) (status_wait env i s)
      else Some (Inr (cn_status s), s))"

text \<open>\<^verbatim>\<open>others\<close> is what the rest of the node does while \<^verbatim>\<open>need_sync\<close> waits for one interval.\<close>

definition need_sync ::
    "('db, 'q) node_env \<Rightarrow> (('db, 'q) node \<Rightarrow> ('db, 'q) node) \<Rightarrow> u64 \<Rightarrow> (('db, 'q) node, bool) action" where
  "need_sync env others remote_height =
     act_bind (act_get (\<lambda>s. cs_latest_committed_height (cn_status s))) (\<lambda>current_height.
       if remote_height = 0 then act_return False
       else if remote_height \<le> current_height then act_return False
       else
         act_bind (act_when (current_height = remote_height - 1) (act_modify others)) (\<lambda>_.
         act_bind (act_get (\<lambda>s. cs_latest_committed_height (cn_status s))) (\<lambda>after_wait.
           if current_height = remote_height - 1 \<and> after_wait = remote_height then act_return False
           else
             act_bind (get_block_from_remote env remote_height) (\<lambda>blk.
             act_return (hdr_height (blk_header blk) = remote_height)))))"

text \<open>A task that runs under a lock it tries to take, and gives up silently when it is held.\<close>

definition with_lock :: "('s \<Rightarrow> bool) \<Rightarrow> (bool \<Rightarrow> 's \<Rightarrow> 's) \<Rightarrow> ('s, unit) action \<Rightarrow> ('s, unit) action" where
  "with_lock held put m s =
     (if held s then Some (Inr (), s)
      else case m (put True s) of None \<Rightarrow> None | Some (r, s') \<Rightarrow> Some (r, put False s'))"

definition receive_remote_block ::
    "('db, 'q) node_env \<Rightarrow> nat \<Rightarrow> (('db, 'q) node \<Rightarrow> ('db, 'q) node) \<Rightarrow> u64 \<Rightarrow> (('db, 'q) node, unit) action" where
  "receive_remote_block env sync_txs_chunk_size others remote_height =
     with_lock cn_syncing (\<lambda>b s. s\<lparr>cn_syncing := b\<rparr>)
       (act_bind (need_sync env others remote_height) (\<lambda>needed.
          if \<not> needed then act_return ()
          else
            with_lock cn_locked (\<lambda>b s. s\<lparr>cn_locked := b\<rparr>)
              (act_bind (act_get (\<lambda>s. cs_latest_committed_height (cn_status s))) (\<lambda>current_height.
                 if remote_height \<le> current_height then act_return ()
                 else
                   act_bind (init_status_agent env 0) (\<lambda>st.
                   act_bind (start_sync env sync_txs_chunk_size current_height remote_height st) (\<lambda>_.
                   act_return ()))))))"

text \<open>One turn of \<^verbatim>\<open>polling_broadcast\<close>.\<close>

definition polling_step :: "('db, 'q) node_env \<Rightarrow> (('db, 'q) node, unit) action" where
  "polling_step env =
     act_bind (act_get (\<lambda>s. cs_latest_committed_height (cn_status s))) (\<lambda>current_height.
     act_when (current_height \<noteq> 0) (broadcast_height env current_height))"

section \<open>Message handlers\<close>

text \<open>The trust feedback of a handler; a panic ends its task.\<close>

definition feedback_of ::
    "(consensus_error \<Rightarrow> trust_feedback) \<Rightarrow> (('db, 'q) node, unit) action \<Rightarrow> (('db, 'q) node, trust_feedback) action" where
  "feedback_of bad m s =
     (case m s of
        None \<Rightarrow> None
      | Some (Inr _, s') \<Rightarrow> Some (Inr Good, s')
      | Some (Inl (Err e), s') \<Rightarrow> Some (Inr (bad e), s')
      | Some (Inl Panic, s') \<Rightarrow> Some (Inl Panic, s'))"

definition proposal_handler :: "('db, 'q) node_env \<Rightarrow> bytes \<Rightarrow> (('db, 'q) node, trust_feedback) action" where
  "proposal_handler env msg = feedback_of (\<lambda>e. Worse (ne_error_string env e)) (set_proposal env msg)"

definition vote_handler :: "('db, 'q) node_env \<Rightarrow> bytes \<Rightarrow> (('db, 'q) node, trust_feedback) action" where
  "vote_handler env msg = feedback_of (\<lambda>e. Worse (ne_error_string env e)) (set_vote env msg)"

definition qc_handler :: "('db, 'q) node_env \<Rightarrow> bytes \<Rightarrow> (('db, 'q) node, trust_feedback) action" where
  "qc_handler env msg = feedback_of (\<lambda>e. Worse (ne_error_string env e)) (set_qc env msg)"

definition choke_handler :: "('db, 'q) node_env \<Rightarrow> bytes \<Rightarrow> (('db, 'q) node, trust_feedback) action" where
  "choke_handler env msg = feedback_of (\<lambda>e. Worse (ne_error_string env e)) (set_choke env msg)"

definition remote_height_handler ::
    "('db, 'q) node_env \<Rightarrow> nat \<Rightarrow> (('db, 'q) node \<Rightarrow> ('db, 'q) node) \<Rightarrow> u64 \<Rightarrow> (('db, 'q) node, trust_feedback) action" where
  "remote_height_handler env sync_txs_chunk_size others remote_height =
     feedback_of
       (\<lambda>e. let msg = ne_error_string env e in
            if sublist ''timeout'' msg then Bad ''sync block timeout'' else Bad msg)
       (receive_remote_block env sync_txs_chunk_size others remote_height)"

text \<open>The answers of the handlers that serve other nodes; each reports a neutral feedback.\<close>

definition pull_block_handler :: "('db, 'q) node_env \<Rightarrow> u64 \<Rightarrow> ('db, 'q) node \<Rightarrow> (storage_error, block) result" where
  "pull_block_handler env height s =
     res_bind (storage_get_block (ne_adapter env) (ne_codecs env) height (cn_storage s)) (ok_or GetNone)"

definition pull_proof_handler :: "('db, 'q) node_env \<Rightarrow> u64 \<Rightarrow> ('db, 'q) node \<Rightarrow> (storage_error, block_proof) result" where
  "pull_proof_handler env height s =
     (case get_latest_proof (ne_adapter env) (ne_codecs env) (cn_storage s) of
        Inr latest_proof \<Rightarrow>
          (if height < pf_height latest_proof
           then
             (case get_block_header (ne_adapter env) (ne_codecs env) (height + 1) (cn_storage s) of
                Inr (Some next_header) \<Rightarrow> Inr (hdr_proof next_header)
              | Inr None \<Rightarrow> Inl (Err GetNone)
              | Inl (Err _) \<Rightarrow> Inl (Err GetNone)
              | Inl Panic \<Rightarrow> Inl Panic)
           else if height = pf_height latest_proof then Inr latest_proof
           else Inl (Err GetNone))
      | Inl (Err _) \<Rightarrow> Inl (Err GetNone)
      | Inl Panic \<Rightarrow> Inl Panic)"

definition sync_pull_txs_handler ::
    "('db, 'q) node_env \<Rightarrow> u64 \<Rightarrow> hash list \<Rightarrow> ('db, 'q) node \<Rightarrow> (storage_error, signed_transaction list) result" where
  "sync_pull_txs_handler env height hashes s =
     res_map (List.map_filter (\<lambda>t. t)) (get_transactions (ne_adapter env) (ne_codecs env) height hashes (cn_storage s))"

lemma chunk_list_Nil [simp]: "chunk_list n [] = []"
  by (subst chunk_list.simps) simp

section \<open>One synchronized block\<close>

lemma remote_call_Inr:
  "remote_call answer s = Some (Inr x, s') \<longleftrightarrow> answer (cn_rpc_calls s) = Inr x \<and> s' = s\<lparr>cn_rpc_calls := Suc (cn_rpc_calls s)\<rparr>"
  by (auto simp: remote_call_def)

lemma pull_chunks_Inr:
  assumes "pull_chunks env height chunks s = Some (Inr txs, s')"
  shows "(\<exists>k. s' = s\<lparr>cn_rpc_calls := k\<rparr>) \<and>
    ((\<forall>i hs ts. ne_remote_txs env i height hs = Inr ts \<longrightarrow> list_all P ts) \<longrightarrow> list_all P txs)"
  using assms
proof (induction chunks arbitrary: s txs)
  case Nil
  then show ?case by (simp add: act_basic_Inr) (rule exI [of _ "cn_rpc_calls s"], simp)
next
  case (Cons hashes chunks)
  then obtain ts txs' where 1: "ne_remote_txs env (cn_rpc_calls s) height hashes = Inr ts"
    "pull_chunks env height chunks (s\<lparr>cn_rpc_calls := Suc (cn_rpc_calls s)\<rparr>) = Some (Inr txs', s')" "txs = ts @ txs'"
    by (clarsimp simp: act_Inr get_txs_from_remote_def remote_call_Inr)
  from Cons.IH [OF 1(2)] obtain k where k: "s' = s\<lparr>cn_rpc_calls := Suc (cn_rpc_calls s)\<rparr>\<lparr>cn_rpc_calls := k\<rparr>"
    and all: "(\<forall>i hs ts. ne_remote_txs env i height hs = Inr ts \<longrightarrow> list_all P ts) \<longrightarrow> list_all P txs'" by blast
  show ?case
  proof (intro conjI impI exI [of _ k])
    show "s' = s\<lparr>cn_rpc_calls := k\<rparr>" using k by simp
    assume served: "\<forall>i hs ts. ne_remote_txs env i height hs = Inr ts \<longrightarrow> list_all P ts"
    have "list_all P ts" using served 1(1) by blast
    moreover have "list_all P txs'" using served all by blast
    ultimately show "list_all P txs" by (simp add: 1(3))
  qed
qed

lemma verify_env_calls [simp]: "verify_env env (s\<lparr>cn_rpc_calls := k\<rparr>) = verify_env env s"
  by (simp add: verify_env_def)

lemma save_chain_data_Inr:
  assumes "save_chain_data env txs receipts blk s = Some (Inr x, s')"
  obtains sto where
    "res_fold (storage_step (ne_adapter env) (ne_codecs env))
       [InsertTransactions (hdr_height (blk_header blk)) txs, InsertReceipts (hdr_height (blk_header blk)) receipts,
        UpdateLatestProof (hdr_proof (blk_header blk)), InsertBlock blk] (cn_storage s) = Inr sto"
    "s' = s\<lparr>cn_storage := sto\<rparr>"
proof -
  from assms obtain a b c sto where
    "insert_transactions (ne_adapter env) (ne_codecs env) (hdr_height (blk_header blk)) txs (cn_storage s) = Inr a"
    "insert_receipts (ne_adapter env) (ne_codecs env) (hdr_height (blk_header blk)) receipts a = Inr b"
    "update_latest_proof (ne_adapter env) (ne_codecs env) (hdr_proof (blk_header blk)) b = Inr c"
    "insert_block (ne_adapter env) (ne_codecs env) blk c = Inr sto" "s' = s\<lparr>cn_storage := sto\<rparr>"
    by (clarsimp simp: save_chain_data_def act_bind_Inr save_signed_txs_def save_receipts_def save_proof_def save_block_def on_storage_Inr)
  with that show ?thesis by simp
qed

lemma status_committed_exec:
  assumes "update_by_executed info st = Inr st'"
  shows "cs_latest_committed_height st' = cs_latest_committed_height st"
  using assms by (auto simp: update_by_executed_def split: if_splits)

lemma sync_commit_block_Inr:
  assumes "sync_commit_block env \<lparr>rb_block = blk, rb_txs = txs\<rparr> pf st s = Some (Inr st', s')"
  obtains params resp st1 md b s1 s2 sto mp where
    "ne_exec env params txs = Inr resp" "cs_latest_committed_height st1 = cs_latest_committed_height st"
    "update_by_committed (ce_hex_decode (ne_consensus env)) md blk (node_digest env b) pf st1 = Inr st'"
    "cn_storage s1 = cn_storage s" "mp_tx_cache (cn_mempool s1) = mp_tx_cache (cn_mempool s)" "cn_txs_wal s1 = cn_txs_wal s"
    "cn_status s1 = cn_status s"
    "res_fold (storage_step (ne_adapter env) (ne_codecs env))
       [InsertTransactions (hdr_height (blk_header blk)) txs, InsertReceipts (hdr_height (blk_header blk)) (er_receipts resp),
        UpdateLatestProof (hdr_proof (blk_header blk)), InsertBlock blk] (cn_storage s) = Inr sto"
    "s2 = s1\<lparr>cn_storage := sto\<rparr>"
    "mempool_flush (ne_queue env) (pool_env env s2) (blk_ordered_tx_hashes blk) (cn_mempool s2) = Some (Inr mp)"
    "s' = s2\<lparr>cn_mempool := mp\<rparr>"
proof -
  from assms obtain params resp st1 b md m ids s2 where
    1: "ne_exec env params txs = Inr resp" "\<exists>info. update_by_executed info st = Inr st1"
    and 2: "update_by_committed (ce_hex_decode (ne_consensus env)) md blk (node_digest env b) pf st1 = Inr st'"
    and 3: "save_chain_data env txs (er_receipts resp) blk
        (s\<lparr>cn_crypto := m, cn_mempool := mempool_set_args (md_timeout_gap md) (md_cycles_limit md) (md_max_tx_size md) (cn_mempool s),
           cn_consensus_peers := ids\<rparr>) = Some (Inr (), s2)"
    and 4: "\<exists>mp. mempool_flush (ne_queue env) (pool_env env s2) (blk_ordered_tx_hashes blk) (cn_mempool s2) = Some (Inr mp) \<and>
        s' = s2\<lparr>cn_mempool := mp\<rparr>"
    by (clarsimp simp: sync_commit_block_def exec_block_def sync_exec_def act_Inr adapter_Inr update_overlord_crypto_Inr
        node_get_metadata_def node_set_args_def res_bind_Inr_iff Let_def) blast
  from 3 obtain sto where sto: "res_fold (storage_step (ne_adapter env) (ne_codecs env))
       [InsertTransactions (hdr_height (blk_header blk)) txs, InsertReceipts (hdr_height (blk_header blk)) (er_receipts resp),
        UpdateLatestProof (hdr_proof (blk_header blk)), InsertBlock blk] (cn_storage s) = Inr sto"
    "s2 = (s\<lparr>cn_crypto := m, cn_mempool := mempool_set_args (md_timeout_gap md) (md_cycles_limit md) (md_max_tx_size md) (cn_mempool s),
           cn_consensus_peers := ids\<rparr>)\<lparr>cn_storage := sto\<rparr>"
    by (rule save_chain_data_Inr) simp
  from 4 obtain mp where mp: "mempool_flush (ne_queue env) (pool_env env s2) (blk_ordered_tx_hashes blk) (cn_mempool s2) = Some (Inr mp)"
    "s' = s2\<lparr>cn_mempool := mp\<rparr>" by blast
  from 1(2) have st1: "cs_latest_committed_height st1 = cs_latest_committed_height st" by (auto dest: status_committed_exec)
  show ?thesis by (rule that [OF 1(1) st1 2 _ _ _ _ sto mp]) (simp_all add: mempool_set_args_def)
qed

text \<open>Everything that peers and the executor give can be stored, and the headers are stored under their heights.\<close>

definition served_ok :: "('db, 'q) node_env \<Rightarrow> bool" where
  "served_ok env \<longleftrightarrow>
     (\<forall>i n b. ne_remote_block env i n = Inr b \<longrightarrow>
        op_ok (ne_codecs env) (InsertBlock b) \<and> op_ok (ne_codecs env) (UpdateLatestProof (hdr_proof (blk_header b)))) \<and>
     (\<forall>i n hs ts. ne_remote_txs env i n hs = Inr ts \<longrightarrow> op_ok (ne_codecs env) (InsertTransactions n ts)) \<and>
     (\<forall>p txs r. ne_exec env p txs = Inr r \<longrightarrow> op_ok (ne_codecs env) (InsertReceipts (ep_height p) (er_receipts r)))"

definition heights_ok :: "chain_maps \<Rightarrow> bool" where
  "heights_ok m \<longleftrightarrow> (\<forall>n h. cm_headers m n = Some h \<longrightarrow> hdr_height h = n) \<and>
     (\<forall>n b. cm_blocks m n = Some b \<longrightarrow> hdr_height (blk_header b) = n)"

lemma heights_ok_step [simp]:
  "heights_ok m \<Longrightarrow> heights_ok (map_step (InsertBlock b) m)"
  "heights_ok (map_step (InsertTransactions n txs) m) = heights_ok m"
  "heights_ok (map_step (InsertReceipts n rs) m) = heights_ok m"
  "heights_ok (map_step (UpdateLatestProof p) m) = heights_ok m"
  by (auto simp: heights_ok_def Let_def)

lemma header_height:
  assumes "reads_agree (ne_adapter env) (ne_codecs env) m (cn_storage s)" "heights_ok m"
    and "get_block_header_by_height (verify_env env s) n = Inr h"
  shows "hdr_height h = n"
  using assms
  by (auto simp: get_block_header_by_height_def verify_env_def reads_agree_def heights_ok_def ok_or_def res_bind_Inr_iff
      split: option.splits)

text \<open>The writes of one synchronized block.\<close>

definition sync_ops :: "block \<Rightarrow> signed_transaction list \<Rightarrow> receipt list \<Rightarrow> storage_op list" where
  "sync_ops blk txs receipts =
     [InsertTransactions (hdr_height (blk_header blk)) txs, InsertReceipts (hdr_height (blk_header blk)) receipts,
      UpdateLatestProof (hdr_proof (blk_header blk)), InsertBlock blk]"

lemma overlord_send_Inr:
  "overlord_send env msg e s = Some (Inr x, s') \<longleftrightarrow> ne_handler env = HandlerOpen \<and> s' = s\<lparr>cn_overlord := cn_overlord s @ [msg]\<rparr>"
  by (simp add: overlord_send_def act_basic_Inr)

lemma sync_update_status_Inr:
  assumes "sync_update_status env st s = Some (Inr x, s')"
  shows "\<exists>q. s' = s\<lparr>cn_status := status_replace st (cn_status s), cn_overlord := q\<rparr>"
proof -
  from assms obtain msg where "s' = s\<lparr>cn_status := status_replace st (cn_status s)\<rparr>
      \<lparr>cn_overlord := cn_overlord (s\<lparr>cn_status := status_replace st (cn_status s)\<rparr>) @ [msg]\<rparr>"
    by (simp add: sync_update_status_def act_bind_Inr act_basic_Inr adapter_update_status_def overlord_send_Inr split: if_splits)
  then show ?thesis by (intro exI [of _ "cn_overlord s @ [msg]"]) simp
qed

lemma sync_block_Inr:
  assumes "sync_block env chunk height st s = Some (Inr st', s')"
  obtains i blk txs pf k previous s2 q where "ne_remote_block env i height = Inr blk"
    "\<forall>P. (\<forall>i hs ts. ne_remote_txs env i height hs = Inr ts \<longrightarrow> list_all P ts) \<longrightarrow> list_all P txs"
    "verify_proof (verify_env env s) (blk_header blk) pf = Inr ()"
    "get_block_header_by_height (verify_env env s) (hdr_height (blk_header blk) - 1) = Inr previous"
    "verify_proof (verify_env env s) previous (hdr_proof (blk_header blk)) = Inr ()"
    "sync_commit_block env \<lparr>rb_block = blk, rb_txs = txs\<rparr> pf st (s\<lparr>cn_rpc_calls := k\<rparr>) = Some (Inr st', s2)"
    "s' = s2\<lparr>cn_status := status_replace st' (cn_status s2), cn_overlord := q\<rparr>"
proof -
  from assms obtain blk txs s1 pf previous s2 where
    1: "ne_remote_block env (cn_rpc_calls s) height = Inr blk"
      "pull_chunks env height (chunk_list chunk (blk_ordered_tx_hashes blk)) (s\<lparr>cn_rpc_calls := Suc (cn_rpc_calls s)\<rparr>) = Some (Inr txs, s1)"
    and 2: "verify_proof (verify_env env s1) (blk_header blk) pf = Inr ()"
      "get_block_header_by_height (verify_env env s1) (hdr_height (blk_header blk) - 1) = Inr previous"
      "verify_proof (verify_env env s1) previous (hdr_proof (blk_header blk)) = Inr ()"
      "sync_commit_block env \<lparr>rb_block = blk, rb_txs = txs\<rparr> pf st (s1\<lparr>cn_rpc_calls := Suc (cn_rpc_calls s1)\<rparr>) = Some (Inr st', s2)"
    and 3: "sync_update_status env st' s2 = Some (Inr (), s')"
    by (clarsimp simp: sync_block_def get_rich_block_from_remote_def get_block_from_remote_def get_proof_from_remote_def
        act_Inr remote_call_Inr Let_def split: if_splits)
  from pull_chunks_Inr [OF 1(2)] obtain k where s1: "s1 = s\<lparr>cn_rpc_calls := k\<rparr>" by fastforce
  have txs: "list_all P txs" if "\<forall>i hs ts. ne_remote_txs env i height hs = Inr ts \<longrightarrow> list_all P ts" for P
    using pull_chunks_Inr [OF 1(2)] that by blast
  from sync_update_status_Inr [OF 3] obtain q where "s' = s2\<lparr>cn_status := status_replace st' (cn_status s2), cn_overlord := q\<rparr>" ..
  with 1(1) txs 2 s1 show ?thesis using that [of "cn_rpc_calls s" blk txs pf previous "Suc k" s2 q] by simp
qed

lemma sync_block_spec:
  assumes store: "byte_store (ne_adapter env) content valid" and keys: "keys_lawful (ne_codecs env)"
    and law: "queue_lawful (ne_queue env) items cap" and served: "served_ok env"
    and inv: "node_inv content valid items cap n env m s" "heights_ok m"
    and run: "sync_block env chunk height st s = Some (Inr st', s')"
  shows "\<exists>blk txs receipts pf. let m' = fold map_step (sync_ops blk txs receipts) m in
    node_inv content valid items cap n env m' s' \<and> heights_ok m' \<and>
    hdr_height (blk_header blk) = cs_latest_committed_height st + 1 \<and>
    cs_latest_committed_height st' = hdr_height (blk_header blk) \<and>
    cs_current_proof st' = pf \<and> cn_status s' = status_replace st' (cn_status s) \<and>
    (hdr_height (blk_header blk) \<noteq> 0 \<longrightarrow> pf_height pf = hdr_height (blk_header blk)) \<and>
    (hdr_height (blk_header blk) - 1 \<noteq> 0 \<longrightarrow> pf_height (hdr_proof (blk_header blk)) = hdr_height (blk_header blk) - 1)"
proof -
  obtain i blk txs pf k previous s2 q where remote: "ne_remote_block env i height = Inr blk"
    and txs: "\<forall>P. (\<forall>i hs ts. ne_remote_txs env i height hs = Inr ts \<longrightarrow> list_all P ts) \<longrightarrow> list_all P txs"
    and verified: "verify_proof (verify_env env s) (blk_header blk) pf = Inr ()"
    "get_block_header_by_height (verify_env env s) (hdr_height (blk_header blk) - 1) = Inr previous"
    "verify_proof (verify_env env s) previous (hdr_proof (blk_header blk)) = Inr ()"
    and commit: "sync_commit_block env \<lparr>rb_block = blk, rb_txs = txs\<rparr> pf st (s\<lparr>cn_rpc_calls := k\<rparr>) = Some (Inr st', s2)"
    and s': "s' = s2\<lparr>cn_status := status_replace st' (cn_status s2), cn_overlord := q\<rparr>"
    by (rule sync_block_Inr [OF run])
  obtain params resp st1 md b s0 s1 sto mp where
    exec: "ne_exec env params txs = Inr resp"
    and st1: "cs_latest_committed_height st1 = cs_latest_committed_height st"
    "update_by_committed (ce_hex_decode (ne_consensus env)) md blk (node_digest env b) pf st1 = Inr st'"
    and s0: "cn_storage s0 = cn_storage (s\<lparr>cn_rpc_calls := k\<rparr>)" "mp_tx_cache (cn_mempool s0) = mp_tx_cache (cn_mempool (s\<lparr>cn_rpc_calls := k\<rparr>))"
    "cn_txs_wal s0 = cn_txs_wal (s\<lparr>cn_rpc_calls := k\<rparr>)" "cn_status s0 = cn_status (s\<lparr>cn_rpc_calls := k\<rparr>)"
    and sto: "res_fold (storage_step (ne_adapter env) (ne_codecs env))
       [InsertTransactions (hdr_height (blk_header blk)) txs,
        InsertReceipts (hdr_height (blk_header blk)) (er_receipts resp),
        UpdateLatestProof (hdr_proof (blk_header blk)), InsertBlock blk] (cn_storage (s\<lparr>cn_rpc_calls := k\<rparr>)) = Inr sto"
    and s1: "s1 = s0\<lparr>cn_storage := sto\<rparr>"
    and mp: "mempool_flush (ne_queue env) (pool_env env s1) (blk_ordered_tx_hashes blk) (cn_mempool s1) = Some (Inr mp)"
    and s2: "s2 = s1\<lparr>cn_mempool := mp\<rparr>"
    by (rule sync_commit_block_Inr [OF commit])
  let ?ops = "sync_ops blk txs (er_receipts resp)"
  note inv' = inv(1) [unfolded node_inv_def]
  have reads: "reads_agree (ne_adapter env) (ne_codecs env) m (cn_storage s)"
    using byte_store.represents_reads [OF store _ _ keys] inv' by blast
  have ops: "list_all (op_ok (ne_codecs env)) ?ops"
    using served remote exec txs [THEN spec, of "\<lambda>t. round_trips (sc_stx (ne_codecs env)) t \<and> length (hash_bytes (stx_tx_hash t)) = 32"]
    by (auto simp: served_ok_def sync_ops_def)
  have stored: "valid (st_db sto) \<and> represents (ne_codecs env) (content (st_db sto)) (st_latest_block sto) (fold map_step ?ops m) \<and>
      reads_agree (ne_adapter env) (ne_codecs env) (fold map_step ?ops m) sto"
    using commit_storage [OF store keys _ _ ops, of "cn_storage s" m sto] inv' sto by (simp add: sync_ops_def)
  have "get_latest_block_header (ne_adapter env) (ne_codecs env) (cn_storage s1) = Inr (blk_header blk)"
    using stored by (simp add: reads_agree_def s1 sync_ops_def Let_def)
  moreover have "pool_inv items cap n s1" using inv' s0(2) by (simp add: s1 pool_inv_def)
  ultimately have "cache_inv items cap n (mp_tx_cache mp)" using flush_after_commit [OF law _ _ mp] by blast
  then have "node_inv content valid items cap n env (fold map_step ?ops m) s'"
    using stored inv' s0(3) by (simp add: node_inv_def s' s2 s1)
  moreover have "heights_ok (fold map_step ?ops m)" using inv(2) by (simp add: sync_ops_def del: map_step.simps)
  moreover note update_by_committed_Inr [OF st1(2)]
  moreover have "hdr_height (blk_header blk) \<noteq> 0 \<longrightarrow> pf_height pf = hdr_height (blk_header blk)"
    using verify_proof_ok [OF verified(1)] by auto
  moreover have "hdr_height (blk_header blk) - 1 \<noteq> 0 \<longrightarrow> pf_height (hdr_proof (blk_header blk)) = hdr_height (blk_header blk) - 1"
    using verify_proof_ok [OF verified(3)] header_height [OF reads inv(2) verified(2)] by auto
  ultimately show ?thesis
    using st1(1) s0(4) by (intro exI [of _ blk] exI [of _ txs] exI [of _ "er_receipts resp"] exI [of _ pf]) (simp add: Let_def s' s2 s1)
qed


section \<open>The whole synchronization\<close>

lemma sync_ops_maps [simp]:
  "cm_blocks (fold map_step (sync_ops blk txs receipts) m) = (cm_blocks m)(hdr_height (blk_header blk) \<mapsto> blk)"
  "cm_latest (fold map_step (sync_ops blk txs receipts) m) = Some blk"
  "cm_proof (fold map_step (sync_ops blk txs receipts) m) = Some (hdr_proof (blk_header blk))"
  by (simp_all add: sync_ops_def Let_def)

text \<open>What a synchronization from one height to another leaves in a node.\<close>

definition synced :: "u64 \<Rightarrow> u64 \<Rightarrow> chain_maps \<Rightarrow> chain_maps \<Rightarrow> ('db, 'q) node \<Rightarrow> bool" where
  "synced current target m m' s \<longleftrightarrow>
     cs_latest_committed_height (cn_status s) = target \<and> pf_height (cs_current_proof (cn_status s)) = target \<and>
     (\<forall>k. if current < k \<and> k \<le> target then \<exists>b. cm_blocks m' k = Some b else cm_blocks m' k = cm_blocks m k) \<and>
     (\<exists>blk. cm_latest m' = Some blk \<and> hdr_height (blk_header blk) = target \<and>
        cm_proof m' = Some (hdr_proof (blk_header blk)) \<and>
        (1 < target \<longrightarrow> pf_height (hdr_proof (blk_header blk)) = target - 1))"

lemma next_height:
  assumes "(current :: u64) < target"
  shows "current + 1 \<noteq> 0" "current + 1 \<le> target" "current < k \<longleftrightarrow> current + 1 \<le> k" "1 < current + 1 \<Longrightarrow> current + 1 - 1 \<noteq> 0"
  using unat_next_height [OF assms] assms by (auto simp: word_less_unat word_le_unat)

lemma synced_one:
  assumes "current < target" "target = current + 1"
    and "hdr_height (blk_header blk) = target" "cs_latest_committed_height st' = target" "pf_height (cs_current_proof st') = target"
    and "target - 1 \<noteq> 0 \<longrightarrow> pf_height (hdr_proof (blk_header blk)) = target - 1" "cn_status s' = status_replace st' st0"
  shows "synced current target m (fold map_step (sync_ops blk txs receipts) m) s'"
proof -
  have "current < k \<and> k \<le> target \<longleftrightarrow> k = target" for k
    using next_height(3) [OF assms(1), of k] by (auto simp: assms(2))
  with assms next_height(4) [OF assms(1)] show ?thesis
    by (auto simp: synced_def status_replace_def)
qed

lemma sync_loop_spec:
  assumes "byte_store (ne_adapter env) content valid" "keys_lawful (ne_codecs env)"
    and "queue_lawful (ne_queue env) items cap" "served_ok env"
    and "node_inv content valid items cap n env m s" "heights_ok m" "cs_latest_committed_height st = current"
    and "current < target" "sync_loop env chunk target current st s = Some (Inr st', s')"
  shows "\<exists>m'. node_inv content valid items cap n env m' s' \<and> heights_ok m' \<and> cs_latest_committed_height st' = target \<and>
    synced current target m m' s'"
  using assms(5-9)
proof (induction "unat target - unat current" arbitrary: current st s m)
  case 0
  then show ?case by (simp add: word_less_unat)
next
  case (Suc d)
  from Suc.prems(4,5) obtain st1 s1 where
    run: "sync_block env chunk (current + 1) st s = Some (Inr st1, s1)" "sync_loop env chunk target (current + 1) st1 s1 = Some (Inr st', s')"
    by (subst (asm) sync_loop.simps) (auto split: option.splits sum.splits)
  from sync_block_spec [OF assms(1-4) Suc.prems(1,2) run(1)]
  obtain blk txs receipts where blk: "node_inv content valid items cap n env (fold map_step (sync_ops blk txs receipts) m) s1"
    "heights_ok (fold map_step (sync_ops blk txs receipts) m)" "hdr_height (blk_header blk) = current + 1"
    "cs_latest_committed_height st1 = current + 1" "cn_status s1 = status_replace st1 (cn_status s)"
    "pf_height (cs_current_proof st1) = current + 1"
    "current + 1 - 1 \<noteq> 0 \<longrightarrow> pf_height (hdr_proof (blk_header blk)) = current + 1 - 1"
    using next_height(1) [OF Suc.prems(4)] Suc.prems(3) by (auto simp: Let_def)
  show ?case
  proof (cases "current + 1 = target")
    case True
    then have "st' = st1" "s' = s1" using run(2) by (simp_all add: sync_loop.simps [of env chunk target target])
    then show ?thesis
      using synced_one [OF Suc.prems(4) True [symmetric], of blk st1 s1 "cn_status s" m txs receipts] blk True by auto
  next
    case False
    then have less: "current + 1 < target" using next_height(2) [OF Suc.prems(4)] by simp
    have "d = unat target - unat (current + 1)" using Suc.hyps(2) unat_next_height [OF Suc.prems(4)] by simp
    from Suc.hyps(1) [OF this blk(1,2,4) less run(2)]
    obtain m' where m': "node_inv content valid items cap n env m' s'" "heights_ok m'" "cs_latest_committed_height st' = target"
      "synced (current + 1) target (fold map_step (sync_ops blk txs receipts) m) m' s'" by blast
    have "current < k \<and> k \<le> target \<longleftrightarrow> k = current + 1 \<or> current + 1 < k \<and> k \<le> target" for k
      using next_height(2,3) [OF Suc.prems(4)] by (auto simp: less_le)
    then have "synced current target m m' s'" using m'(4) by (auto simp: synced_def blk(3) split: if_splits)
    with m' show ?thesis by blast
  qed
qed

text \<open>
  (C32) \<^bold>\<open>A synchronization and the proof it loses.\<close> When \<^verbatim>\<open>start_sync\<close> succeeds, the node is at the remote height
  or fifty blocks further than before, exactly the blocks of the heights in between were added to the storage, and the
  status carries the proof of the last of them. The stored latest proof, however, is the one in the header of that
  block, which proves its predecessor: asked for the proof of its own latest block, the node answers
  that it has none.
\<close>

theorem start_sync_spec:
  assumes "byte_store (ne_adapter env) content valid" "keys_lawful (ne_codecs env)"
    and "queue_lawful (ne_queue env) items cap" "served_ok env"
    and "node_inv content valid items cap n env m s" "heights_ok m" "cs_latest_committed_height st = current"
    and target: "target = (if current + 50 > remote then remote else current + 50)" and "current < target"
    and "start_sync env chunk current remote st s = Some (Inr st', s')"
  shows "\<exists>m'. node_inv content valid items cap n env m' s' \<and> reads_agree (ne_adapter env) (ne_codecs env) m' (cn_storage s') \<and>
    cs_latest_committed_height st' = target \<and> synced current target m m' s' \<and>
    (1 < target \<longrightarrow> pull_proof_handler env target s' = Inl (Err GetNone))"
proof -
  have "sync_loop env chunk target current st s = Some (Inr st', s')"
    using assms(10) unfolding start_sync_def ONCE_SYNC_BLOCK_LIMIT_def target .
  from sync_loop_spec [OF assms(1-7,9) this] obtain m' where
    m': "node_inv content valid items cap n env m' s'" "cs_latest_committed_height st' = target" "synced current target m m' s'" by blast
  then have reads: "reads_agree (ne_adapter env) (ne_codecs env) m' (cn_storage s')"
    using byte_store.represents_reads [OF assms(1) _ _ assms(2)] by (simp add: node_inv_def)
  have "pull_proof_handler env target s' = Inl (Err GetNone)" if "1 < target"
  proof -
    from m'(3) that obtain pf where "cm_proof m' = Some pf" "pf_height pf = target - 1" by (auto simp: synced_def)
    moreover have "target \<noteq> target - 1" "\<not> target < target - 1"
      using unat_sub_exact [OF less_imp_le [OF that]] by (simp_all add: word_less_unat)
    ultimately show ?thesis using reads by (simp add: pull_proof_handler_def reads_agree_def)
  qed
  with m' reads show ?thesis by blast
qed

section \<open>A concrete synchronization\<close>

definition sync_example_proof :: "u64 \<Rightarrow> block_proof" where
  "sync_example_proof n = \<lparr>pf_height = n, pf_round = 0, pf_block_hash = Hash (replicate 32 0), pf_signature = [], pf_bitmap = [0xC0]\<rparr>"

definition sync_example_block :: "u64 \<Rightarrow> block" where
  "sync_example_block n =
     \<lparr>blk_header =
        \<lparr>hdr_chain_id = Hash [], hdr_height = n, hdr_exec_height = 1, hdr_prev_hash = Hash (replicate 32 0), hdr_timestamp = 0,
         hdr_order_root = Hash [], hdr_order_signed_transactions_hash = Hash (replicate 32 0), hdr_confirm_root = [],
         hdr_state_root = Hash [1], hdr_receipt_root = [], hdr_cycles_used = [], hdr_proposer = Address [1],
         hdr_proof = sync_example_proof (n - 1), hdr_validator_version = 0, hdr_validators = []\<rparr>,
      blk_ordered_tx_hashes = []\<rparr>"

text \<open>A codec for one value per height below 256.\<close>

definition height_codec :: "('a \<Rightarrow> u64) \<Rightarrow> (u64 \<Rightarrow> 'a) \<Rightarrow> 'a codec" where
  "height_codec height_of value_at =
     \<lparr>encode_fixed = (\<lambda>x. Inr [ucast (height_of x)]), decode_fixed = (\<lambda>b. Inr (value_at (ucast (hd b))))\<rparr>"

definition sync_example_env :: "(memory_db, nat \<times> nat list) node_env" where
  "sync_example_env = (engine_example_env (\<lambda>_. Room))
     \<lparr>ne_codecs := example_codecs
        \<lparr>sc_block := height_codec (\<lambda>b. hdr_height (blk_header b)) sync_example_block,
         sc_header := height_codec hdr_height (\<lambda>n. blk_header (sync_example_block n)),
         sc_proof := height_codec pf_height sync_example_proof\<rparr>,
      ne_exec := (\<lambda>_ _. Inr \<lparr>er_receipts = [], er_all_cycles_used = 0, er_state_root = Hash [2]\<rparr>),
      ne_remote_block := (\<lambda>_ _. Inr (sync_example_block 5)), ne_remote_txs := (\<lambda>_ _ _. Inr []),
      ne_remote_proof := (\<lambda>_ _. Inr (sync_example_proof 5))\<rparr>"

abbreviation sync_example_ops :: "storage_op list" where
  "sync_example_ops \<equiv> [InsertBlock (sync_example_block 3), InsertBlock (sync_example_block 4)]"

definition sync_example_node :: "(memory_db, nat \<times> nat list) node" where
  "sync_example_node = engine_example_node
     \<lparr>cn_storage := (case res_fold (storage_step memory_adapter (ne_codecs sync_example_env)) sync_example_ops (storage_new []) of
        Inr sto \<Rightarrow> sto | Inl _ \<Rightarrow> storage_new [])\<rparr>"

lemma sync_example_sel [simp]:
  "ne_adapter sync_example_env = memory_adapter" "ne_queue sync_example_env = list_queue"
  "ne_consensus sync_example_env = example_consensus_env" "ne_peer_id sync_example_env = Inr" "ne_handler sync_example_env = HandlerOpen"
  "ne_remote_block sync_example_env i n = Inr (sync_example_block 5)" "ne_remote_proof sync_example_env i n = Inr (sync_example_proof 5)"
  by (simp_all add: sync_example_env_def engine_example_env_def)

lemma sync_example_keys: "keys_lawful (ne_codecs sync_example_env)"
  using example_codecs_lawful by (simp add: keys_lawful_def sync_example_env_def LATEST_BLOCK_KEY_def LATEST_PROOF_KEY_def)

lemma sync_example_ok:
  "op_ok (ne_codecs sync_example_env) (InsertBlock (sync_example_block 3))"
  "op_ok (ne_codecs sync_example_env) (InsertBlock (sync_example_block 4))"
  "op_ok (ne_codecs sync_example_env) (InsertBlock (sync_example_block 5))"
  "op_ok (ne_codecs sync_example_env) (UpdateLatestProof (sync_example_proof 4))"
  by (simp_all add: sync_example_env_def round_trips_def height_codec_def sync_example_block_def sync_example_proof_def)

lemma sync_example_served: "served_ok sync_example_env"
  using sync_example_ok by (auto simp: served_ok_def sync_example_env_def) (simp add: sync_example_block_def)+

lemma sync_example_inv:
  "node_inv memory_content (\<lambda>_. True) snd fst 8 sync_example_env (fold map_step sync_example_ops empty_maps) sync_example_node"
proof -
  have empty: "memory_content [] = (\<lambda>_ _. None)" by (simp add: memory_content_def memory_category_def fun_eq_iff)
  have "represents (ne_codecs sync_example_env) (memory_content (st_db (storage_new []))) (st_latest_block (storage_new [])) empty_maps"
    using represents_empty by (simp add: storage_new_def empty)
  from mem.storage_history [OF TrueI this sync_example_keys, of sync_example_ops] sync_example_ok(1,2)
  obtain sto where "res_fold (storage_step memory_adapter (ne_codecs sync_example_env)) sync_example_ops (storage_new []) = Inr sto"
    "represents (ne_codecs sync_example_env) (memory_content (st_db sto)) (st_latest_block sto) (fold map_step sync_example_ops empty_maps)"
    by (simp del: res_fold.simps fold_simps op_ok.simps) blast
  moreover have "pool_inv snd fst 8 engine_example_node" "cn_txs_wal engine_example_node = []"
    using engine_example_laws(4) by (simp_all add: node_inv_def) (simp add: engine_example_node_def)
  ultimately show ?thesis
    by (simp add: node_inv_def sync_example_node_def wal_wf_def del: res_fold.simps fold_simps)
qed

lemma sync_example_fields [simp]:
  "hdr_height (blk_header (sync_example_block n)) = n" "hdr_proof (blk_header (sync_example_block n)) = sync_example_proof (n - 1)"
  "blk_ordered_tx_hashes (sync_example_block n) = []" "pf_height (sync_example_proof n) = n"
  "hdr_prev_hash (blk_header (sync_example_block n)) = Hash (replicate 32 0)" "hdr_validators (blk_header (sync_example_block n)) = []"
  "hdr_proposer (blk_header (sync_example_block n)) = Address [1]" "pf_block_hash (sync_example_proof n) = Hash (replicate 32 0)"
  "hdr_confirm_root (blk_header (sync_example_block n)) = []" "hdr_receipt_root (blk_header (sync_example_block n)) = []"
  "hdr_cycles_used (blk_header (sync_example_block n)) = []" "hdr_order_root (blk_header (sync_example_block n)) = Hash []"
  by (simp_all add: sync_example_block_def sync_example_proof_def)

lemma stored_header:
  assumes "reads_agree ad cs m st" "cm_headers m n = Some h"
  shows "get_block_header ad cs n st = Inr (Some h)"
  using assms unfolding reads_agree_def by simp

lemma sync_example_headers:
  "cm_headers (fold map_step sync_example_ops empty_maps) 3 = Some (blk_header (sync_example_block 3))"
  "cm_headers (fold map_step sync_example_ops empty_maps) 4 = Some (blk_header (sync_example_block 4))"
  by (simp_all add: Let_def)

lemma sync_example_runs:
  "\<exists>st' s'. start_sync sync_example_env 2 4 5 (cn_status sync_example_node) sync_example_node = Some (Inr st', s')"
proof -
  let ?env = sync_example_env and ?s = sync_example_node and ?blk = "sync_example_block 5"
  let ?m = "fold map_step sync_example_ops empty_maps" and ?md = "example_metadata [example_verifier [1] 2 2, example_verifier [2] 3 3]"
  have rep: "represents (ne_codecs ?env) (memory_content (st_db (cn_storage ?s))) (st_latest_block (cn_storage ?s)) ?m"
    and pool: "pool_inv snd fst 8 ?s"
    using sync_example_inv by (simp_all add: node_inv_def del: fold_simps)
  have reads: "reads_agree memory_adapter (ne_codecs ?env) ?m (cn_storage ?s)"
    by (rule mem.represents_reads [OF TrueI rep sync_example_keys])
  have headers: "get_block_header_by_height (verify_env ?env (?s\<lparr>cn_rpc_calls := k\<rparr>)) n = Inr (blk_header (sync_example_block n))"
    if "n = 3 \<or> n = 4" for k n
    using that stored_header [OF reads sync_example_headers(1)] stored_header [OF reads sync_example_headers(2)]
    by (auto simp: get_block_header_by_height_def verify_env_def simp del: fold_simps)
  have meta: "adapter_get_metadata (verify_env ?env t) a b c d = Inr ?md" for a b c d t
    by (simp add: adapter_get_metadata_def verify_env_def example_consensus_env_def address_from_hash_def hash_digest_def
        address_from_bytes_def ensure_len_def HASH_LEN_def ADDRESS_LEN_def)
  have env_sel: "ce_encode_header (verify_env ?env t) h = Inr []" "ce_digest (verify_env ?env t) = (\<lambda>b. replicate 32 0)"
    "hash_digest (ce_digest (verify_env ?env t)) b = Hash (replicate 32 0)"
    "ce_extract_voters (verify_env ?env t) nodes bm = Some (nodes, select_voters nodes bm)"
    "ce_hex_decode (verify_env ?env t) = (\<lambda>h. map (\<lambda>c. of_nat (of_char c)) (hex_string h))"
    "ce_encode_vote (verify_env ?env t) = vt_block_hash" "ce_bls_parse_key (verify_env ?env t) = Some"
    "ce_bls_parse_signature (verify_env ?env t) = Some" "ce_bls_aggregate (verify_env ?env t) = concat"
    "ce_hash_value_ok (verify_env ?env t) = (\<lambda>h. length h = 32)" "ce_bls_verify (verify_env ?env t) = (\<lambda>sig h key. key = [1, 2])"
    for t h b nodes bm
    by (simp_all add: verify_env_def example_consensus_env_def hash_digest_def)
  have proofs: "verify_proof (verify_env ?env (?s\<lparr>cn_rpc_calls := k\<rparr>)) (blk_header (sync_example_block n)) (sync_example_proof n) = Inr ()"
    if "n = 4 \<or> n = 5" for k n
  proof -
    have "hdr_height (blk_header (sync_example_block n)) \<noteq> 0" using that by auto
    moreover have "get_block_header_by_height (verify_env ?env (?s\<lparr>cn_rpc_calls := k\<rparr>)) (n - 1) = Inr (blk_header (sync_example_block (n - 1)))"
      using that headers [of "n - 1" k] by auto
    moreover have "pf_bitmap (sync_example_proof n) = [0xC0]" by (simp add: sync_example_proof_def)
    ultimately show ?thesis
      unfolding verify_proof_def
      by (simp add: meta env_sel example_select verify_proof_signature_ok convert_hex_to_bls_pubkeys_def node_of_def
          example_metadata_def example_verifier_def verify_proof_weight_def weight_map_of_def crypto_hash_def)
        (simp add: sync_example_proof_def hash_digest_def)
  qed
  have header: "verify_block_header (verify_env ?env (?s\<lparr>cn_rpc_calls := k\<rparr>)) ?blk = Inr ()" for k
    using headers [of 4 k]
    by (simp add: verify_block_header_def meta env_sel Let_def example_metadata_def example_verifier_def hash_digest_def)
  let ?rb = "\<lparr>rb_block = ?blk, rb_txs = []\<rparr>" and ?h = "blk_header ?blk" and ?pf = "sync_example_proof 5"
  have rich: "get_rich_block_from_remote ?env 2 5 t = Some (Inr ?rb, t\<lparr>cn_rpc_calls := Suc (cn_rpc_calls t)\<rparr>)" for t
    by (simp add: get_rich_block_from_remote_def get_block_from_remote_def remote_call_def act_bind_def act_return_def)
  have pf: "get_proof_from_remote ?env 5 t = Some (Inr ?pf, t\<lparr>cn_rpc_calls := Suc (cn_rpc_calls t)\<rparr>)" for t
    by (simp add: get_proof_from_remote_def remote_call_def)
  have digest: "digest_txs ?env [] = Inr (hdr_order_signed_transactions_hash ?h)"
    by (simp add: digest_txs_def digest_signed_transactions_def example_consensus_env_def hash_from_empty_def hash_digest_def sync_example_block_def)
  have fields: "cn_status ?s = example_status\<lparr>cs_latest_committed_height := 4, cs_exec_height := 4\<rparr>"
    by (simp add: sync_example_node_def engine_example_node_def)
  let ?st1 = "(cn_status ?s)\<lparr>cs_exec_height := 5, cs_list_cycles_used := [0], cs_list_confirm_root := [Hash []],
      cs_list_receipt_root := [hash_from_empty (ce_digest example_consensus_env)], cs_list_state_root := [Hash [2]]\<rparr>"
  have env_exec: "ne_exec ?env p txs = Inr \<lparr>er_receipts = [], er_all_cycles_used = 0, er_state_root = Hash [2]\<rparr>"
    "ce_from_root example_consensus_env root = Inr ()" "merkle_root (ne_tree_root ?env) d [] = None" for p txs root d
    by (simp_all add: sync_example_env_def engine_example_env_def example_consensus_env_def merkle_root_def)
  have exec: "exec_block ?env ?rb (cn_status ?s) t = Some (Inr (\<lparr>er_receipts = [], er_all_cycles_used = 0, er_state_root = Hash [2]\<rparr>, ?st1), t)" for t
    by (simp add: exec_block_def sync_exec_def act_bind_def act_read_def act_return_def env_exec executed_info_new_def
        update_by_executed_def fields example_status_def Let_def)
  let ?ops = "sync_ops ?blk [] []"
  have "list_all (op_ok (ne_codecs ?env)) ?ops"
    using sync_example_ok(3,4) by (simp add: sync_ops_def del: op_ok.simps) simp
  from mem.storage_history [OF TrueI rep sync_example_keys this]
  obtain sto where sto: "res_fold (storage_step memory_adapter (ne_codecs ?env)) ?ops (cn_storage ?s) = Inr sto"
    "represents (ne_codecs ?env) (memory_content (st_db sto)) (st_latest_block sto) (fold map_step ?ops ?m)" by blast
  have latest: "get_latest_block_header memory_adapter (ne_codecs ?env) sto = Inr ?h"
    using mem.represents_reads [OF TrueI sto(2) sync_example_keys] unfolding reads_agree_def by simp
  have saved: "save_chain_data ?env [] [] ?blk t = Some (Inr (), t\<lparr>cn_storage := sto\<rparr>)" if "cn_storage t = cn_storage ?s" for t
    using sto(1) that
    by (auto simp: save_chain_data_def act_bind_Inr save_signed_txs_def save_receipts_def save_proof_def save_block_def on_storage_Inr sync_ops_def
        split: sum.splits)
  obtain keys where keys: "generate_new_crypto_map example_consensus_env ?md = Inr keys"
    by (simp add: generate_new_crypto_map_def example_metadata_def example_consensus_env_def)
  obtain st2 where st2: "update_by_committed (ce_hex_decode example_consensus_env) ?md ?blk (node_digest ?env []) ?pf ?st1 = Inr st2"
    by (simp add: update_by_committed_def status_split_off_def vec_split_off_def set_metadata_def check_list_roots_def fields Let_def)
  let ?t = "?s\<lparr>cn_rpc_calls := Suc (Suc (cn_rpc_calls ?s)), cn_crypto := crypto_update keys (cn_crypto ?s),
      cn_mempool := mempool_set_args (md_timeout_gap ?md) (md_cycles_limit ?md) (md_max_tx_size ?md) (cn_mempool ?s),
      cn_consensus_peers := map (\<lambda>v. ce_hex_decode example_consensus_env (ve_pub_key v)) (md_verifier_list ?md)\<rparr>"
  have "pool_inv snd fst 8 (?t\<lparr>cn_storage := sto\<rparr>)" using pool by (simp add: pool_inv_def mempool_set_args_def)
  from flush_latest [OF _ this, of ?env ?h "[]"] latest
  obtain mp where mp: "mempool_flush list_queue (pool_env ?env (?t\<lparr>cn_storage := sto\<rparr>)) [] (cn_mempool (?t\<lparr>cn_storage := sto\<rparr>)) = Some (Inr mp)"
    by (auto simp: list_queue_lawful)
  have crypto: "update_overlord_crypto ?env ?md u = Some (Inr (), u\<lparr>cn_crypto := crypto_update keys (cn_crypto u)\<rparr>)" for u
    by (simp add: update_overlord_crypto_Inr keys)
  have tag: "tag_consensus ?env ks u = Some (Inr (), u\<lparr>cn_consensus_peers := ks\<rparr>)" for ks u
    by (simp add: adapter_Inr res_collect_total [of _ Inr "\<lambda>k. k"])
  have flushed: "flush_mempool ?env [] (?t\<lparr>cn_storage := sto\<rparr>) = Some (Inr (), ?t\<lparr>cn_storage := sto, cn_mempool := mp\<rparr>)"
    using mp by (simp add: adapter_Inr)
  have encode: "ce_encode_header example_consensus_env h = Inr []" for h by (simp add: example_consensus_env_def)
  have committed: "sync_commit_block ?env ?rb ?pf (cn_status ?s) (?s\<lparr>cn_rpc_calls := Suc (Suc (cn_rpc_calls ?s))\<rparr>) =
      Some (Inr st2, ?t\<lparr>cn_storage := sto, cn_mempool := mp\<rparr>)"
    using st2 flushed saved [of ?t]
    by (simp add: sync_commit_block_def act_bind_def exec act_read_def encode node_get_metadata_def meta crypto node_set_args_def
        act_modify_def tag act_return_def Let_def)
  obtain s' where updated: "sync_update_status ?env st2 (?t\<lparr>cn_storage := sto, cn_mempool := mp\<rparr>) = Some (Inr (), s')"
    by (simp add: sync_update_status_def adapter_update_status_def overlord_send_def act_modify_def)
  have "sync_block ?env 2 5 (cn_status ?s) ?s = Some (Inr st2, s')"
    using committed updated headers [of 4 "Suc (Suc (cn_rpc_calls ?s))"] proofs [of 4 "Suc (Suc (cn_rpc_calls ?s))"]
      proofs [of 5 "Suc (Suc (cn_rpc_calls ?s))"] header [of "Suc (Suc (cn_rpc_calls ?s))"]
    by (simp add: sync_block_def act_bind_def rich pf act_read_def digest act_return_def Let_def)
  then have "sync_loop ?env 2 5 4 (cn_status ?s) ?s = Some (Inr st2, s')"
    by (subst sync_loop.simps) (simp add: sync_loop.simps [of ?env 2 5 5])
  then show ?thesis by (simp add: start_sync_def ONCE_SYNC_BLOCK_LIMIT_def)
qed

theorem start_sync_spec_witness:
  "\<exists>st' s'. start_sync sync_example_env 2 4 5 (cn_status sync_example_node) sync_example_node = Some (Inr st', s') \<and>
     cs_latest_committed_height (cn_status s') = 5 \<and> pull_proof_handler sync_example_env 5 s' = Inl (Err GetNone)"
proof -
  from sync_example_runs obtain st' s' where
    run: "start_sync sync_example_env 2 4 5 (cn_status sync_example_node) sync_example_node = Some (Inr st', s')" by blast
  have byte: "byte_store (ne_adapter sync_example_env) memory_content (\<lambda>_. True)" by (simp add: mem.byte_store_axioms)
  have law: "queue_lawful (ne_queue sync_example_env) snd fst" by (simp add: list_queue_lawful)
  have heights: "heights_ok (fold map_step sync_example_ops empty_maps)" by (simp add: heights_ok_def Let_def empty_maps_def)
  have "cs_latest_committed_height (cn_status sync_example_node) = 4"
    by (simp add: sync_example_node_def engine_example_node_def)
  from start_sync_spec [OF byte sync_example_keys law sync_example_served sync_example_inv heights this refl _ run]
  have "cs_latest_committed_height (cn_status s') = 5" "pull_proof_handler sync_example_env 5 s' = Inl (Err GetNone)"
    by (auto simp: synced_def)
  with run show ?thesis by blast
qed

end
