(* ===== verification/Trust_Metric.thy ===== *)
theory Trust_Metric
  imports Muta_Prelude Complex_Main
begin

text \<open>
  The trust metric of a peer, \<^verbatim>\<open>core/network/src/peer_manager/trust_metric.rs\<close>: good and bad events of
  the running interval, a history of faded memories of the intervals before, and the score computed
  from both.

  The double-precision operations are an argument (\<^verbatim>\<open>f64_ops\<close>); the static table of history weights
  is passed to the operations that read it. The timer that ends an interval is not modelled: an
  interval ends when \<^verbatim>\<open>enter_new_interval\<close> is called, and \<^verbatim>\<open>start\<close> and \<^verbatim>\<open>pause\<close> only record whether
  the timer runs.

  The lemmas show that a lookup in the history never misses and, in exact arithmetic, that the trust
  value stays between zero and one.
\<close>

section \<open>Definitions\<close>

record 'f f64_ops =
  f_lit :: "rat \<Rightarrow> 'f"
  f_of_u64 :: "u64 \<Rightarrow> 'f"
  f_add :: "'f \<Rightarrow> 'f \<Rightarrow> 'f"
  f_sub :: "'f \<Rightarrow> 'f \<Rightarrow> 'f"
  f_mul :: "'f \<Rightarrow> 'f \<Rightarrow> 'f"
  f_div :: "'f \<Rightarrow> 'f \<Rightarrow> 'f"
  f_powf :: "'f \<Rightarrow> 'f \<Rightarrow> 'f"
  f_log2 :: "'f \<Rightarrow> 'f"
  f_floor :: "'f \<Rightarrow> 'f"
  f_ge :: "'f \<Rightarrow> 'f \<Rightarrow> bool"
  f_to_u64 :: "'f \<Rightarrow> u64"
  f_to_u8 :: "'f \<Rightarrow> u8"

definition PROPORTIONAL_WEIGHT :: "'f f64_ops \<Rightarrow> 'f" where "PROPORTIONAL_WEIGHT F = f_lit F (4 / 10)"
definition INTERGRAL_WEIGHT :: "'f f64_ops \<Rightarrow> 'f" where "INTERGRAL_WEIGHT F = f_lit F (6 / 10)"
definition OPTIMISTIC_HISTORY_WEIGHT :: "'f f64_ops \<Rightarrow> 'f" where "OPTIMISTIC_HISTORY_WEIGHT F = f_lit F (8 / 10)"
definition DERIVATIVE_POSITIVE_WEIGHT :: "'f f64_ops \<Rightarrow> 'f" where "DERIVATIVE_POSITIVE_WEIGHT F = f_lit F 0"
definition DERIVATIVE_NEGATIVE_WEIGHT :: "'f f64_ops \<Rightarrow> 'f" where "DERIVATIVE_NEGATIVE_WEIGHT F = f_lit F (1 / 10)"
definition INITIAL_HISTORY_VALUE :: "'f f64_ops \<Rightarrow> 'f" where "INITIAL_HISTORY_VALUE F = f_lit F (8 / 10)"
definition KNOCK_OUT_SCORE :: u8 where "KNOCK_OUT_SCORE = 40"
definition GOOD_INTERVAL_CAP :: u64 where "GOOD_INTERVAL_CAP = 30"

record trust_metric_config =
  tc_interval :: u64
  tc_max_history :: u64
  tc_max_intervals :: u64
  tc_max_faded_memorys :: u64

definition log2_floor :: "'f f64_ops \<Rightarrow> u64 \<Rightarrow> u64" where
  "log2_floor F i = f_to_u64 F (f_floor F (f_log2 F (f_of_u64 F i)))"

definition history_weight :: "'f f64_ops \<Rightarrow> u64 \<Rightarrow> 'f" where
  "history_weight F k = f_powf F (OPTIMISTIC_HISTORY_WEIGHT F) (f_of_u64 F (k - 1))"

text \<open>\<^verbatim>\<open>finish\<close> also fills the static table of weights, the second component.\<close>

definition trust_config_finish ::
    "'f f64_ops \<Rightarrow> trust_metric_config \<Rightarrow> (unit, trust_metric_config \<times> 'f list) result" where
  "trust_config_finish F c =
     (if tc_interval c = 0 then Inl Panic
      else
        let n = tc_max_history c div tc_interval c
        in Inr (c\<lparr>tc_max_intervals := n, tc_max_faded_memorys := log2_floor F n + 1\<rparr>,
                map (\<lambda>k. history_weight F (of_nat k)) [1..<Suc (unat n)]))"

definition trust_config_new ::
    "'f f64_ops \<Rightarrow> u64 \<Rightarrow> u64 \<Rightarrow> (unit, trust_metric_config \<times> 'f list) result" where
  "trust_config_new F interval max_history =
     trust_config_finish F \<lparr>tc_interval = interval, tc_max_history = max_history,
       tc_max_intervals = 0, tc_max_faded_memorys = 0\<rparr>"

record 'f history =
  hi_max_intervals :: u64
  hi_max_memorys :: u64
  hi_intervals :: u64
  hi_memorys :: "'f list"
  hi_aggregate_trust :: 'f
  hi_weights_sum :: 'f

definition history_new :: "'f f64_ops \<Rightarrow> u64 \<Rightarrow> u64 \<Rightarrow> 'f history" where
  "history_new F max_intervals max_memorys =
     \<lparr>hi_max_intervals = max_intervals, hi_max_memorys = max_memorys, hi_intervals = 0, hi_memorys = [],
      hi_aggregate_trust = INITIAL_HISTORY_VALUE F, hi_weights_sum = f_lit F 0\<rparr>"

definition latest_trust_value :: "'f f64_ops \<Rightarrow> 'f history \<Rightarrow> 'f" where
  "latest_trust_value F h = (case hi_memorys h of [] \<Rightarrow> f_lit F 0 | v # _ \<Rightarrow> v)"

definition lookup_weight :: "'f f64_ops \<Rightarrow> 'f list \<Rightarrow> u64 \<Rightarrow> 'f" where
  "lookup_weight F ws i = (if unat i - 1 < length ws then ws ! (unat i - 1) else history_weight F i)"

definition fade :: "'f f64_ops \<Rightarrow> 'f list \<Rightarrow> nat \<Rightarrow> 'f" where
  "fade F ms j =
     (let w = f_powf F (f_lit F 2) (f_of_u64 F (of_nat j))
      in f_div F (f_add F (ms ! (j - 1)) (f_mul F (ms ! j) (f_sub F w (f_lit F 1)))) w)"

definition remember_interval :: "'f f64_ops \<Rightarrow> 'f list \<Rightarrow> 'f \<Rightarrow> 'f history \<Rightarrow> 'f history" where
  "remember_interval F ws trust_value h =
     (let h = (if hi_intervals h < hi_max_intervals h
               then let i = hi_intervals h + 1
                    in h\<lparr>hi_intervals := i, hi_weights_sum := f_add F (hi_weights_sum h) (lookup_weight F ws i)\<rparr>
               else h)
      in if hi_intervals h \<le> hi_max_memorys h then h\<lparr>hi_memorys := trust_value # hi_memorys h\<rparr>
         else h\<lparr>hi_memorys := trust_value # map (fade F (hi_memorys h)) [1..<length (hi_memorys h)]\<rparr>)"

definition update_aggregate_trust :: "'f f64_ops \<Rightarrow> 'f list \<Rightarrow> 'f history \<Rightarrow> 'f history" where
  "update_aggregate_trust F ws h =
     (if hi_intervals h < 1 then h
      else h\<lparr>hi_aggregate_trust :=
        fold (\<lambda>k acc.
          let i = of_nat k;
              memory_idx = unat (log2_floor F i);
              i_hist_trust = (if memory_idx < length (hi_memorys h) then hi_memorys h ! memory_idx else f_lit F 0);
              i_hist_weight = lookup_weight F ws i
          in f_add F acc (f_mul F i_hist_trust (f_div F i_hist_weight (hi_weights_sum h))))
        [1..<Suc (unat (hi_intervals h))] (f_lit F 0)\<rparr>)"

record 'f trust_inner =
  ti_config :: trust_metric_config
  ti_history :: "'f history"
  ti_good_events :: u64
  ti_bad_events :: u64

definition trust_inner_new :: "'f f64_ops \<Rightarrow> trust_metric_config \<Rightarrow> 'f trust_inner" where
  "trust_inner_new F config =
     \<lparr>ti_config = config, ti_history = history_new F (tc_max_intervals config) (tc_max_faded_memorys config),
      ti_good_events = 0, ti_bad_events = 0\<rparr>"

definition proportional_value :: "'f f64_ops \<Rightarrow> 'f trust_inner \<Rightarrow> 'f option" where
  "proportional_value F t =
     (let total = ti_good_events t + ti_bad_events t
      in if total > 0
         then Some (f_mul F (f_div F (f_of_u64 F (ti_good_events t)) (f_of_u64 F total)) (PROPORTIONAL_WEIGHT F))
         else None)"

definition intergral_value :: "'f f64_ops \<Rightarrow> 'f trust_inner \<Rightarrow> 'f" where
  "intergral_value F t = f_mul F (hi_aggregate_trust (ti_history t)) (INTERGRAL_WEIGHT F)"

definition trust_value :: "'f f64_ops \<Rightarrow> 'f trust_inner \<Rightarrow> 'f" where
  "trust_value F t =
     (case proportional_value F t of
        None \<Rightarrow> latest_trust_value F (ti_history t)
      | Some p \<Rightarrow>
          (let i = intergral_value F t;
               deviation = f_sub F p i;
               derivative =
                 (if f_ge F deviation (f_lit F 0) then f_mul F (DERIVATIVE_POSITIVE_WEIGHT F) deviation
                  else f_mul F (DERIVATIVE_NEGATIVE_WEIGHT F) deviation)
           in f_add F (f_add F p i) derivative))"

definition trust_score :: "'f f64_ops \<Rightarrow> 'f trust_inner \<Rightarrow> u8" where
  "trust_score F t = f_to_u8 F (f_mul F (trust_value F t) (f_lit F 100))"

definition good_events :: "u64 \<Rightarrow> 'f trust_inner \<Rightarrow> 'f trust_inner" where
  "good_events num t =
     (if ti_good_events t + num \<le> GOOD_INTERVAL_CAP then t\<lparr>ti_good_events := ti_good_events t + num\<rparr>
      else if ti_good_events t < GOOD_INTERVAL_CAP then t\<lparr>ti_good_events := GOOD_INTERVAL_CAP\<rparr>
      else t)"

definition bad_events :: "u64 \<Rightarrow> 'f trust_inner \<Rightarrow> 'f trust_inner" where
  "bad_events num t = t\<lparr>ti_bad_events := ti_bad_events t + num\<rparr>"

definition knock_out :: "'f f64_ops \<Rightarrow> 'f trust_inner \<Rightarrow> bool" where
  "knock_out F t \<longleftrightarrow> trust_score F t < KNOCK_OUT_SCORE"

definition enter_new_interval :: "'f f64_ops \<Rightarrow> 'f list \<Rightarrow> 'f trust_inner \<Rightarrow> 'f trust_inner" where
  "enter_new_interval F ws t =
     (let v = trust_value F t
      in t\<lparr>ti_history := update_aggregate_trust F ws (remember_interval F ws v (ti_history t)),
           ti_good_events := 0, ti_bad_events := 0\<rparr>)"

definition reset_history :: "'f f64_ops \<Rightarrow> 'f trust_inner \<Rightarrow> 'f trust_inner" where
  "reset_history F t =
     t\<lparr>ti_history := history_new F (tc_max_intervals (ti_config t)) (tc_max_faded_memorys (ti_config t)),
       ti_good_events := 0, ti_bad_events := 0\<rparr>"

record 'f trust_metric =
  tm_inner :: "'f trust_inner"
  tm_started :: bool

definition trust_metric_new :: "'f f64_ops \<Rightarrow> trust_metric_config \<Rightarrow> 'f trust_metric" where
  "trust_metric_new F config = \<lparr>tm_inner = trust_inner_new F config, tm_started = False\<rparr>"

definition trust_start :: "'f trust_metric \<Rightarrow> 'f trust_metric" where
  "trust_start m = m\<lparr>tm_started := True\<rparr>"

definition trust_pause :: "'f trust_metric \<Rightarrow> 'f trust_metric" where
  "trust_pause m = m\<lparr>tm_started := False\<rparr>"

definition trust_update :: "('f trust_inner \<Rightarrow> 'f trust_inner) \<Rightarrow> 'f trust_metric \<Rightarrow> 'f trust_metric" where
  "trust_update f m = m\<lparr>tm_inner := f (tm_inner m)\<rparr>"

section \<open>Histories\<close>

text \<open>
  The metrics that arise from a configuration. Bad events are counted in a machine word; the side
  condition says that the counter does not wrap within one interval.
\<close>

inductive trust_reach :: "'f f64_ops \<Rightarrow> 'f list \<Rightarrow> trust_metric_config \<Rightarrow> 'f trust_inner \<Rightarrow> bool"
  for F ws config where
  tr_new: "trust_reach F ws config (trust_inner_new F config)"
| tr_good: "trust_reach F ws config t \<Longrightarrow> n \<le> GOOD_INTERVAL_CAP \<Longrightarrow> trust_reach F ws config (good_events n t)"
| tr_bad: "trust_reach F ws config t \<Longrightarrow> unat (ti_bad_events t) + unat n + 30 < 2 ^ 64 \<Longrightarrow>
    trust_reach F ws config (bad_events n t)"
| tr_interval: "trust_reach F ws config t \<Longrightarrow> trust_reach F ws config (enter_new_interval F ws t)"
| tr_reset: "trust_reach F ws config t \<Longrightarrow> trust_reach F ws config (reset_history F t)"

text \<open>Exact arithmetic.\<close>

definition u_real :: "u64 \<Rightarrow> real" where
  "u_real u = real (unat u)"

definition real_ops :: "real f64_ops" where
  "real_ops =
     \<lparr>f_lit = of_rat, f_of_u64 = u_real, f_add = (+), f_sub = (-), f_mul = (*), f_div = (/),
      f_powf = (powr), f_log2 = log 2, f_floor = (\<lambda>x. real_of_int \<lfloor>x\<rfloor>), f_ge = (\<ge>),
      f_to_u64 = (\<lambda>x. of_nat (min (2 ^ 64 - 1) (nat \<lfloor>x\<rfloor>))),
      f_to_u8 = (\<lambda>x. of_nat (min 255 (nat \<lfloor>x\<rfloor>)))\<rparr>"

lemma real_ops_simps [simp]:
  "f_lit real_ops = of_rat" "f_of_u64 real_ops = u_real" "f_add real_ops a b = a + b"
  "f_sub real_ops a b = a - b" "f_mul real_ops a b = a * b" "f_div real_ops a b = a / b"
  "f_powf real_ops a b = a powr b" "f_log2 real_ops a = log 2 a" "f_floor real_ops a = real_of_int \<lfloor>a\<rfloor>"
  "f_ge real_ops a b \<longleftrightarrow> a \<ge> b" "f_to_u64 real_ops a = of_nat (min (2 ^ 64 - 1) (nat \<lfloor>a\<rfloor>))"
  "f_to_u8 real_ops a = of_nat (min 255 (nat \<lfloor>a\<rfloor>))"
  by (simp_all add: real_ops_def)

lemma u_real_nonneg [simp]: "0 \<le> u_real u"
  by (simp only: u_real_def of_nat_0_le_iff)

lemma u_real_ge_1: "i \<noteq> 0 \<Longrightarrow> 1 \<le> u_real i"
proof -
  assume "i \<noteq> 0"
  then have "1 \<le> unat i" by (simp add: Suc_le_eq unat_gt_0)
  then show ?thesis unfolding u_real_def by linarith
qed

lemma log2_u_real_less: "i \<noteq> 0 \<Longrightarrow> log 2 (u_real i) < 64"
proof -
  assume i: "i \<noteq> 0"
  have "unat i < 2 ^ 64" using unsigned_less [where ?'a = nat, of i] by simp
  then have "u_real i < real (2 ^ 64)" unfolding u_real_def by (simp only: of_nat_less_iff)
  also have "real (2 ^ 64) = 2 powr 64" by simp
  finally show ?thesis using u_real_ge_1 [OF i] by (simp add: log_less_iff)
qed

lemma log2_floor_real:
  assumes "i \<noteq> 0"
  shows "int (unat (log2_floor real_ops i)) = \<lfloor>log 2 (u_real i)\<rfloor>"
proof -
  define n where "n = nat \<lfloor>log 2 (u_real i)\<rfloor>"
  have ge: "0 \<le> log 2 (u_real i)" using u_real_ge_1 [OF assms] by simp
  have n: "n < 64" using log2_u_real_less [OF assms] unfolding n_def by linarith
  then have "unat (of_nat n :: u64) = n" by (simp add: unsigned_of_nat take_bit_nat_eq_self)
  moreover have "log2_floor real_ops i = of_nat n" using n by (simp add: log2_floor_def n_def [symmetric])
  ultimately show ?thesis using ge by (simp add: n_def)
qed

definition unit_interval :: "real \<Rightarrow> bool" where
  "unit_interval x \<longleftrightarrow> 0 \<le> x \<and> x \<le> 1"

text \<open>What every reachable metric satisfies in exact arithmetic.\<close>

definition trust_inv :: "real list \<Rightarrow> trust_metric_config \<Rightarrow> real trust_inner \<Rightarrow> bool" where
  "trust_inv ws config t \<longleftrightarrow>
     (let h = ti_history t
      in ti_config t = config \<and>
         hi_max_intervals h = tc_max_intervals config \<and> hi_max_memorys h = tc_max_faded_memorys config \<and>
         hi_intervals h \<le> hi_max_intervals h \<and>
         min (unat (hi_intervals h)) (unat (hi_max_memorys h)) \<le> length (hi_memorys h) \<and>
         list_all unit_interval (hi_memorys h) \<and> unit_interval (hi_aggregate_trust h) \<and>
         hi_weights_sum h = (\<Sum>k\<leftarrow>[1..<Suc (unat (hi_intervals h))]. lookup_weight real_ops ws (of_nat k)) \<and>
         ti_good_events t \<le> 30 \<and> unat (ti_bad_events t) + 30 < 2 ^ 64)"

lemma fade_unit:
  assumes "unit_interval (ms ! (j - 1))" "unit_interval (ms ! j)"
  shows "unit_interval (fade real_ops ms j)"
proof -
  define w where "w = (2 :: real) powr u_real (of_nat j)"
  have w: "1 \<le> w" by (simp add: w_def ge_one_powr_ge_zero)
  let ?a = "ms ! (j - 1)" and ?b = "ms ! j"
  have "?b * (w - 1) \<le> 1 * (w - 1)" using assms w by (intro mult_right_mono) (auto simp: unit_interval_def)
  then have "?a + ?b * (w - 1) \<le> w" using assms by (simp add: unit_interval_def)
  moreover have "0 \<le> ?a + ?b * (w - 1)" using assms w by (simp add: unit_interval_def)
  moreover have "fade real_ops ms j = (?a + ?b * (w - 1)) / w" by (simp add: fade_def w_def Let_def)
  ultimately show ?thesis using w by (simp add: unit_interval_def)
qed

lemma trust_value_unit:
  assumes "trust_inv ws config t"
  shows "0 \<le> trust_value real_ops t \<and> trust_value real_ops t \<le> 1"
proof (cases "proportional_value real_ops t")
  case None
  then show ?thesis
    using assms by (cases "hi_memorys (ti_history t)")
      (auto simp: trust_value_def latest_trust_value_def trust_inv_def unit_interval_def Let_def)
next
  case (Some p)
  let ?g = "ti_good_events t" and ?b = "ti_bad_events t"
  have g: "unat ?g \<le> 30" "unat ?b + 30 < 2 ^ 64" "unit_interval (hi_aggregate_trust (ti_history t))"
    using assms word_le_nat_alt [of ?g 30] by (simp_all add: trust_inv_def Let_def)
  then have tot: "unat (?g + ?b) = unat ?g + unat ?b" by (intro unat_add_lem [THEN iffD1]) simp
  have "p = u_real ?g / u_real (?g + ?b) * (4 / 10)"
    using Some by (simp add: proportional_value_def PROPORTIONAL_WEIGHT_def Let_def of_rat_divide split: if_splits)
  moreover have "0 \<le> u_real ?g / u_real (?g + ?b)" by simp
  moreover have "u_real ?g / u_real (?g + ?b) \<le> 1"
  proof -
    have "u_real ?g \<le> u_real (?g + ?b)" unfolding u_real_def tot by linarith
    moreover have "0 \<le> u_real (?g + ?b)" by simp
    ultimately show ?thesis unfolding divide_le_eq_1 by linarith
  qed
  ultimately have p: "0 \<le> p" "p \<le> 4 / 10" by simp_all
  define i where "i = intergral_value real_ops t"
  have i: "0 \<le> i" "i \<le> 6 / 10"
    using g(3) by (simp_all add: i_def intergral_value_def INTERGRAL_WEIGHT_def unit_interval_def of_rat_divide)
  have "trust_value real_ops t = (if p - i \<ge> 0 then p + i else p + i + (p - i) / 10)"
    using Some by (simp add: trust_value_def Let_def i_def DERIVATIVE_POSITIVE_WEIGHT_def
        DERIVATIVE_NEGATIVE_WEIGHT_def of_rat_divide)
  then show ?thesis using p i by (auto simp: field_simps)
qed

lemma unat_Suc_le: "(x :: u64) < y \<Longrightarrow> unat (x + 1) = Suc (unat x)"
proof -
  assume "x < y"
  then have "unat x + unat (1 :: u64) < 2 ^ LENGTH(64)"
    using unsigned_less [where ?'a = nat, of y] by (simp add: word_less_nat_alt)
  then show ?thesis by (simp add: unat_add_lem [THEN iffD1])
qed

lemma remember_interval_inv:
  assumes inv: "trust_inv ws config t" and v: "unit_interval v"
  defines "h' \<equiv> remember_interval real_ops ws v (ti_history t)"
  shows "hi_max_intervals h' = tc_max_intervals config \<and> hi_max_memorys h' = tc_max_faded_memorys config \<and>
    hi_intervals h' \<le> hi_max_intervals h' \<and>
    min (unat (hi_intervals h')) (unat (hi_max_memorys h')) \<le> length (hi_memorys h') \<and>
    list_all unit_interval (hi_memorys h') \<and> unit_interval (hi_aggregate_trust h') \<and>
    hi_weights_sum h' = (\<Sum>k\<leftarrow>[1..<Suc (unat (hi_intervals h'))]. lookup_weight real_ops ws (of_nat k))"
proof -
  let ?h = "ti_history t"
  define h1 where "h1 = (if hi_intervals ?h < hi_max_intervals ?h
      then ?h\<lparr>hi_intervals := hi_intervals ?h + 1,
        hi_weights_sum := hi_weights_sum ?h + lookup_weight real_ops ws (hi_intervals ?h + 1)\<rparr> else ?h)"
  have fields: "hi_max_intervals h1 = hi_max_intervals ?h" "hi_max_memorys h1 = hi_max_memorys ?h"
    "hi_memorys h1 = hi_memorys ?h" "hi_aggregate_trust h1 = hi_aggregate_trust ?h"
    by (simp_all add: h1_def)
  have iv: "hi_intervals h1 \<le> hi_max_intervals h1"
    using inv by (auto simp: h1_def trust_inv_def Let_def inc_le)
  have "unat (hi_intervals h1) \<le> Suc (unat (hi_intervals ?h))"
    by (simp add: h1_def unat_Suc_le)
  moreover have old: "min (unat (hi_intervals ?h)) (unat (hi_max_memorys ?h)) \<le> length (hi_memorys ?h)"
    using inv unfolding trust_inv_def Let_def by blast
  ultimately have len: "min (unat (hi_intervals h1)) (unat (hi_max_memorys h1)) \<le> Suc (length (hi_memorys ?h))"
    unfolding fields by linarith
  have ws: "hi_weights_sum h1 = (\<Sum>k\<leftarrow>[1..<Suc (unat (hi_intervals h1))]. lookup_weight real_ops ws (of_nat k))"
  proof -
    have "hi_weights_sum ?h = (\<Sum>k\<leftarrow>[1..<Suc (unat (hi_intervals ?h))]. lookup_weight real_ops ws (of_nat k))"
      using inv unfolding trust_inv_def Let_def by blast
    moreover have "of_nat (Suc (unat (hi_intervals ?h))) = hi_intervals ?h + 1" by (simp add: add.commute)
    ultimately show ?thesis
      by (cases "hi_intervals ?h < hi_max_intervals ?h")
        (simp_all add: h1_def unat_Suc_le upt_Suc_append del: upt_Suc of_nat_Suc)
  qed
  have h': "h' = (if hi_intervals h1 \<le> hi_max_memorys h1 then h1\<lparr>hi_memorys := v # hi_memorys h1\<rparr>
      else h1\<lparr>hi_memorys := v # map (fade real_ops (hi_memorys h1)) [1..<length (hi_memorys h1)]\<rparr>)"
    by (simp add: h'_def remember_interval_def h1_def Let_def)
  show ?thesis
  proof (cases "hi_intervals h1 \<le> hi_max_memorys h1")
    case True
    then show ?thesis
      using inv iv len ws v by (simp add: h' fields trust_inv_def Let_def)
  next
    case False
    have "unat (hi_max_memorys ?h) \<le> unat (hi_intervals ?h)"
      using False \<open>unat (hi_intervals h1) \<le> Suc (unat (hi_intervals ?h))\<close>
      by (simp add: fields word_le_nat_alt)
    then have "unat (hi_max_memorys ?h) \<le> length (hi_memorys ?h)" using old by simp
    moreover have "list_all unit_interval (map (fade real_ops (hi_memorys ?h)) [1..<length (hi_memorys ?h)])"
      using inv by (auto simp: list_all_iff trust_inv_def Let_def intro!: fade_unit)
    ultimately show ?thesis
      using inv iv ws v False by (simp add: h' fields trust_inv_def Let_def)
  qed
qed

definition weights_positive :: "real list \<Rightarrow> bool" where
  "weights_positive ws \<longleftrightarrow> list_all (\<lambda>w. 0 < w) ws"

lemma history_weight_pos: "0 < history_weight real_ops k"
  by (simp add: history_weight_def OPTIMISTIC_HISTORY_WEIGHT_def of_rat_divide)

lemma lookup_weight_pos: "weights_positive ws \<Longrightarrow> 0 < lookup_weight real_ops ws i"
  by (simp add: lookup_weight_def weights_positive_def list_all_length history_weight_pos)

lemma fold_plus_map: "fold (\<lambda>k acc. acc + f k) xs a = a + (\<Sum>k\<leftarrow>xs. f k)" for a :: real
  by (induction xs arbitrary: a) (simp_all add: add.assoc)

lemma weighted_mean_unit:
  fixes v w :: "'k \<Rightarrow> real"
  assumes "xs \<noteq> []" and v: "\<forall>k\<in>set xs. unit_interval (v k)" and w: "\<forall>k\<in>set xs. 0 < w k"
  shows "unit_interval (\<Sum>k\<leftarrow>xs. v k * (w k / (\<Sum>k\<leftarrow>xs. w k)))"
proof -
  let ?W = "\<Sum>k\<leftarrow>xs. w k"
  have W: "0 < ?W" using assms(1) w by (induction xs rule: list_nonempty_induct) (simp_all add: add_pos_pos)
  have "(\<Sum>k\<leftarrow>ys. v k * (w k / c)) = (\<Sum>k\<leftarrow>ys. v k * w k) / c" for ys c
    by (induction ys) (simp_all add: add_divide_distrib)
  then have "(\<Sum>k\<leftarrow>xs. v k * (w k / ?W)) = (\<Sum>k\<leftarrow>xs. v k * w k) / ?W" .
  moreover have "0 \<le> (\<Sum>k\<leftarrow>xs. v k * w k)"
    using v w by (intro sum_list_nonneg) (auto simp: unit_interval_def less_imp_le)
  moreover have "(\<Sum>k\<leftarrow>xs. v k * w k) \<le> ?W"
    using v w by (intro sum_list_mono) (simp add: unit_interval_def mult_left_le_one_le less_imp_le)
  ultimately show ?thesis using W by (simp add: unit_interval_def)
qed

text \<open>The memory of an interval is found: its index is below the number of memories kept.\<close>

lemma log2_floor_less:
  assumes "i \<noteq> 0" shows "unat (log2_floor real_ops i) < unat i"
proof -
  have "1 \<le> u_real i" using assms by (rule u_real_ge_1)
  moreover have "real n < 2 powr real n" for n by (simp add: powr_realpow of_nat_less_two_power)
  ultimately have "log 2 (u_real i) < u_real i" unfolding u_real_def by (simp add: log_less_iff del: of_nat_unat)
  then have "\<lfloor>log 2 (u_real i)\<rfloor> < int (unat i)"
    unfolding u_real_def by (simp add: floor_less_iff del: of_nat_unat)
  then show ?thesis using log2_floor_real [OF assms] by linarith
qed

lemma log2_floor_mono:
  assumes "i \<noteq> 0" "i \<le> n"
  shows "unat (log2_floor real_ops i) \<le> unat (log2_floor real_ops n)"
proof -
  have "unat i \<le> unat n" using assms by (simp add: word_le_nat_alt)
  then have "u_real i \<le> u_real n" unfolding u_real_def by linarith
  moreover have "1 \<le> u_real i" using assms(1) by (rule u_real_ge_1)
  ultimately have "\<lfloor>log 2 (u_real i)\<rfloor> \<le> \<lfloor>log 2 (u_real n)\<rfloor>" by (intro floor_mono) simp
  moreover have "n \<noteq> 0" using assms by auto
  ultimately show ?thesis using log2_floor_real [of i] log2_floor_real [of n] assms(1) by linarith
qed

definition config_ok :: "trust_metric_config \<Rightarrow> bool" where
  "config_ok c \<longleftrightarrow> unat (tc_max_faded_memorys c) = Suc (unat (log2_floor real_ops (tc_max_intervals c)))"

lemma log2_floor_small: "i \<noteq> 0 \<Longrightarrow> unat (log2_floor real_ops i) < 64"
  using log2_floor_real [of i] log2_u_real_less [of i] by linarith

lemma trust_config_new_ok:
  assumes "trust_config_new real_ops interval max_history = Inr (config, ws)"
  shows "config_ok config \<and> weights_positive ws"
proof -
  let ?n = "max_history div interval"
  have c: "tc_max_intervals config = ?n" "tc_max_faded_memorys config = log2_floor real_ops ?n + 1"
    "ws = map (\<lambda>k. history_weight real_ops (of_nat k)) [1..<Suc (unat ?n)]"
    using assms by (auto simp: trust_config_new_def trust_config_finish_def Let_def split: if_splits)
  have "unat (log2_floor real_ops ?n) < 64"
  proof (cases "?n = 0")
    case True
    then show ?thesis by (simp add: log2_floor_def u_real_def log_def)
  next
    case False
    then show ?thesis by (rule log2_floor_small)
  qed
  then have "unat (log2_floor real_ops ?n + 1) = Suc (unat (log2_floor real_ops ?n))"
    by (simp add: unat_Suc_le [where y = 64] word_less_nat_alt)
  then show ?thesis
    by (simp add: c config_ok_def weights_positive_def list_all_iff history_weight_pos)
qed

lemma memory_index_less:
  assumes h: "config_ok config" "hi_intervals h \<le> tc_max_intervals config"
    "min (unat (hi_intervals h)) (unat (tc_max_faded_memorys config)) \<le> length (hi_memorys h)"
    and i: "i \<noteq> 0" "i \<le> hi_intervals h"
  shows "unat (log2_floor real_ops i) < length (hi_memorys h)"
proof -
  have "unat i \<le> unat (hi_intervals h)" using i(2) by (simp add: word_le_nat_alt)
  moreover have "unat (log2_floor real_ops i) < unat i" using i(1) by (rule log2_floor_less)
  moreover have "unat (log2_floor real_ops i) \<le> unat (log2_floor real_ops (tc_max_intervals config))"
    using i h(2) by (intro log2_floor_mono) auto
  ultimately show ?thesis using h(1,3) unfolding config_ok_def by linarith
qed

lemma aggregate_unit:
  assumes "config_ok config" "weights_positive ws" "hi_intervals h \<le> tc_max_intervals config"
    "min (unat (hi_intervals h)) (unat (tc_max_faded_memorys config)) \<le> length (hi_memorys h)"
    "list_all unit_interval (hi_memorys h)" "unit_interval (hi_aggregate_trust h)"
    "hi_weights_sum h = (\<Sum>k\<leftarrow>[1..<Suc (unat (hi_intervals h))]. lookup_weight real_ops ws (of_nat k))"
  shows "unit_interval (hi_aggregate_trust (update_aggregate_trust real_ops ws h))"
proof (cases "hi_intervals h < 1")
  case True
  then show ?thesis using assms by (simp add: update_aggregate_trust_def)
next
  case False
  define ks where "ks = [1..<Suc (unat (hi_intervals h))]"
  define v where "v k = hi_memorys h ! unat (log2_floor real_ops (of_nat k))" for k
  have idx: "unat (log2_floor real_ops (of_nat k)) < length (hi_memorys h)" if "k \<in> set ks" for k
  proof -
    have k: "1 \<le> k" "k \<le> unat (hi_intervals h)" using that by (auto simp: ks_def)
    moreover have "unat (hi_intervals h) < 2 ^ 64"
      using unsigned_less [where ?'a = nat, of "hi_intervals h"] by simp
    ultimately have u: "unat (of_nat k :: u64) = k" by (simp add: unsigned_of_nat take_bit_nat_eq_self)
    have "(of_nat k :: u64) \<noteq> 0" using k u by (metis not_one_le_zero unat_0)
    moreover have "(of_nat k :: u64) \<le> hi_intervals h" using k u by (simp add: word_le_nat_alt)
    ultimately show ?thesis using assms by (intro memory_index_less [of config]) simp_all
  qed
  have "ks \<noteq> []" using False by (simp add: ks_def word_less_nat_alt)
  moreover have "\<forall>k\<in>set ks. unit_interval (v k)"
    using idx assms(5) by (simp add: v_def list_all_length)
  moreover have "\<forall>k\<in>set ks. 0 < lookup_weight real_ops ws (of_nat k)"
    using assms(2) by (simp add: lookup_weight_pos)
  ultimately have "unit_interval (\<Sum>k\<leftarrow>ks. v k * (lookup_weight real_ops ws (of_nat k) / hi_weights_sum h))"
    unfolding assms(7) ks_def [symmetric] by (rule weighted_mean_unit)
  moreover have "hi_aggregate_trust (update_aggregate_trust real_ops ws h) =
      fold (\<lambda>k acc. acc + v k * (lookup_weight real_ops ws (of_nat k) / hi_weights_sum h)) ks 0"
    using False idx
    unfolding update_aggregate_trust_def ks_def [symmetric]
    by (auto simp: Let_def v_def simp del: upt_Suc intro!: fold_cong)
  ultimately show ?thesis by (simp add: fold_plus_map)
qed

lemma update_aggregate_fields [simp]:
  "hi_max_intervals (update_aggregate_trust F ws h) = hi_max_intervals h"
  "hi_max_memorys (update_aggregate_trust F ws h) = hi_max_memorys h"
  "hi_intervals (update_aggregate_trust F ws h) = hi_intervals h"
  "hi_memorys (update_aggregate_trust F ws h) = hi_memorys h"
  "hi_weights_sum (update_aggregate_trust F ws h) = hi_weights_sum h"
  by (simp_all add: update_aggregate_trust_def)

lemma enter_new_interval_inv:
  assumes "config_ok config" "weights_positive ws" "trust_inv ws config t"
  shows "trust_inv ws config (enter_new_interval real_ops ws t)"
proof -
  define h where "h = remember_interval real_ops ws (trust_value real_ops t) (ti_history t)"
  have "unit_interval (trust_value real_ops t)"
    using trust_value_unit [OF assms(3)] by (simp add: unit_interval_def)
  note h = remember_interval_inv [OF assms(3) this, folded h_def]
  have "unit_interval (hi_aggregate_trust (update_aggregate_trust real_ops ws h))"
    using h assms(1,2) by (intro aggregate_unit [of config]) (auto simp del: upt_Suc)
  moreover have "ti_config t = config" using assms(3) by (simp add: trust_inv_def Let_def)
  ultimately show ?thesis
    using h by (auto simp: trust_inv_def enter_new_interval_def Let_def h_def [symmetric] simp del: upt_Suc)
qed

lemma trust_inv_new: "trust_inv ws config (trust_inner_new real_ops config)"
  by (simp add: trust_inv_def trust_inner_new_def history_new_def Let_def unit_interval_def
      INITIAL_HISTORY_VALUE_def of_rat_divide)

lemma trust_reach_inv:
  assumes "config_ok config" "weights_positive ws" "trust_reach real_ops ws config t"
  shows "trust_inv ws config t"
  using assms(3)
proof (induction rule: trust_reach.induct)
  case tr_new
  show ?case by (rule trust_inv_new)
next
  case (tr_good t n)
  then show ?case by (auto simp: trust_inv_def good_events_def GOOD_INTERVAL_CAP_def Let_def)
next
  case (tr_bad t n)
  then have "unat (ti_bad_events t + n) = unat (ti_bad_events t) + unat n" by (intro unat_add_lem [THEN iffD1]) simp
  then show ?case using tr_bad by (auto simp: trust_inv_def bad_events_def Let_def simp del: upt_Suc)
next
  case (tr_interval t)
  then show ?case using enter_new_interval_inv [OF assms(1,2)] by simp
next
  case (tr_reset t)
  then have "ti_config t = config" by (simp add: trust_inv_def Let_def)
  then have "reset_history real_ops t = trust_inner_new real_ops config"
    by (simp add: reset_history_def trust_inner_new_def)
  then show ?case by (simp add: trust_inv_new)
qed

section \<open>Bounds\<close>

text \<open>
  (C40) Whatever good and bad events, interval ends and resets a metric has seen, in exact arithmetic its
  trust value lies between zero and one and its score is at most a hundred, good events stop at their
  cap, and the memory of every past interval is still kept, so the default of a missing memory is never
  used.
\<close>

theorem trust_metric_bounds:
  assumes "trust_config_new real_ops interval max_history = Inr (config, ws)"
    and "trust_reach real_ops ws config t"
  shows "0 \<le> trust_value real_ops t \<and> trust_value real_ops t \<le> 1 \<and> trust_score real_ops t \<le> 100 \<and>
    ti_good_events t \<le> GOOD_INTERVAL_CAP \<and>
    (\<forall>i. 1 \<le> i \<and> i \<le> hi_intervals (ti_history t) \<longrightarrow>
      unat (log2_floor real_ops i) < length (hi_memorys (ti_history t)))"
proof -
  have ok: "config_ok config" "weights_positive ws" using trust_config_new_ok [OF assms(1)] by simp_all
  have inv: "trust_inv ws config t" using trust_reach_inv [OF ok assms(2)] .
  have v: "0 \<le> trust_value real_ops t" "trust_value real_ops t \<le> 1" using trust_value_unit [OF inv] by simp_all
  then have "nat \<lfloor>trust_value real_ops t * 100\<rfloor> \<le> 100" by linarith
  then have "trust_score real_ops t \<le> 100"
    by (simp add: trust_score_def word_le_nat_alt unsigned_of_nat take_bit_nat_eq_self)
  moreover have "unat (log2_floor real_ops i) < length (hi_memorys (ti_history t))"
    if "1 \<le> i" "i \<le> hi_intervals (ti_history t)" for i
    using inv that ok(1) by (intro memory_index_less [of config]) (auto simp: trust_inv_def Let_def)
  moreover have "ti_good_events t \<le> GOOD_INTERVAL_CAP"
    using inv by (simp add: trust_inv_def GOOD_INTERVAL_CAP_def Let_def)
  ultimately show ?thesis using v by blast
qed

definition example_metric :: "real trust_inner" where
  "example_metric = good_events 1 (trust_inner_new real_ops (fst (projr (trust_config_new real_ops 60 86400))))"

theorem trust_metric_bounds_witness:
  "trust_value real_ops example_metric = 872 / 1000 \<and> trust_score real_ops example_metric \<le> 100"
proof -
  obtain config ws where c: "trust_config_new real_ops 60 86400 = Inr (config, ws)"
    by (cases "trust_config_new real_ops 60 86400")
      (auto simp: trust_config_new_def trust_config_finish_def Let_def)
  have "trust_reach real_ops ws config example_metric"
    unfolding example_metric_def c by (auto simp: GOOD_INTERVAL_CAP_def intro: trust_reach.intros)
  then have "trust_score real_ops example_metric \<le> 100" using trust_metric_bounds [OF c] by blast
  moreover have "trust_value real_ops example_metric = 872 / 1000"
    by (simp add: example_metric_def c good_events_def trust_inner_new_def GOOD_INTERVAL_CAP_def trust_value_def
        proportional_value_def intergral_value_def history_new_def INITIAL_HISTORY_VALUE_def u_real_def Let_def
        PROPORTIONAL_WEIGHT_def INTERGRAL_WEIGHT_def DERIVATIVE_POSITIVE_WEIGHT_def
        DERIVATIVE_NEGATIVE_WEIGHT_def of_rat_divide)
  ultimately show ?thesis by simp
qed

end
