(* ===== verification/Peer.thy ===== *)
theory Peer
  imports Trust_Metric Muta_Types
begin

text \<open>
  Network addresses and the state kept for one peer: \<^verbatim>\<open>core/network/src/common.rs\<close>, and
  \<^verbatim>\<open>retry.rs\<close>, \<^verbatim>\<open>tags.rs\<close>, \<^verbatim>\<open>addr_set.rs\<close>, \<^verbatim>\<open>peer.rs\<close> and \<^verbatim>\<open>time.rs\<close> of
  \<^verbatim>\<open>core/network/src/peer_manager\<close>.

  A multiaddress is the list of its components; peer identifiers and public keys are byte strings.
  What the network library decides (which byte strings are peer identifiers, the identifier of a key,
  how an address prints) is a \<^verbatim>\<open>net_env\<close> argument. The clock is an argument of every operation that
  reads it. \<^verbatim>\<open>None\<close> is a call that does not return: an arithmetic overflow of the standard library's
  time types, which panics, or an endless loop.

  The lemmas show that waiting for a retry to be far enough in the future ends, whatever the retry
  count, and that the address set keeps only addresses of its own peer.
\<close>

section \<open>Addresses\<close>

type_synonym u16 = "16 word"
type_synonym peer_id = bytes

datatype protocol_comp = IP4 string | IP6 string | DNS4 string | DNS6 string | TLS string | TCP u16
  | P2P bytes | OtherComp string

type_synonym multiaddr = "protocol_comp list"

record net_env =
  ne_peer_id_valid :: "bytes \<Rightarrow> bool"
  ne_pubkey_peer_id :: "bytes \<Rightarrow> peer_id"
  ne_show_multiaddr :: "multiaddr \<Rightarrow> string"

fun id_bytes :: "multiaddr \<Rightarrow> bytes option" where
  "id_bytes [] = None"
| "id_bytes (P2P b # _) = Some b"
| "id_bytes (_ # ma) = id_bytes ma"

definition has_id :: "multiaddr \<Rightarrow> bool" where
  "has_id ma \<longleftrightarrow> list_ex (\<lambda>c. case c of P2P _ \<Rightarrow> True | _ \<Rightarrow> False) ma"

definition push_id :: "peer_id \<Rightarrow> multiaddr \<Rightarrow> multiaddr" where
  "push_id pid ma = ma @ [P2P pid]"

definition extract_id :: "net_env \<Rightarrow> multiaddr \<Rightarrow> peer_id option" where
  "extract_id E ma =
     (case id_bytes ma of
        Some b \<Rightarrow> if ne_peer_id_valid E b then Some b else None
      | None \<Rightarrow> None)"

text \<open>A \<^verbatim>\<open>PeerMultiaddr\<close> wraps a multiaddress.\<close>

definition peer_multiaddr_new :: "multiaddr \<Rightarrow> peer_id \<Rightarrow> multiaddr" where
  "peer_multiaddr_new ma pid = (if has_id ma then ma else push_id pid ma)"

definition peer_multiaddr_try_from :: "net_env \<Rightarrow> multiaddr \<Rightarrow> multiaddr option" where
  "peer_multiaddr_try_from E ma = (if extract_id E ma \<noteq> None then Some ma else None)"

record connected_addr =
  adr_host :: string
  adr_port :: u16

definition connected_addr_from :: "net_env \<Rightarrow> multiaddr \<Rightarrow> connected_addr" where
  "connected_addr_from E ma =
     (let (h, p) = fold (\<lambda>comp (h, p).
            case comp of
              IP4 a \<Rightarrow> (Some a, p) | IP6 a \<Rightarrow> (Some a, p) | DNS4 a \<Rightarrow> (Some a, p) | DNS6 a \<Rightarrow> (Some a, p)
            | TLS a \<Rightarrow> (Some a, p) | TCP q \<Rightarrow> (h, q) | _ \<Rightarrow> (h, p))
          ma (None, 0)
      in \<lparr>adr_host = (case h of Some a \<Rightarrow> a | None \<Rightarrow> ne_show_multiaddr E ma), adr_port = p\<rparr>)"

section \<open>Retry\<close>

definition BACKOFF_BASE :: u64 where "BACKOFF_BASE = 2"
definition MAX_RETRY_INTERVAL :: u64 where "MAX_RETRY_INTERVAL = 512"
definition MAX_RETRY_COUNT :: u8 where "MAX_RETRY_COUNT = 30"
definition REPEATED_CONNECTION_TIMEOUT :: u64 where "REPEATED_CONNECTION_TIMEOUT = 30"

definition saturating_add :: "'a::len word \<Rightarrow> 'a word \<Rightarrow> 'a word" where
  "saturating_add a b = (case checked_add a b of Some c \<Rightarrow> c | None \<Rightarrow> - 1)"

definition saturating_sub :: "'a::len word \<Rightarrow> 'a word \<Rightarrow> 'a word" where
  "saturating_sub a b = (if a < b then 0 else a - b)"

record retry =
  re_max :: u8
  re_count :: u8
  re_next_attempt_at :: u64

definition retry_new :: "u8 \<Rightarrow> retry" where
  "retry_new mx = \<lparr>re_max = mx, re_count = 0, re_next_attempt_at = 0\<rparr>"

definition retry_inc :: "u64 \<Rightarrow> retry \<Rightarrow> retry" where
  "retry_inc now r =
     (let count = saturating_add (re_count r) 1;
          secs = BACKOFF_BASE ^ unat count;
          secs = (if secs > MAX_RETRY_INTERVAL then MAX_RETRY_INTERVAL else secs)
      in r\<lparr>re_count := re_count r + 1, re_next_attempt_at := saturating_add now secs\<rparr>)"

definition retry_eta :: "u64 \<Rightarrow> retry \<Rightarrow> u64" where
  "retry_eta now r = saturating_sub (re_next_attempt_at r) now"

definition retry_reset :: "retry \<Rightarrow> retry" where
  "retry_reset r = r\<lparr>re_count := 0\<rparr>"

definition retry_ready :: "u64 \<Rightarrow> retry \<Rightarrow> bool" where
  "retry_ready now r \<longleftrightarrow> now > re_next_attempt_at r"

definition retry_run_out :: "retry \<Rightarrow> bool" where
  "retry_run_out r \<longleftrightarrow> re_count r > re_max r"

text \<open>The loop of \<^verbatim>\<open>session_closed\<close>, with the clock standing still while it runs.\<close>

partial_function (option) retry_wait :: "u64 \<Rightarrow> retry \<Rightarrow> retry option" where
  "retry_wait now r =
     (if retry_eta now r < REPEATED_CONNECTION_TIMEOUT then retry_wait now (retry_inc now r) else Some r)"

section \<open>Tags\<close>

datatype peer_tag = Consensus | AlwaysAllow | Ban u64 | Custom string

definition ban_key :: peer_tag where
  "ban_key = Ban 0"

fun tag_str :: "peer_tag \<Rightarrow> string" where
  "tag_str Consensus = ''consensus''"
| "tag_str AlwaysAllow = ''always_allow''"
| "tag_str (Ban _) = ''ban''"
| "tag_str (Custom s) = s"

definition tag_custom :: "string \<Rightarrow> (unit, peer_tag) result" where
  "tag_custom s = (if s \<in> {''consensus'', ''always_allow'', ''ban''} then Inl (Err ()) else Inr (Custom s))"

text \<open>Tags are equal when their names are; a hash set keeps the element it has.\<close>

definition tag_eq :: "peer_tag \<Rightarrow> peer_tag \<Rightarrow> bool" where
  "tag_eq a b \<longleftrightarrow> tag_str a = tag_str b"

type_synonym tags = "peer_tag list"

definition tags_contains :: "peer_tag \<Rightarrow> tags \<Rightarrow> bool" where
  "tags_contains t ts \<longleftrightarrow> list_ex (tag_eq t) ts"

definition tags_remove :: "peer_tag \<Rightarrow> tags \<Rightarrow> tags" where
  "tags_remove t ts = filter (\<lambda>u. \<not> tag_eq t u) ts"

definition get_banned_until :: "tags \<Rightarrow> u64 option" where
  "get_banned_until ts =
     (case find (tag_eq ban_key) ts of Some (Ban until) \<Rightarrow> Some until | _ \<Rightarrow> None)"

datatype tag_error = TagAlwaysAllow

definition tags_insert :: "peer_tag \<Rightarrow> tags \<Rightarrow> (tag_error, tags) result" where
  "tags_insert t ts =
     (if (case t of Ban _ \<Rightarrow> tags_contains Consensus ts \<or> tags_contains AlwaysAllow ts | _ \<Rightarrow> False)
      then Inl (Err TagAlwaysAllow)
      else Inr (if tags_contains t ts then ts else ts @ [t]))"

text \<open>The sum of two durations panics when its seconds overflow.\<close>

definition tags_insert_ban :: "u64 \<Rightarrow> u64 \<Rightarrow> tags \<Rightarrow> (tag_error, tags) result option" where
  "tags_insert_ban now timeout ts =
     (case checked_add now timeout of
        None \<Rightarrow> None
      | Some until \<Rightarrow> Some (tags_insert (Ban until) ts))"

section \<open>Address sets\<close>

record addr_info =
  ai_addr :: multiaddr
  ai_failure :: nat

definition addr_connectable :: "addr_info \<Rightarrow> bool" where
  "addr_connectable a \<longleftrightarrow> ai_failure a \<le> unat MAX_RETRY_COUNT"

type_synonym addr_set = "addr_info list"

definition addr_contains :: "multiaddr \<Rightarrow> addr_set \<Rightarrow> bool" where
  "addr_contains ma s \<longleftrightarrow> ma \<in> set (map ai_addr s)"

definition match_peer_id :: "peer_id \<Rightarrow> multiaddr \<Rightarrow> bool" where
  "match_peer_id pid ma \<longleftrightarrow> has_id ma \<and> id_bytes ma = Some pid"

definition addr_info_from :: "multiaddr \<Rightarrow> addr_info" where
  "addr_info_from ma = \<lparr>ai_addr = ma, ai_failure = 0\<rparr>"

definition addr_insert :: "peer_id \<Rightarrow> multiaddr list \<Rightarrow> addr_set \<Rightarrow> addr_set" where
  "addr_insert pid mas s =
     s @ map addr_info_from (remdups (filter (\<lambda>ma. match_peer_id pid ma \<and> \<not> addr_contains ma s) mas))"

definition addr_set_all :: "peer_id \<Rightarrow> multiaddr list \<Rightarrow> addr_set" where
  "addr_set_all pid mas = map addr_info_from (remdups (filter (match_peer_id pid) mas))"

definition addr_insert_raw :: "peer_id \<Rightarrow> multiaddr \<Rightarrow> addr_set \<Rightarrow> addr_set" where
  "addr_insert_raw pid ma s =
     (if (case id_bytes ma of Some b \<Rightarrow> b \<noteq> pid | None \<Rightarrow> False) then s
      else addr_insert pid [peer_multiaddr_new ma pid] s)"

definition addr_remove :: "multiaddr \<Rightarrow> addr_set \<Rightarrow> addr_set" where
  "addr_remove ma s = filter (\<lambda>a. ai_addr a \<noteq> ma) s"

definition addr_all :: "addr_set \<Rightarrow> multiaddr list" where
  "addr_all s = map ai_addr s"

definition addr_connectables :: "addr_set \<Rightarrow> multiaddr list" where
  "addr_connectables s = map ai_addr (filter addr_connectable s)"

definition addr_update :: "multiaddr \<Rightarrow> (nat \<Rightarrow> nat) \<Rightarrow> addr_set \<Rightarrow> addr_set" where
  "addr_update ma f s = map (\<lambda>a. if ai_addr a = ma then a\<lparr>ai_failure := f (ai_failure a)\<rparr> else a) s"

definition addr_inc_failure :: "multiaddr \<Rightarrow> addr_set \<Rightarrow> addr_set" where
  "addr_inc_failure ma = addr_update ma Suc"

definition addr_give_up :: "multiaddr \<Rightarrow> addr_set \<Rightarrow> addr_set" where
  "addr_give_up ma = addr_update ma (\<lambda>_. unat MAX_RETRY_COUNT + 1)"

definition addr_reset_failure :: "multiaddr \<Rightarrow> addr_set \<Rightarrow> addr_set" where
  "addr_reset_failure ma = addr_update ma (\<lambda>_. 0)"

section \<open>Peers\<close>

datatype connectedness = NotConnected | CanConnect | Connected | Unconnectable | Connecting

definition connectedness_from :: "nat \<Rightarrow> connectedness" where
  "connectedness_from n =
     (if n = 0 then NotConnected else if n = 1 then CanConnect else if n = 2 then Connected
      else if n = 3 then Unconnectable else if n = 4 then Connecting else NotConnected)"

fun connectedness_value :: "connectedness \<Rightarrow> nat" where
  "connectedness_value NotConnected = 0"
| "connectedness_value CanConnect = 1"
| "connectedness_value Connected = 2"
| "connectedness_value Unconnectable = 3"
| "connectedness_value Connecting = 4"

record 'f peer =
  pe_id :: peer_id
  pe_multiaddrs :: addr_set
  pe_retry :: retry
  pe_tags :: tags
  pe_pubkey :: "bytes option"
  pe_trust_metric :: "'f trust_metric option"
  pe_connectedness :: connectedness
  pe_session_id :: u64
  pe_connected_at :: u64
  pe_disconnected_at :: u64
  pe_alive :: u64

definition peer_new :: "peer_id \<Rightarrow> 'f peer" where
  "peer_new pid =
     \<lparr>pe_id = pid, pe_multiaddrs = [], pe_retry = retry_new MAX_RETRY_COUNT, pe_tags = [], pe_pubkey = None,
      pe_trust_metric = None, pe_connectedness = NotConnected, pe_session_id = 0, pe_connected_at = 0,
      pe_disconnected_at = 0, pe_alive = 0\<rparr>"

definition set_pubkey :: "net_env \<Rightarrow> bytes \<Rightarrow> 'f peer \<Rightarrow> 'f peer option" where
  "set_pubkey E pubkey p =
     (if ne_pubkey_peer_id E pubkey \<noteq> pe_id p then None else Some (p\<lparr>pe_pubkey := Some pubkey\<rparr>))"

definition peer_from_pubkey :: "net_env \<Rightarrow> bytes \<Rightarrow> 'f peer option" where
  "peer_from_pubkey E pubkey = set_pubkey E pubkey (peer_new (ne_pubkey_peer_id E pubkey))"

text \<open>The distance of two points in time; a system time cannot hold more than \<^verbatim>\<open>i64::MAX\<close> seconds.\<close>

definition update_alive :: "u64 \<Rightarrow> 'f peer \<Rightarrow> 'f peer option" where
  "update_alive now p =
     (let early = pe_connected_at p
      in if unat early \<ge> 2 ^ 63 then None
         else Some (p\<lparr>pe_alive := (if early \<le> now then now - early else early - now)\<rparr>))"

definition mark_connected :: "u64 \<Rightarrow> u64 \<Rightarrow> 'f peer \<Rightarrow> 'f peer" where
  "mark_connected now sid p =
     p\<lparr>pe_connectedness := Connected, pe_session_id := sid, pe_retry := retry_reset (pe_retry p),
       pe_connected_at := now\<rparr>"

definition mark_disconnected :: "u64 \<Rightarrow> 'f peer \<Rightarrow> 'f peer option" where
  "mark_disconnected now p =
     update_alive now (p\<lparr>pe_connectedness := CanConnect, pe_session_id := 0, pe_disconnected_at := now\<rparr>)"

definition has_tag :: "peer_tag \<Rightarrow> 'f peer \<Rightarrow> bool" where
  "has_tag t p = tags_contains t (pe_tags p)"

text \<open>Asking whether a peer is banned lifts a ban that is over.\<close>

definition banned :: "'f f64_ops \<Rightarrow> u64 \<Rightarrow> 'f peer \<Rightarrow> bool \<times> 'f peer" where
  "banned F now p =
     (case get_banned_until (pe_tags p) of
        None \<Rightarrow> (False, p)
      | Some until \<Rightarrow>
          if now < until then (True, p)
          else (False, p\<lparr>pe_tags := tags_remove ban_key (pe_tags p),
                   pe_trust_metric := map_option (trust_update (reset_history F)) (pe_trust_metric p)\<rparr>))"

section \<open>Waiting for a retry\<close>

lemma retry_inc_fields [simp]:
  "re_count (retry_inc now r) = re_count r + 1" "re_max (retry_inc now r) = re_max r"
  by (simp_all add: retry_inc_def Let_def)

lemma unat_two_power: "n < 64 \<Longrightarrow> unat ((2 :: u64) ^ n) = 2 ^ n"
  by (subst unat_pow_exact) (simp_all add: power_strict_increasing_iff [of 2 n 64, simplified])

lemma retry_eta_inc:
  assumes "unat now + 512 < 2 ^ 64" "4 \<le> unat (re_count r)" "unat (re_count r) < 63"
  shows "\<not> retry_eta now (retry_inc now r) < REPEATED_CONNECTION_TIMEOUT"
proof -
  define n where "n = Suc (unat (re_count r))"
  have n: "5 \<le> n" "n < 64" using assms by (simp_all add: n_def)
  have c: "unat (saturating_add (re_count r) 1) = n"
    using assms by (simp add: saturating_add_def checked_add_def n_def unat_add_exact)
  define secs :: u64 where "secs = (if (2 :: u64) ^ n > 512 then 512 else 2 ^ n)"
  have "(2 :: nat) ^ 5 \<le> 2 ^ n" using n by (intro power_increasing) simp_all
  then have secs: "32 \<le> unat secs" "unat secs \<le> 512"
    using unat_two_power [OF n(2)] by (auto simp: secs_def word_less_nat_alt not_less)
  have "re_next_attempt_at (retry_inc now r) = saturating_add now secs"
    unfolding retry_inc_def Let_def c BACKOFF_BASE_def MAX_RETRY_INTERVAL_def secs_def by simp
  then have at: "re_next_attempt_at (retry_inc now r) = now + secs"
    using assms(1) secs by (simp add: saturating_add_def checked_add_def)
  have "unat (now + secs) = unat now + unat secs" using assms(1) secs by (simp add: unat_add_exact)
  then have "\<not> now + secs < now" by (simp add: word_less_nat_alt)
  then show ?thesis
    using secs by (simp add: retry_eta_def saturating_sub_def at REPEATED_CONNECTION_TIMEOUT_def word_less_nat_alt)
qed

lemma retry_wait_small:
  assumes "unat now + 512 < 2 ^ 64" "unat (re_count r) < 63"
  shows "\<exists>r'. retry_wait now r = Some r'"
  using assms(2)
proof (induction "63 - unat (re_count r)" arbitrary: r rule: less_induct)
  case less
  have c: "unat (re_count r + 1) = Suc (unat (re_count r))" using less.prems by (simp add: unat_add_exact)
  show ?case
  proof (cases "unat (re_count r) < 4")
    case True
    then have "\<exists>r'. retry_wait now (retry_inc now r) = Some r'"
      using c by (intro less.hyps) simp_all
    then show ?thesis by (simp add: retry_wait.simps [of now r])
  next
    case False
    then have "\<not> retry_eta now (retry_inc now r) < REPEATED_CONNECTION_TIMEOUT"
      using assms(1) less.prems by (intro retry_eta_inc) simp_all
    then show ?thesis by (simp add: retry_wait.simps [of now r] retry_wait.simps [of now "retry_inc now r"])
  qed
qed

text \<open>From a large count the counter wraps to zero first.\<close>

lemma retry_wait_returns:
  assumes "unat now + 512 < 2 ^ 64"
  shows "\<exists>r'. retry_wait now r = Some r'"
proof (induction "256 - unat (re_count r)" arbitrary: r rule: less_induct)
  case less
  have "unat (re_count r) < 256" using unsigned_less [where ?'a = nat, of "re_count r"] by simp
  then consider "unat (re_count r) < 63" | "unat (re_count r) = 255" | "63 \<le> unat (re_count r)" "unat (re_count r) < 255"
    by linarith
  then show ?case
  proof cases
    case 1
    then show ?thesis using assms by (rule retry_wait_small [rotated])
  next
    case 2
    then have "unat (re_count r + 1) = 0" by (simp add: unat_word_ariths)
    then have "\<exists>r'. retry_wait now (retry_inc now r) = Some r'"
      using assms by (intro retry_wait_small) simp_all
    then show ?thesis by (simp add: retry_wait.simps [of now r])
  next
    case 3
    then have "unat (re_count r + 1) = Suc (unat (re_count r))" by (simp add: unat_add_exact)
    then have "\<exists>r'. retry_wait now (retry_inc now r) = Some r'"
      using 3 by (intro less.hyps) simp_all
    then show ?thesis by (simp add: retry_wait.simps [of now r])
  qed
qed

end
