(* ===== verification/Session_Book.thy ===== *)
theory Session_Book
  imports Peer
begin

text \<open>
  The book of open sessions, \<^verbatim>\<open>core/network/src/peer_manager/session_book.rs\<close>: the sessions by
  identifier, the number of sessions per host and per direction, and the limits a new session must
  respect.

  A session refers to its peer by an index into the peer manager's peers. Counters are natural
  numbers: they count sessions that are open at the same time.

  The lemmas show that insertion and removal keep the counters equal to what they count.
\<close>

datatype session_type = Inbound | Outbound

record session_context =
  sc_id :: u64
  sc_address :: multiaddr
  sc_ty :: session_type

record session =
  se_id :: u64
  se_ctx :: session_context
  se_peer :: nat
  se_blocked :: bool
  se_connected_addr :: connected_addr

definition session_new :: "net_env \<Rightarrow> nat \<Rightarrow> session_context \<Rightarrow> session" where
  "session_new E r ctx =
     \<lparr>se_id = sc_id ctx, se_ctx = ctx, se_peer = r, se_blocked = False,
      se_connected_addr = connected_addr_from E (sc_address ctx)\<rparr>"

definition se_ty :: "session \<Rightarrow> session_type" where
  "se_ty s = sc_ty (se_ctx s)"

definition se_host :: "session \<Rightarrow> string" where
  "se_host s = adr_host (se_connected_addr s)"

datatype session_book_error = ReachSameIPConnLimit | ReachInboundConnLimit | ReachOutboundConnLimit

record session_book_config =
  bc_same_ip_conn_limit :: nat
  bc_inbound_conn_limit :: nat
  bc_outbound_conn_limit :: nat

record session_book =
  sb_config :: session_book_config
  sb_hosts :: "(string \<times> nat) list"
  sb_sessions :: "session list"
  sb_inbound_count :: nat
  sb_outbound_count :: nat

definition book_new :: "session_book_config \<Rightarrow> session_book" where
  "book_new config =
     \<lparr>sb_config = config, sb_hosts = [], sb_sessions = [], sb_inbound_count = 0, sb_outbound_count = 0\<rparr>"

definition book_len :: "session_book \<Rightarrow> nat" where
  "book_len b = length (sb_sessions b)"

definition book_get :: "u64 \<Rightarrow> session_book \<Rightarrow> session option" where
  "book_get sid b = find (\<lambda>s. se_id s = sid) (sb_sessions b)"

definition acceptable :: "session_book \<Rightarrow> session \<Rightarrow> (session_book_error, unit) result" where
  "acceptable b s =
     (let host_count = (case hm_get (sb_hosts b) (se_host s) of Some n \<Rightarrow> n | None \<Rightarrow> 0)
      in if host_count = 2 ^ 64 - 1 \<or> host_count + 1 > bc_same_ip_conn_limit (sb_config b)
         then Inl (Err ReachSameIPConnLimit)
         else if se_ty s = Inbound \<and> sb_inbound_count b \<ge> bc_inbound_conn_limit (sb_config b)
         then Inl (Err ReachInboundConnLimit)
         else if se_ty s = Outbound \<and> sb_outbound_count b \<ge> bc_outbound_conn_limit (sb_config b)
         then Inl (Err ReachOutboundConnLimit)
         else Inr ())"

text \<open>A hash set keeps the element it has: a session with a known identifier is counted, not inserted.\<close>

definition book_insert :: "session \<Rightarrow> session_book \<Rightarrow> session_book" where
  "book_insert s b =
     (let hosts = (case hm_get (sb_hosts b) (se_host s) of
                     Some n \<Rightarrow> hm_insert (se_host s) (n + 1) (sb_hosts b)
                   | None \<Rightarrow> hm_insert (se_host s) 1 (sb_hosts b));
          b = b\<lparr>sb_hosts := hosts\<rparr>;
          b = (case se_ty s of
                 Inbound \<Rightarrow> b\<lparr>sb_inbound_count := sb_inbound_count b + 1\<rparr>
               | Outbound \<Rightarrow> b\<lparr>sb_outbound_count := sb_outbound_count b + 1\<rparr>)
      in b\<lparr>sb_sessions := (if se_id s \<in> set (map se_id (sb_sessions b)) then sb_sessions b
                           else sb_sessions b @ [s])\<rparr>)"

definition book_remove :: "u64 \<Rightarrow> session_book \<Rightarrow> session option \<times> session_book" where
  "book_remove sid b =
     (case book_get sid b of
        None \<Rightarrow> (None, b)
      | Some s \<Rightarrow>
          (let b = b\<lparr>sb_sessions := filter (\<lambda>t. se_id t \<noteq> sid) (sb_sessions b)\<rparr>;
               hosts = (case hm_get (sb_hosts b) (se_host s) of
                          None \<Rightarrow> sb_hosts b
                        | Some n \<Rightarrow>
                            if n = 1 then hm_remove (se_host s) (sb_hosts b)
                            else hm_insert (se_host s) (n - 1) (sb_hosts b));
               b = b\<lparr>sb_hosts := hosts\<rparr>;
               b = (case se_ty s of
                      Inbound \<Rightarrow> b\<lparr>sb_inbound_count := sb_inbound_count b - 1\<rparr>
                    | Outbound \<Rightarrow> b\<lparr>sb_outbound_count := sb_outbound_count b - 1\<rparr>)
           in (Some s, b)))"

definition book_block :: "u64 \<Rightarrow> bool \<Rightarrow> session_book \<Rightarrow> session_book" where
  "book_block sid flag b =
     b\<lparr>sb_sessions := map (\<lambda>s. if se_id s = sid then s\<lparr>se_blocked := flag\<rparr> else s) (sb_sessions b)\<rparr>"

section \<open>The counters count\<close>

definition count_of :: "('a \<Rightarrow> bool) \<Rightarrow> 'a list \<Rightarrow> nat" where
  "count_of P xs = length (filter P xs)"

lemma count_of_simps [simp]:
  "count_of P [] = 0" "count_of P (x # xs) = (if P x then Suc (count_of P xs) else count_of P xs)"
  "count_of P (xs @ ys) = count_of P xs + count_of P ys"
  by (simp_all add: count_of_def)

definition book_ok :: "session_book \<Rightarrow> bool" where
  "book_ok b \<longleftrightarrow>
     distinct (map se_id (sb_sessions b)) \<and>
     sb_inbound_count b = count_of (\<lambda>s. se_ty s = Inbound) (sb_sessions b) \<and>
     sb_outbound_count b = count_of (\<lambda>s. se_ty s = Outbound) (sb_sessions b) \<and>
     (\<forall>h. hm_get (sb_hosts b) h =
       (let n = count_of (\<lambda>s. se_host s = h) (sb_sessions b) in if n = 0 then None else Some n))"

lemma count_of_remove:
  assumes "distinct (map f xs)" "x \<in> set xs"
  shows "count_of P (filter (\<lambda>y. f y \<noteq> f x) xs) = count_of P xs - (if P x then 1 else 0) \<and>
    (P x \<longrightarrow> 0 < count_of P xs)"
  using assms
proof (induction xs)
  case (Cons y ys)
  show ?case
  proof (cases "f y = f x")
    case True
    then have "y = x" "filter (\<lambda>z. f z \<noteq> f x) ys = ys"
      using Cons.prems by (auto simp: filter_id_conv image_iff)
    then show ?thesis by simp
  next
    case False
    then have "x \<in> set ys" using Cons.prems by auto
    then show ?thesis using Cons False by auto
  qed
qed simp

lemma book_get_Some: "book_get sid b = Some s \<Longrightarrow> s \<in> set (sb_sessions b) \<and> se_id s = sid"
  by (auto simp: book_get_def find_Some_iff)

lemma book_get_iff:
  assumes "distinct (map se_id (sb_sessions b))"
  shows "book_get sid b = Some s \<longleftrightarrow> s \<in> set (sb_sessions b) \<and> se_id s = sid"
proof
  assume "s \<in> set (sb_sessions b) \<and> se_id s = sid"
  moreover from this obtain t where t: "book_get sid b = Some t"
    by (cases "book_get sid b") (auto simp: book_get_def find_None_iff)
  ultimately show "book_get sid b = Some s"
    using book_get_Some [OF t] assms by (auto simp: distinct_map dest: inj_onD)
qed (rule book_get_Some)

lemma book_get_None: "book_get sid b = None \<longleftrightarrow> sid \<notin> se_id ` set (sb_sessions b)"
  by (auto simp: book_get_def find_None_iff)

lemma book_ok_new: "book_ok (book_new c)"
  by (simp add: book_ok_def book_new_def)

lemma book_insert_sessions:
  "se_id s \<notin> se_id ` set (sb_sessions b) \<Longrightarrow> sb_sessions (book_insert s b) = sb_sessions b @ [s]"
  by (auto simp: book_insert_def Let_def split: option.split session_type.split)

lemma book_ok_insert:
  assumes "book_ok b" "se_id s \<notin> se_id ` set (sb_sessions b)"
  shows "book_ok (book_insert s b)"
  using assms book_insert_sessions [OF assms(2)]
  by (auto simp: book_ok_def book_insert_def Let_def hm_get_insert split: option.split session_type.split if_splits)

lemma book_remove_sessions:
  "sb_sessions (snd (book_remove sid b)) = filter (\<lambda>t. se_id t \<noteq> sid) (sb_sessions b)"
proof (cases "book_get sid b")
  case None
  then have "filter (\<lambda>t. se_id t \<noteq> sid) (sb_sessions b) = sb_sessions b"
    by (auto simp: book_get_None filter_id_conv)
  then show ?thesis by (simp add: book_remove_def None)
qed (simp add: book_remove_def Let_def split: option.split session_type.split)

lemma book_remove_fst [simp]: "fst (book_remove sid b) = book_get sid b"
  by (simp add: book_remove_def Let_def split: option.split)

lemma book_ok_remove:
  assumes "book_ok b" shows "book_ok (snd (book_remove sid b))"
proof (cases "book_get sid b")
  case None
  then show ?thesis using assms by (simp add: book_remove_def)
next
  case (Some s)
  then have s: "s \<in> set (sb_sessions b)" "se_id s = sid" using book_get_Some by blast+
  have d: "distinct (map se_id (sb_sessions b))" using assms by (simp add: book_ok_def)
  note c = count_of_remove [OF d s(1), unfolded s(2)]
  obtain n where "count_of (\<lambda>t. se_host t = se_host s) (sb_sessions b) = Suc n"
    using c [of "\<lambda>t. se_host t = se_host s"] by (auto simp: gr0_conv_Suc)
  then show ?thesis
    using assms c [of "\<lambda>t. se_ty t = Inbound"] c [of "\<lambda>t. se_ty t = Outbound"] c [of "\<lambda>t. se_host t = h" for h]
    by (auto simp: book_ok_def book_remove_def Some Let_def hm_get_insert hm_get_remove distinct_map_filter
        split: option.split session_type.split if_splits)
qed

lemma book_block_fields [simp]:
  "map se_id (sb_sessions (book_block sid flag b)) = map se_id (sb_sessions b)"
  "map se_peer (sb_sessions (book_block sid flag b)) = map se_peer (sb_sessions b)"
  by (simp_all add: book_block_def)

lemma count_of_block:
  assumes "\<And>s. P (s\<lparr>se_blocked := flag\<rparr>) = P s"
  shows "count_of P (sb_sessions (book_block sid flag b)) = count_of P (sb_sessions b)"
proof -
  have "count_of P (map (\<lambda>s. if se_id s = sid then s\<lparr>se_blocked := flag\<rparr> else s) xs) = count_of P xs" for xs
    by (induction xs) (simp_all add: assms)
  then show ?thesis by (simp add: book_block_def)
qed

lemma book_ok_block: "book_ok b \<Longrightarrow> book_ok (book_block sid flag b)"
proof -
  assume b: "book_ok b"
  have "sb_hosts (book_block sid flag b) = sb_hosts b" "sb_inbound_count (book_block sid flag b) = sb_inbound_count b"
    "sb_outbound_count (book_block sid flag b) = sb_outbound_count b"
    by (simp_all add: book_block_def)
  then show ?thesis
    using b by (simp add: book_ok_def count_of_block se_ty_def se_host_def)
qed

end
