(* ===== verification/Peer_Manager.thy ===== *)
theory Peer_Manager
  imports Session_Book
begin

text \<open>
  The peer manager, \<^verbatim>\<open>core/network/src/peer_manager/mod.rs\<close> and \<^verbatim>\<open>shared.rs\<close>, with the events of
  \<^verbatim>\<open>core/network/src/event.rs\<close>: the saved peers, the book of sessions, the connection attempts, and
  one handler per event.

  Peers are shared objects in the code (\<^verbatim>\<open>ArcPeer\<close>): here they live in a list and are referred to by
  index, so that a session, a connection attempt, a bootstrap entry and the table of saved peers may
  hold the same peer or different peers of one identifier. Hash sets keyed by an identifier are
  association lists; inserting an element that is there already keeps the old one. Events sent to the
  connection service are appended to a log. The clock stands still while one event is handled; the
  clock, the random number and the random choice of peers are fields of the environment. \<^verbatim>\<open>None\<close> is a
  call that does not return.

  Not modelled: the asynchronous identification itself, of which the poll of a session is an argument;
  metrics and logs.
\<close>

section \<open>Events and state\<close>

datatype connection_event = Connect "multiaddr list" | Disconnect u64

datatype connection_error_kind = ConnIo | DNSResolver | MultiaddrNotSuppored | SecioHandshake | TimeOut
  | PeerIdNotMatch | ProtocolHandle

datatype session_error_kind = SessIo | SessProtocol | SessUnexpected

datatype misbehavior_kind = Discovery | PingTimeout | PingUnexpect

datatype connection_type = RepeatedInbound | RepeatedOutbound

datatype peer_manager_event =
    ConnectPeersNow "peer_id list"
  | ConnectFailed multiaddr connection_error_kind
  | NewSession bytes session_context
  | UnidentifiedSession bytes session_context
  | RepeatedConnection connection_type u64 multiaddr
  | SessionBlocked session_context
  | SessionClosed peer_id u64
  | SessionFailed u64 session_error_kind
  | PeerAlive peer_id
  | Misbehave peer_id misbehavior_kind
  | TrustMetricFeedback peer_id trust_feedback
  | DiscoverMultiAddrs "multiaddr list"
  | IdentifiedAddrs peer_id "multiaddr list"
  | AddNewListenAddr multiaddr
  | RemoveListenAddr multiaddr

datatype new_session_pre_check_error = PeerBanned | AllowListOnly | ReachMaxConnection | PeerAlreadyConnected
  | ReachSessionLimit "session_book_error failure"

definition SAME_IP_LIMIT_BAN :: u64 where "SAME_IP_LIMIT_BAN = 300"
definition SHORT_ALIVE_SESSION :: u64 where "SHORT_ALIVE_SESSION = 3"
definition MAX_CONNECTING_MARGIN :: nat where "MAX_CONNECTING_MARGIN = 10"
definition MAX_RANDOM_NEXT_RETRY :: u64 where "MAX_RANDOM_NEXT_RETRY = 10"
definition MAX_CONNECTING_TIMEOUT :: nat where "MAX_CONNECTING_TIMEOUT = 30 * 10 ^ 9"
definition IDENTIFY_TIMEOUT :: nat where "IDENTIFY_TIMEOUT = 8 * 10 ^ 9"
definition GOOD_TRUST_SCORE :: u8 where "GOOD_TRUST_SCORE = 80"
definition WORSE_TRUST_SCALAR_RATIO :: u64 where "WORSE_TRUST_SCALAR_RATIO = 10"

record peer_manager_config =
  pc_our_id :: peer_id
  pc_bootstraps :: "nat list"
  pc_allowlist :: "peer_id list"
  pc_allowlist_only :: bool
  pc_same_ip_conn_limit :: nat
  pc_inbound_conn_limit :: nat
  pc_outbound_conn_limit :: nat
  pc_peer_trust_config :: trust_metric_config
  pc_peer_fatal_ban :: u64
  pc_peer_soft_ban :: u64
  pc_max_connections :: nat

record connecting_attempt =
  at_peer :: nat
  at_multiaddrs :: "multiaddr list"
  at_at :: nat

record unidentified_session =
  us_pubkey :: bytes
  us_ctx :: session_context
  us_connected_at :: nat

record 'f peer_manager =
  pm_heap :: "'f peer list"
  pm_chain_id :: hash
  pm_sessions :: session_book
  pm_consensus :: "peer_id list"
  pm_peers :: "(peer_id \<times> nat) list"
  pm_listen :: "multiaddr list"
  pm_config :: peer_manager_config
  pm_peer_id :: peer_id
  pm_bootstraps :: "nat list"
  pm_connecting :: "(peer_id \<times> connecting_attempt) list"
  pm_unidentified_backlog :: "unidentified_session list"
  pm_sent :: "connection_event list"

text \<open>What one event sees of the world: the network library, the clock (seconds, and a monotone clock
  in nanoseconds), a random number and the random choice of some elements.\<close>

record 'f pm_env =
  pv_net :: net_env
  pv_f64 :: "'f f64_ops"
  pv_now :: u64
  pv_instant :: nat
  pv_random :: u64
  pv_choose :: "nat \<Rightarrow> nat list \<Rightarrow> nat list"

definition update_peer :: "nat \<Rightarrow> ('f peer \<Rightarrow> 'f peer) \<Rightarrow> 'f peer_manager \<Rightarrow> 'f peer_manager" where
  "update_peer r f pm = pm\<lparr>pm_heap := (pm_heap pm)[r := f (pm_heap pm ! r)]\<rparr>"

definition try_peer :: "nat \<Rightarrow> ('f peer \<Rightarrow> 'f peer option) \<Rightarrow> 'f peer_manager \<Rightarrow> 'f peer_manager option" where
  "try_peer r f pm = map_option (\<lambda>p. pm\<lparr>pm_heap := (pm_heap pm)[r := p]\<rparr>) (f (pm_heap pm ! r))"

definition alloc_peer :: "'f peer \<Rightarrow> 'f peer_manager \<Rightarrow> nat \<times> 'f peer_manager" where
  "alloc_peer p pm = (length (pm_heap pm), pm\<lparr>pm_heap := pm_heap pm @ [p]\<rparr>)"

definition allowed :: "'f peer \<Rightarrow> bool" where
  "allowed p \<longleftrightarrow> has_tag AlwaysAllow p \<or> has_tag Consensus p"

text \<open>Run \<^verbatim>\<open>f\<close> on the trust metric of a peer, or give the peer the metric \<^verbatim>\<open>dflt\<close>.\<close>

definition metric_or ::
    "'f trust_metric \<Rightarrow> ('f trust_metric \<Rightarrow> 'f trust_metric) \<Rightarrow> 'f peer \<Rightarrow> 'f peer" where
  "metric_or dflt f p =
     p\<lparr>pe_trust_metric := Some (case pe_trust_metric p of Some m \<Rightarrow> f m | None \<Rightarrow> dflt)\<rparr>"

definition bad_event :: "u64 \<Rightarrow> 'f trust_metric \<Rightarrow> 'f trust_metric" where
  "bad_event n = trust_update (bad_events n)"

definition fresh_metric :: "'f pm_env \<Rightarrow> 'f peer_manager \<Rightarrow> 'f trust_metric" where
  "fresh_metric E pm = trust_metric_new (pv_f64 E) (pc_peer_trust_config (pm_config pm))"

section \<open>The peer pool\<close>

definition set_insert :: "'a \<Rightarrow> 'a list \<Rightarrow> 'a list" where
  "set_insert x xs = (if x \<in> set xs then xs else xs @ [x])"

definition pool_peer :: "peer_id \<Rightarrow> 'f peer_manager \<Rightarrow> nat option" where
  "pool_peer pid pm = hm_get (pm_peers pm) pid"

text \<open>The set of saved peers is keyed by the peer's identifier and keeps the peer it has.\<close>

definition add_peer :: "nat \<Rightarrow> 'f peer_manager \<Rightarrow> 'f peer_manager" where
  "add_peer r pm =
     (let pid = pe_id (pm_heap pm ! r)
      in case hm_get (pm_peers pm) pid of
           Some _ \<Rightarrow> pm
         | None \<Rightarrow> pm\<lparr>pm_peers := pm_peers pm @ [(pid, r)]\<rparr>)"

definition pool_session :: "u64 \<Rightarrow> 'f peer_manager \<Rightarrow> session option" where
  "pool_session sid pm = book_get sid (pm_sessions pm)"

definition remove_session :: "u64 \<Rightarrow> 'f peer_manager \<Rightarrow> session option \<times> 'f peer_manager" where
  "remove_session sid pm =
     (let (s, b) = book_remove sid (pm_sessions pm) in (s, pm\<lparr>pm_sessions := b\<rparr>))"

definition pool_connected :: "'f peer_manager \<Rightarrow> nat" where
  "pool_connected pm = book_len (pm_sessions pm)"

text \<open>The conjunction is evaluated left to right; asking for the ban may lift it.\<close>

definition check_connectable ::
    "'f pm_env \<Rightarrow> ('f peer \<Rightarrow> bool) \<Rightarrow> nat \<Rightarrow> nat list \<times> 'f peer_manager \<Rightarrow> nat list \<times> 'f peer_manager" where
  "check_connectable E addition_filter r acc =
     (let (rs, pm) = acc; p = pm_heap pm ! r
      in if (pe_connectedness p = NotConnected \<or> pe_connectedness p = CanConnect) \<and>
            retry_ready (pv_now E) (pe_retry p) \<and> addr_connectables (pe_multiaddrs p) \<noteq> []
         then let (is_banned, p) = banned (pv_f64 E) (pv_now E) p;
                  pm = update_peer r (\<lambda>_. p) pm
              in if \<not> is_banned \<and> addition_filter p then (rs @ [r], pm) else (rs, pm)
         else (rs, pm))"

definition connectable_peers ::
    "'f pm_env \<Rightarrow> nat \<Rightarrow> ('f peer \<Rightarrow> bool) \<Rightarrow> 'f peer_manager \<Rightarrow> nat list \<times> 'f peer_manager" where
  "connectable_peers E mx addition_filter pm =
     (let (rs, pm) = fold (check_connectable E addition_filter) (map snd (pm_peers pm)) ([], pm)
      in (pv_choose E mx rs, pm))"

section \<open>The handle\<close>

definition handle_peer_id :: "u64 \<Rightarrow> 'f peer_manager \<Rightarrow> peer_id option" where
  "handle_peer_id sid pm = map_option (\<lambda>s. pe_id (pm_heap pm ! se_peer s)) (pool_session sid pm)"

definition handle_set_chain_id :: "hash \<Rightarrow> 'f peer_manager \<Rightarrow> 'f peer_manager" where
  "handle_set_chain_id h pm = pm\<lparr>pm_chain_id := h\<rparr>"

definition handle_tag ::
    "peer_id \<Rightarrow> peer_tag \<Rightarrow> 'f peer_manager \<Rightarrow> (tag_error failure + unit) \<times> 'f peer_manager" where
  "handle_tag pid t pm =
     (let mark = (\<lambda>pm. if tag_eq t Consensus then pm\<lparr>pm_consensus := set_insert pid (pm_consensus pm)\<rparr> else pm)
      in case pool_peer pid pm of
           Some r \<Rightarrow>
             (case tags_insert t (pe_tags (pm_heap pm ! r)) of
                Inl e \<Rightarrow> (Inl e, pm)
              | Inr ts \<Rightarrow> (Inr (), mark (update_peer r (\<lambda>p. p\<lparr>pe_tags := ts\<rparr>) pm)))
         | None \<Rightarrow>
             (case tags_insert t [] of
                Inl e \<Rightarrow> (Inl e, pm)
              | Inr ts \<Rightarrow>
                  let (r, pm) = alloc_peer ((peer_new pid)\<lparr>pe_tags := ts\<rparr>) pm
                  in (Inr (), mark (add_peer r pm))))"

definition handle_untag :: "peer_id \<Rightarrow> peer_tag \<Rightarrow> 'f peer_manager \<Rightarrow> 'f peer_manager" where
  "handle_untag pid t pm =
     (let pm = (case pool_peer pid pm of
                  Some r \<Rightarrow> update_peer r (\<lambda>p. p\<lparr>pe_tags := tags_remove t (pe_tags p)\<rparr>) pm
                | None \<Rightarrow> pm)
      in if tag_eq t Consensus then pm\<lparr>pm_consensus := removeAll pid (pm_consensus pm)\<rparr> else pm)"

definition untag_consensus :: "peer_id \<Rightarrow> 'f peer_manager \<Rightarrow> 'f peer_manager" where
  "untag_consensus pid pm =
     (case pool_peer pid pm of
        Some r \<Rightarrow> update_peer r (\<lambda>p. p\<lparr>pe_tags := tags_remove Consensus (pe_tags p)\<rparr>) pm
      | None \<Rightarrow> pm)"

definition handle_tag_consensus :: "peer_id list \<Rightarrow> 'f peer_manager \<Rightarrow> 'f peer_manager" where
  "handle_tag_consensus pids pm =
     (let pm = fold untag_consensus (pm_consensus pm) pm;
          pm = fold (\<lambda>pid pm. snd (handle_tag pid Consensus pm)) pids pm
      in pm\<lparr>pm_consensus := remdups pids\<rparr>)"

text \<open>\<^verbatim>\<open>resolve\<close> stands for \<^verbatim>\<open>resolve_if_unspecified\<close>, which asks the system for the host name.\<close>

definition handle_listen_addrs :: "(multiaddr \<Rightarrow> multiaddr option) \<Rightarrow> 'f peer_manager \<Rightarrow> multiaddr list" where
  "handle_listen_addrs resolve pm = map (\<lambda>ma. case resolve ma of Some a \<Rightarrow> a | None \<Rightarrow> ma) (pm_listen pm)"

definition handle_random_addrs ::
    "'f pm_env \<Rightarrow> (multiaddr \<Rightarrow> multiaddr option) \<Rightarrow> nat \<Rightarrow> u64 \<Rightarrow> 'f peer_manager \<Rightarrow> multiaddr list" where
  "handle_random_addrs E resolve mx sid pm =
     (let rs = pv_choose E mx (map snd (pm_peers pm));
          is_self_consensus = (case pool_peer (pc_our_id (pm_config pm)) pm of
                                 Some r \<Rightarrow> has_tag Consensus (pm_heap pm ! r) | None \<Rightarrow> False);
          is_remote_consensus = (case pool_session sid pm of
                                   Some s \<Rightarrow> has_tag Consensus (pm_heap pm ! se_peer s) | None \<Rightarrow> False);
          candidates = concat (map (\<lambda>r. let p = pm_heap pm ! r
                                       in if \<not> is_remote_consensus \<and> has_tag Consensus p then []
                                          else addr_all (pe_multiaddrs p)) rs)
      in if \<not> is_self_consensus then take mx (handle_listen_addrs resolve pm @ candidates)
         else take mx candidates)"

section \<open>New sessions\<close>

definition disconnect_session :: "u64 \<Rightarrow> 'f peer_manager \<Rightarrow> 'f peer_manager" where
  "disconnect_session sid pm = pm\<lparr>pm_sent := pm_sent pm @ [Disconnect sid]\<rparr>"

text \<open>Mark the peer disconnected, disconnect the session and return the error.\<close>

definition reject_session ::
    "'f pm_env \<Rightarrow> nat \<Rightarrow> session_context \<Rightarrow> new_session_pre_check_error \<Rightarrow> 'f peer_manager \<Rightarrow>
     ((new_session_pre_check_error + session) \<times> 'f peer_manager) option" where
  "reject_session E r ctx err pm =
     map_option (\<lambda>pm. (Inl err, disconnect_session (sc_id ctx) pm)) (try_peer r (mark_disconnected (pv_now E)) pm)"

text \<open>The first open session that the incoming peer may replace; a session of a peer without metric
  ends the search.\<close>

fun find_replacement :: "'f f64_ops \<Rightarrow> u64 \<Rightarrow> 'f peer list \<Rightarrow> u8 \<Rightarrow> session list \<Rightarrow> u64 option" where
  "find_replacement F interval heap score [] = None"
| "find_replacement F interval heap score (s # ss) =
     (let p = heap ! se_peer s
      in case pe_trust_metric p of
           None \<Rightarrow> None
         | Some m \<Rightarrow>
             if score > trust_score F (tm_inner m) \<and> \<not> has_tag AlwaysAllow p \<and> \<not> has_tag Consensus p \<and>
                pe_alive p > interval * 20
             then Some (se_id s)
             else find_replacement F interval heap score ss)"

definition found_replacement :: "'f pm_env \<Rightarrow> nat \<Rightarrow> 'f peer_manager \<Rightarrow> bool \<times> 'f peer_manager" where
  "found_replacement E r pm =
     (case pe_trust_metric (pm_heap pm ! r) of
        None \<Rightarrow> (False, pm)
      | Some m \<Rightarrow>
          (case find_replacement (pv_f64 E) (tc_interval (pc_peer_trust_config (pm_config pm))) (pm_heap pm)
                  (trust_score (pv_f64 E) (tm_inner m)) (sb_sessions (pm_sessions pm)) of
             None \<Rightarrow> (False, pm)
           | Some sid \<Rightarrow> (True, disconnect_session sid pm)))"

text \<open>The peer of an incoming session: the saved one or a new one, with its addresses updated.\<close>

definition pre_check_peer ::
    "'f pm_env \<Rightarrow> bytes \<Rightarrow> session_context \<Rightarrow> 'f peer_manager \<Rightarrow> nat \<times> 'f peer_manager" where
  "pre_check_peer E pubkey ctx pm =
     (let pid = ne_pubkey_peer_id (pv_net E) pubkey;
          addr = peer_multiaddr_new (sc_address ctx) pid;
          pm = pm\<lparr>pm_connecting := hm_remove pid (pm_connecting pm)\<rparr>;
          (r, pm) = (case pool_peer pid pm of Some r \<Rightarrow> (r, pm) | None \<Rightarrow> alloc_peer (peer_new pid) pm);
          pm = update_peer r (\<lambda>p. p\<lparr>pe_multiaddrs :=
                 (case sc_ty ctx of
                    Inbound \<Rightarrow> addr_remove addr (pe_multiaddrs p)
                  | Outbound \<Rightarrow>
                      if addr_contains addr (pe_multiaddrs p) then addr_reset_failure addr (pe_multiaddrs p)
                      else addr_insert (pe_id p) [addr] (pe_multiaddrs p))\<rparr>) pm
      in (r, pm))"

text \<open>The last check: the limits of the session book, which allowed peers skip.\<close>

definition pre_check_limits ::
    "'f pm_env \<Rightarrow> nat \<Rightarrow> session_context \<Rightarrow> 'f peer_manager \<Rightarrow>
     ((new_session_pre_check_error + session) \<times> 'f peer_manager) option" where
  "pre_check_limits E r ctx pm =
     (let s = session_new (pv_net E) r ctx
      in if allowed (pm_heap pm ! r) then Some (Inr s, pm)
         else case acceptable (pm_sessions pm) s of
                Inr _ \<Rightarrow> Some (Inr s, pm)
              | Inl err \<Rightarrow>
                  (case tags_insert_ban (pv_now E) SAME_IP_LIMIT_BAN (pe_tags (pm_heap pm ! r)) of
                     None \<Rightarrow> None
                   | Some res \<Rightarrow>
                       reject_session E r ctx (ReachSessionLimit err)
                         (case res of Inr ts \<Rightarrow> update_peer r (\<lambda>p. p\<lparr>pe_tags := ts\<rparr>) pm | Inl _ \<Rightarrow> pm)))"

definition new_session_pre_check ::
    "'f pm_env \<Rightarrow> bytes \<Rightarrow> session_context \<Rightarrow> 'f peer_manager \<Rightarrow>
     ((new_session_pre_check_error + session) \<times> 'f peer_manager) option" where
  "new_session_pre_check E pubkey ctx pm =
     (let (r, pm) = pre_check_peer E pubkey ctx pm;
          (is_banned, p) = banned (pv_f64 E) (pv_now E) (pm_heap pm ! r);
          pm = update_peer r (\<lambda>_. p) pm
      in if is_banned then reject_session E r ctx PeerBanned pm
         else if pc_allowlist_only (pm_config pm) \<and> \<not> allowed p then reject_session E r ctx AllowListOnly pm
         else
           let (ok, pm) = (if pool_connected pm \<ge> pc_max_connections (pm_config pm) \<and> \<not> allowed p
                           then found_replacement E r pm else (True, pm))
           in if \<not> ok then reject_session E r ctx ReachMaxConnection pm
              else if pe_connectedness p = Connected \<and> pe_session_id p \<noteq> sc_id ctx \<and>
                      pool_session (pe_session_id p) pm \<noteq> None
              then Some (Inl PeerAlreadyConnected, disconnect_session (sc_id ctx) pm)
              else pre_check_limits E r ctx pm)"

definition new_unidentified_session ::
    "'f pm_env \<Rightarrow> bytes \<Rightarrow> session_context \<Rightarrow> 'f peer_manager \<Rightarrow> 'f peer_manager option" where
  "new_unidentified_session E pubkey ctx pm =
     (case new_session_pre_check E pubkey ctx pm of
        None \<Rightarrow> None
      | Some (Inl _, pm) \<Rightarrow> Some pm
      | Some (Inr _, pm) \<Rightarrow>
          Some (if sc_id ctx \<in> set (map (sc_id \<circ> us_ctx) (pm_unidentified_backlog pm)) then pm
                else pm\<lparr>pm_unidentified_backlog := pm_unidentified_backlog pm @
                  [\<lparr>us_pubkey = pubkey, us_ctx = ctx, us_connected_at = pv_instant E\<rparr>]\<rparr>))"

definition new_session ::
    "'f pm_env \<Rightarrow> bytes \<Rightarrow> session_context \<Rightarrow> 'f peer_manager \<Rightarrow> 'f peer_manager option" where
  "new_session E pubkey ctx pm =
     (case new_session_pre_check E pubkey ctx pm of
        None \<Rightarrow> None
      | Some (Inl _, pm) \<Rightarrow> Some pm
      | Some (Inr s, pm) \<Rightarrow>
          (let r = se_peer s;
               pm = (if pe_pubkey (pm_heap pm ! r) = None
                     then case set_pubkey (pv_net E) pubkey (pm_heap pm ! r) of
                            Some p \<Rightarrow> update_peer r (\<lambda>_. p) pm | None \<Rightarrow> pm
                     else pm);
               pm = (if pool_peer (pe_id (pm_heap pm ! r)) pm = None then add_peer r pm else pm);
               pm = pm\<lparr>pm_sessions := book_insert s (pm_sessions pm)\<rparr>;
               pm = update_peer r (mark_connected (pv_now E) (sc_id ctx)) pm
           in Some (update_peer r (metric_or (trust_start (fresh_metric E pm)) trust_start) pm)))"

section \<open>Closed and failed sessions\<close>

text \<open>At least two seconds and less than ten.\<close>

definition rand_next_retry :: "'f pm_env \<Rightarrow> u64" where
  "rand_next_retry E = (let d = pv_random E mod MAX_RANDOM_NEXT_RETRY in if d < 2 then 2 else d)"

definition ban_peer :: "'f pm_env \<Rightarrow> u64 \<Rightarrow> 'f peer \<Rightarrow> 'f peer option" where
  "ban_peer E timeout p =
     map_option (\<lambda>res. case res of Inr ts \<Rightarrow> p\<lparr>pe_tags := ts\<rparr> | Inl _ \<Rightarrow> p)
       (tags_insert_ban (pv_now E) timeout (pe_tags p))"

definition backoff_closed :: "'f pm_env \<Rightarrow> 'f peer \<Rightarrow> 'f peer option" where
  "backoff_closed E p =
     (if pe_alive p < SHORT_ALIVE_SESSION
      then map_option (\<lambda>re. p\<lparr>pe_retry := re\<rparr>) (retry_wait (pv_now E) (pe_retry p))
      else if allowed p then Some p
      else ban_peer E (rand_next_retry E) p)"

definition session_closed :: "'f pm_env \<Rightarrow> peer_id \<Rightarrow> u64 \<Rightarrow> 'f peer_manager \<Rightarrow> 'f peer_manager option" where
  "session_closed E pid sid pm =
     (let pm = pm\<lparr>pm_unidentified_backlog :=
                  filter (\<lambda>u. sc_id (us_ctx u) \<noteq> sid) (pm_unidentified_backlog pm),
                 pm_connecting := hm_remove pid (pm_connecting pm)\<rparr>;
          (opt_session, pm) = remove_session sid pm
      in case (case opt_session of Some s \<Rightarrow> Some (se_peer s) | None \<Rightarrow> pool_peer pid pm) of
           None \<Rightarrow> Some pm
         | Some r \<Rightarrow>
             (case try_peer r (mark_disconnected (pv_now E)) pm of
                None \<Rightarrow> None
              | Some pm \<Rightarrow>
                  try_peer r (backoff_closed E) (update_peer r (metric_or (fresh_metric E pm) trust_pause) pm)))"

text \<open>What a failed dial changes of the addresses and of the peer.\<close>

definition dial_failed :: "connection_error_kind \<Rightarrow> multiaddr \<Rightarrow> 'f peer \<Rightarrow> 'f peer" where
  "dial_failed kind addr p =
     (case kind of
        ConnIo \<Rightarrow> p\<lparr>pe_multiaddrs := addr_inc_failure addr (pe_multiaddrs p)\<rparr>
      | DNSResolver \<Rightarrow> p\<lparr>pe_multiaddrs := addr_inc_failure addr (pe_multiaddrs p)\<rparr>
      | MultiaddrNotSuppored \<Rightarrow> p\<lparr>pe_multiaddrs := addr_give_up addr (pe_multiaddrs p)\<rparr>
      | PeerIdNotMatch \<Rightarrow> p\<lparr>pe_multiaddrs := addr_give_up addr (pe_multiaddrs p)\<rparr>
      | TimeOut \<Rightarrow> p\<lparr>pe_multiaddrs := addr_inc_failure addr (pe_multiaddrs p)\<rparr>
      | SecioHandshake \<Rightarrow> p\<lparr>pe_connectedness := Unconnectable\<rparr>
      | ProtocolHandle \<Rightarrow> p\<lparr>pe_connectedness := Unconnectable\<rparr>)"

definition attempt_failed :: "'f pm_env \<Rightarrow> 'f peer \<Rightarrow> 'f peer" where
  "attempt_failed E p =
     (let p = p\<lparr>pe_retry := retry_inc (pv_now E) (pe_retry p), pe_connectedness := CanConnect\<rparr>
      in if retry_run_out (pe_retry p) then p\<lparr>pe_connectedness := Unconnectable\<rparr> else p)"

definition connect_failed ::
    "'f pm_env \<Rightarrow> multiaddr \<Rightarrow> connection_error_kind \<Rightarrow> 'f peer_manager \<Rightarrow> 'f peer_manager option" where
  "connect_failed E addr kind pm =
     (case peer_multiaddr_try_from (pv_net E) addr of
        None \<Rightarrow> Some pm
      | Some peer_addr \<Rightarrow>
          (case extract_id (pv_net E) peer_addr of
             None \<Rightarrow> None
           | Some pid \<Rightarrow>
               (case pool_peer pid pm of
                  None \<Rightarrow> Some pm
                | Some r \<Rightarrow>
                    (let pm = update_peer r (dial_failed kind peer_addr) pm
                     in case hm_get (pm_connecting pm) pid of
                          None \<Rightarrow> Some pm
                        | Some attempt \<Rightarrow>
                            (let pm = pm\<lparr>pm_connecting := hm_remove pid (pm_connecting pm)\<rparr>;
                                 rest = removeAll peer_addr (at_multiaddrs attempt)
                             in if pe_connectedness (pm_heap pm ! at_peer attempt) = Unconnectable then Some pm
                                else if rest = [] then Some (update_peer (at_peer attempt) (attempt_failed E) pm)
                                else Some (pm\<lparr>pm_connecting :=
                                       hm_insert pid (attempt\<lparr>at_multiaddrs := rest\<rparr>) (pm_connecting pm)\<rparr>))))))"

definition session_failed ::
    "'f pm_env \<Rightarrow> u64 \<Rightarrow> session_error_kind \<Rightarrow> 'f peer_manager \<Rightarrow> 'f peer_manager option" where
  "session_failed E sid kind pm =
     (case remove_session sid pm of
        (None, pm) \<Rightarrow> Some pm
      | (Some s, pm) \<Rightarrow>
          (case try_peer (se_peer s) (mark_disconnected (pv_now E)) (disconnect_session sid pm) of
             None \<Rightarrow> None
           | Some pm \<Rightarrow>
               (let pm = update_peer (se_peer s) (metric_or (bad_event 1 (fresh_metric E pm)) (bad_event 1)) pm
                in Some (update_peer (se_peer s)
                     (\<lambda>p. case kind of
                            SessIo \<Rightarrow> p\<lparr>pe_retry := retry_inc (pv_now E) (pe_retry p)\<rparr>
                          | _ \<Rightarrow> p\<lparr>pe_connectedness := Unconnectable\<rparr>) pm))))"

definition update_peer_alive :: "'f pm_env \<Rightarrow> peer_id \<Rightarrow> 'f peer_manager \<Rightarrow> 'f peer_manager option" where
  "update_peer_alive E pid pm =
     (case pool_peer pid pm of
        None \<Rightarrow> Some pm
      | Some r \<Rightarrow>
          try_peer r (\<lambda>p. update_alive (pv_now E) (p\<lparr>pe_retry := retry_reset (pe_retry p)\<rparr>)) pm)"

definition peer_misbehave ::
    "'f pm_env \<Rightarrow> peer_id \<Rightarrow> misbehavior_kind \<Rightarrow> 'f peer_manager \<Rightarrow> 'f peer_manager option" where
  "peer_misbehave E pid kind pm =
     (case pool_peer pid pm of
        None \<Rightarrow> Some pm
      | Some r \<Rightarrow>
          (let pm = update_peer r (metric_or (bad_event 1 (trust_start (fresh_metric E pm))) (bad_event 1)) pm;
               sid = pe_session_id (pm_heap pm ! r)
           in if sid = 0 then Some pm
              else
                let pm = snd (remove_session sid pm)
                in case try_peer r (mark_disconnected (pv_now E)) pm of
                     None \<Rightarrow> None
                   | Some pm \<Rightarrow>
                       Some (update_peer r
                         (\<lambda>p. case kind of
                                PingTimeout \<Rightarrow> p\<lparr>pe_retry := retry_inc (pv_now E) (pe_retry p)\<rparr>
                              | _ \<Rightarrow> p\<lparr>pe_connectedness := Unconnectable\<rparr>)
                         (disconnect_session sid pm))))"

section \<open>Feedback\<close>

text \<open>Pause the metric, ban the peer, drop its session and mark it disconnected.\<close>

definition knock_out_peer :: "'f pm_env \<Rightarrow> nat \<Rightarrow> u64 \<Rightarrow> 'f peer_manager \<Rightarrow> 'f peer_manager option" where
  "knock_out_peer E r timeout pm =
     (let pm = update_peer r (\<lambda>p. p\<lparr>pe_trust_metric := map_option trust_pause (pe_trust_metric p)\<rparr>) pm
      in case try_peer r (ban_peer E timeout) pm of
           None \<Rightarrow> None
         | Some pm \<Rightarrow>
             (let (opt_session, pm) = remove_session (pe_session_id (pm_heap pm ! r)) pm;
                  pm = (case opt_session of Some s \<Rightarrow> disconnect_session (se_id s) pm | None \<Rightarrow> pm)
              in try_peer r (mark_disconnected (pv_now E)) pm))"

definition knocked_out :: "'f pm_env \<Rightarrow> 'f peer \<Rightarrow> bool" where
  "knocked_out E p \<longleftrightarrow>
     (case pe_trust_metric p of Some m \<Rightarrow> knock_out (pv_f64 E) (tm_inner m) | None \<Rightarrow> False) \<and>
     \<not> has_tag AlwaysAllow p \<and> \<not> has_tag Consensus p"

definition trust_metric_feedback ::
    "'f pm_env \<Rightarrow> peer_id \<Rightarrow> trust_feedback \<Rightarrow> 'f peer_manager \<Rightarrow> 'f peer_manager option" where
  "trust_metric_feedback E pid feedback pm =
     (case pool_peer pid pm of
        None \<Rightarrow> Some pm
      | Some r \<Rightarrow>
          (let pm = update_peer r (metric_or (trust_start (fresh_metric E pm)) (\<lambda>m. m)) pm;
               on_metric = (\<lambda>f. update_peer r (\<lambda>p. p\<lparr>pe_trust_metric := map_option f (pe_trust_metric p)\<rparr>));
               after_bad = (\<lambda>pm. if knocked_out E (pm_heap pm ! r)
                                 then knock_out_peer E r (pc_peer_soft_ban (pm_config pm)) pm else Some pm)
           in case feedback of
                Fatal _ \<Rightarrow>
                  if allowed (pm_heap pm ! r) then Some pm
                  else knock_out_peer E r (pc_peer_fatal_ban (pm_config pm)) pm
              | Bad _ \<Rightarrow> after_bad (on_metric (bad_event 1) pm)
              | Worse _ \<Rightarrow> after_bad (on_metric (bad_event WORSE_TRUST_SCALAR_RATIO) pm)
              | Neutral \<Rightarrow> Some pm
              | Good \<Rightarrow> Some (on_metric (trust_update (good_events 1)) pm)))"

definition session_blocked :: "'f pm_env \<Rightarrow> session_context \<Rightarrow> 'f peer_manager \<Rightarrow> 'f peer_manager" where
  "session_blocked E ctx pm =
     (case pool_session (sc_id ctx) pm of
        None \<Rightarrow> pm
      | Some s \<Rightarrow>
          (let pm = pm\<lparr>pm_sessions := book_block (sc_id ctx) True (pm_sessions pm)\<rparr>
           in update_peer (se_peer s)
                (metric_or (bad_event 1 (trust_start (fresh_metric E pm))) (bad_event 1)) pm))"

section \<open>Dialling\<close>

definition connecting_new :: "'f pm_env \<Rightarrow> nat \<Rightarrow> 'f peer \<Rightarrow> connecting_attempt" where
  "connecting_new E r p =
     \<lparr>at_peer = r, at_multiaddrs = remdups (addr_connectables (pe_multiaddrs p)), at_at = pv_instant E\<rparr>"

definition dial_peer :: "'f pm_env \<Rightarrow> nat \<Rightarrow> multiaddr list \<times> 'f peer_manager \<Rightarrow> multiaddr list \<times> 'f peer_manager" where
  "dial_peer E r acc =
     (let (addrs, pm) = acc;
          pm = update_peer r (\<lambda>p. p\<lparr>pe_connectedness := Connecting\<rparr>) pm;
          p = pm_heap pm ! r
      in (addrs @ addr_all (pe_multiaddrs p),
          case hm_get (pm_connecting pm) (pe_id p) of
            Some _ \<Rightarrow> pm
          | None \<Rightarrow> pm\<lparr>pm_connecting := pm_connecting pm @ [(pe_id p, connecting_new E r p)]\<rparr>))"

definition connect_peers_now :: "'f pm_env \<Rightarrow> nat list \<Rightarrow> 'f peer_manager \<Rightarrow> 'f peer_manager" where
  "connect_peers_now E rs pm =
     (let (addrs, pm) = fold (dial_peer E) rs ([], pm)
      in pm\<lparr>pm_sent := pm_sent pm @ [Connect addrs]\<rparr>)"

definition dialable :: "'f peer_manager \<Rightarrow> nat \<Rightarrow> bool" where
  "dialable pm r =
     (let p = pm_heap pm ! r
      in if pe_multiaddrs p = [] then False
         else if pc_allowlist_only (pm_config pm) \<and> \<not> has_tag AlwaysAllow p \<and> \<not> has_tag Consensus p then False
         else if pe_connectedness p \<noteq> CanConnect \<and> pe_connectedness p \<noteq> NotConnected
         then pe_connectedness p = Unconnectable \<and> has_tag Consensus p
         else True)"

definition connect_peers :: "'f pm_env \<Rightarrow> nat list \<Rightarrow> 'f peer_manager \<Rightarrow> 'f peer_manager" where
  "connect_peers E rs pm =
     (let rs = filter (dialable pm) rs in if rs = [] then pm else connect_peers_now E rs pm)"

definition connect_peers_by_id :: "'f pm_env \<Rightarrow> peer_id list \<Rightarrow> 'f peer_manager \<Rightarrow> 'f peer_manager" where
  "connect_peers_by_id E pids pm = connect_peers E (List.map_filter (\<lambda>pid. pool_peer pid pm) pids) pm"

definition discover_multiaddr :: "'f pm_env \<Rightarrow> multiaddr \<Rightarrow> 'f peer_manager \<Rightarrow> 'f peer_manager option" where
  "discover_multiaddr E addr pm =
     (case peer_multiaddr_try_from (pv_net E) addr of
        None \<Rightarrow> Some pm
      | Some peer_addr \<Rightarrow>
          (case extract_id (pv_net E) peer_addr of
             None \<Rightarrow> None
           | Some pid \<Rightarrow>
               if pid = pm_peer_id pm then Some pm
               else case pool_peer pid pm of
                      Some r \<Rightarrow>
                        Some (update_peer r (\<lambda>p. p\<lparr>pe_multiaddrs := addr_insert (pe_id p) [peer_addr] (pe_multiaddrs p)\<rparr>) pm)
                    | None \<Rightarrow>
                        let (r, pm) = alloc_peer ((peer_new pid)\<lparr>pe_multiaddrs := addr_insert pid [peer_addr] []\<rparr>) pm
                        in Some (add_peer r pm)))"

fun dicover_multi_multiaddrs :: "'f pm_env \<Rightarrow> multiaddr list \<Rightarrow> 'f peer_manager \<Rightarrow> 'f peer_manager option" where
  "dicover_multi_multiaddrs E [] pm = Some pm"
| "dicover_multi_multiaddrs E (a # as) pm =
     (case discover_multiaddr E a pm of None \<Rightarrow> None | Some pm \<Rightarrow> dicover_multi_multiaddrs E as pm)"

definition identified_addrs :: "peer_id \<Rightarrow> multiaddr list \<Rightarrow> 'f peer_manager \<Rightarrow> 'f peer_manager" where
  "identified_addrs pid addrs pm =
     (case pool_peer pid pm of
        None \<Rightarrow> pm
      | Some r \<Rightarrow>
          update_peer r (\<lambda>p. p\<lparr>pe_multiaddrs :=
            addr_insert (pe_id p) (map (\<lambda>a. peer_multiaddr_new a pid) addrs) (pe_multiaddrs p)\<rparr>) pm)"

definition repeated_connection ::
    "'f pm_env \<Rightarrow> connection_type \<Rightarrow> u64 \<Rightarrow> multiaddr \<Rightarrow> 'f peer_manager \<Rightarrow> 'f peer_manager" where
  "repeated_connection E ty sid addr pm =
     (let opt_pid = (case find (\<lambda>u. sc_id (us_ctx u) = sid) (pm_unidentified_backlog pm) of
                       Some u \<Rightarrow> Some (ne_pubkey_peer_id (pv_net E) (us_pubkey u))
                     | None \<Rightarrow> handle_peer_id sid pm)
      in case opt_pid of
           None \<Rightarrow> pm
         | Some pid \<Rightarrow>
             (case pool_peer pid pm of
                None \<Rightarrow> pm
              | Some r \<Rightarrow>
                  (let peer_addr = peer_multiaddr_new addr pid
                   in update_peer r (\<lambda>p. p\<lparr>pe_multiaddrs :=
                        (case ty of
                           RepeatedInbound \<Rightarrow> addr_remove peer_addr (pe_multiaddrs p)
                         | RepeatedOutbound \<Rightarrow> addr_reset_failure peer_addr (pe_multiaddrs p))\<rparr>) pm)))"

fun process_event :: "'f pm_env \<Rightarrow> peer_manager_event \<Rightarrow> 'f peer_manager \<Rightarrow> 'f peer_manager option" where
  "process_event E (ConnectPeersNow pids) pm = Some (connect_peers_by_id E pids pm)"
| "process_event E (ConnectFailed addr kind) pm = connect_failed E addr kind pm"
| "process_event E (UnidentifiedSession pubkey ctx) pm = new_unidentified_session E pubkey ctx pm"
| "process_event E (NewSession pubkey ctx) pm = new_session E pubkey ctx pm"
| "process_event E (RepeatedConnection ty sid addr) pm = Some (repeated_connection E ty sid addr pm)"
| "process_event E (SessionBlocked ctx) pm = Some (session_blocked E ctx pm)"
| "process_event E (SessionClosed pid sid) pm = session_closed E pid sid pm"
| "process_event E (SessionFailed sid kind) pm = session_failed E sid kind pm"
| "process_event E (PeerAlive pid) pm = update_peer_alive E pid pm"
| "process_event E (Misbehave pid kind) pm = peer_misbehave E pid kind pm"
| "process_event E (TrustMetricFeedback pid feedback) pm = trust_metric_feedback E pid feedback pm"
| "process_event E (DiscoverMultiAddrs addrs) pm = dicover_multi_multiaddrs E addrs pm"
| "process_event E (IdentifiedAddrs pid addrs) pm = Some (identified_addrs pid addrs pm)"
| "process_event E (AddNewListenAddr addr) pm =
     Some (pm\<lparr>pm_listen := set_insert (peer_multiaddr_new addr (pm_peer_id pm)) (pm_listen pm)\<rparr>)"
| "process_event E (RemoveListenAddr addr) pm =
     Some (pm\<lparr>pm_listen := removeAll (peer_multiaddr_new addr (pm_peer_id pm)) (pm_listen pm)\<rparr>)"

section \<open>Saving and restoring peers\<close>

record serde_peer =
  sp_id :: peer_id
  sp_pubkey :: "bytes option"
  sp_multiaddrs :: "multiaddr list"
  sp_connectedness :: nat
  sp_retry :: u8
  sp_next_attempt_at :: u64
  sp_connected_at :: u64
  sp_disconnected_at :: u64
  sp_alive :: u64

definition serde_peer_from :: "'f peer \<Rightarrow> serde_peer" where
  "serde_peer_from p =
     \<lparr>sp_id = pe_id p, sp_pubkey = pe_pubkey p, sp_multiaddrs = addr_all (pe_multiaddrs p),
      sp_connectedness = connectedness_value
        (case pe_connectedness p of Unconnectable \<Rightarrow> Unconnectable | _ \<Rightarrow> CanConnect),
      sp_retry = re_count (pe_retry p), sp_next_attempt_at = re_next_attempt_at (pe_retry p),
      sp_connected_at = pe_connected_at p, sp_disconnected_at = pe_disconnected_at p, sp_alive = pe_alive p\<rparr>"

text \<open>The fields marked \<^verbatim>\<open>serde(skip)\<close> are not written and read back as zero.\<close>

definition serde_skip :: "serde_peer \<Rightarrow> serde_peer" where
  "serde_skip sp = sp\<lparr>sp_retry := 0, sp_next_attempt_at := 0\<rparr>"

definition serde_peer_try_into :: "net_env \<Rightarrow> serde_peer \<Rightarrow> 'f peer option" where
  "serde_peer_try_into N sp =
     (case (case sp_pubkey sp of None \<Rightarrow> Some (peer_new (sp_id sp)) | Some k \<Rightarrow> set_pubkey N k (peer_new (sp_id sp))) of
        None \<Rightarrow> None
      | Some p \<Rightarrow>
          Some (p\<lparr>pe_multiaddrs := addr_set_all (sp_id sp) (map (\<lambda>ma. peer_multiaddr_new ma (sp_id sp)) (sp_multiaddrs sp)),
            pe_connectedness := connectedness_from (sp_connectedness sp),
            pe_retry := (pe_retry p)\<lparr>re_count := sp_retry sp, re_next_attempt_at := sp_next_attempt_at sp\<rparr>,
            pe_connected_at := sp_connected_at sp, pe_disconnected_at := sp_disconnected_at sp,
            pe_alive := sp_alive sp\<rparr>))"

text \<open>\<^verbatim>\<open>serialize\<close> and \<^verbatim>\<open>deserialize\<close> stand for the binary format; a peer that does not convert back is
  left out.\<close>

definition peer_dat_save :: "(serde_peer list \<Rightarrow> bytes option) \<Rightarrow> 'f peer list \<Rightarrow> bytes option" where
  "peer_dat_save serialize peers = serialize (map serde_peer_from peers)"

definition peer_dat_restore :: "net_env \<Rightarrow> (bytes \<Rightarrow> serde_peer list option) \<Rightarrow> bytes \<Rightarrow> 'f peer list option" where
  "peer_dat_restore N deserialize file =
     map_option (\<lambda>sps. List.map_filter (serde_peer_try_into N) sps) (deserialize file)"

definition restore_peers :: "'f peer list \<Rightarrow> 'f peer_manager \<Rightarrow> 'f peer_manager" where
  "restore_peers ps pm = fold (\<lambda>p pm. let (r, pm) = alloc_peer p pm in add_peer r pm) ps pm"

section \<open>Starting and polling\<close>

fun allow_peers :: "peer_id list \<Rightarrow> 'f peer_manager \<Rightarrow> 'f peer_manager option" where
  "allow_peers [] pm = Some pm"
| "allow_peers (pid # pids) pm =
     (if pm_peers pm \<noteq> [] then None
      else let p = peer_new pid;
               p = (case tags_insert AlwaysAllow (pe_tags p) of Inr ts \<Rightarrow> p\<lparr>pe_tags := ts\<rparr> | Inl _ \<Rightarrow> p);
               (r, pm) = alloc_peer p pm
           in allow_peers pids (add_peer r pm))"

definition distinct_peers :: "'f peer list \<Rightarrow> nat list \<Rightarrow> nat list" where
  "distinct_peers heap rs =
     fold (\<lambda>r acc. if pe_id (heap ! r) \<in> set (map (\<lambda>q. pe_id (heap ! q)) acc) then acc else acc @ [r]) rs []"

text \<open>The bootstrap peers of the configuration are the peers of the given list; the chain identifier
  starts as the hash of the empty string.\<close>

definition peer_manager_new ::
    "peer_manager_config \<Rightarrow> hash \<Rightarrow> 'f peer list \<Rightarrow> 'f peer_manager option" where
  "peer_manager_new config empty_hash heap =
     allow_peers (pc_allowlist config)
       \<lparr>pm_heap = heap, pm_chain_id = empty_hash,
        pm_sessions = book_new \<lparr>bc_same_ip_conn_limit = pc_same_ip_conn_limit config,
          bc_inbound_conn_limit = pc_inbound_conn_limit config,
          bc_outbound_conn_limit = pc_outbound_conn_limit config\<rparr>,
        pm_consensus = [], pm_peers = [], pm_listen = [], pm_config = config, pm_peer_id = pc_our_id config,
        pm_bootstraps = distinct_peers heap (pc_bootstraps config), pm_connecting = [], pm_unidentified_backlog = [], pm_sent = []\<rparr>"

definition bootstrap_peer :: "nat \<Rightarrow> 'f peer_manager \<Rightarrow> 'f peer_manager" where
  "bootstrap_peer b pm =
     (case pool_peer (pe_id (pm_heap pm ! b)) pm of
        Some r \<Rightarrow>
          update_peer r (\<lambda>p. p\<lparr>pe_multiaddrs :=
            addr_insert (pe_id p) (addr_all (pe_multiaddrs (pm_heap pm ! b))) (pe_multiaddrs p)\<rparr>) pm
      | None \<Rightarrow> add_peer b pm)"

definition bootstrap :: "'f pm_env \<Rightarrow> 'f peer_manager \<Rightarrow> 'f peer_manager" where
  "bootstrap E pm = connect_peers E (pm_bootstraps pm) (fold bootstrap_peer (pm_bootstraps pm) pm)"

text \<open>The poll of the identification of a session.\<close>

datatype ident_poll = IdentPending | IdentOk | IdentFailed

definition drop_unidentified :: "'f pm_env \<Rightarrow> unidentified_session \<Rightarrow> 'f peer_manager \<Rightarrow> 'f peer_manager option" where
  "drop_unidentified E u pm =
     (let pm = disconnect_session (sc_id (us_ctx u)) pm
      in case pool_peer (ne_pubkey_peer_id (pv_net E) (us_pubkey u)) pm of
           Some r \<Rightarrow> try_peer r (mark_disconnected (pv_now E)) pm
         | None \<Rightarrow> Some pm)"

definition process_unidentified ::
    "'f pm_env \<Rightarrow> (unidentified_session \<Rightarrow> ident_poll) \<Rightarrow> unidentified_session \<Rightarrow> 'f peer_manager \<Rightarrow>
     'f peer_manager option" where
  "process_unidentified E polled u pm =
     (case polled u of
        IdentPending \<Rightarrow>
          if pv_instant E - us_connected_at u \<ge> IDENTIFY_TIMEOUT then drop_unidentified E u pm
          else Some (if sc_id (us_ctx u) \<in> set (map (sc_id \<circ> us_ctx) (pm_unidentified_backlog pm)) then pm
                     else pm\<lparr>pm_unidentified_backlog := pm_unidentified_backlog pm @ [u]\<rparr>)
      | IdentOk \<Rightarrow> process_event E (NewSession (us_pubkey u) (us_ctx u)) pm
      | IdentFailed \<Rightarrow> drop_unidentified E u pm)"

fun run_all :: "('x \<Rightarrow> 's \<Rightarrow> 's option) \<Rightarrow> 'x list \<Rightarrow> 's \<Rightarrow> 's option" where
  "run_all f [] s = Some s"
| "run_all f (x # xs) s = (case f x s of None \<Rightarrow> None | Some s \<Rightarrow> run_all f xs s)"

definition timeouted_multiaddrs :: "'f pm_env \<Rightarrow> 'f peer_manager \<Rightarrow> multiaddr list" where
  "timeouted_multiaddrs E pm =
     concat (map (\<lambda>(_, a). if pv_instant E - at_at a \<ge> MAX_CONNECTING_TIMEOUT then at_multiaddrs a else [])
       (pm_connecting pm))"

definition good_peer :: "'f pm_env \<Rightarrow> 'f peer \<Rightarrow> bool" where
  "good_peer E p =
     (case pe_trust_metric p of Some m \<Rightarrow> trust_score (pv_f64 E) (tm_inner m) > GOOD_TRUST_SCORE | None \<Rightarrow> False)"

definition check_connecting_count :: "'f pm_env \<Rightarrow> 'f peer_manager \<Rightarrow> 'f peer_manager" where
  "check_connecting_count E pm =
     (let outbound_count = sb_outbound_count (pm_sessions pm);
          attempts = outbound_count + length (pm_connecting pm);
          max_attempts = pc_outbound_conn_limit (pm_config pm) + MAX_CONNECTING_MARGIN
      in if pool_connected pm < pc_max_connections (pm_config pm) \<and>
            outbound_count < pc_outbound_conn_limit (pm_config pm) \<and> attempts < max_attempts
         then let remain = max_attempts - attempts;
                  (rs, pm) = connectable_peers E remain (good_peer E) pm;
                  (rs, pm) = (if rs = [] then connectable_peers E remain (\<lambda>_. True) pm else (rs, pm))
              in if rs = [] then pm else connect_peers E rs pm
         else pm)"

text \<open>One poll: the sessions waiting for identification, the events that have arrived, the attempts
  that have timed out, and new attempts. A closed event channel ends the manager.\<close>

definition poll ::
    "'f pm_env \<Rightarrow> (unidentified_session \<Rightarrow> ident_poll) \<Rightarrow> peer_manager_event list \<Rightarrow> bool \<Rightarrow> 'f peer_manager \<Rightarrow>
     'f peer_manager option" where
  "poll E polled events rx_closed pm =
     (case run_all (process_unidentified E polled) (pm_unidentified_backlog pm)
             (pm\<lparr>pm_unidentified_backlog := []\<rparr>) of
        None \<Rightarrow> None
      | Some pm \<Rightarrow>
          (case run_all (process_event E) events pm of
             None \<Rightarrow> None
           | Some pm \<Rightarrow>
               if rx_closed then Some pm
               else
                 case run_all (\<lambda>ma. connect_failed E ma TimeOut) (timeouted_multiaddrs E pm) pm of
                   None \<Rightarrow> None
                 | Some pm \<Rightarrow> Some (check_connecting_count E pm)))"

section \<open>The shared view of the sessions\<close>

definition shared_all_sendable :: "'f peer_manager \<Rightarrow> u64 list" where
  "shared_all_sendable pm = map se_id (filter (\<lambda>s. \<not> se_blocked s) (sb_sessions (pm_sessions pm)))"

definition shared_all_blocked :: "'f peer_manager \<Rightarrow> u64 list" where
  "shared_all_blocked pm = map se_id (filter se_blocked (sb_sessions (pm_sessions pm)))"

text \<open>\<^verbatim>\<open>pending\<close> is the amount of data a session has queued; a window size of zero panics.\<close>

definition shared_refresh_blocked ::
    "(session_context \<Rightarrow> nat) \<Rightarrow> nat \<Rightarrow> nat \<Rightarrow> 'f peer_manager \<Rightarrow> 'f peer_manager option" where
  "shared_refresh_blocked pending window_size write_timeout pm =
     run_all (\<lambda>s pm.
         if window_size = 0 then None
         else Some (if pending (se_ctx s) div window_size < write_timeout
                    then pm\<lparr>pm_sessions := book_block (se_id s) False (pm_sessions pm)\<rparr> else pm))
       (filter se_blocked (sb_sessions (pm_sessions pm))) pm"

fun shared_peers :: "'f peer_manager \<Rightarrow> peer_id list \<Rightarrow> u64 list \<times> peer_id list" where
  "shared_peers pm [] = ([], [])"
| "shared_peers pm (pid # pids) =
     (let (connected, unconnected) = shared_peers pm pids
      in case pool_peer pid pm of
           Some r \<Rightarrow>
             if pe_connectedness (pm_heap pm ! r) = Connected
             then (pe_session_id (pm_heap pm ! r) # connected, unconnected)
             else (connected, pid # unconnected)
         | None \<Rightarrow> (connected, pid # unconnected))"

definition shared_all :: "'f peer_manager \<Rightarrow> u64 list" where
  "shared_all pm = map se_id (sb_sessions (pm_sessions pm))"

definition shared_connected_addr :: "u64 \<Rightarrow> 'f peer_manager \<Rightarrow> connected_addr option" where
  "shared_connected_addr sid pm = map_option se_connected_addr (book_get sid (pm_sessions pm))"

definition shared_allowlist :: "'f peer_manager \<Rightarrow> peer_id list" where
  "shared_allowlist pm =
     map (\<lambda>s. pe_id (pm_heap pm ! se_peer s))
       (filter (\<lambda>s. has_tag AlwaysAllow (pm_heap pm ! se_peer s)) (sb_sessions (pm_sessions pm)))"

end
