(* ===== verification/Peer_Invariant.thy ===== *)
theory Peer_Invariant
  imports Peer_Manager
begin

text \<open>
  What holds of the peer manager whatever events it handles: a peer that is marked connected has a
  session in the book, the session belongs to it, every session's peer is a saved peer, and the book's
  counters are exact. Every handler returns.

  The events come from the network library, of which two facts are used: session identifiers are not
  zero and an identifier is announced once. The clock is below \<^verbatim>\<open>2 ^ 62\<close> seconds, and choosing some
  elements yields elements of the list.
\<close>

section \<open>The invariant\<close>

named_theorems peer_steps \<open>operations on one peer that keep its place in the session book\<close>

text \<open>What holds of a peer: its session is in the book and belongs to it, and a connected peer has one.\<close>

definition peer_ok :: "session_book \<Rightarrow> nat \<Rightarrow> 'f peer \<Rightarrow> bool" where
  "peer_ok b r p \<longleftrightarrow>
     (pe_session_id p \<noteq> 0 \<longrightarrow> (\<exists>s\<in>set (sb_sessions b). se_id s = pe_session_id p \<and> se_peer s = r)) \<and>
     (pe_connectedness p = Connected \<longrightarrow> pe_session_id p \<noteq> 0) \<and> unat (pe_connected_at p) < 2 ^ 63"

definition backlog_ids :: "'f peer_manager \<Rightarrow> u64 list" where
  "backlog_ids pm = map (sc_id \<circ> us_ctx) (pm_unidentified_backlog pm)"

definition session_ids :: "'f peer_manager \<Rightarrow> u64 list" where
  "session_ids pm = map se_id (sb_sessions (pm_sessions pm))"

definition saved_as :: "'f peer_manager \<Rightarrow> nat \<Rightarrow> bool" where
  "saved_as pm r \<longleftrightarrow> r < length (pm_heap pm) \<and> pool_peer (pe_id (pm_heap pm ! r)) pm = Some r"

definition pm_inv :: "'f peer_manager \<Rightarrow> bool" where
  "pm_inv pm \<longleftrightarrow>
     book_ok (pm_sessions pm) \<and>
     hm_wf (pm_peers pm) \<and>
     (\<forall>(pid, r)\<in>set (pm_peers pm). r < length (pm_heap pm) \<and> pe_id (pm_heap pm ! r) = pid) \<and>
     (\<forall>s\<in>set (sb_sessions (pm_sessions pm)). se_id s \<noteq> 0 \<and> saved_as pm (se_peer s)) \<and>
     (\<forall>r<length (pm_heap pm). peer_ok (pm_sessions pm) r (pm_heap pm ! r)) \<and>
     (\<forall>a\<in>set (pm_connecting pm). at_peer (snd a) < length (pm_heap pm)) \<and>
     (\<forall>b\<in>set (pm_bootstraps pm). b < length (pm_heap pm)) \<and>
     distinct (backlog_ids pm) \<and> 0 \<notin> set (backlog_ids pm) \<and> set (backlog_ids pm) \<inter> set (session_ids pm) = {} \<and>
     unat (pc_peer_fatal_ban (pm_config pm)) < 2 ^ 62 \<and> unat (pc_peer_soft_ban (pm_config pm)) < 2 ^ 62"

lemma pm_inv_frame [simp]:
  "pm_inv (pm\<lparr>pm_sent := x\<rparr>) = pm_inv pm" "pm_inv (pm\<lparr>pm_consensus := cs\<rparr>) = pm_inv pm"
  "pm_inv (pm\<lparr>pm_listen := l\<rparr>) = pm_inv pm" "pm_inv (pm\<lparr>pm_chain_id := h\<rparr>) = pm_inv pm"
  by (simp_all add: pm_inv_def saved_as_def pool_peer_def backlog_ids_def session_ids_def)

lemma pm_inv_disconnect [simp]: "pm_inv (disconnect_session sid pm) = pm_inv pm"
  by (simp add: disconnect_session_def)

definition peer_step :: "'f peer \<Rightarrow> 'f peer \<Rightarrow> bool" where
  "peer_step p p' \<longleftrightarrow>
     pe_id p' = pe_id p \<and> (pe_session_id p' = pe_session_id p \<or> pe_session_id p' = 0) \<and>
     (pe_connectedness p' = Connected \<longrightarrow> pe_connectedness p = Connected \<and> pe_session_id p' = pe_session_id p) \<and>
     pe_connected_at p' = pe_connected_at p"

lemma peer_step_ok: "peer_ok b r p \<Longrightarrow> peer_step p p' \<Longrightarrow> peer_ok b r p'"
  by (auto simp: peer_ok_def peer_step_def)

lemma peer_step_refl [simp, peer_steps]: "peer_step p p"
  by (simp add: peer_step_def)

lemma peer_step_trans: "peer_step p q \<Longrightarrow> peer_step q r \<Longrightarrow> peer_step p r"
  by (auto simp: peer_step_def)

lemma peer_step_fields [simp, peer_steps]:
  "peer_step p (p\<lparr>pe_multiaddrs := ma\<rparr>)" "peer_step p (p\<lparr>pe_tags := ts\<rparr>)" "peer_step p (p\<lparr>pe_retry := re\<rparr>)"
  "peer_step p (p\<lparr>pe_trust_metric := m\<rparr>)" "peer_step p (p\<lparr>pe_pubkey := k\<rparr>)" "peer_step p (metric_or d f p)"
  "c \<noteq> Connected \<Longrightarrow> peer_step p (p\<lparr>pe_connectedness := c\<rparr>)"
  by (simp_all add: peer_step_def metric_or_def)

lemma peer_step_banned [simp, peer_steps]: "peer_step p (snd (banned F now p))"
  by (simp add: banned_def peer_step_def split: option.split)

lemma peer_step_dial_failed [simp, peer_steps]: "peer_step p (dial_failed kind addr p)"
  by (cases kind) (simp_all add: dial_failed_def)

lemma peer_step_attempt_failed [simp, peer_steps]: "peer_step p (attempt_failed E p)"
  by (simp add: attempt_failed_def peer_step_def Let_def)

lemma update_alive_returns:
  assumes "unat (pe_connected_at p) < 2 ^ 63"
  shows "\<exists>p'. update_alive now p = Some p' \<and> peer_step p p' \<and> pe_session_id p' = pe_session_id p"
  using assms by (simp add: update_alive_def peer_step_def Let_def)

lemma mark_disconnected_returns:
  assumes "unat (pe_connected_at p) < 2 ^ 63"
  shows "\<exists>p'. mark_disconnected now p = Some p' \<and> peer_step p p' \<and> pe_session_id p' = 0"
  using assms by (simp add: mark_disconnected_def update_alive_def peer_step_def Let_def)

lemma ban_peer_returns:
  assumes "unat (pv_now E) < 2 ^ 62" "unat timeout < 2 ^ 62"
  shows "\<exists>p'. ban_peer E timeout p = Some p' \<and> peer_step p p' \<and> pe_session_id p' = pe_session_id p"
  using assms by (auto simp: ban_peer_def tags_insert_ban_def checked_add_def peer_step_def split: sum.split)

lemma backoff_closed_returns:
  assumes "unat (pv_now E) < 2 ^ 62"
  shows "\<exists>p'. backoff_closed E p = Some p' \<and> peer_step p p'"
proof -
  have "unat (pv_now E) + 512 < 2 ^ 64" using assms by simp
  then obtain re where re: "retry_wait (pv_now E) (pe_retry p) = Some re" using retry_wait_returns by blast
  have "rand_next_retry E \<le> 10"
    using word_mod_less_divisor [of MAX_RANDOM_NEXT_RETRY "pv_random E"]
    by (auto simp: rand_next_retry_def MAX_RANDOM_NEXT_RETRY_def Let_def)
  then have "unat (rand_next_retry E) \<le> 10" by (simp add: word_le_nat_alt)
  then obtain p' where "ban_peer E (rand_next_retry E) p = Some p'" "peer_step p p'"
    using ban_peer_returns [OF assms, of "rand_next_retry E" p] by auto
  then show ?thesis using re by (simp add: backoff_closed_def)
qed

text \<open>The invariant under an update of one peer, of the table of peers and of the attempts.\<close>

lemma pm_invD:
  assumes "pm_inv pm"
  shows "book_ok (pm_sessions pm)" "hm_wf (pm_peers pm)"
    "\<And>r. r < length (pm_heap pm) \<Longrightarrow> peer_ok (pm_sessions pm) r (pm_heap pm ! r)"
    "\<And>pid r. pool_peer pid pm = Some r \<Longrightarrow> r < length (pm_heap pm) \<and> pe_id (pm_heap pm ! r) = pid"
    "\<And>s. s \<in> set (sb_sessions (pm_sessions pm)) \<Longrightarrow> se_id s \<noteq> 0 \<and> saved_as pm (se_peer s)"
  using assms by (auto simp: pm_inv_def pool_peer_def dest!: map_of_SomeD)

lemma inv_heap_update:
  assumes inv: "pm_inv pm" and step: "r < length (pm_heap pm) \<Longrightarrow> peer_step (pm_heap pm ! r) p"
  shows "pm_inv (pm\<lparr>pm_heap := (pm_heap pm)[r := p]\<rparr>)"
proof (cases "r < length (pm_heap pm)")
  case True
  then have p: "pe_id p = pe_id (pm_heap pm ! r)" using step by (simp add: peer_step_def)
  have ids: "pe_id ((pm_heap pm)[r := p] ! i) = pe_id (pm_heap pm ! i)" for i
    using True p by (cases "i = r") simp_all
  have ok: "peer_ok (pm_sessions pm) i ((pm_heap pm)[r := p] ! i)" if "i < length (pm_heap pm)" for i
    using that True peer_step_ok [OF pm_invD(3) [OF inv True] step [OF True]] pm_invD(3) [OF inv]
    by (cases "i = r") simp_all
  show ?thesis
    using inv ok by (simp add: pm_inv_def ids saved_as_def pool_peer_def backlog_ids_def session_ids_def)
next
  case False
  then have "(pm_heap pm)[r := p] = pm_heap pm" by (intro list_update_beyond) simp
  then show ?thesis
    using inv by (simp add: pm_inv_def saved_as_def pool_peer_def backlog_ids_def session_ids_def)
qed

lemma inv_update_peer [intro]:
  "pm_inv pm \<Longrightarrow> peer_step (pm_heap pm ! r) (f (pm_heap pm ! r)) \<Longrightarrow> pm_inv (update_peer r f pm)"
  by (simp add: update_peer_def inv_heap_update)

lemma inv_alloc_peer:
  assumes "pm_inv pm" "alloc_peer p pm = (r, pm')" "pe_session_id p = 0" "pe_connectedness p \<noteq> Connected"
    "unat (pe_connected_at p) < 2 ^ 63"
  shows "pm_inv pm' \<and> r < length (pm_heap pm') \<and> pm_heap pm' ! r = p \<and> pm_peers pm' = pm_peers pm \<and>
    pm_sessions pm' = pm_sessions pm"
proof -
  have pm': "pm' = pm\<lparr>pm_heap := pm_heap pm @ [p]\<rparr>" "r = length (pm_heap pm)"
    using assms(2) by (simp_all add: alloc_peer_def)
  have "peer_ok b i p" for b i using assms(3-5) by (simp add: peer_ok_def)
  then show ?thesis
    using assms(1) unfolding pm'
    by (auto simp: pm_inv_def saved_as_def pool_peer_def backlog_ids_def session_ids_def nth_append less_Suc_eq)
qed

lemma inv_add_peer [intro]:
  assumes "pm_inv pm" "r < length (pm_heap pm)"
  shows "pm_inv (add_peer r pm)"
proof (cases "hm_get (pm_peers pm) (pe_id (pm_heap pm ! r))")
  case None
  then have pm': "add_peer r pm = pm\<lparr>pm_peers := pm_peers pm @ [(pe_id (pm_heap pm ! r), r)]\<rparr>"
    by (simp add: add_peer_def Let_def)
  have "hm_wf (pm_peers pm @ [(pe_id (pm_heap pm ! r), r)])"
    using assms(1) None by (auto simp: pm_inv_def map_of_eq_None_iff)
  moreover have "saved_as (pm\<lparr>pm_peers := pm_peers pm @ [(pe_id (pm_heap pm ! r), r)]\<rparr>) i" if "saved_as pm i" for i
    using that by (auto simp: saved_as_def pool_peer_def map_add_def)
  ultimately show ?thesis
    using assms unfolding pm' by (auto simp: pm_inv_def backlog_ids_def session_ids_def)
qed (use assms in \<open>simp add: add_peer_def Let_def\<close>)

lemma inv_connecting_set:
  "pm_inv pm \<Longrightarrow> \<forall>x\<in>set c. at_peer (snd x) < length (pm_heap pm) \<Longrightarrow> pm_inv (pm\<lparr>pm_connecting := c\<rparr>)"
  by (simp add: pm_inv_def saved_as_def pool_peer_def backlog_ids_def session_ids_def)

lemma inv_connecting [simp]:
  "pm_inv pm \<Longrightarrow> pm_inv (pm\<lparr>pm_connecting := hm_remove pid (pm_connecting pm)\<rparr>)"
  by (auto simp: pm_inv_def saved_as_def pool_peer_def backlog_ids_def session_ids_def AList.delete_eq)

lemma inv_backlog_filter:
  "pm_inv pm \<Longrightarrow> pm_inv (pm\<lparr>pm_unidentified_backlog := filter P (pm_unidentified_backlog pm)\<rparr>)"
  by (auto simp: pm_inv_def saved_as_def pool_peer_def backlog_ids_def session_ids_def distinct_map_filter)

text \<open>
  Dropping a session together with resetting the peer it belongs to: \<^verbatim>\<open>sid\<close> is the identifier of a
  session of peer \<^verbatim>\<open>r\<close>, or of none.
\<close>

lemma inv_close:
  assumes inv: "pm_inv pm" and own: "\<And>s. pool_session sid pm = Some s \<Longrightarrow> se_peer s = r"
    and step: "r < length (pm_heap pm) \<Longrightarrow> peer_step (pm_heap pm ! r) p \<and> pe_session_id p = 0"
  shows "pm_inv (pm\<lparr>pm_sessions := snd (book_remove sid (pm_sessions pm)), pm_heap := (pm_heap pm)[r := p]\<rparr>)"
proof -
  let ?b = "snd (book_remove sid (pm_sessions pm))"
  let ?pm = "pm\<lparr>pm_heap := (pm_heap pm)[r := p]\<rparr>"
  have inv': "pm_inv ?pm" using inv step by (intro inv_heap_update) simp_all
  have d: "distinct (map se_id (sb_sessions (pm_sessions pm)))" using pm_invD(1) [OF inv] by (simp add: book_ok_def)
  have sub: "set (sb_sessions ?b) \<subseteq> set (sb_sessions (pm_sessions pm))" by (auto simp: book_remove_sessions)
  have ok: "peer_ok ?b i (pm_heap ?pm ! i)" if i: "i < length (pm_heap ?pm)" for i
  proof (cases "pe_session_id (pm_heap ?pm ! i) = 0")
    case True
    then show ?thesis using pm_invD(3) [OF inv' i] by (simp add: peer_ok_def)
  next
    case False
    then have neq: "i \<noteq> r" using step i by auto
    obtain s where s: "s \<in> set (sb_sessions (pm_sessions pm))" "se_id s = pe_session_id (pm_heap ?pm ! i)" "se_peer s = i"
      using pm_invD(3) [OF inv' i] False by (auto simp: peer_ok_def)
    have "se_id s \<noteq> sid" using own neq s d by (auto simp: pool_session_def book_get_iff)
    then have "s \<in> set (sb_sessions ?b)" using s(1) by (simp add: book_remove_sessions)
    then show ?thesis using s pm_invD(3) [OF inv' i] by (auto simp: peer_ok_def)
  qed
  have ids: "set (backlog_ids ?pm) \<inter> se_id ` set (sb_sessions ?b) = {}"
  proof -
    have "set (backlog_ids ?pm) \<inter> se_id ` set (sb_sessions (pm_sessions pm)) = {}"
      using inv' by (simp add: pm_inv_def session_ids_def)
    then show ?thesis using image_mono [OF sub, of se_id] by blast
  qed
  have saved: "\<forall>s\<in>set (sb_sessions ?b). se_id s \<noteq> 0 \<and> saved_as ?pm (se_peer s)"
    using pm_invD(5) [OF inv'] sub by auto
  have "pm_inv (?pm\<lparr>pm_sessions := ?b\<rparr>)"
    using inv' ok ids saved book_ok_remove [OF pm_invD(1) [OF inv]]
    by (simp add: pm_inv_def saved_as_def pool_peer_def backlog_ids_def session_ids_def)
  moreover have "pm\<lparr>pm_sessions := ?b, pm_heap := (pm_heap pm)[r := p]\<rparr> = ?pm\<lparr>pm_sessions := ?b\<rparr>"
    by (cases pm) simp
  ultimately show ?thesis by (simp only:)
qed

lemma remove_session_eq:
  "remove_session sid pm =
     (pool_session sid pm, pm\<lparr>pm_sessions := snd (book_remove sid (pm_sessions pm))\<rparr>)"
  by (simp add: remove_session_def pool_session_def split: prod.split)
    (metis book_remove_fst fst_conv)

section \<open>Every handler returns and keeps the invariant\<close>

definition env_ok :: "'f pm_env \<Rightarrow> bool" where
  "env_ok E \<longleftrightarrow> unat (pv_now E) < 2 ^ 62 \<and> (\<forall>n rs. set (pv_choose E n rs) \<subseteq> set rs)"

definition returns_ok :: "'f peer_manager option \<Rightarrow> bool" where
  "returns_ok res \<longleftrightarrow> (\<exists>pm. res = Some pm \<and> pm_inv pm)"

lemma returns_ok_Some [simp]: "returns_ok (Some pm) = pm_inv pm"
  by (simp add: returns_ok_def)

lemma try_peer_Some: "f (pm_heap pm ! r) = Some p \<Longrightarrow> try_peer r f pm = Some (pm\<lparr>pm_heap := (pm_heap pm)[r := p]\<rparr>)"
  by (simp add: try_peer_def)

lemma pool_peer_frame [simp]:
  "pool_peer pid (update_peer r f pm) = pool_peer pid pm" "pool_peer pid (disconnect_session sid pm) = pool_peer pid pm"
  "pool_peer pid (pm\<lparr>pm_heap := h\<rparr>) = pool_peer pid pm" "pool_peer pid (pm\<lparr>pm_sessions := b\<rparr>) = pool_peer pid pm"
  "pool_peer pid (pm\<lparr>pm_connecting := c\<rparr>) = pool_peer pid pm"
  "pool_peer pid (pm\<lparr>pm_unidentified_backlog := u\<rparr>) = pool_peer pid pm"
  by (simp_all add: pool_peer_def update_peer_def disconnect_session_def)

text \<open>The state while an incoming session is checked: \<^verbatim>\<open>r\<close> is the peer of the session, saved or new.\<close>

definition incoming :: "peer_id \<Rightarrow> nat \<Rightarrow> 'f peer_manager \<Rightarrow> 'f peer_manager \<Rightarrow> bool" where
  "incoming pid r pm0 pm \<longleftrightarrow>
     pm_inv pm \<and> r < length (pm_heap pm) \<and> pe_id (pm_heap pm ! r) = pid \<and>
     (pool_peer pid pm = None \<or> pool_peer pid pm = Some r) \<and>
     pm_sessions pm = pm_sessions pm0 \<and> pm_unidentified_backlog pm = pm_unidentified_backlog pm0"

lemma incoming_update:
  "incoming pid r pm0 pm \<Longrightarrow> peer_step (pm_heap pm ! r) p \<Longrightarrow> incoming pid r pm0 (pm\<lparr>pm_heap := (pm_heap pm)[r := p]\<rparr>)"
  by (simp add: incoming_def inv_heap_update) (simp add: peer_step_def)

lemma incoming_update_peer:
  "incoming pid r pm0 pm \<Longrightarrow> peer_step (pm_heap pm ! r) (f (pm_heap pm ! r)) \<Longrightarrow> incoming pid r pm0 (update_peer r f pm)"
  by (simp add: update_peer_def incoming_update)

lemma incoming_disconnect: "incoming pid r pm0 pm \<Longrightarrow> incoming pid r pm0 (disconnect_session sid pm)"
  by (simp add: incoming_def) (simp add: disconnect_session_def)

lemma incoming_connected_at: "incoming pid r pm0 pm \<Longrightarrow> unat (pe_connected_at (pm_heap pm ! r)) < 2 ^ 63"
  using pm_invD(3) by (auto simp: incoming_def peer_ok_def)

lemma pre_check_peer_incoming:
  assumes "pm_inv pm" "pre_check_peer E pubkey ctx pm = (r, pm')"
  shows "incoming (ne_pubkey_peer_id (pv_net E) pubkey) r pm pm'"
proof -
  let ?pid = "ne_pubkey_peer_id (pv_net E) pubkey"
  define pm1 where "pm1 = pm\<lparr>pm_connecting := hm_remove ?pid (pm_connecting pm)\<rparr>"
  have inv1: "pm_inv pm1" using assms(1) by (simp add: pm1_def)
  obtain r2 pm2 where 2: "(case pool_peer ?pid pm1 of Some r \<Rightarrow> (r, pm1) | None \<Rightarrow> alloc_peer (peer_new ?pid) pm1) = (r2, pm2)"
    by fastforce
  have "incoming ?pid r2 pm pm2"
  proof (cases "pool_peer ?pid pm1")
    case None
    then have a: "alloc_peer (peer_new ?pid) pm1 = (r2, pm2)" using 2 by simp
    have "pm_inv pm2 \<and> r2 < length (pm_heap pm2) \<and> pm_heap pm2 ! r2 = peer_new ?pid \<and> pm_peers pm2 = pm_peers pm1 \<and>
        pm_sessions pm2 = pm_sessions pm1"
      by (rule inv_alloc_peer [OF inv1 a]) (simp_all add: peer_new_def)
    moreover have "pm_unidentified_backlog pm2 = pm_unidentified_backlog pm1" using a by (auto simp: alloc_peer_def)
    ultimately show ?thesis using None by (auto simp: incoming_def pool_peer_def peer_new_def pm1_def)
  next
    case (Some q)
    then have "r2 = q" "pm2 = pm1" using 2 by simp_all
    then show ?thesis using pm_invD(4) [OF inv1 Some] inv1 Some by (auto simp: incoming_def pm1_def)
  qed
  then show ?thesis
    using assms(2) unfolding pre_check_peer_def Let_def pm1_def [symmetric] 2
    by (auto intro: incoming_update_peer)
qed

lemma reject_session_incoming:
  assumes "incoming pid r pm0 pm"
  shows "\<exists>pm'. reject_session E r ctx err pm = Some (Inl err, pm') \<and> incoming pid r pm0 pm' \<and>
    Disconnect (sc_id ctx) \<in> set (pm_sent pm')"
proof -
  obtain p where p: "mark_disconnected (pv_now E) (pm_heap pm ! r) = Some p" "peer_step (pm_heap pm ! r) p"
    using mark_disconnected_returns [OF incoming_connected_at [OF assms]] by blast
  have "incoming pid r pm0 (disconnect_session (sc_id ctx) (pm\<lparr>pm_heap := (pm_heap pm)[r := p]\<rparr>))"
    using incoming_disconnect [OF incoming_update [OF assms p(2)]] .
  then show ?thesis
    by (simp add: reject_session_def try_peer_def p(1)) (simp add: disconnect_session_def)
qed

lemma found_replacement_frame:
  assumes "incoming pid r pm0 pm" "found_replacement E r pm = (ok, pm')"
  shows "incoming pid r pm0 pm' \<and> pm_heap pm' = pm_heap pm"
  using assms incoming_disconnect [OF assms(1)]
  by (auto simp: found_replacement_def split: option.splits) (simp_all add: disconnect_session_def)

definition check_result :: "'f pm_env \<Rightarrow> bytes \<Rightarrow> session_context \<Rightarrow> 'f peer_manager \<Rightarrow>
    ((new_session_pre_check_error + session) \<times> 'f peer_manager) option \<Rightarrow> bool" where
  "check_result E pubkey ctx pm0 res \<longleftrightarrow>
     (\<exists>r v pm. res = Some (v, pm) \<and> incoming (ne_pubkey_peer_id (pv_net E) pubkey) r pm0 pm \<and>
       (case v of
          Inl _ \<Rightarrow> Disconnect (sc_id ctx) \<in> set (pm_sent pm)
        | Inr s \<Rightarrow> s = session_new (pv_net E) r ctx \<and>
            (allowed (pm_heap pm ! r) \<or> acceptable (pm_sessions pm) s = Inr ()) \<and>
            get_banned_until (pe_tags (pm_heap pm ! r)) = None))"

lemma check_result_reject:
  "incoming (ne_pubkey_peer_id (pv_net E) pubkey) r pm0 pm \<Longrightarrow>
    check_result E pubkey ctx pm0 (reject_session E r ctx err pm)"
  using reject_session_incoming [of "ne_pubkey_peer_id (pv_net E) pubkey" r pm0 pm E ctx err]
  by (auto simp: check_result_def)

lemma ban_lifted [simp]: "get_banned_until (tags_remove ban_key ts) = None"
proof -
  have "find (tag_eq ban_key) (filter (\<lambda>u. \<not> tag_eq ban_key u) ts) = None" by (simp add: find_None_iff)
  then show ?thesis by (simp add: get_banned_until_def tags_remove_def)
qed

lemma not_banned: "banned F now p = (False, p') \<Longrightarrow> get_banned_until (pe_tags p') = None"
  by (auto simp: banned_def split: option.splits if_splits)

lemma check_result_limits:
  assumes "env_ok E" "incoming (ne_pubkey_peer_id (pv_net E) pubkey) r pm0 pm"
    "get_banned_until (pe_tags (pm_heap pm ! r)) = None"
  shows "check_result E pubkey ctx pm0 (pre_check_limits E r ctx pm)"
proof -
  let ?s = "session_new (pv_net E) r ctx"
  have ok: "check_result E pubkey ctx pm0 (Some (Inr ?s, pm))"
    if "allowed (pm_heap pm ! r) \<or> acceptable (pm_sessions pm) ?s = Inr ()"
    using assms(2,3) that by (auto simp: check_result_def)
  show ?thesis
  proof (cases "acceptable (pm_sessions pm) ?s")
    case (Inl err)
    have "checked_add (pv_now E) SAME_IP_LIMIT_BAN \<noteq> None"
      using assms(1) by (simp add: env_ok_def checked_add_def SAME_IP_LIMIT_BAN_def)
    then obtain res where res: "tags_insert_ban (pv_now E) SAME_IP_LIMIT_BAN (pe_tags (pm_heap pm ! r)) = Some res"
      by (auto simp: tags_insert_ban_def)
    have "incoming (ne_pubkey_peer_id (pv_net E) pubkey) r pm0
        (case res of Inr ts \<Rightarrow> update_peer r (\<lambda>p. p\<lparr>pe_tags := ts\<rparr>) pm | Inl _ \<Rightarrow> pm)"
      using assms(2) by (auto split: sum.split intro: incoming_update_peer)
    then show ?thesis using ok by (simp add: pre_check_limits_def Let_def Inl res check_result_reject)
  next
    case (Inr u)
    then show ?thesis using ok by (cases u) (simp add: pre_check_limits_def Let_def)
  qed
qed

lemma new_session_pre_check_result:
  assumes "env_ok E" "pm_inv pm"
  shows "check_result E pubkey ctx pm (new_session_pre_check E pubkey ctx pm)"
proof -
  let ?pid = "ne_pubkey_peer_id (pv_net E) pubkey"
  obtain r pm1 where 1: "pre_check_peer E pubkey ctx pm = (r, pm1)" by fastforce
  obtain b p where b: "banned (pv_f64 E) (pv_now E) (pm_heap pm1 ! r) = (b, p)" by fastforce
  define pm2 where "pm2 = update_peer r (\<lambda>_. p) pm1"
  have "peer_step (pm_heap pm1 ! r) p" using peer_step_banned [of "pm_heap pm1 ! r" "pv_f64 E" "pv_now E"] b by simp
  then have 2: "incoming ?pid r pm pm2"
    unfolding pm2_def using pre_check_peer_incoming [OF assms(2) 1] by (rule incoming_update_peer [rotated])
  obtain ok pm3 where 3: "(if pool_connected pm2 \<ge> pc_max_connections (pm_config pm2) \<and> \<not> allowed p
      then found_replacement E r pm2 else (True, pm2)) = (ok, pm3)" by fastforce
  have in3: "incoming ?pid r pm pm3" using 2 3 found_replacement_frame [OF 2] by (auto split: if_splits)
  have lim: "check_result E pubkey ctx pm (pre_check_limits E r ctx pm3)" if "\<not> b"
  proof -
    have "pm_heap pm3 ! r = p"
      using 2 3 found_replacement_frame [OF 2] by (auto simp: pm2_def update_peer_def incoming_def split: if_splits)
    then show ?thesis using not_banned b that by (intro check_result_limits [OF assms(1) in3]) simp
  qed
  have dup: "check_result E pubkey ctx pm (Some (Inl PeerAlreadyConnected, disconnect_session (sc_id ctx) pm3))"
    using incoming_disconnect [OF in3, of "sc_id ctx"] by (auto simp: check_result_def) (auto simp: disconnect_session_def)
  show ?thesis
    unfolding new_session_pre_check_def Let_def 1 prod.case b pm2_def [symmetric] 3
    using check_result_reject [OF 2] check_result_reject [OF in3] lim dup
    by simp
qed

text \<open>Inserting a session with a new identifier and marking its peer connected.\<close>

lemma inv_open:
  assumes inv: "pm_inv pm" and r: "saved_as pm r" and now: "unat now < 2 ^ 62"
    and s: "se_peer s = r" "se_id s = sid" "sid \<noteq> 0" "sid \<notin> set (session_ids pm)" "sid \<notin> set (backlog_ids pm)"
  shows "pm_inv (update_peer r (mark_connected now sid) (pm\<lparr>pm_sessions := book_insert s (pm_sessions pm)\<rparr>))"
proof -
  let ?b = "book_insert s (pm_sessions pm)" and ?p = "mark_connected now sid (pm_heap pm ! r)"
  let ?pm = "pm\<lparr>pm_sessions := ?b, pm_heap := (pm_heap pm)[r := ?p]\<rparr>"
  have fresh: "se_id s \<notin> se_id ` set (sb_sessions (pm_sessions pm))" using s by (simp add: session_ids_def)
  note b = book_insert_sessions [OF fresh] book_ok_insert [OF pm_invD(1) [OF inv] fresh]
  have id: "pe_id ?p = pe_id (pm_heap pm ! r)" by (simp add: mark_connected_def)
  have ids: "pe_id ((pm_heap pm)[r := ?p] ! i) = pe_id (pm_heap pm ! i)" for i
    using id r by (cases "i = r") (simp_all add: saved_as_def)
  have ok: "peer_ok ?b i ((pm_heap pm)[r := ?p] ! i)" if i: "i < length (pm_heap pm)" for i
  proof (cases "i = r")
    case True
    then show ?thesis using i now s by (simp add: peer_ok_def mark_connected_def b(1))
  next
    case False
    then show ?thesis using pm_invD(3) [OF inv i] by (auto simp: peer_ok_def b(1))
  qed
  have saved: "saved_as ?pm i = saved_as pm i" for i
    by (simp add: saved_as_def ids pool_peer_def)
  have "pm_inv ?pm"
    using inv ok s r b(2) by (auto simp: pm_inv_def ids saved backlog_ids_def session_ids_def b(1))
  then show ?thesis by (simp add: update_peer_def)
qed

definition session_opened :: "net_env \<Rightarrow> session_context \<Rightarrow> peer_id \<Rightarrow> 'f peer_manager \<Rightarrow> 'f peer_manager \<Rightarrow> bool" where
  "session_opened N ctx pid pm pm' \<longleftrightarrow>
     (\<exists>s. pm_sessions pm' = book_insert s (pm_sessions pm) \<and> se_id s = sc_id ctx \<and> s = session_new N (se_peer s) ctx \<and>
       pool_peer pid pm' = Some (se_peer s) \<and>
       pe_connectedness (pm_heap pm' ! se_peer s) = Connected \<and> pe_session_id (pm_heap pm' ! se_peer s) = sc_id ctx \<and>
       (allowed (pm_heap pm' ! se_peer s) \<or> acceptable (pm_sessions pm) s = Inr ()) \<and>
       get_banned_until (pe_tags (pm_heap pm' ! se_peer s)) = None)"

definition session_refused :: "session_context \<Rightarrow> 'f peer_manager \<Rightarrow> 'f peer_manager \<Rightarrow> bool" where
  "session_refused ctx pm pm' \<longleftrightarrow>
     pm_sessions pm' = pm_sessions pm \<and> Disconnect (sc_id ctx) \<in> set (pm_sent pm')"

lemma set_pubkey_step: "set_pubkey N k p = Some p' \<Longrightarrow> peer_step p p'"
  by (auto simp: set_pubkey_def split: if_splits)

lemma add_peer_sessions [simp]:
  "pm_sessions (add_peer r pm) = pm_sessions pm" "pm_heap (add_peer r pm) = pm_heap pm"
  "pm_unidentified_backlog (add_peer r pm) = pm_unidentified_backlog pm"
  by (simp_all add: add_peer_def Let_def split: option.split)

lemma add_peer_saved: "r < length (pm_heap pm) \<Longrightarrow> pool_peer (pe_id (pm_heap pm ! r)) pm = None \<Longrightarrow> saved_as (add_peer r pm) r"
  by (auto simp: saved_as_def pool_peer_def add_peer_def Let_def map_add_def)

lemma new_session_opens:
  assumes "env_ok E" "pm_inv pm" "sc_id ctx \<noteq> 0" "sc_id ctx \<notin> set (session_ids pm)" "sc_id ctx \<notin> set (backlog_ids pm)"
  shows "\<exists>pm'. new_session E pubkey ctx pm = Some pm' \<and> pm_inv pm' \<and>
    pm_unidentified_backlog pm' = pm_unidentified_backlog pm \<and>
    (session_opened (pv_net E) ctx (ne_pubkey_peer_id (pv_net E) pubkey) pm pm' \<or> session_refused ctx pm pm')"
proof -
  let ?pid = "ne_pubkey_peer_id (pv_net E) pubkey"
  obtain r v pm1 where res: "new_session_pre_check E pubkey ctx pm = Some (v, pm1)" "incoming ?pid r pm pm1"
      "case v of Inl _ \<Rightarrow> Disconnect (sc_id ctx) \<in> set (pm_sent pm1)
       | Inr s \<Rightarrow> s = session_new (pv_net E) r ctx \<and> (allowed (pm_heap pm1 ! r) \<or> acceptable (pm_sessions pm1) s = Inr ()) \<and>
           get_banned_until (pe_tags (pm_heap pm1 ! r)) = None"
    using new_session_pre_check_result [OF assms(1,2), of pubkey ctx] by (auto simp: check_result_def)
  show ?thesis
  proof (cases v)
    case (Inl e)
    then show ?thesis using res by (simp add: new_session_def incoming_def session_refused_def)
  next
    case (Inr s)
    then have s: "s = session_new (pv_net E) r ctx" "se_peer s = r" "se_id s = sc_id ctx" "se_ctx s = ctx"
      using res(3) by (simp_all add: session_new_def)
    define pm2 where "pm2 = (if pe_pubkey (pm_heap pm1 ! r) = None
        then case set_pubkey (pv_net E) pubkey (pm_heap pm1 ! r) of Some p \<Rightarrow> update_peer r (\<lambda>_. p) pm1 | None \<Rightarrow> pm1
        else pm1)"
    have 2: "incoming ?pid r pm pm2"
      using res(2) by (auto simp: pm2_def split: option.split intro: incoming_update_peer set_pubkey_step)
    define pm3 where "pm3 = (if pool_peer (pe_id (pm_heap pm2 ! r)) pm2 = None then add_peer r pm2 else pm2)"
    have 3: "pm_inv pm3" "saved_as pm3 r" "pm_sessions pm3 = pm_sessions pm"
        "pm_unidentified_backlog pm3 = pm_unidentified_backlog pm" "pe_id (pm_heap pm3 ! r) = ?pid"
      using 2 add_peer_saved [of r pm2] by (auto simp: pm3_def incoming_def saved_as_def)
    define pm4 where "pm4 = update_peer r (mark_connected (pv_now E) (sc_id ctx)) (pm3\<lparr>pm_sessions := book_insert s (pm_sessions pm3)\<rparr>)"
    have 4: "pm_inv pm4"
      unfolding pm4_def using 3 s assms by (intro inv_open) (simp_all add: env_ok_def session_ids_def backlog_ids_def)
    define pm5 where "pm5 = update_peer r (metric_or (trust_start (fresh_metric E pm4)) trust_start) pm4"
    have r: "r < length (pm_heap pm3)" using 3(2) by (simp add: saved_as_def)
    have 5: "pm_inv pm5" using 4 by (auto simp: pm5_def)
    have "pe_tags (pm_heap pm5 ! r) = pe_tags (pm_heap pm1 ! r)"
      using r res(2)
      by (auto simp: pm5_def pm4_def pm3_def pm2_def update_peer_def mark_connected_def metric_or_def incoming_def
          set_pubkey_def split: option.split if_splits)
    then have lim: "allowed (pm_heap pm5 ! r) \<or> acceptable (pm_sessions pm) s = Inr ()"
        "get_banned_until (pe_tags (pm_heap pm5 ! r)) = None"
      using res(2,3) by (auto simp: Inr allowed_def has_tag_def incoming_def)
    have "new_session E pubkey ctx pm = Some pm5"
      unfolding new_session_def res(1) Inr option.case prod.case sum.case Let_def s(2)
        pm2_def [symmetric] pm3_def [symmetric] pm4_def [symmetric] pm5_def [symmetric] ..
    moreover have "session_opened (pv_net E) ctx ?pid pm pm5"
    proof -
      have "pe_connectedness (pm_heap pm5 ! r) = Connected" "pe_session_id (pm_heap pm5 ! r) = sc_id ctx"
          "pm_sessions pm5 = book_insert s (pm_sessions pm)" "pool_peer ?pid pm5 = Some r"
        using 3 r by (auto simp: pm5_def pm4_def update_peer_def mark_connected_def metric_or_def pool_peer_def saved_as_def)
      then show ?thesis using s lim by (auto simp: session_opened_def)
    qed
    moreover have "pm_unidentified_backlog pm5 = pm_unidentified_backlog pm"
      using 3(4) by (simp add: pm5_def pm4_def update_peer_def)
    ultimately show ?thesis using 5 by blast
  qed
qed

lemma new_unidentified_session_ok:
  assumes "env_ok E" "pm_inv pm" "sc_id ctx \<noteq> 0" "sc_id ctx \<notin> set (session_ids pm)"
  shows "returns_ok (new_unidentified_session E pubkey ctx pm)"
proof -
  obtain r v pm1 where res: "new_session_pre_check E pubkey ctx pm = Some (v, pm1)"
      "incoming (ne_pubkey_peer_id (pv_net E) pubkey) r pm pm1"
    using new_session_pre_check_result [OF assms(1,2), of pubkey ctx] by (auto simp: check_result_def)
  then have inv: "pm_inv pm1" "sc_id ctx \<notin> set (session_ids pm1)"
    using assms(4) by (simp_all add: incoming_def session_ids_def)
  have "pm_inv (pm1\<lparr>pm_unidentified_backlog := pm_unidentified_backlog pm1 @ [u]\<rparr>)"
    if "us_ctx u = ctx" "sc_id ctx \<notin> set (map (sc_id \<circ> us_ctx) (pm_unidentified_backlog pm1))" for u
    using inv that assms(3)
    by (auto simp: pm_inv_def saved_as_def pool_peer_def backlog_ids_def session_ids_def)
  then show ?thesis
    using inv by (cases v) (auto simp: new_unidentified_session_def res(1))
qed

lemma inv_try_peer:
  "pm_inv pm \<Longrightarrow> \<exists>p. f (pm_heap pm ! r) = Some p \<and> peer_step (pm_heap pm ! r) p \<Longrightarrow> returns_ok (try_peer r f pm)"
  by (auto simp: try_peer_def inv_heap_update)

lemma try_peer_disconnect:
  "try_peer r f (disconnect_session sid pm) = map_option (disconnect_session sid) (try_peer r f pm)"
  by (cases "f (pm_heap pm ! r)") (simp_all add: try_peer_def disconnect_session_def)

lemma own_session:
  assumes "pm_inv pm" "r < length (pm_heap pm)" "pool_session (pe_session_id (pm_heap pm ! r)) pm = Some s"
  shows "se_peer s = r"
proof -
  let ?sid = "pe_session_id (pm_heap pm ! r)"
  have d: "distinct (map se_id (sb_sessions (pm_sessions pm)))" using pm_invD(1) [OF assms(1)] by (simp add: book_ok_def)
  have s: "s \<in> set (sb_sessions (pm_sessions pm))" "se_id s = ?sid"
    using assms(3) book_get_Some by (auto simp: pool_session_def)
  then have "?sid \<noteq> 0" using pm_invD(5) [OF assms(1)] by metis
  then obtain t where "t \<in> set (sb_sessions (pm_sessions pm))" "se_id t = ?sid" "se_peer t = r"
    using pm_invD(3) [OF assms(1,2)] by (auto simp: peer_ok_def)
  moreover from this have "t = s" using s d by (metis distinct_map inj_onD)
  ultimately show ?thesis by simp
qed

text \<open>Removing a session and marking its peer disconnected.\<close>

lemma close_session:
  assumes "pm_inv pm" "r < length (pm_heap pm)" "\<And>s. pool_session sid pm = Some s \<Longrightarrow> se_peer s = r"
  shows "\<exists>pm'. try_peer r (mark_disconnected now) (snd (remove_session sid pm)) = Some pm' \<and> pm_inv pm' \<and>
    length (pm_heap pm') = length (pm_heap pm)"
proof -
  obtain p where p: "mark_disconnected now (pm_heap pm ! r) = Some p" "peer_step (pm_heap pm ! r) p" "pe_session_id p = 0"
    using mark_disconnected_returns pm_invD(3) [OF assms(1,2)] by (auto simp: peer_ok_def)
  have "pm_inv (pm\<lparr>pm_sessions := snd (book_remove sid (pm_sessions pm)), pm_heap := (pm_heap pm)[r := p]\<rparr>)"
    using p assms by (intro inv_close) simp_all
  then show ?thesis by (simp add: try_peer_def remove_session_eq p(1))
qed

lemma session_closed_ok:
  assumes E: "env_ok E" and inv: "pm_inv pm"
  shows "returns_ok (session_closed E pid sid pm)"
proof -
  define pm1 where "pm1 = pm\<lparr>pm_unidentified_backlog := filter (\<lambda>u. sc_id (us_ctx u) \<noteq> sid) (pm_unidentified_backlog pm),
      pm_connecting := hm_remove pid (pm_connecting pm)\<rparr>"
  have inv1: "pm_inv pm1"
    using inv_connecting [OF inv_backlog_filter [OF inv, of "\<lambda>u. sc_id (us_ctx u) \<noteq> sid"], of pid]
    by (simp add: pm1_def)
  define pm2 where "pm2 = snd (remove_session sid pm1)"
  define or where "or = (case pool_session sid pm1 of Some s \<Rightarrow> Some (se_peer s) | None \<Rightarrow> pool_peer pid pm2)"
  have eq: "session_closed E pid sid pm = (case or of
      None \<Rightarrow> Some pm2
    | Some r \<Rightarrow> (case try_peer r (mark_disconnected (pv_now E)) pm2 of
        None \<Rightarrow> None
      | Some pm \<Rightarrow> try_peer r (backoff_closed E) (update_peer r (metric_or (fresh_metric E pm) trust_pause) pm)))"
    unfolding session_closed_def Let_def pm1_def [symmetric] or_def pm2_def remove_session_eq prod.case snd_conv ..
  show ?thesis
  proof (cases or)
    case None
    then have "pool_session sid pm1 = None" by (auto simp: or_def split: option.splits)
    then have "pm2 = pm1" by (simp add: pm2_def remove_session_eq pool_session_def book_remove_def)
    then show ?thesis using inv1 None eq by simp
  next
    case (Some r)
    have "r < length (pm_heap pm1)"
      using Some pm_invD(4) [OF inv1] pm_invD(5) [OF inv1] book_get_Some
      by (auto simp: or_def pm2_def remove_session_eq pool_session_def saved_as_def split: option.splits)
    moreover have "\<And>s. pool_session sid pm1 = Some s \<Longrightarrow> se_peer s = r" using Some by (simp add: or_def)
    ultimately obtain pm3 where 3: "try_peer r (mark_disconnected (pv_now E)) pm2 = Some pm3" "pm_inv pm3"
      using close_session [OF inv1, of r sid] by (auto simp: pm2_def)
    have "returns_ok (try_peer r (backoff_closed E) (update_peer r (metric_or (fresh_metric E pm3) trust_pause) pm3))"
      using 3(2) E backoff_closed_returns by (intro inv_try_peer) (auto simp: env_ok_def)
    then show ?thesis using Some 3(1) eq by simp
  qed
qed

lemma connect_failed_ok:
  assumes "pm_inv pm" shows "returns_ok (connect_failed E addr kind pm)"
proof (cases "extract_id (pv_net E) addr")
  case None
  then show ?thesis using assms by (simp add: connect_failed_def peer_multiaddr_try_from_def)
next
  case (Some pid)
  show ?thesis
  proof (cases "pool_peer pid pm")
    case None
    then show ?thesis using assms Some by (simp add: connect_failed_def peer_multiaddr_try_from_def)
  next
    case (Some r)
    let ?pm = "update_peer r (dial_failed kind addr) pm"
    have inv: "pm_inv ?pm" using assms by auto
    note inv' = inv_connecting [OF inv, of pid]
    have ins: "pm_inv (?pm\<lparr>pm_connecting := hm_insert pid (a\<lparr>at_multiaddrs := m\<rparr>) (hm_remove pid (pm_connecting ?pm))\<rparr>)"
      if a: "hm_get (pm_connecting ?pm) pid = Some a" for a m
    proof -
      have "at_peer a < length (pm_heap ?pm)" using map_of_SomeD [OF a] inv by (force simp: pm_inv_def)
      moreover have "set (hm_insert pid x c) \<subseteq> insert (pid, x) (set c)" for x and c :: "(peer_id \<times> connecting_attempt) list"
        by (induction c) auto
      ultimately have "at_peer (snd x) < length (pm_heap ?pm)"
        if "x \<in> set (hm_insert pid (a\<lparr>at_multiaddrs := m\<rparr>) (hm_remove pid (pm_connecting ?pm)))" for x
        using that inv' by (fastforce simp: pm_inv_def)
      then show ?thesis using inv by (intro inv_connecting_set) auto
    qed
    show ?thesis
      using inv inv' ins \<open>extract_id (pv_net E) addr = Some pid\<close> Some
      by (auto simp: connect_failed_def peer_multiaddr_try_from_def Let_def split: option.split)
  qed
qed

lemma session_failed_ok:
  assumes "pm_inv pm" shows "returns_ok (session_failed E sid kind pm)"
proof (cases "pool_session sid pm")
  case None
  then have "snd (remove_session sid pm) = pm" by (simp add: remove_session_eq pool_session_def book_remove_def)
  then show ?thesis using None assms by (simp add: session_failed_def remove_session_eq)
next
  case (Some s)
  define pmr where "pmr = snd (remove_session sid pm)"
  have rm: "remove_session sid pm = (Some s, pmr)" using Some by (simp add: pmr_def remove_session_eq)
  have "se_peer s < length (pm_heap pm)"
    using Some pm_invD(5) [OF assms, of s] book_get_Some [of sid "pm_sessions pm" s]
    by (simp add: pool_session_def saved_as_def)
  moreover have "\<And>t. pool_session sid pm = Some t \<Longrightarrow> se_peer t = se_peer s" using Some by simp
  ultimately obtain pm1 where 1: "try_peer (se_peer s) (mark_disconnected (pv_now E)) pmr = Some pm1" "pm_inv pm1"
    unfolding pmr_def using close_session [OF assms] by blast
  then have "pm_inv (update_peer (se_peer s) g (update_peer (se_peer s) (metric_or d f) (disconnect_session sid pm1)))"
    if "\<And>p. peer_step p (g p)" for g d f
    using that by (intro inv_update_peer) simp_all
  then show ?thesis
    unfolding session_failed_def rm prod.case option.case try_peer_disconnect 1 Let_def
    by (cases kind) simp_all
qed

lemma update_peer_alive_ok:
  assumes "pm_inv pm" shows "returns_ok (update_peer_alive E pid pm)"
proof (cases "pool_peer pid pm")
  case (Some r)
  then have "unat (pe_connected_at (pm_heap pm ! r)) < 2 ^ 63"
    using pm_invD(3,4) [OF assms] by (auto simp: peer_ok_def)
  then obtain p where "update_alive (pv_now E) ((pm_heap pm ! r)\<lparr>pe_retry := retry_reset (pe_retry (pm_heap pm ! r))\<rparr>) = Some p"
      "peer_step ((pm_heap pm ! r)\<lparr>pe_retry := retry_reset (pe_retry (pm_heap pm ! r))\<rparr>) p"
    using update_alive_returns [of "(pm_heap pm ! r)\<lparr>pe_retry := retry_reset (pe_retry (pm_heap pm ! r))\<rparr>"] by auto
  moreover from this(2) have "peer_step (pm_heap pm ! r) p"
    by (rule peer_step_trans [OF peer_step_fields(3)])
  ultimately show ?thesis
    using assms Some by (simp add: update_peer_alive_def inv_try_peer)
qed (use assms in \<open>simp add: update_peer_alive_def\<close>)

lemma length_update_peer [simp]: "length (pm_heap (update_peer r f pm)) = length (pm_heap pm)"
  by (simp add: update_peer_def)

lemma peer_misbehave_ok:
  assumes "pm_inv pm" shows "returns_ok (peer_misbehave E pid kind pm)"
proof (cases "pool_peer pid pm")
  case (Some r)
  define pm1 where "pm1 = update_peer r (metric_or (bad_event 1 (trust_start (fresh_metric E pm))) (bad_event 1)) pm"
  have inv1: "pm_inv pm1" "r < length (pm_heap pm1)" using assms Some pm_invD(4) [OF assms] by (auto simp: pm1_def)
  let ?sid = "pe_session_id (pm_heap pm1 ! r)"
  obtain pm2 where 2: "try_peer r (mark_disconnected (pv_now E)) (snd (remove_session ?sid pm1)) = Some pm2" "pm_inv pm2"
    using close_session [OF inv1, of ?sid] own_session [OF inv1] by blast
  show ?thesis
    unfolding peer_misbehave_def Some option.case Let_def pm1_def [symmetric] 2
    using inv1(1) 2(2) by (auto split: misbehavior_kind.split)
qed (use assms in \<open>simp add: peer_misbehave_def\<close>)

lemma knock_out_peer_ok:
  assumes E: "env_ok E" and inv: "pm_inv pm" "r < length (pm_heap pm)" "unat timeout < 2 ^ 62"
  shows "returns_ok (knock_out_peer E r timeout pm)"
proof -
  define pm1 where "pm1 = update_peer r (\<lambda>p. p\<lparr>pe_trust_metric := map_option trust_pause (pe_trust_metric p)\<rparr>) pm"
  have inv1: "pm_inv pm1" "r < length (pm_heap pm1)" using inv by (auto simp: pm1_def)
  obtain p where p: "ban_peer E timeout (pm_heap pm1 ! r) = Some p" "peer_step (pm_heap pm1 ! r) p"
    using ban_peer_returns [of E timeout "pm_heap pm1 ! r"] E inv(3) by (auto simp: env_ok_def)
  define pm2 where "pm2 = pm1\<lparr>pm_heap := (pm_heap pm1)[r := p]\<rparr>"
  have inv2: "pm_inv pm2" "r < length (pm_heap pm2)" using inv1 p inv_heap_update by (auto simp: pm2_def)
  have ban: "try_peer r (ban_peer E timeout) pm1 = Some pm2" by (simp add: try_peer_def p(1) pm2_def)
  let ?sid = "pe_session_id (pm_heap pm2 ! r)"
  obtain pm3 where 3: "try_peer r (mark_disconnected (pv_now E)) (snd (remove_session ?sid pm2)) = Some pm3" "pm_inv pm3"
    using close_session [OF inv2, of ?sid] own_session [OF inv2] by blast
  show ?thesis
    unfolding knock_out_peer_def Let_def pm1_def [symmetric] ban option.case
    using 3 by (cases "pool_session ?sid pm2")
      (simp_all add: remove_session_eq try_peer_disconnect)
qed

lemma trust_metric_feedback_ok:
  assumes E: "env_ok E" and inv: "pm_inv pm"
  shows "returns_ok (trust_metric_feedback E pid feedback pm)"
proof (cases "pool_peer pid pm")
  case (Some r)
  define pm1 where "pm1 = update_peer r (metric_or (trust_start (fresh_metric E pm)) (\<lambda>m. m)) pm"
  define om where "om f = update_peer r (\<lambda>p. p\<lparr>pe_trust_metric := map_option f (pe_trust_metric p)\<rparr>) pm1" for f
  have r: "r < length (pm_heap pm)" using pm_invD(4) [OF inv Some] by simp
  have inv1: "pm_inv pm1" "r < length (pm_heap pm1)" using inv r by (auto simp: pm1_def)
  have inv2: "pm_inv (om f)" "r < length (pm_heap (om f))" for f using inv1 by (auto simp: om_def)
  have bans: "unat (pc_peer_fatal_ban (pm_config pm1)) < 2 ^ 62" "unat (pc_peer_soft_ban (pm_config (om f))) < 2 ^ 62" for f
    using inv1(1) by (simp_all add: pm_inv_def om_def update_peer_def)
  have "returns_ok (knock_out_peer E r (pc_peer_fatal_ban (pm_config pm1)) pm1)"
    "returns_ok (knock_out_peer E r (pc_peer_soft_ban (pm_config (om f))) (om f))" for f
    using knock_out_peer_ok [OF E inv1] knock_out_peer_ok [OF E inv2] bans by blast+
  then show ?thesis
    unfolding trust_metric_feedback_def Some option.case Let_def pm1_def [symmetric] om_def [symmetric]
    using inv1 inv2 by (cases feedback) simp_all
qed (use assms in \<open>simp add: trust_metric_feedback_def\<close>)

lemma session_blocked_ok: "pm_inv pm \<Longrightarrow> pm_inv (session_blocked E ctx pm)"
proof (cases "pool_session (sc_id ctx) pm")
  case (Some s)
  assume inv: "pm_inv pm"
  let ?b = "book_block (sc_id ctx) True (pm_sessions pm)"
  have ids: "map se_id (sb_sessions ?b) = map se_id (sb_sessions (pm_sessions pm))" by simp
  have blk: "\<exists>t\<in>set (sb_sessions (pm_sessions pm)). se_id t = se_id s \<and> se_peer t = se_peer s"
    if "s \<in> set (sb_sessions ?b)" for s using that by (auto simp: book_block_def)
  have blk': "\<exists>t\<in>set (sb_sessions ?b). se_id t = se_id s \<and> se_peer t = se_peer s"
    if "s \<in> set (sb_sessions (pm_sessions pm))" for s 
    using that by (intro bexI [of _ "if se_id s = sc_id ctx then s\<lparr>se_blocked := True\<rparr> else s"]) (auto simp: book_block_def)
  have "\<forall>t\<in>set (sb_sessions ?b). se_id t \<noteq> 0 \<and> saved_as pm (se_peer t)"
    using pm_invD(5) [OF inv] blk by metis
  moreover have "\<forall>r<length (pm_heap pm). peer_ok ?b r (pm_heap pm ! r)"
    using pm_invD(3) [OF inv] blk' unfolding peer_ok_def by metis
  ultimately have "pm_inv (pm\<lparr>pm_sessions := ?b\<rparr>)"
    using inv book_ok_block [OF pm_invD(1) [OF inv]]
    by (simp add: pm_inv_def saved_as_def pool_peer_def backlog_ids_def session_ids_def ids del: set_map)
  then show ?thesis by (auto simp: session_blocked_def Some Let_def)
qed (simp add: session_blocked_def)

lemma dial_peer_ok:
  assumes "pm_inv pm" "r < length (pm_heap pm)" "dial_peer E r (addrs, pm) = (addrs', pm')"
  shows "pm_inv pm' \<and> length (pm_heap pm') = length (pm_heap pm)"
proof -
  define pm1 where "pm1 = update_peer r (\<lambda>p. p\<lparr>pe_connectedness := Connecting\<rparr>) pm"
  have 1: "pm_inv pm1" "length (pm_heap pm1) = length (pm_heap pm)" using assms(1) by (auto simp: pm1_def)
  have "pm_inv (pm1\<lparr>pm_connecting := pm_connecting pm1 @ [(k, connecting_new E r p)]\<rparr>)" for k p
    using 1 assms(2) by (intro inv_connecting_set) (auto simp: pm_inv_def connecting_new_def)
  then show ?thesis
    using assms(3) 1 unfolding dial_peer_def prod.case Let_def pm1_def [symmetric] by (auto split: option.splits)
qed

lemma fold_dial_ok:
  assumes "pm_inv pm" "\<forall>r\<in>set rs. r < length (pm_heap pm)"
  shows "pm_inv (snd (fold (dial_peer E) rs (addrs, pm)))"
  using assms
proof (induction rs arbitrary: addrs pm)
  case (Cons r rs)
  obtain addrs' pm' where d: "dial_peer E r (addrs, pm) = (addrs', pm')" by fastforce
  then have "pm_inv pm' \<and> length (pm_heap pm') = length (pm_heap pm)" 
    using Cons.prems dial_peer_ok [OF _ _ d] by simp
  then show ?case using Cons d by simp
qed simp

lemma connect_peers_ok:
  assumes "pm_inv pm" "\<forall>r\<in>set rs. r < length (pm_heap pm)"
  shows "pm_inv (connect_peers E rs pm)"
  using fold_dial_ok [OF assms(1), of "filter (dialable pm) rs" E "[]"] assms
  by (auto simp: connect_peers_def connect_peers_now_def Let_def split: prod.split)

lemma connect_peers_by_id_ok:
  assumes "pm_inv pm" shows "pm_inv (connect_peers_by_id E pids pm)"
proof -
  have "\<forall>r\<in>set (List.map_filter (\<lambda>pid. pool_peer pid pm) pids). r < length (pm_heap pm)"
    using pm_invD(4) [OF assms] by (auto simp: List.map_filter_def)
  then show ?thesis unfolding connect_peers_by_id_def using assms by (rule connect_peers_ok [rotated])
qed

lemma saved_new_peer:
  assumes "pm_inv pm" "alloc_peer p pm = (r, pm')" "pe_session_id p = 0" "pe_connectedness p \<noteq> Connected" "pe_connected_at p = 0"
  shows "pm_inv (add_peer r pm')"
  using inv_alloc_peer [OF assms(1,2)] assms(3-5) by (auto intro: inv_add_peer)

lemma discover_multiaddr_ok:
  assumes "pm_inv pm" shows "returns_ok (discover_multiaddr E addr pm)"
proof (cases "extract_id (pv_net E) addr")
  case None
  then show ?thesis using assms by (simp add: discover_multiaddr_def peer_multiaddr_try_from_def)
next
  case (Some pid)
  let ?p = "(peer_new pid)\<lparr>pe_multiaddrs := addr_insert pid [addr] []\<rparr>"
  obtain r pm' where a: "alloc_peer ?p pm = (r, pm')" by fastforce
  have "pm_inv (add_peer r pm')" by (rule saved_new_peer [OF assms a]) (simp_all add: peer_new_def)
  moreover have "pm_inv (update_peer q (\<lambda>p. p\<lparr>pe_multiaddrs := addr_insert (pe_id p) [addr] (pe_multiaddrs p)\<rparr>) pm)" for q
    using assms by (intro inv_update_peer) simp_all
  ultimately show ?thesis
    using assms by (simp add: discover_multiaddr_def peer_multiaddr_try_from_def Some a split: option.split)
qed

lemma dicover_multi_multiaddrs_ok: "pm_inv pm \<Longrightarrow> returns_ok (dicover_multi_multiaddrs E addrs pm)"
proof (induction addrs arbitrary: pm)
  case (Cons a as)
  then show ?case using discover_multiaddr_ok [of pm E a] by (auto simp: returns_ok_def)
qed simp

lemma address_events_ok:
  "pm_inv pm \<Longrightarrow> pm_inv (identified_addrs pid addrs pm)"
  "pm_inv pm \<Longrightarrow> pm_inv (repeated_connection E ty sid addr pm)"
  by (auto simp: identified_addrs_def repeated_connection_def Let_def split: option.split)

section \<open>Events, polls and the handle\<close>

text \<open>The identifier of an announced session is not zero and not in use.\<close>

fun event_fresh :: "'f peer_manager \<Rightarrow> peer_manager_event \<Rightarrow> bool" where
  "event_fresh pm (NewSession _ ctx) \<longleftrightarrow>
     sc_id ctx \<noteq> 0 \<and> sc_id ctx \<notin> set (session_ids pm) \<and> sc_id ctx \<notin> set (backlog_ids pm)"
| "event_fresh pm (UnidentifiedSession _ ctx) \<longleftrightarrow>
     sc_id ctx \<noteq> 0 \<and> sc_id ctx \<notin> set (session_ids pm) \<and> sc_id ctx \<notin> set (backlog_ids pm)"
| "event_fresh pm _ \<longleftrightarrow> True"

lemma process_event_ok:
  assumes "env_ok E" "pm_inv pm" "event_fresh pm ev"
  shows "returns_ok (process_event E ev pm)"
proof (cases ev)
  case (NewSession pubkey ctx)
  then show ?thesis using new_session_opens [OF assms(1,2), of ctx pubkey] assms(3) by (auto simp: returns_ok_def)
qed (use assms in \<open>simp_all add: connect_peers_by_id_ok connect_failed_ok new_unidentified_session_ok
      address_events_ok session_blocked_ok session_closed_ok session_failed_ok update_peer_alive_ok
      peer_misbehave_ok trust_metric_feedback_ok dicover_multi_multiaddrs_ok\<close>)

lemma handle_tag_ok: "pm_inv pm \<Longrightarrow> pm_inv (snd (handle_tag pid t pm))"
proof (cases "pool_peer pid pm")
  case (Some r)
  assume "pm_inv pm"
  then have "pm_inv (update_peer r (\<lambda>p. p\<lparr>pe_tags := ts\<rparr>) pm)" for ts by (intro inv_update_peer) simp_all
  then show ?thesis using \<open>pm_inv pm\<close> by (simp add: handle_tag_def Some Let_def split: sum.split)
next
  case None
  assume "pm_inv pm"
  then have "pm_inv (add_peer r pm')" if "alloc_peer ((peer_new pid)\<lparr>pe_tags := ts\<rparr>) pm = (r, pm')" for ts r pm'
    by (rule saved_new_peer [OF _ that]) (simp_all add: peer_new_def)
  then show ?thesis using \<open>pm_inv pm\<close> by (simp add: handle_tag_def None Let_def split: sum.split prod.split)
qed

lemma handle_untag_ok:
  assumes "pm_inv pm" shows "pm_inv (handle_untag pid t pm)" "pm_inv (untag_consensus pid pm)"
proof -
  have "pm_inv (update_peer r (\<lambda>p. p\<lparr>pe_tags := tags_remove u (pe_tags p)\<rparr>) pm)" for r u
    using assms by (intro inv_update_peer) simp_all
  then show "pm_inv (handle_untag pid t pm)" "pm_inv (untag_consensus pid pm)"
    using assms by (simp_all add: handle_untag_def untag_consensus_def Let_def split: option.split)
qed

lemma fold_inv: "pm_inv pm \<Longrightarrow> (\<And>x pm. pm_inv pm \<Longrightarrow> pm_inv (f x pm)) \<Longrightarrow> pm_inv (fold f xs pm)"
  by (induction xs arbitrary: pm) simp_all

lemma handle_tag_consensus_ok: "pm_inv pm \<Longrightarrow> pm_inv (handle_tag_consensus pids pm)"
  unfolding handle_tag_consensus_def Let_def pm_inv_frame
  by (intro fold_inv handle_tag_ok handle_untag_ok)

definition peer_idle :: "'f peer \<Rightarrow> bool" where
  "peer_idle p \<longleftrightarrow> pe_session_id p = 0 \<and> pe_connectedness p \<noteq> Connected \<and> unat (pe_connected_at p) < 2 ^ 63"

lemma restore_peers_ok: "pm_inv pm \<Longrightarrow> list_all peer_idle ps \<Longrightarrow> pm_inv (restore_peers ps pm)"
proof (induction ps arbitrary: pm)
  case (Cons p ps)
  obtain r pm' where a: "alloc_peer p pm = (r, pm')" by fastforce
  have "pm_inv pm' \<and> r < length (pm_heap pm')"
    using inv_alloc_peer [OF Cons.prems(1) a] Cons.prems(2) by (simp add: peer_idle_def)
  then have "pm_inv (add_peer r pm')" by (simp add: inv_add_peer)
  then show ?case using Cons a by (simp add: restore_peers_def)
qed (simp add: restore_peers_def)

text \<open>What was saved is restored idle.\<close>

lemma restored_idle:
  assumes "serde_peer_try_into N (serde_skip (serde_peer_from p)) = Some q" "unat (pe_connected_at p) < 2 ^ 63"
  shows "peer_idle q \<and> pe_id q = pe_id p \<and> pe_pubkey q = pe_pubkey p"
  using assms
  by (auto simp: serde_peer_try_into_def serde_skip_def serde_peer_from_def peer_idle_def peer_new_def set_pubkey_def
      connectedness_from_def split: option.splits if_splits connectedness.splits)

lemma bootstrap_peer_ok:
  assumes "pm_inv pm" "b < length (pm_heap pm)"
  shows "pm_inv (bootstrap_peer b pm) \<and> length (pm_heap (bootstrap_peer b pm)) = length (pm_heap pm) \<and>
    pm_bootstraps (bootstrap_peer b pm) = pm_bootstraps pm"
proof (cases "pool_peer (pe_id (pm_heap pm ! b)) pm")
  case None
  then show ?thesis
    using inv_add_peer [OF assms] by (simp add: bootstrap_peer_def) (simp add: add_peer_def Let_def split: option.split)
next
  case (Some r)
  have "pm_inv (update_peer r (\<lambda>p. p\<lparr>pe_multiaddrs := f p\<rparr>) pm)" for f
    using assms(1) by (intro inv_update_peer) simp_all
  then show ?thesis by (simp add: bootstrap_peer_def Some) (simp add: update_peer_def)
qed

lemma bootstrap_ok:
  assumes "pm_inv pm" shows "pm_inv (bootstrap E pm)"
proof -
  have "pm_inv (fold bootstrap_peer bs pm) \<and> length (pm_heap (fold bootstrap_peer bs pm)) = length (pm_heap pm)"
    if "\<forall>b\<in>set bs. b < length (pm_heap pm)" for bs
    using assms that
  proof (induction bs arbitrary: pm)
    case (Cons b bs)
    then show ?case using bootstrap_peer_ok [of pm b] by simp
  qed simp
  moreover have "\<forall>b\<in>set (pm_bootstraps pm). b < length (pm_heap pm)" using assms by (simp add: pm_inv_def)
  ultimately show ?thesis unfolding bootstrap_def by (intro connect_peers_ok) simp_all
qed

lemma check_connectable_ok:
  assumes "pm_inv pm" "check_connectable E flt r (rs, pm) = (rs', pm')"
  shows "pm_inv pm' \<and> pm_peers pm' = pm_peers pm \<and> length (pm_heap pm') = length (pm_heap pm) \<and> set rs' \<subseteq> insert r (set rs)"
proof -
  let ?p = "snd (banned (pv_f64 E) (pv_now E) (pm_heap pm ! r))"
  have "pm_inv (update_peer r (\<lambda>_. ?p) pm)" using assms(1) by (intro inv_update_peer) simp_all
  then show ?thesis
    using assms by (auto simp: check_connectable_def Let_def update_peer_def split: if_splits prod.splits)
qed

lemma connectable_peers_ok:
  assumes E: "env_ok E" and "pm_inv pm" "connectable_peers E mx flt pm = (rs, pm')"
  shows "pm_inv pm' \<and> (\<forall>r\<in>set rs. r < length (pm_heap pm'))"
proof -
  have fold: "pm_inv pm2 \<and> length (pm_heap pm2) = length (pm_heap pm1) \<and> set rs2 \<subseteq> set xs \<union> set rs1"
    if "pm_inv pm1" "fold (check_connectable E flt) xs (rs1, pm1) = (rs2, pm2)" for xs rs1 rs2 pm1 pm2
    using that
  proof (induction xs arbitrary: rs1 pm1)
    case (Cons x xs)
    obtain rs3 pm3 where c: "check_connectable E flt x (rs1, pm1) = (rs3, pm3)" by fastforce
    note s = check_connectable_ok [OF Cons.prems(1) c]
    have "fold (check_connectable E flt) xs (rs3, pm3) = (rs2, pm2)" using Cons.prems(2) c by simp
    then have "pm_inv pm2 \<and> length (pm_heap pm2) = length (pm_heap pm3) \<and> set rs2 \<subseteq> set xs \<union> set rs3"
      using s by (intro Cons.IH) simp_all
    then show ?case using s by auto
  qed simp
  obtain rs1 where f: "fold (check_connectable E flt) (map snd (pm_peers pm)) ([], pm) = (rs1, pm')" and rs: "rs = pv_choose E mx rs1"
    using assms(3) by (auto simp: connectable_peers_def Let_def split: prod.splits)
  note 1 = fold [OF assms(2) f]
  have "set rs \<subseteq> set rs1" using E rs by (simp add: env_ok_def)
  moreover have "\<forall>r\<in>set (map snd (pm_peers pm)). r < length (pm_heap pm)" using assms(2) by (auto simp: pm_inv_def)
  ultimately have "\<forall>r\<in>set rs. r < length (pm_heap pm)" using 1 by auto
  then show ?thesis using 1 by simp
qed

lemma check_connecting_count_ok:
  assumes "env_ok E" "pm_inv pm" shows "pm_inv (check_connecting_count E pm)"
proof -
  define n where "n = pc_outbound_conn_limit (pm_config pm) + MAX_CONNECTING_MARGIN -
      (sb_outbound_count (pm_sessions pm) + length (pm_connecting pm))"
  obtain rs1 pm1 where 1: "connectable_peers E n (good_peer E) pm = (rs1, pm1)" by fastforce
  obtain rs2 pm2 where 2: "connectable_peers E n (\<lambda>_. True) pm1 = (rs2, pm2)" by fastforce
  note ok1 = connectable_peers_ok [OF assms 1]
  have ok2: "pm_inv pm2 \<and> (\<forall>r\<in>set rs2. r < length (pm_heap pm2))"
    using connectable_peers_ok [OF assms(1) _ 2] ok1 by blast
  show ?thesis
    using ok1 ok2 assms(2)
    by (simp add: check_connecting_count_def Let_def n_def [symmetric] 1 2 connect_peers_ok)
qed

lemma pool_peer_valid: "pm_inv pm \<Longrightarrow> pool_peer pid pm = Some r \<Longrightarrow> r < length (pm_heap pm)"
  using pm_invD(4) by blast

lemma drop_unidentified_ok:
  assumes "pm_inv pm"
  shows "\<exists>pm'. drop_unidentified E u pm = Some pm' \<and> pm_inv pm' \<and> pm_sessions pm' = pm_sessions pm \<and>
    pm_unidentified_backlog pm' = pm_unidentified_backlog pm"
proof (cases "pool_peer (ne_pubkey_peer_id (pv_net E) (us_pubkey u)) pm")
  case None
  then show ?thesis using assms by (simp add: drop_unidentified_def Let_def) (simp add: disconnect_session_def)
next
  case (Some r)
  then have r: "r < length (pm_heap pm)" using assms by (rule pool_peer_valid [rotated])
  then obtain p where p: "mark_disconnected (pv_now E) (pm_heap pm ! r) = Some p" "peer_step (pm_heap pm ! r) p"
    using mark_disconnected_returns pm_invD(3) [OF assms r] by (auto simp: peer_ok_def)
  let ?pm = "pm\<lparr>pm_heap := (pm_heap pm)[r := p]\<rparr>"
  have "pm_inv ?pm" using assms p(2) by (rule inv_heap_update)
  moreover have "drop_unidentified E u pm = Some (disconnect_session (sc_id (us_ctx u)) ?pm)"
    by (simp add: drop_unidentified_def Some try_peer_disconnect Let_def) (simp add: try_peer_def p(1))
  ultimately show ?thesis by (simp add: disconnect_session_def)
qed

lemma session_ids_opened:
  assumes "session_opened N ctx pid pm pm'" "sc_id ctx \<notin> set (session_ids pm)"
  shows "session_ids pm' = session_ids pm @ [sc_id ctx]"
proof -
  obtain s where "pm_sessions pm' = book_insert s (pm_sessions pm)" "se_id s = sc_id ctx"
    using assms(1) by (auto simp: session_opened_def)
  then show ?thesis using assms(2) book_insert_sessions [of s "pm_sessions pm"] by (simp add: session_ids_def)
qed

lemma process_unidentified_ok:
  assumes "env_ok E" "pm_inv pm" "sc_id (us_ctx u) \<noteq> 0" "sc_id (us_ctx u) \<notin> set (session_ids pm)"
    "sc_id (us_ctx u) \<notin> set (backlog_ids pm)"
  shows "\<exists>pm'. process_unidentified E polled u pm = Some pm' \<and> pm_inv pm' \<and>
    set (session_ids pm') \<union> set (backlog_ids pm') \<subseteq> insert (sc_id (us_ctx u)) (set (session_ids pm) \<union> set (backlog_ids pm))"
proof -
  let ?queued = "pm\<lparr>pm_unidentified_backlog := pm_unidentified_backlog pm @ [u]\<rparr>"
  have queued: "pm_inv ?queued"
    using assms by (auto simp: pm_inv_def saved_as_def pool_peer_def backlog_ids_def session_ids_def)
  have ids: "session_ids ?queued = session_ids pm" "backlog_ids ?queued = backlog_ids pm @ [sc_id (us_ctx u)]"
    by (simp_all add: session_ids_def backlog_ids_def)
  obtain pmd where d: "drop_unidentified E u pm = Some pmd" "pm_inv pmd" "session_ids pmd = session_ids pm"
      "backlog_ids pmd = backlog_ids pm"
    using drop_unidentified_ok [OF assms(2), of E u] by (auto simp: session_ids_def backlog_ids_def)
  obtain pms where s: "new_session E (us_pubkey u) (us_ctx u) pm = Some pms" "pm_inv pms"
      "pm_unidentified_backlog pms = pm_unidentified_backlog pm"
      "session_opened (pv_net E) (us_ctx u) (ne_pubkey_peer_id (pv_net E) (us_pubkey u)) pm pms \<or> session_refused (us_ctx u) pm pms"
    using new_session_opens [OF assms] by blast
  have sids: "set (session_ids pms) \<subseteq> insert (sc_id (us_ctx u)) (set (session_ids pm))" "backlog_ids pms = backlog_ids pm"
  proof -
    show "set (session_ids pms) \<subseteq> insert (sc_id (us_ctx u)) (set (session_ids pm))"
      using s(4)
    proof
      assume "session_opened (pv_net E) (us_ctx u) (ne_pubkey_peer_id (pv_net E) (us_pubkey u)) pm pms"
      then show ?thesis using session_ids_opened [OF _ assms(4)] by auto
    qed (auto simp: session_refused_def session_ids_def)
    show "backlog_ids pms = backlog_ids pm" using s(3) by (simp add: backlog_ids_def)
  qed
  show ?thesis
  proof (cases "polled u")
    case IdentPending
    moreover have "sc_id (us_ctx u) \<notin> set (map (sc_id \<circ> us_ctx) (pm_unidentified_backlog pm))"
      using assms(5) by (simp add: backlog_ids_def)
    ultimately show ?thesis
      using d queued ids by (auto simp: process_unidentified_def)
  next
    case IdentOk
    then show ?thesis using s sids by (auto simp: process_unidentified_def)
  next
    case IdentFailed
    then show ?thesis using d by (auto simp: process_unidentified_def)
  qed
qed

lemma process_backlog_ok:
  assumes "env_ok E" "pm_inv pm" "distinct (map (sc_id \<circ> us_ctx) us)" "0 \<notin> set (map (sc_id \<circ> us_ctx) us)"
    "set (map (sc_id \<circ> us_ctx) us) \<inter> (set (session_ids pm) \<union> set (backlog_ids pm)) = {}"
  shows "returns_ok (run_all (process_unidentified E polled) us pm)"
  using assms(2-5)
proof (induction us arbitrary: pm)
  case (Cons u us)
  obtain pm' where 1: "process_unidentified E polled u pm = Some pm'" "pm_inv pm'"
    "set (session_ids pm') \<union> set (backlog_ids pm') \<subseteq> insert (sc_id (us_ctx u)) (set (session_ids pm) \<union> set (backlog_ids pm))"
    using process_unidentified_ok [OF assms(1) Cons.prems(1), of u polled] Cons.prems(2-4) by auto
  have "sc_id (us_ctx u) \<notin> set (map (sc_id \<circ> us_ctx) us)"
    "set (map (sc_id \<circ> us_ctx) us) \<inter> (set (session_ids pm) \<union> set (backlog_ids pm)) = {}"
    using Cons.prems(2,4) by auto
  then have "set (map (sc_id \<circ> us_ctx) us) \<inter> (set (session_ids pm') \<union> set (backlog_ids pm')) = {}"
    using 1(3) by blast
  then have "returns_ok (run_all (process_unidentified E polled) us pm')"
    using Cons.prems(2,3) 1(2) by (intro Cons.IH) simp_all
  then show ?case using 1(1) by simp
qed simp

text \<open>The limits hold after an acceptable session has joined.\<close>

lemma accepted_limits:
  assumes "acceptable b s = Inr ()"
  shows "(se_ty s = Inbound \<longrightarrow> sb_inbound_count (book_insert s b) \<le> bc_inbound_conn_limit (sb_config (book_insert s b))) \<and>
    (se_ty s = Outbound \<longrightarrow> sb_outbound_count (book_insert s b) \<le> bc_outbound_conn_limit (sb_config (book_insert s b))) \<and>
    (\<exists>n. hm_get (sb_hosts (book_insert s b)) (se_host s) = Some n \<and> n \<le> bc_same_ip_conn_limit (sb_config (book_insert s b)))"
  using assms by (auto simp: acceptable_def book_insert_def Let_def split: option.splits session_type.splits if_splits)

text \<open>All the events of a poll are fresh when they are handled.\<close>

fun events_fresh :: "'f pm_env \<Rightarrow> peer_manager_event list \<Rightarrow> 'f peer_manager \<Rightarrow> bool" where
  "events_fresh E [] pm \<longleftrightarrow> True"
| "events_fresh E (ev # evs) pm \<longleftrightarrow>
     event_fresh pm ev \<and> (case process_event E ev pm of Some pm' \<Rightarrow> events_fresh E evs pm' | None \<Rightarrow> True)"

definition poll_fresh ::
    "'f pm_env \<Rightarrow> (unidentified_session \<Rightarrow> ident_poll) \<Rightarrow> peer_manager_event list \<Rightarrow> 'f peer_manager \<Rightarrow> bool" where
  "poll_fresh E polled events pm =
     (case run_all (process_unidentified E polled) (pm_unidentified_backlog pm)
             (pm\<lparr>pm_unidentified_backlog := []\<rparr>) of
        Some pm' \<Rightarrow> events_fresh E events pm'
      | None \<Rightarrow> True)"

lemma run_events_ok:
  "env_ok E \<Longrightarrow> pm_inv pm \<Longrightarrow> events_fresh E evs pm \<Longrightarrow> returns_ok (run_all (process_event E) evs pm)"
proof (induction evs arbitrary: pm)
  case (Cons ev evs)
  then obtain pm' where "process_event E ev pm = Some pm'" "pm_inv pm'"
    using process_event_ok [of E pm ev] by (auto simp: returns_ok_def)
  then show ?case using Cons by simp
qed simp

lemma run_timeouts_ok: "pm_inv pm \<Longrightarrow> returns_ok (run_all (\<lambda>ma. connect_failed E ma k) mas pm)"
proof (induction mas arbitrary: pm)
  case (Cons ma mas)
  then show ?case using connect_failed_ok [of pm E ma k] by (auto simp: returns_ok_def)
qed simp

lemma poll_ok:
  assumes "env_ok E" "pm_inv pm" "poll_fresh E polled events pm"
  shows "returns_ok (poll E polled events rx_closed pm)"
proof -
  let ?pm = "pm\<lparr>pm_unidentified_backlog := []\<rparr>" and ?us = "pm_unidentified_backlog pm"
  have inv: "pm_inv ?pm" using inv_backlog_filter [OF assms(2), of "\<lambda>_. False"] by simp
  have us: "distinct (map (sc_id \<circ> us_ctx) ?us)" "0 \<notin> set (map (sc_id \<circ> us_ctx) ?us)"
    "set (map (sc_id \<circ> us_ctx) ?us) \<inter> (set (session_ids ?pm) \<union> set (backlog_ids ?pm)) = {}"
    using assms(2) by (simp_all add: pm_inv_def backlog_ids_def session_ids_def)
  obtain pm1 where 1: "run_all (process_unidentified E polled) ?us ?pm = Some pm1" "pm_inv pm1"
    using process_backlog_ok [OF assms(1) inv us] unfolding returns_ok_def by blast
  then obtain pm2 where 2: "run_all (process_event E) events pm1 = Some pm2" "pm_inv pm2"
    using run_events_ok [OF assms(1)] assms(3) by (auto simp: poll_fresh_def returns_ok_def)
  then obtain pm3 where 3: "run_all (\<lambda>ma. connect_failed E ma TimeOut) (timeouted_multiaddrs E pm2) pm2 = Some pm3" "pm_inv pm3"
    using run_timeouts_ok [of pm2 E TimeOut] by (auto simp: returns_ok_def)
  show ?thesis
    using 2 3 check_connecting_count_ok [OF assms(1) 3(2)] by (simp add: poll_def 1(1))
qed

section \<open>Every history\<close>

definition refreshed :: "'f peer_manager \<Rightarrow> u64 list \<Rightarrow> 'f peer_manager" where
  "refreshed pm sids = fold (\<lambda>sid pm. pm\<lparr>pm_sessions := book_block sid False (pm_sessions pm)\<rparr>) sids pm"

text \<open>
  The states of a manager: started with idle bootstrap peers, then restored, bootstrapped, polled and
  used through its handle in any order, while the timers of the trust metrics end intervals.
\<close>

inductive pm_reach :: "'f peer_manager \<Rightarrow> bool" where
  pr_new: "peer_manager_new config h heap = Some pm \<Longrightarrow> list_all peer_idle heap \<Longrightarrow>
    \<forall>b\<in>set (pc_bootstraps config). b < length heap \<Longrightarrow>
    unat (pc_peer_fatal_ban config) < 2 ^ 62 \<Longrightarrow> unat (pc_peer_soft_ban config) < 2 ^ 62 \<Longrightarrow> pm_reach pm"
| pr_restore: "pm_reach pm \<Longrightarrow> list_all peer_idle ps \<Longrightarrow> pm_reach (restore_peers ps pm)"
| pr_bootstrap: "pm_reach pm \<Longrightarrow> pm_reach (bootstrap E pm)"
| pr_event: "pm_reach pm \<Longrightarrow> env_ok E \<Longrightarrow> event_fresh pm ev \<Longrightarrow> process_event E ev pm = Some pm' \<Longrightarrow> pm_reach pm'"
| pr_poll: "pm_reach pm \<Longrightarrow> env_ok E \<Longrightarrow> poll_fresh E polled events pm \<Longrightarrow>
    poll E polled events rx_closed pm = Some pm' \<Longrightarrow> pm_reach pm'"
| pr_tag: "pm_reach pm \<Longrightarrow> pm_reach (snd (handle_tag pid t pm))"
| pr_untag: "pm_reach pm \<Longrightarrow> pm_reach (handle_untag pid t pm)"
| pr_tag_consensus: "pm_reach pm \<Longrightarrow> pm_reach (handle_tag_consensus pids pm)"
| pr_chain_id: "pm_reach pm \<Longrightarrow> pm_reach (handle_set_chain_id h pm)"
| pr_interval: "pm_reach pm \<Longrightarrow>
    pm_reach (update_peer r (\<lambda>p. p\<lparr>pe_trust_metric :=
      map_option (trust_update (enter_new_interval F ws)) (pe_trust_metric p)\<rparr>) pm)"

lemma allow_peers_ok:
  fixes pm :: "'f peer_manager"
  shows "pm_inv pm \<Longrightarrow> allow_peers pids pm = Some pm' \<Longrightarrow> pm_inv pm'"
proof (induction pids arbitrary: pm)
  case (Cons pid pids)
  define p :: "'f peer" where "p = (let p = peer_new pid
    in case tags_insert AlwaysAllow (pe_tags p) of Inr ts \<Rightarrow> p\<lparr>pe_tags := ts\<rparr> | Inl _ \<Rightarrow> p)"
  obtain r pm1 where a: "alloc_peer p pm = (r, pm1)" by fastforce
  have "pm_inv (add_peer r pm1)"
    by (rule saved_new_peer [OF Cons.prems(1) a]) (simp_all add: p_def peer_new_def Let_def split: sum.split)
  moreover have "allow_peers pids (add_peer r pm1) = Some pm'"
    using Cons.prems(2) a by (simp add: p_def Let_def split: if_splits)
  ultimately show ?case by (rule Cons.IH)
qed simp

lemma distinct_peers_subset: "set (distinct_peers heap rs) \<subseteq> set rs"
proof -
  have "set (fold (\<lambda>r acc. if P r acc then acc else acc @ [r]) rs acc) \<subseteq> set rs \<union> set acc" for P acc
  proof (induction rs arbitrary: acc)
    case (Cons a rs)
    show ?case using Cons [of acc] Cons [of "acc @ [a]"] by auto
  qed simp
  from this [of "\<lambda>r acc. pe_id (heap ! r) \<in> set (map (\<lambda>q. pe_id (heap ! q)) acc)" "[]"]
  show ?thesis by (simp add: distinct_peers_def)
qed

lemma pm_reach_inv: "pm_reach pm \<Longrightarrow> pm_inv pm"
proof (induction rule: pm_reach.induct)
  case (pr_new config h heap pm)
  have idle: "peer_ok b r (heap ! r)" if "r < length heap" for b r
    using that pr_new(2) by (simp add: list_all_length peer_idle_def peer_ok_def)
  have boot: "\<forall>b\<in>set (distinct_peers heap (pc_bootstraps config)). b < length heap"
    using pr_new(3) distinct_peers_subset by blast
  show ?case
    using pr_new(1) unfolding peer_manager_new_def
  proof (rule allow_peers_ok [rotated], goal_cases)
    case 1
    show ?case
      using idle boot pr_new(4,5) book_ok_new by (simp add: pm_inv_def backlog_ids_def book_new_def)
  qed
next
  case (pr_event pm E ev pm')
  then show ?case using process_event_ok [of E pm ev] by simp
next
  case (pr_poll pm E polled events rx_closed pm')
  then show ?case using poll_ok [of E pm polled events rx_closed] by simp
qed (simp_all add: restore_peers_ok bootstrap_ok handle_tag_ok handle_untag_ok handle_tag_consensus_ok
    handle_set_chain_id_def inv_update_peer)

lemma shared_peers_connected:
  assumes "pm_inv pm" shows "set (fst (shared_peers pm pids)) \<subseteq> set (shared_all pm)"
proof (induction pids)
  case (Cons pid pids)
  have "pe_session_id (pm_heap pm ! r) \<in> set (shared_all pm)"
    if "pool_peer pid pm = Some r" "pe_connectedness (pm_heap pm ! r) = Connected" for r
    using pm_invD(3) [OF assms pool_peer_valid [OF assms that(1)]] that(2)
    by (auto simp: peer_ok_def shared_all_def) (metis image_eqI)
  then show ?case using Cons by (auto simp: Let_def split: option.split prod.splits)
qed simp

section \<open>Properties\<close>

text \<open>
  (C38) In every state of the manager, the sessions it hands out for a set of peers are open sessions of the
  book; identifiers are distinct, every session belongs to a saved peer, and the counts per direction
  and per host are exact. Every event whose announced session is new is handled to the end: no handler
  panics or loops.
\<close>

theorem peer_manager_invariant:
  assumes "pm_reach pm"
  shows "set (fst (shared_peers pm pids)) \<subseteq> set (shared_all pm) \<and> distinct (shared_all pm) \<and>
    (\<forall>s\<in>set (sb_sessions (pm_sessions pm)).
      pool_peer (pe_id (pm_heap pm ! se_peer s)) pm = Some (se_peer s)) \<and>
    sb_inbound_count (pm_sessions pm) = count_of (\<lambda>s. se_ty s = Inbound) (sb_sessions (pm_sessions pm)) \<and>
    sb_outbound_count (pm_sessions pm) = count_of (\<lambda>s. se_ty s = Outbound) (sb_sessions (pm_sessions pm)) \<and>
    hm_get (sb_hosts (pm_sessions pm)) h =
      (let n = count_of (\<lambda>s. se_host s = h) (sb_sessions (pm_sessions pm)) in if n = 0 then None else Some n) \<and>
    (env_ok E \<and> event_fresh pm ev \<longrightarrow> (\<exists>pm'. process_event E ev pm = Some pm'))"
proof -
  have inv: "pm_inv pm" using assms by (rule pm_reach_inv)
  have "\<exists>pm'. process_event E ev pm = Some pm'" if "env_ok E" "event_fresh pm ev"
    using process_event_ok [OF that(1) inv that(2)] by (auto simp: returns_ok_def)
  then show ?thesis
    using shared_peers_connected [OF inv] pm_invD(1) [OF inv] pm_invD(5) [OF inv]
    by (auto simp: book_ok_def shared_all_def saved_as_def)
qed

text \<open>
  (C39) A new session is either opened or refused. When it is opened, exactly this session joins the book,
  its peer is saved, connected, not banned and holds its identifier, and unless the peer is allowed or a
  consensus peer, the limits per host and per direction hold afterwards. When it is refused, the book is
  unchanged and the connection service is told to disconnect it.
\<close>

theorem new_session_spec:
  assumes "pm_reach pm" "env_ok E" "event_fresh pm (NewSession pubkey ctx)"
  shows "\<exists>pm'. process_event E (NewSession pubkey ctx) pm = Some pm' \<and>
    ((\<exists>r p. shared_all pm' = shared_all pm @ [sc_id ctx] \<and>
        pool_peer (ne_pubkey_peer_id (pv_net E) pubkey) pm' = Some r \<and> p = pm_heap pm' ! r \<and>
        pe_connectedness p = Connected \<and> pe_session_id p = sc_id ctx \<and> get_banned_until (pe_tags p) = None \<and>
        (allowed p \<or>
          (sc_ty ctx = Inbound \<longrightarrow> sb_inbound_count (pm_sessions pm') \<le> bc_inbound_conn_limit (sb_config (pm_sessions pm'))) \<and>
          (sc_ty ctx = Outbound \<longrightarrow> sb_outbound_count (pm_sessions pm') \<le> bc_outbound_conn_limit (sb_config (pm_sessions pm'))) \<and>
          (\<exists>n. hm_get (sb_hosts (pm_sessions pm')) (adr_host (connected_addr_from (pv_net E) (sc_address ctx))) = Some n \<and>
             n \<le> bc_same_ip_conn_limit (sb_config (pm_sessions pm'))))) \<or>
     (pm_sessions pm' = pm_sessions pm \<and> Disconnect (sc_id ctx) \<in> set (pm_sent pm')))"
proof -
  have inv: "pm_inv pm" using assms(1) by (rule pm_reach_inv)
  let ?pid = "ne_pubkey_peer_id (pv_net E) pubkey"
  obtain pm' where pm': "new_session E pubkey ctx pm = Some pm'"
      "session_opened (pv_net E) ctx ?pid pm pm' \<or> session_refused ctx pm pm'"
    using new_session_opens [OF assms(2) inv] assms(3) by auto
  show ?thesis
  proof (cases "session_refused ctx pm pm'")
    case True
    then show ?thesis using pm' by (auto simp: session_refused_def)
  next
    case False
    then obtain s where s: "pm_sessions pm' = book_insert s (pm_sessions pm)" "s = session_new (pv_net E) (se_peer s) ctx"
        "pool_peer ?pid pm' = Some (se_peer s)" "pe_connectedness (pm_heap pm' ! se_peer s) = Connected"
        "pe_session_id (pm_heap pm' ! se_peer s) = sc_id ctx" "get_banned_until (pe_tags (pm_heap pm' ! se_peer s)) = None"
        "allowed (pm_heap pm' ! se_peer s) \<or> acceptable (pm_sessions pm) s = Inr ()"
      using pm'(2) by (auto simp: session_opened_def)
    have f: "se_id s = sc_id ctx" "se_ty s = sc_ty ctx" "se_host s = adr_host (connected_addr_from (pv_net E) (sc_address ctx))"
      by (subst s(2), simp add: session_new_def se_ty_def se_host_def)+
    have "shared_all pm' = shared_all pm @ [sc_id ctx]"
      using assms(3) s(1) f book_insert_sessions [of s "pm_sessions pm"] by (simp add: shared_all_def session_ids_def)
    then show ?thesis
      using pm'(1) s(3-7) accepted_limits [of "pm_sessions pm" s] f by (auto simp: s(1))
  qed
qed

definition example_net :: net_env where
  "example_net = \<lparr>ne_peer_id_valid = \<lambda>_. True, ne_pubkey_peer_id = \<lambda>k. k, ne_show_multiaddr = \<lambda>_. ''''\<rparr>"

definition example_f64 :: "unit f64_ops" where
  "example_f64 = \<lparr>f_lit = \<lambda>_. (), f_of_u64 = \<lambda>_. (), f_add = \<lambda>_ _. (), f_sub = \<lambda>_ _. (), f_mul = \<lambda>_ _. (),
     f_div = \<lambda>_ _. (), f_powf = \<lambda>_ _. (), f_log2 = \<lambda>_. (), f_floor = \<lambda>_. (), f_ge = \<lambda>_ _. True,
     f_to_u64 = \<lambda>_. 0, f_to_u8 = \<lambda>_. 50\<rparr>"

definition example_pm_env :: "unit pm_env" where
  "example_pm_env = \<lparr>pv_net = example_net, pv_f64 = example_f64, pv_now = 1000, pv_instant = 0, pv_random = 7,
     pv_choose = take\<rparr>"

definition example_pm_config :: peer_manager_config where
  "example_pm_config = \<lparr>pc_our_id = [0], pc_bootstraps = [], pc_allowlist = [], pc_allowlist_only = False,
     pc_same_ip_conn_limit = 1, pc_inbound_conn_limit = 2, pc_outbound_conn_limit = 2,
     pc_peer_trust_config = \<lparr>tc_interval = 60, tc_max_history = 600, tc_max_intervals = 10, tc_max_faded_memorys = 4\<rparr>,
     pc_peer_fatal_ban = 3600, pc_peer_soft_ban = 60, pc_max_connections = 4\<rparr>"

definition example_ctx :: session_context where
  "example_ctx = \<lparr>sc_id = 1, sc_address = [IP4 ''10.0.0.1'', TCP 1337], sc_ty = Outbound\<rparr>"

definition example_manager :: "unit peer_manager" where
  "example_manager = the (peer_manager_new example_pm_config (Hash []) [])"

definition example_pm_opened :: "unit peer_manager" where
  "example_pm_opened = the (process_event example_pm_env (NewSession [7] example_ctx) example_manager)"

lemma example_env_ok: "env_ok example_pm_env"
  by (auto simp: env_ok_def example_pm_env_def dest: in_set_takeD)

lemma example_started: "pm_reach example_manager"
proof -
  have "peer_manager_new example_pm_config (Hash []) [] = Some example_manager"
    by (simp add: example_manager_def peer_manager_new_def example_pm_config_def)
  then show ?thesis by (rule pr_new) (simp_all add: example_pm_config_def)
qed

lemma example_fresh: "event_fresh example_manager (NewSession [7] example_ctx)"
  by (simp add: example_manager_def peer_manager_new_def example_pm_config_def example_ctx_def session_ids_def
      backlog_ids_def book_new_def)

text \<open>The example session is opened: its peer is new, not banned and within the limits.\<close>

lemmas example_defs = example_manager_def peer_manager_new_def example_pm_config_def example_ctx_def example_pm_env_def
  example_net_def book_new_def distinct_peers_def new_session_def new_session_pre_check_def pre_check_peer_def
  pre_check_limits_def pool_peer_def alloc_peer_def update_peer_def peer_multiaddr_new_def push_id_def has_id_def
  banned_def get_banned_until_def peer_new_def addr_contains_def addr_insert_def match_peer_id_def addr_info_from_def
  allowed_def has_tag_def tags_contains_def pool_connected_def book_len_def session_new_def acceptable_def
  set_pubkey_def add_peer_def book_insert_def se_ty_def se_host_def connected_addr_from_def mark_connected_def metric_or_def

lemma example_opened_view:
  "sb_sessions (pm_sessions example_pm_opened) = [session_new example_net 0 example_ctx]"
  "pm_peers example_pm_opened = [([7], 0)]"
  "pe_connectedness (pm_heap example_pm_opened ! 0) = Connected" "pe_session_id (pm_heap example_pm_opened ! 0) = 1"
  by (simp_all add: example_pm_opened_def example_defs Let_def)

lemma example_opened_reach: "pm_reach example_pm_opened"
proof -
  obtain pm where "process_event example_pm_env (NewSession [7] example_ctx) example_manager = Some pm"
    using process_event_ok [OF example_env_ok pm_reach_inv [OF example_started] example_fresh] by (auto simp: returns_ok_def)
  then have "process_event example_pm_env (NewSession [7] example_ctx) example_manager = Some example_pm_opened"
    by (simp add: example_pm_opened_def)
  then show ?thesis by (rule pr_event [OF example_started example_env_ok example_fresh])
qed

theorem peer_manager_invariant_witness:
  "shared_peers example_pm_opened [[7], [8]] = ([1], [[8]]) \<and>
   set (fst (shared_peers example_pm_opened [[7], [8]])) \<subseteq> set (shared_all example_pm_opened) \<and>
   sb_outbound_count (pm_sessions example_pm_opened) =
     count_of (\<lambda>s. se_ty s = Outbound) (sb_sessions (pm_sessions example_pm_opened)) \<and>
   (\<exists>pm'. process_event example_pm_env (SessionClosed [7] 1) example_pm_opened = Some pm')"
proof -
  have "shared_peers example_pm_opened [[7], [8]] = ([1], [[8]])"
    using example_opened_view by (simp add: pool_peer_def Let_def)
  moreover have "event_fresh example_pm_opened (SessionClosed [7] 1)" by simp
  ultimately show ?thesis
    using peer_manager_invariant [OF example_opened_reach, of "[[7], [8]]" _ example_pm_env "SessionClosed [7] 1"]
      example_env_ok by blast
qed

theorem new_session_spec_witness:
  "env_ok example_pm_env \<and> event_fresh example_manager (NewSession [7] example_ctx) \<and>
   (\<exists>pm'. process_event example_pm_env (NewSession [7] example_ctx) example_manager = Some pm' \<and>
     (shared_all pm' = shared_all example_manager @ [1] \<or> Disconnect 1 \<in> set (pm_sent pm'))) \<and>
   shared_all example_pm_opened = [1]"
proof -
  have "shared_all example_pm_opened = [1]"
    using example_opened_view(1) by (simp add: shared_all_def session_new_def example_ctx_def)
  moreover have "sc_id example_ctx = 1" by (simp add: example_ctx_def)
  ultimately show ?thesis
    using new_session_spec [OF example_started example_env_ok example_fresh] example_env_ok example_fresh by metis
qed

end
