(* ===== verification/Spec2Isabelle.thy ===== *)
theory Spec2Isabelle
  imports Asset_Service Executor Trie_DB Store_Array Multi_Signature Basic_Services Mempool Synchronization Peer_Invariant
begin

text \<open>
  A verification library for muta, a framework for building blockchains out of services written in Rust. Paths
  below are relative to \<^verbatim>\<open>src/\<close>.

  \<^bold>\<open>The program.\<close> A node keeps a pool of signed transactions (\<^verbatim>\<open>core/mempool\<close>), agrees on blocks of them with the
  package overlord (\<^verbatim>\<open>core/consensus\<close>), executes agreed blocks by calling services (\<^verbatim>\<open>framework\<close>,
  \<^verbatim>\<open>built-in-services\<close>, with the code that \<^verbatim>\<open>binding-macro\<close> generates), stores blocks, transactions and receipts
  (\<^verbatim>\<open>core/storage\<close>), and keeps connections to its peers (\<^verbatim>\<open>core/network\<close>). Overlord calls the consensus engine to get,
  check and commit a block. A commit takes the transactions from the mempool, queues the block for the execution
  thread, writes the storage, flushes the mempool and updates the status. The execution thread runs the executor and
  reports the resulting roots, which later blocks confirm. A node that has fallen behind synchronizes blocks from
  remote peers, verifies their proofs and executes them itself.

  \<^bold>\<open>Conventions.\<close> Fallible Rust code has the type \<^verbatim>\<open>('e, 'a) result\<close>: an error value of the component, a panic, or a
  value. Stateful code takes and returns its state; an error that comes after part of the work returns the changed
  state with the error. Integers keep their width as words, with Rust's wrap-around of a release build. Hash maps are
  association lists with distinct keys. A loop that may not end is a \<^verbatim>\<open>partial_function (option)\<close>, so \<^const>\<open>None\<close> is a call
  that does not return; no fuel is used, and where a call is claimed to return this is proved. Asynchronous code runs
  to completion at the point where it is awaited; where an operation waits for another thread or retries, what happens
  meanwhile is an argument indexed by the attempt. Code of other packages is a parameter, a field of a component's
  environment record, and what is used of it is a named predicate (such as \<^verbatim>\<open>queue_lawful\<close>, \<^verbatim>\<open>rocks_lawful\<close>,
  \<^verbatim>\<open>trie_lawful\<close>, \<^verbatim>\<open>voters_lawful\<close>, \<^verbatim>\<open>byteorder_lawful\<close>, \<^verbatim>\<open>codec_lawful\<close>, \<^verbatim>\<open>keys_lawful\<close>), each with a concrete instance in the
  witnesses.

  \<^bold>\<open>Theories.\<close>

  \<^item> \<^verbatim>\<open>Muta_Prelude\<close>, \<^verbatim>\<open>Decimal\<close>: results, maps, words, decimal numbers, and the lemmas all theories share.

  \<^item> \<^verbatim>\<open>Muta_Types\<close>, \<^verbatim>\<open>Fixed_Codec\<close>: \<^verbatim>\<open>protocol/src/types\<close> and \<^verbatim>\<open>protocol/src/fixed_codec\<close>; hashes, addresses, transactions, blocks,
    the service context with its cycle meter, and the canonical encodings with their round trips and exact domains.

  \<^item> \<^verbatim>\<open>Asset_Service\<close>, \<^verbatim>\<open>Multi_Signature\<close>, \<^verbatim>\<open>Basic_Services\<close>: the services of \<^verbatim>\<open>built-in-services\<close>. Balances of an asset always
    sum to its supply; transfers move exact amounts; a multi-signature is accepted exactly when the verified weights
    reach the threshold; the metadata and util services answer as given on every branch.

  \<^item> \<^verbatim>\<open>Service_State\<close>, \<^verbatim>\<open>Trie_DB\<close>: \<^verbatim>\<open>framework/src/binding/state\<close>; the state of a service as cache, stash and trie refines a map
    with a transaction, a block and a committed version, and the cached trie database refines the content of its
    RocksDB, with the one exception of a failed write.

  \<^item> \<^verbatim>\<open>Store_Primitive\<close>, \<^verbatim>\<open>Store_Map\<close>, \<^verbatim>\<open>Store_Array\<close>: \<^verbatim>\<open>framework/src/binding/store\<close>, over the interface \<^verbatim>\<open>kv_state\<close>, which
    \<^verbatim>\<open>GeneralServiceState\<close> interprets; the stores refine numbers, finite maps and lists, and the cases where they do not
    (a reverted state, equal array elements) are theorems of their own.

  \<^item> \<^verbatim>\<open>Service_SDK\<close>, \<^verbatim>\<open>Service_Macro\<close>, \<^verbatim>\<open>Executor\<close>: \<^verbatim>\<open>framework/src/binding/sdk\<close>, \<^verbatim>\<open>binding-macro/src\<close> and \<^verbatim>\<open>framework/src/executor\<close>;
    the generated dispatch calls the method it names, execution of a block is a fold over its transactions, a failed
    transaction leaves what its hooks leave, and an opened executor stays well-formed.

  \<^item> \<^verbatim>\<open>Mempool_Map\<close>, \<^verbatim>\<open>Tx_Cache\<close>, \<^verbatim>\<open>Mempool\<close>: \<^verbatim>\<open>core/mempool\<close>; sixteen buckets are one map (locale \<^verbatim>\<open>hash_store\<close>), two queues
    and a map are one bounded list of transactions, insertion is exactly described, the broadcaster loses nothing.

  \<^item> \<^verbatim>\<open>Storage_Adapter\<close>, \<^verbatim>\<open>Storage\<close>: \<^verbatim>\<open>core/storage\<close>; over any adapter that satisfies the locale \<^verbatim>\<open>byte_store\<close> (the memory adapter
    and the RocksDB adapter over a database with its documented contract) the storage is a set of finite maps.

  \<^item> \<^verbatim>\<open>Consensus_Status\<close>, \<^verbatim>\<open>Consensus_Verify\<close>, \<^verbatim>\<open>Consensus_Wal\<close>, \<^verbatim>\<open>Consensus_Node\<close>, \<^verbatim>\<open>Consensus_Engine\<close>, \<^verbatim>\<open>Synchronization\<close>:
    \<^verbatim>\<open>core/consensus\<close>. The confirmed and pending roots are those of the executed blocks in order; an accepted proof is a
    precommit certificate of the previous validators, and two of them share more than a third of the weight (locale
    \<^verbatim>\<open>quorum_system\<close>); reading the log returns exactly unless it meets a file it can neither use nor leave; a commit
    executes and stores exactly the block's transactions and leaves all parts of the node as an append of the block;
    the engine returns if the execution thread frees its queue; a synchronization appends exactly the fetched blocks.

  \<^item> \<^verbatim>\<open>Trust_Metric\<close>, \<^verbatim>\<open>Peer\<close>, \<^verbatim>\<open>Session_Book\<close>, \<^verbatim>\<open>Peer_Manager\<close>, \<^verbatim>\<open>Peer_Invariant\<close>: \<^verbatim>\<open>core/network/src/peer_manager\<close>. Trust scores are
    bounded; every event handler returns and keeps sessions, peers and counters consistent; a new session is accepted
    exactly under the stated limits.

  \<^bold>\<open>Bounds.\<close> Sums of 64-bit weights are exact for verifier lists below \<^verbatim>\<open>2 ^ 30\<close> entries; the pool size is below \<^verbatim>\<open>2 ^ 63\<close>; the
  clock of the peer manager is below \<^verbatim>\<open>2 ^ 62\<close> seconds. Hashes have the 32 bytes that \<^verbatim>\<open>Hash::from_bytes\<close> checks; the
  theorems that need this say so. Counters of sessions are natural numbers. The trust metric's bounds are
  for exact arithmetic, of which the double-precision operations are a parameter.

  \<^bold>\<open>Not modelled.\<close> Concurrent interleavings inside one operation of the transaction cache; timers, metrics and logs; opening
  databases and most failures of the file system; the network transport and its protocols, which are callbacks of the
  package tentacle; the protobuf and rlp layouts, which are codec parameters; the GraphQL interface, the command line
  and the start-up code, which only connect the parts; the byzantine test node, benchmarks and tools. A failed commit
  leaves the modelled executor unchanged, while the code leaves a partly drained stash that every caller drops.
\<close>

end
